(* ===== verification/Prelude.thy ===== *)
theory Prelude
  imports "HOL-Library.Code_Target_Numeral" Main "HOL-Library.Word" "HOL-Library.Char_ord" "HOL-Library.List_Lexorder"
begin

text \<open>
  Shared vocabulary of the development: Rust's machine integers with their saturating
  addition, \<open>Poll\<close>, \<open>BTreeMap\<close> as a list of pairs in key order, string prefixes and
  decimal rendering, and the generic list lemmas the component theories use.
\<close>

section \<open>Collections of facts\<close>

named_theorems pick_simps
named_theorems custody_laws
named_theorems step_simps

section \<open>Machine integers\<close>

type_synonym u8 = "8 word"
type_synonym u64 = "64 word"

text \<open>\<open>u64::MAX\<close> and \<open>u64::saturating_add\<close> of the Rust standard library.\<close>

definition u64_max :: u64 where
  "u64_max = - 1"

definition sat_add :: "u64 \<Rightarrow> u64 \<Rightarrow> u64" where
  "sat_add a b = (if unat a + unat b < 2 ^ 64 then a + b else u64_max)"

lemma unat_u64_max: "unat u64_max = 2 ^ 64 - 1"
  by (simp add: u64_max_def unsigned_minus_1_eq_mask mask_eq_exp_minus_1)

lemma unat_sat_add: "unat (sat_add a b) = min (unat a + unat b) (2 ^ 64 - 1)"
proof (cases "unat a + unat b < 2 ^ 64")
  case True
  then show ?thesis
    by (simp add: sat_add_def unat_word_ariths)
next
  case False
  then show ?thesis
    by (simp add: sat_add_def unat_u64_max)
qed

lemma unat_u64_less: "unat (a :: u64) < 2 ^ 64"
proof -
  have "unat a < 2 ^ LENGTH(64)" by (rule unsigned_less)
  then show ?thesis by simp
qed

lemma unat_le_u64_max: "unat (a :: u64) \<le> 2 ^ 64 - 1"
  using unat_u64_less [of a] by simp

lemma sat_add_mono_left: "unat a \<le> unat (sat_add a b)"
  using unat_le_u64_max [of a] by (simp add: unat_sat_add)

text \<open>\<open>u64::min\<close>, with the comparison of words.\<close>

lemma unat_min: "unat (min a b) = min (unat (a :: u64)) (unat b)"
  by (simp add: min_def word_le_nat_alt)

section \<open>Futures\<close>

text \<open>\<open>std::task::Poll\<close>: a future either has a value or is not ready yet.\<close>

datatype 'a poll = Pending | Ready 'a

section \<open>Ordered maps\<close>

text \<open>
  \<open>BTreeMap\<close> as the list of its entries in key order, which is also its iteration order.
  Lookup is \<open>map_of\<close>.
\<close>

type_synonym ('k, 'v) btree = "('k \<times> 'v) list"

fun bt_insert :: "'k::linorder \<Rightarrow> 'v \<Rightarrow> ('k, 'v) btree \<Rightarrow> ('k, 'v) btree" where
  "bt_insert k v [] = [(k, v)]"
| "bt_insert k v ((a, b) # m) =
     (if k < a then (k, v) # (a, b) # m
      else if k = a then (k, v) # m
      else (a, b) # bt_insert k v m)"

definition bt_get :: "('k, 'v) btree \<Rightarrow> 'k \<Rightarrow> 'v option" where
  "bt_get m k = map_of m k"

definition bt_contains :: "('k, 'v) btree \<Rightarrow> 'k \<Rightarrow> bool" where
  "bt_contains m k = (bt_get m k \<noteq> None)"

definition bt_remove :: "'k \<Rightarrow> ('k, 'v) btree \<Rightarrow> ('k, 'v) btree" where
  "bt_remove k m = filter (\<lambda>e. fst e \<noteq> k) m"

definition bt_keys :: "('k, 'v) btree \<Rightarrow> 'k list" where
  "bt_keys m = map fst m"

definition bt_sorted :: "('k::linorder, 'v) btree \<Rightarrow> bool" where
  "bt_sorted m = sorted_wrt (<) (map fst m)"

fun bt_from_list :: "('k::linorder \<times> 'v) list \<Rightarrow> ('k, 'v) btree \<Rightarrow> ('k, 'v) btree" where
  "bt_from_list [] m = m"
| "bt_from_list ((k, v) # es) m = bt_from_list es (bt_insert k v m)"

text \<open>\<open>Iterator::collect\<close> into a map: later entries replace earlier ones.\<close>

definition bt_collect :: "('k::linorder \<times> 'v) list \<Rightarrow> ('k, 'v) btree" where
  "bt_collect es = bt_from_list es []"

lemma bt_get_Nil [simp]: "bt_get [] k = None"
  by (simp add: bt_get_def)

lemma bt_get_insert [simp]: "bt_get (bt_insert k v m) j = (if j = k then Some v else bt_get m j)"
  by (induction k v m rule: bt_insert.induct) (auto simp: bt_get_def)

lemma bt_get_remove [simp]: "bt_get (bt_remove k m) j = (if j = k then None else bt_get m j)"
  by (induction m) (auto simp: bt_get_def bt_remove_def)

lemma bt_contains_insert [simp]: "bt_contains (bt_insert k v m) j = (j = k \<or> bt_contains m j)"
  by (simp add: bt_contains_def)

lemma bt_contains_Nil [simp]: "\<not> bt_contains [] k"
  by (simp add: bt_contains_def)

lemma set_keys_insert [simp]: "fst ` set (bt_insert k v m) = insert k (fst ` set m)"
  by (induction k v m rule: bt_insert.induct) auto

lemma bt_contains_iff: "bt_contains m k = (k \<in> fst ` set m)"
  by (simp add: bt_contains_def bt_get_def map_of_eq_None_iff)

lemma bt_sorted_Nil [simp]: "bt_sorted []"
  by (simp add: bt_sorted_def)

lemma bt_sorted_insert [simp]: "bt_sorted m \<Longrightarrow> bt_sorted (bt_insert k v m)"
proof (induction k v m rule: bt_insert.induct)
  case (2 k v a b m)
  then show ?case
    using set_keys_insert [of k v m]
    by (auto simp: bt_sorted_def)
qed (simp add: bt_sorted_def)

lemma bt_sorted_distinct: "bt_sorted m \<Longrightarrow> distinct (map fst m)"
  by (simp add: bt_sorted_def strict_sorted_iff)

lemma bt_insert_key_len:
  "bt_sorted m \<Longrightarrow> length (bt_insert k v m) = (if bt_contains m k then length m else Suc (length m))"
proof (induction k v m rule: bt_insert.induct)
  case (2 k v a b m)
  then have "k \<notin> fst ` set ((a, b) # m)" if "k < a"
    using that by (auto simp: bt_sorted_def)
  with 2 show ?case
    by (auto simp: bt_contains_iff bt_sorted_def)
qed simp

lemma bt_sorted_remove [simp]: "bt_sorted m \<Longrightarrow> bt_sorted (bt_remove k m)"
  by (induction m) (auto simp: bt_sorted_def bt_remove_def)

lemma bt_sorted_from_list: "bt_sorted m \<Longrightarrow> bt_sorted (bt_from_list es m)"
  by (induction es m rule: bt_from_list.induct) simp_all

lemma bt_sorted_collect [simp]: "bt_sorted (bt_collect es)"
  by (simp add: bt_collect_def bt_sorted_from_list)

lemma bt_get_from_list:
  "bt_get (bt_from_list es m) k = (case map_of (rev es) k of None \<Rightarrow> bt_get m k | Some v \<Rightarrow> Some v)"
  by (induction es m rule: bt_from_list.induct)
    (auto simp: map_add_def split: option.splits)

lemma bt_get_collect: "bt_get (bt_collect es) k = map_of (rev es) k"
  by (simp add: bt_collect_def bt_get_from_list split: option.split)

section \<open>Strings\<close>

text \<open>\<open>str::strip_prefix\<close> and \<open>str::starts_with\<close> on the bytes of a string.\<close>

fun strip_prefix :: "string \<Rightarrow> string \<Rightarrow> string option" where
  "strip_prefix [] s = Some s"
| "strip_prefix (p # ps) [] = None"
| "strip_prefix (p # ps) (c # cs) = (if p = c then strip_prefix ps cs else None)"

definition starts_with :: "string \<Rightarrow> string \<Rightarrow> bool" where
  "starts_with s p = (strip_prefix p s \<noteq> None)"

lemma strip_prefix_Some: "strip_prefix p s = Some r \<longleftrightarrow> s = p @ r"
  by (induction p s rule: strip_prefix.induct) auto

lemma strip_prefix_append [simp]: "strip_prefix p (p @ r) = Some r"
  by (simp add: strip_prefix_Some)

lemma starts_with_append: "starts_with (p @ r) p"
  by (simp add: starts_with_def)

text \<open>Decimal rendering of unsigned integers, as \<open>format!\<close> writes them, and zero padding.\<close>

definition digit_char :: "nat \<Rightarrow> char" where
  "digit_char d = char_of (48 + d)"

fun dec :: "nat \<Rightarrow> string" where
  "dec n = (if n < 10 then [digit_char n] else dec (n div 10) @ [digit_char (n mod 10)])"

declare dec.simps [simp del]

definition pad0 :: "nat \<Rightarrow> string \<Rightarrow> string" where
  "pad0 w s = replicate (w - length s) (CHR ''0'') @ s"

section \<open>Lists\<close>

text \<open>\<open>Iterator::find\<close> and \<open>Iterator::position\<close> of the standard library.\<close>

text \<open>
  \<open>find\<close> is the library's. \<open>position\<close> gives the index of the first element that satisfies
  the predicate.
\<close>

fun position :: "('a \<Rightarrow> bool) \<Rightarrow> 'a list \<Rightarrow> nat option" where
  "position p [] = None"
| "position p (x # xs) = (if p x then Some 0 else map_option Suc (position p xs))"

lemma position_Some:
  "position p xs = Some i \<Longrightarrow> i < length xs \<and> p (xs ! i) \<and> (\<forall>j < i. \<not> p (xs ! j))"
proof (induction xs arbitrary: i)
  case (Cons x xs)
  show ?case
  proof (cases "p x")
    case False
    with Cons.prems obtain k where k: "position p xs = Some k" and i: "i = Suc k"
      by auto
    from Cons.IH [OF k] False show ?thesis
      by (auto simp: i less_Suc_eq_0_disj)
  qed (use Cons.prems in auto)
qed simp

lemma position_None: "position p xs = None \<longleftrightarrow> (\<forall>x \<in> set xs. \<not> p x)"
  by (induction xs) auto

text \<open>\<open>Iterator::min_by_key\<close>: the first of the elements with the least key.\<close>

fun min_by_key :: "('a \<Rightarrow> 'k::linorder) \<Rightarrow> 'a list \<Rightarrow> 'a option" where
  "min_by_key f [] = None"
| "min_by_key f (x # xs) =
     (case min_by_key f xs of
        None \<Rightarrow> Some x
      | Some y \<Rightarrow> if f x \<le> f y then Some x else Some y)"

lemma min_by_key_None [simp]: "min_by_key f xs = None \<longleftrightarrow> xs = []"
  by (cases xs) (auto split: option.splits)

lemma min_by_key_Some:
  "min_by_key f xs = Some x \<Longrightarrow> x \<in> set xs \<and> (\<forall>y \<in> set xs. f x \<le> f y)"
proof (induction xs arbitrary: x)
  case (Cons a xs)
  show ?case
  proof (cases "min_by_key f xs")
    case None
    with Cons.prems show ?thesis by simp
  next
    case (Some y)
    with Cons.IH [OF Some] Cons.prems show ?thesis
      by (auto split: if_splits intro: order_trans)
  qed
qed simp

text \<open>\<open>Iterator::filter_map\<close>.\<close>

fun filter_map :: "('a \<Rightarrow> 'b option) \<Rightarrow> 'a list \<Rightarrow> 'b list" where
  "filter_map f [] = []"
| "filter_map f (x # xs) = (case f x of None \<Rightarrow> filter_map f xs | Some y \<Rightarrow> y # filter_map f xs)"

lemma filter_map_append [simp]: "filter_map f (xs @ ys) = filter_map f xs @ filter_map f ys"
  by (induction xs) (auto split: option.splits)

lemma set_filter_map: "set (filter_map f xs) = {y. \<exists>x \<in> set xs. f x = Some y}"
  by (induction xs) (auto split: option.splits)

lemma filter_map_Nil: "filter_map f xs = [] \<longleftrightarrow> (\<forall>x \<in> set xs. f x = None)"
  by (induction xs) (auto split: option.splits)

lemma filter_map_all: "(\<And>x. x \<in> set xs \<Longrightarrow> f x = Some (g x)) \<Longrightarrow> filter_map f xs = map g xs"
  by (induction xs) auto

text \<open>\<open>Iterator::enumerate\<close>.\<close>

lemma enumerate_nth: "(i, x) \<in> set (enumerate k xs) \<longleftrightarrow> k \<le> i \<and> i < k + length xs \<and> x = xs ! (i - k)"
  by (auto simp: in_set_enumerate_eq)

lemma mod_add_bij:
  assumes "0 < (n::nat)"
  shows "bij_betw (\<lambda>i. (s + i) mod n) {..<n} {..<n}"
proof -
  have inj: "inj_on (\<lambda>i. (s + i) mod n) {..<n}"
  proof (rule inj_onI)
    fix x y
    assume xy: "x \<in> {..<n}" "y \<in> {..<n}" and eq: "(s + x) mod n = (s + y) mod n"
    show "x = y"
    proof (cases "x \<le> y")
      case True
      then have "n dvd (s + y) - (s + x)"
        using eq mod_eq_dvd_iff_nat [of "s + x" "s + y" n] by simp
      with True xy show ?thesis
        by (auto dest: dvd_imp_le)
    next
      case False
      then have "n dvd (s + x) - (s + y)"
        using eq mod_eq_dvd_iff_nat [of "s + y" "s + x" n] by simp
      with False xy show ?thesis
        by (auto dest: dvd_imp_le)
    qed
  qed
  moreover have "(\<lambda>i. (s + i) mod n) ` {..<n} \<subseteq> {..<n}"
    using assms by auto
  ultimately show ?thesis
    by (simp add: bij_betw_def endo_inj_surj)
qed

end
