(* ===== verification/Timestamps.thy ===== *)
theory Timestamps
  imports Prelude
begin

text \<open>
  Contract timestamps (\<^verbatim>\<open>crates/waitprims-core/src/rfc3339.rs\<close>). A timestamp keeps its wire
  spelling and its instant; every comparison of the code uses the instant only. Instants are
  integers, nanoseconds from the Unix epoch in UTC. The proleptic calendar and the
  representable range belong to the \<^verbatim>\<open>time\<close> crate, which is not part of the repository: they
  are the fields of the record \<open>calendar\<close>, a parameter of the operations that need them.
\<close>

section \<open>The calendar of the \<open>time\<close> crate\<close>

text \<open>
  \<open>cal_of_days\<close> is \<^verbatim>\<open>Date::to_calendar_date\<close> of the day with the given number (year, month,
  day of month), \<open>cal_to_days\<close> is \<^verbatim>\<open>Date::from_calendar_date\<close> (\<open>None\<close> when there is no such day),
  and \<open>cal_min\<close>, \<open>cal_max\<close> bound the instants an \<^verbatim>\<open>OffsetDateTime\<close> can hold.
\<close>

record calendar =
  cal_of_days :: "int \<Rightarrow> int \<times> nat \<times> nat"
  cal_to_days :: "int \<Rightarrow> nat \<Rightarrow> nat \<Rightarrow> int option"
  cal_min :: int
  cal_max :: int

section \<open>Timestamps and durations\<close>

record timestamp =
  ts_raw :: string
  ts_instant :: int

text \<open>\<^verbatim>\<open>std::time::Duration\<close>: whole seconds and nanoseconds below one second.\<close>

record duration =
  dur_secs :: u64
  dur_nanos :: nat

definition duration_zero :: duration where
  "duration_zero = \<lparr>dur_secs = 0, dur_nanos = 0\<rparr>"

definition duration_from_millis :: "nat \<Rightarrow> duration" where
  "duration_from_millis ms = \<lparr>dur_secs = of_nat (ms div 1000), dur_nanos = ms mod 1000 * 1000000\<rparr>"

text \<open>\<open>PartialEq\<close>, \<open>PartialOrd\<close> and \<open>Ord\<close> compare instants; the spelling is ignored.\<close>

definition ts_eq :: "timestamp \<Rightarrow> timestamp \<Rightarrow> bool" where
  "ts_eq a b = (ts_instant a = ts_instant b)"

definition ts_le :: "timestamp \<Rightarrow> timestamp \<Rightarrow> bool" where
  "ts_le a b = (ts_instant a \<le> ts_instant b)"

definition ts_less :: "timestamp \<Rightarrow> timestamp \<Rightarrow> bool" where
  "ts_less a b = (ts_instant a < ts_instant b)"

definition ts_compare :: "timestamp \<Rightarrow> timestamp \<Rightarrow> int" where
  "ts_compare a b =
     (if ts_instant a < ts_instant b then - 1
      else if ts_instant a = ts_instant b then 0
      else 1)"

lemmas ts_order_defs = ts_eq_def ts_le_def ts_less_def

section \<open>Rendering and arithmetic\<close>

definition nanos_per_sec :: int where "nanos_per_sec = 1000000000"
definition nanos_per_day :: int where "nanos_per_day = 86400 * nanos_per_sec"

text \<open>\<^verbatim>\<open>{:04}\<close> of a signed integer: the sign counts towards the width.\<close>

definition fmt_year :: "int \<Rightarrow> string" where
  "fmt_year y = (if y < 0 then CHR ''-'' # pad0 3 (dec (nat (- y))) else pad0 4 (dec (nat y)))"

definition format_utc :: "calendar \<Rightarrow> int \<Rightarrow> string" where
  "format_utc cal instant =
     (let (year, month, day) = cal_of_days cal (instant div nanos_per_day);
          tod = instant mod nanos_per_day;
          secs = nat (tod div nanos_per_sec);
          ns = nat (tod mod nanos_per_sec);
          head = fmt_year year @ ''-'' @ pad0 2 (dec month) @ ''-'' @ pad0 2 (dec day) @ ''T''
            @ pad0 2 (dec (secs div 3600)) @ '':'' @ pad0 2 (dec (secs div 60 mod 60)) @ '':''
            @ pad0 2 (dec (secs mod 60))
      in if ns = 0 then head @ ''Z''
         else head @ ''.'' @ pad0 6 (dec (ns div 1000)) @ ''Z'')"

text \<open>
  \<open>time::Duration::new(duration.as_secs() as i64, duration.subsec_nanos() as i32)\<close>: the cast of
  the seconds to \<open>i64\<close> reads the word as two's complement.
\<close>

definition signed_nanos :: "duration \<Rightarrow> int" where
  "signed_nanos d = sint (dur_secs d) * nanos_per_sec + int (dur_nanos d)"

definition saturating_add :: "calendar \<Rightarrow> timestamp \<Rightarrow> duration \<Rightarrow> timestamp" where
  "saturating_add cal t d =
     (let instant = ts_instant t + signed_nanos d
      in if cal_min cal \<le> instant \<and> instant \<le> cal_max cal
         then \<lparr>ts_raw = format_utc cal instant, ts_instant = instant\<rparr>
         else t)"

definition duration_until :: "timestamp \<Rightarrow> timestamp \<Rightarrow> duration" where
  "duration_until t later =
     (if ts_le later t then duration_zero
      else let delta = ts_instant later - ts_instant t
           in \<lparr>dur_secs = word_of_int (delta div nanos_per_sec),
               dur_nanos = nat (delta mod nanos_per_sec)\<rparr>)"

section \<open>Lemmas\<close>

lemma ts_le_refl [simp]: "ts_le a a"
  by (simp add: ts_le_def)

lemma ts_le_trans [trans]: "ts_le a b \<Longrightarrow> ts_le b c \<Longrightarrow> ts_le a c"
  by (simp add: ts_le_def)

lemma not_ts_le [simp]: "\<not> ts_le a b \<longleftrightarrow> ts_less b a"
  by (simp add: ts_le_def ts_less_def not_le)

lemma ts_compare_pos_iff: "0 < ts_compare a b \<longleftrightarrow> ts_less b a"
  by (simp add: ts_compare_def ts_less_def)

lemma ts_compare_neg_iff: "ts_compare a b < 0 \<longleftrightarrow> ts_less a b"
  by (simp add: ts_compare_def ts_less_def)

lemma ts_compare_nonneg_iff: "0 \<le> ts_compare a b \<longleftrightarrow> ts_le b a"
  by (auto simp: ts_compare_def ts_le_def)

lemma signed_nanos_small:
  assumes "unat (dur_secs d) < 2 ^ 63"
  shows "signed_nanos d = int (unat (dur_secs d)) * nanos_per_sec + int (dur_nanos d)"
proof -
  have u: "uint (dur_secs d) = int (unat (dur_secs d))"
    by simp
  have "int (unat (dur_secs d)) < int (2 ^ 63)"
    using assms by (simp only: of_nat_less_iff)
  then have lt: "uint (dur_secs d) < 2 ^ 63"
    by (simp only: u) simp
  have ge: "- (2 ^ 63) \<le> uint (dur_secs d)"
    by (rule order_trans [OF _ unsigned_greater_eq]) simp
  have "sint (dur_secs d) = signed_take_bit 63 (uint (dur_secs d))"
    by (simp only: sint_uint) simp
  also have "\<dots> = uint (dur_secs d)"
    by (rule signed_take_bit_int_eq_self [OF ge lt])
  finally have "sint (dur_secs d) = int (unat (dur_secs d))"
    by (simp only: u)
  then show ?thesis by (simp add: signed_nanos_def)
qed

lemma saturating_add_in_range:
  assumes "cal_min cal \<le> ts_instant t + signed_nanos d"
    and "ts_instant t + signed_nanos d \<le> cal_max cal"
  shows "ts_instant (saturating_add cal t d) = ts_instant t + signed_nanos d"
  using assms by (simp add: saturating_add_def Let_def)

lemma saturating_add_mono:
  assumes "unat (dur_secs d) < 2 ^ 63"
  shows "ts_le t (saturating_add cal t d)"
  using assms
  by (auto simp: saturating_add_def Let_def ts_le_def signed_nanos_small nanos_per_sec_def)

end
