(* ===== verification/Wire_Types.thy ===== *)
theory Wire_Types
  imports Timestamps
begin

text \<open>
  The typed data of \<^verbatim>\<open>waitprims-core\<close>: the identifier newtypes of \<^verbatim>\<open>refs.rs\<close>, the errors of
  \<^verbatim>\<open>error.rs\<close> and \<^verbatim>\<open>jcs.rs\<close>, the six message kinds of \<^verbatim>\<open>types.rs\<close> with the structures they hold,
  and the caller-owned evidence of \<^verbatim>\<open>receipts.rs\<close>. The nine header fields every message
  starts with are the record \<open>wait_header\<close>, which each message record extends.
\<close>

section \<open>Identifier newtypes\<close>

datatype capability_token = CapabilityToken (cap_str: string)
datatype actor_ref = ActorRef (actor_str: string)
datatype opaque_ref = OpaqueRef (opaque_str: string)
datatype predicate_ref = PredicateRef (pred_str: string)
datatype id_token = IdToken (id_str: string)

lemma id_str_eq_iff [simp]: "id_str a = id_str b \<longleftrightarrow> a = b"
  by (cases a; cases b) simp

lemma opaque_str_eq_iff [simp]: "opaque_str a = opaque_str b \<longleftrightarrow> a = b"
  by (cases a; cases b) simp

section \<open>Errors\<close>

datatype normative_reason =
    DeadlineOrdering
  | RegistrationDigestMismatch
  | NoChangeInvariants
  | DeadmanInvariants
  | OutageNotClean
  | CoverageCardinality
  | CrossArmCommit
  | AckPastUnretained
  | FairnessStarvation
  | SilentCursorAdvance
  | RevisionCross
  | AuthnRequired
  | LeaseReauth
  | RegistrationBound
  | AggregateBound
  | UnparseableTimestamp

fun reason_str :: "normative_reason \<Rightarrow> string" where
  "reason_str DeadlineOrdering = ''deadline_ordering''"
| "reason_str RegistrationDigestMismatch = ''registration_digest_mismatch''"
| "reason_str NoChangeInvariants = ''no_change_invariants''"
| "reason_str DeadmanInvariants = ''deadman_invariants''"
| "reason_str OutageNotClean = ''outage_not_clean''"
| "reason_str CoverageCardinality = ''coverage_cardinality''"
| "reason_str CrossArmCommit = ''cross_arm_commit''"
| "reason_str AckPastUnretained = ''ack_past_unretained''"
| "reason_str FairnessStarvation = ''fairness_starvation''"
| "reason_str SilentCursorAdvance = ''silent_cursor_advance''"
| "reason_str RevisionCross = ''revision_cross''"
| "reason_str AuthnRequired = ''authn_required''"
| "reason_str LeaseReauth = ''lease_reauth''"
| "reason_str RegistrationBound = ''registration_bound''"
| "reason_str AggregateBound = ''aggregate_bound''"
| "reason_str UnparseableTimestamp = ''unparseable_timestamp''"

record validation_error =
  ve_path :: string
  ve_constraint :: string
  ve_reason :: "normative_reason option"

definition ve_new :: "string \<Rightarrow> string \<Rightarrow> validation_error" where
  "ve_new path constraint = \<lparr>ve_path = path, ve_constraint = constraint, ve_reason = None\<rparr>"

definition ve_normative :: "string \<Rightarrow> string \<Rightarrow> normative_reason \<Rightarrow> validation_error" where
  "ve_normative path constraint reason =
     \<lparr>ve_path = path, ve_constraint = constraint, ve_reason = Some reason\<rparr>"

text \<open>\<open>Display\<close> of a validation error.\<close>

definition ve_display :: "validation_error \<Rightarrow> string" where
  "ve_display e = ve_path e @ '': '' @ ve_constraint e"

datatype jcs_error =
    InvalidJson | DuplicateKey | LoneSurrogate | NonFiniteNumber | IntegerOutsideIjson | Unsupported

datatype error =
    EContract (err_path: string) (err_constraint: string)
  | EValidation validation_error
  | EJcs jcs_error
  | EMalformedJson

section \<open>Closed enumerations of the wire\<close>

datatype message_type =
    MT_RegistrationSet | MT_LiveWaitRequest | MT_LiveWaitOutcome
  | MT_PollCycleRequest | MT_PollCycleOutcome | MT_PollCycleAck

definition message_type_all :: "message_type list" where
  "message_type_all =
     [MT_RegistrationSet, MT_LiveWaitRequest, MT_LiveWaitOutcome,
      MT_PollCycleRequest, MT_PollCycleOutcome, MT_PollCycleAck]"

definition is_wait_result :: "message_type \<Rightarrow> bool" where
  "is_wait_result k = (k = MT_LiveWaitOutcome \<or> k = MT_PollCycleOutcome)"

fun message_type_str :: "message_type \<Rightarrow> string" where
  "message_type_str MT_RegistrationSet = ''registration_set''"
| "message_type_str MT_LiveWaitRequest = ''live_wait_request''"
| "message_type_str MT_LiveWaitOutcome = ''live_wait_outcome''"
| "message_type_str MT_PollCycleRequest = ''poll_cycle_request''"
| "message_type_str MT_PollCycleOutcome = ''poll_cycle_outcome''"
| "message_type_str MT_PollCycleAck = ''poll_cycle_ack''"

definition message_type_parse :: "string \<Rightarrow> message_type option" where
  "message_type_parse raw = find (\<lambda>kind. message_type_str kind = raw) message_type_all"

datatype outcome_kind =
    Events | NoChange | LogicalDeadman | Partial | Cancelled
  | CoverageDegraded | Refused | ReauthenticationRequired | Failed

definition outcome_kind_all :: "outcome_kind list" where
  "outcome_kind_all =
     [Events, NoChange, LogicalDeadman, Partial, Cancelled,
      CoverageDegraded, Refused, ReauthenticationRequired, Failed]"

fun outcome_kind_str :: "outcome_kind \<Rightarrow> string" where
  "outcome_kind_str Events = ''events''"
| "outcome_kind_str NoChange = ''no_change''"
| "outcome_kind_str LogicalDeadman = ''logical_deadman''"
| "outcome_kind_str Partial = ''partial''"
| "outcome_kind_str Cancelled = ''cancelled''"
| "outcome_kind_str CoverageDegraded = ''coverage_degraded''"
| "outcome_kind_str Refused = ''refused''"
| "outcome_kind_str ReauthenticationRequired = ''reauthentication_required''"
| "outcome_kind_str Failed = ''failed''"

datatype arm_status =
    AS_NoChange | AS_Events | AS_Observed | AS_Outage | AS_CursorUncertain | AS_Deferred

datatype authn_mode = AuthnModeRequired | AuthnModeOptional | AuthnModeDisabled
datatype baseline_policy = Latest | Earliest | ProviderDefined
datatype replay_status = Fresh | Replay
datatype anchor_kind = ProviderOpaque
datatype digest_algorithm = Sha256
datatype canonicalization = Rfc8785

section \<open>Structures\<close>

record anchor =
  anc_kind :: anchor_kind
  anc_value :: id_token

record content_digest =
  cd_algorithm :: digest_algorithm
  cd_value :: string

record jcs_digest =
  jd_canonicalization :: canonicalization
  jd_algorithm :: digest_algorithm
  jd_value :: string

record payload_ref =
  pl_payload_ref :: opaque_ref
  pl_content_digest :: content_digest
  pl_media_type :: "string option"

record wait_bound =
  wb_max_events :: u64
  wb_max_bytes :: u64

record poll_bound =
  pb_max_events :: "u64 option"
  pb_max_payload_refs :: "u64 option"
  pb_max_bytes :: "u64 option"

record wait_event =
  ev_event_id :: id_token
  ev_registration_id :: id_token
  ev_source_instance_ref :: opaque_ref
  ev_method_id :: id_token
  ev_subject_kind :: id_token
  ev_subject_id :: id_token
  ev_occurred_at :: timestamp
  ev_observed_at :: timestamp
  ev_start_anchor :: anchor
  ev_proposed_next_anchor :: anchor
  ev_replay_status :: replay_status
  ev_correlation_id :: id_token
  ev_causation_id :: "id_token option"
  ev_payload :: payload_ref
  ev_delivery_ref :: "opaque_ref option"
  ev_activation_ref :: "opaque_ref option"

definition attach_refs :: "wait_event \<Rightarrow> opaque_ref option \<Rightarrow> opaque_ref option \<Rightarrow> wait_event" where
  "attach_refs ev delivery activation =
     ev\<lparr>ev_delivery_ref := delivery, ev_activation_ref := activation\<rparr>"

record coverage_arm =
  arm_id :: id_token
  arm_registration_id :: id_token
  arm_required :: bool
  arm_stat :: arm_status
  arm_degraded :: bool
  arm_start_anchor :: anchor
  arm_proposed_next_anchor :: anchor
  arm_event_count :: u64
  arm_byte_count :: u64
  arm_reason_code :: "id_token option"

record registration =
  reg_id :: id_token
  reg_method_id :: id_token
  reg_subject_kind :: id_token
  reg_subject_id :: id_token
  reg_required :: bool
  reg_source_instance_ref :: opaque_ref
  reg_predicate_ref :: predicate_ref
  reg_capability_ref :: opaque_ref
  reg_lease_expires_at :: timestamp
  reg_bounds :: wait_bound
  reg_start_anchor :: "anchor option"
  reg_baseline_policy :: "baseline_policy option"
  reg_priority :: "u8 option"

definition priority_background :: u8 where "priority_background = 0"
definition priority_normal :: u8 where "priority_normal = 50"
definition priority_urgent :: u8 where "priority_urgent = 100"

section \<open>The six message kinds\<close>

record wait_header =
  capabilities :: "capability_token list"
  message_id :: id_token
  correlation_id :: id_token
  created_at :: timestamp
  hdr_actor_ref :: actor_ref
  causation_id :: "id_token option"
  grant_ref :: "opaque_ref option"
  verification_receipt_ref :: "opaque_ref option"
  policy_decision_ref :: "opaque_ref option"

record registration_set = wait_header +
  rs_principal_ref :: actor_ref
  rs_waiter_id :: id_token
  rs_seat_ref :: opaque_ref
  rs_registration_revision :: id_token
  rs_logical_deadline :: timestamp
  rs_authn_mode :: authn_mode
  rs_aggregate_limits :: wait_bound
  rs_registration_digest :: jcs_digest
  rs_registrations :: "registration list"

record live_wait_request = wait_header +
  lr_waiter_id :: id_token
  lr_registration_set_ref :: id_token
  lr_registration_revision :: id_token
  lr_logical_deadline :: timestamp
  lr_run_deadline :: timestamp

record live_wait_outcome = wait_header +
  lo_waiter_id :: id_token
  lo_request_ref :: id_token
  lo_completed_at :: timestamp
  lo_outcome_kind :: outcome_kind
  lo_logical_deadline :: "timestamp option"
  lo_events :: "wait_event list option"
  lo_proposed_next_anchor :: "anchor option"
  lo_coverage_complete :: "bool option"
  lo_arms :: "coverage_arm list option"
  lo_reason_code :: "id_token option"

record poll_cycle_request = wait_header +
  pr_waiter_id :: id_token
  pr_registration_set_ref :: id_token
  pr_registration_revision :: id_token
  pr_logical_deadline :: timestamp
  pr_run_deadline :: timestamp
  pr_required_arms :: "id_token list"
  pr_fairness_cursor :: id_token
  pr_acknowledged_anchors :: "(string, anchor) btree"
  pr_activation_ref :: opaque_ref
  pr_cycle_id :: id_token
  pr_bound :: "poll_bound option"

record poll_cycle_outcome = wait_header +
  po_waiter_id :: id_token
  po_request_ref :: id_token
  po_completed_at :: timestamp
  po_logical_deadline :: timestamp
  po_outcome_kind :: outcome_kind
  po_events :: "wait_event list"
  po_coverage_complete :: bool
  po_arms :: "coverage_arm list"
  po_retained_through :: "(string, anchor) btree"
  po_retained_events :: "(string, id_token list) btree"
  po_proposed_next_anchors :: "(string, anchor) btree"
  po_fairness_cursor :: id_token
  po_next_fairness_cursor :: id_token
  po_acknowledged_anchors :: "(string, anchor) btree option"
  po_bound :: "poll_bound option"
  po_reason_code :: "id_token option"

record poll_cycle_ack = wait_header +
  pa_waiter_id :: id_token
  pa_outcome_ref :: id_token
  pa_committed_anchors :: "(string, anchor) btree"
  pa_retained_events :: "(string, id_token list) btree"

datatype agent_wait_message =
    RegistrationSet registration_set
  | LiveWaitRequest live_wait_request
  | LiveWaitOutcome live_wait_outcome
  | PollCycleRequest poll_cycle_request
  | PollCycleOutcome poll_cycle_outcome
  | PollCycleAck poll_cycle_ack

fun message_type_of :: "agent_wait_message \<Rightarrow> message_type" where
  "message_type_of (RegistrationSet _) = MT_RegistrationSet"
| "message_type_of (LiveWaitRequest _) = MT_LiveWaitRequest"
| "message_type_of (LiveWaitOutcome _) = MT_LiveWaitOutcome"
| "message_type_of (PollCycleRequest _) = MT_PollCycleRequest"
| "message_type_of (PollCycleOutcome _) = MT_PollCycleOutcome"
| "message_type_of (PollCycleAck _) = MT_PollCycleAck"

section \<open>Caller-owned evidence\<close>

datatype delivery_evidence = DeliveryEvidence (delivery_ref: opaque_ref)
datatype activation_evidence = ActivationEvidence (activation_ref: opaque_ref)

definition attach_event_refs ::
  "wait_event list \<Rightarrow> opaque_ref option \<Rightarrow> opaque_ref option \<Rightarrow> wait_event list" where
  "attach_event_refs events delivery activation =
     map (\<lambda>event. attach_refs event delivery activation) events"

section \<open>Lemmas\<close>

lemma message_type_parse_str [simp]: "message_type_parse (message_type_str k) = Some k"
  by (cases k) (simp_all add: message_type_parse_def message_type_all_def)

lemma message_type_parse_Some: "message_type_parse s = Some k \<Longrightarrow> s = message_type_str k"
  by (auto simp: message_type_parse_def find_Some_iff)

lemma outcome_kind_str_inj: "outcome_kind_str a = outcome_kind_str b \<Longrightarrow> a = b"
  by (cases a; cases b) simp_all

lemma reason_str_inj: "reason_str a = reason_str b \<Longrightarrow> a = b"
  by (cases a; cases b) simp_all

lemma attach_event_refs_keeps:
  "map ev_event_id (attach_event_refs evs d a) = map ev_event_id evs"
  "map ev_registration_id (attach_event_refs evs d a) = map ev_registration_id evs"
  "map ev_proposed_next_anchor (attach_event_refs evs d a) = map ev_proposed_next_anchor evs"
  by (simp_all add: attach_event_refs_def attach_refs_def)

end
