(* ===== verification/Observer_Interface.thy ===== *)
theory Observer_Interface
  imports Wire_Types
begin

text \<open>
  The runtime seams of \<^verbatim>\<open>waitprims-async\<close>: the observer (\<^verbatim>\<open>observer.rs\<close>), the clock
  (\<^verbatim>\<open>clock.rs\<close>) and the cancellation token (\<^verbatim>\<open>cancel.rs\<close>). The code reaches them through the
  traits \<open>Observer\<close>, \<open>BindHandle\<close>, \<open>Clock\<close> and the type \<open>Cancel\<close>; here they are the fields of
  one record, a parameter of every runner. Everything outside the runner is one value of an
  arbitrary type \<open>'w\<close>. Each interaction may change it, reading the clock and the token
  included, so two successive reads can differ as they can under a real clock.

  An \<open>async\<close> method is one \<open>poll\<close> of its future: \<open>Pending\<close>, or \<open>Ready\<close> with its value. A
  runner that is parked lets the outside move by \<open>env_park\<close> before it is polled again.
\<close>

section \<open>Observations\<close>

datatype observation =
    Obs_Event wait_event
  | Obs_Idle
  | Obs_Overflow
  | Obs_Failed id_token
  | Obs_Outage id_token
  | Obs_CursorUncertain id_token
  | Obs_Degraded id_token

definition obs_is_wait_result :: "observation \<Rightarrow> bool" where
  "obs_is_wait_result _ = False"

section \<open>The interfaces as a record of operations\<close>

record ('w, 'b) env =
  env_bind :: "'w \<Rightarrow> registration \<Rightarrow> (error + 'b) poll \<times> 'w"
  env_next :: "'w \<Rightarrow> 'b \<Rightarrow> (error + observation) poll \<times> 'w"
  env_poll_ready :: "'w \<Rightarrow> 'b \<Rightarrow> observation option \<times> 'w"
  env_restore_ready :: "'w \<Rightarrow> 'b \<Rightarrow> observation \<Rightarrow> (error + unit) \<times> 'w"
  env_registration_id :: "'b \<Rightarrow> id_token"
  env_resolved_start :: "'b \<Rightarrow> anchor"
  env_now :: "'w \<Rightarrow> timestamp \<times> 'w"
  env_sleep_until :: "'w \<Rightarrow> timestamp \<Rightarrow> unit poll \<times> 'w"
  env_is_cancelled :: "'w \<Rightarrow> bool \<times> 'w"
  env_park :: "'w \<Rightarrow> 'w"
  env_calendar :: calendar

text \<open>One poll of \<open>Cancel::cancelled\<close>: ready exactly when the flag is set.\<close>

definition poll_cancelled :: "('w, 'b) env \<Rightarrow> 'w \<Rightarrow> unit poll \<times> 'w" where
  "poll_cancelled env w =
     (let (c, w) = env_is_cancelled env w in (if c then Ready () else Pending, w))"

section \<open>Classification of observations\<close>

definition observation_is_terminal :: "observation \<Rightarrow> bool" where
  "observation_is_terminal obs = (obs \<noteq> Obs_Idle)"

definition bound_observation_is_terminal :: "'b \<times> observation \<Rightarrow> bool" where
  "bound_observation_is_terminal v = observation_is_terminal (snd v)"

fun observation_is_replayable :: "observation \<Rightarrow> bool" where
  "observation_is_replayable (Obs_Event _) = True"
| "observation_is_replayable _ = False"

lemma replayable_cases:
  "observation_is_replayable obs \<Longrightarrow> (\<And>e. obs = Obs_Event e \<Longrightarrow> P) \<Longrightarrow> P"
  by (cases obs) auto

section \<open>Custody of events\<close>

text \<open>
  \<open>front w r\<close> is what the provider of registration \<open>r\<close> holds and has not handed out, oldest
  first (the queue of a scripted observer, the restored observations of an observer that mints
  its events on demand). Taking an event removes it from the front of a non-empty list;
  restoring one puts it back at the front; nothing else changes what is held.
\<close>

definition took :: "('k \<Rightarrow> 'e list) \<Rightarrow> 'k \<Rightarrow> 'e \<Rightarrow> ('k \<Rightarrow> 'e list) \<Rightarrow> bool" where
  "took F r e F' \<longleftrightarrow> F' = F(r := tl (F r)) \<and> (F r \<noteq> [] \<longrightarrow> e = hd (F r))"

text \<open>
  \<open>conserved F0 T F\<close>: the events \<open>T r\<close> taken from each provider, followed by what it still
  holds, are what it held at the start followed by events minted since. Nothing is lost,
  duplicated or reordered.
\<close>

definition conserved :: "('k \<Rightarrow> 'e list) \<Rightarrow> ('k \<Rightarrow> 'e list) \<Rightarrow> ('k \<Rightarrow> 'e list) \<Rightarrow> bool" where
  "conserved F0 T F \<longleftrightarrow> (\<forall>r. \<exists>fresh. T r @ F r = F0 r @ fresh)"

lemma conserved_start: "conserved F (\<lambda>_. []) F"
  by (simp add: conserved_def)

lemma conserved_took:
  assumes c: "conserved F0 T F" and t: "took F r e F'"
  shows "conserved F0 (T(r := T r @ [e])) F'"
  unfolding conserved_def
proof
  fix s
  from c obtain fresh where f: "T s @ F s = F0 s @ fresh"
    by (auto simp: conserved_def)
  show "\<exists>fresh. (T(r := T r @ [e])) s @ F' s = F0 s @ fresh"
  proof (cases "s = r")
    case True
    show ?thesis
    proof (cases "F r")
      case Nil
      with f t True have "(T(r := T r @ [e])) s @ F' s = F0 s @ (fresh @ [e])"
        by (simp add: took_def)
      then show ?thesis ..
    next
      case (Cons a as)
      with f t True have "(T(r := T r @ [e])) s @ F' s = F0 s @ fresh"
        by (simp add: took_def)
      then show ?thesis ..
    qed
  next
    case False
    with f t have "(T(r := T r @ [e])) s @ F' s = F0 s @ fresh"
      by (simp add: took_def)
    then show ?thesis ..
  qed
qed

lemma conserved_restore:
  "conserved F0 (T(r := T r @ [e])) F \<Longrightarrow> conserved F0 T (F(r := e # F r))"
  unfolding conserved_def by (rule allI, erule_tac x = ra in allE) (auto split: if_splits)

lemma conserved_done: "conserved F0 (\<lambda>_. []) F \<Longrightarrow> \<exists>fresh. F r = F0 r @ fresh"
  by (simp add: conserved_def)

text \<open>
  \<open>held n ids m r\<close>: the events of registration \<open>r\<close> among the observations \<open>m i\<close> a runner has
  dequeued from arm \<open>i < n\<close> and not yet passed on, where \<open>ids i\<close> is the registration of arm \<open>i\<close>.
\<close>

definition held_at :: "(nat \<Rightarrow> id_token) \<Rightarrow> (nat \<Rightarrow> observation option) \<Rightarrow> id_token \<Rightarrow> nat \<Rightarrow> wait_event option" where
  "held_at ids m r i =
     (case m i of Some (Obs_Event e) \<Rightarrow> if ids i = r then Some e else None | _ \<Rightarrow> None)"

definition held ::
  "nat \<Rightarrow> (nat \<Rightarrow> id_token) \<Rightarrow> (nat \<Rightarrow> observation option) \<Rightarrow> id_token \<Rightarrow> wait_event list" where
  "held n ids m r = filter_map (held_at ids m r) [0..<n]"

lemma filter_map_cong: "(\<And>x. x \<in> set xs \<Longrightarrow> f x = g x) \<Longrightarrow> filter_map f xs = filter_map g xs"
  by (induction xs) (auto split: option.splits)

lemma held_none: "(\<And>i e. i < n \<Longrightarrow> m i \<noteq> Some (Obs_Event e)) \<Longrightarrow> held n ids m = (\<lambda>_. [])"
  by (rule ext) (auto simp: held_def held_at_def filter_map_Nil split: option.splits observation.splits)

lemma held_empty [simp]: "held n ids (\<lambda>_. None) = (\<lambda>_. [])"
  by (rule held_none) simp

lemma held_cong: "(\<And>i. i < n \<Longrightarrow> m i = m' i) \<Longrightarrow> held n ids m = held n ids m'"
  by (rule ext) (auto simp: held_def held_at_def intro!: filter_map_cong)

lemma held_signal:
  "\<not> observation_is_replayable obs \<Longrightarrow> m i = None \<Longrightarrow> held n ids (m(i \<mapsto> obs)) = held n ids m"
  by (rule ext) (auto simp: held_def held_at_def intro!: filter_map_cong split: observation.splits)

lemma held_fresh:
  assumes "inj_on ids {..<n}" "i < n" "m i = None"
  shows "held n ids m (ids i) = []"
  unfolding held_def filter_map_Nil
proof
  fix j assume "j \<in> set [0..<n]"
  then have "ids j = ids i \<Longrightarrow> j = i"
    using assms(1,2) by (auto dest: inj_onD)
  with assms(3) show "held_at ids m (ids i) j = None"
    by (auto simp: held_at_def split: option.splits observation.splits)
qed

lemma held_event:
  assumes inj: "inj_on ids {..<n}" and i: "i < n" and none: "m i = None"
  shows "held n ids (m(i \<mapsto> Obs_Event e)) = (held n ids m)(ids i := held n ids m (ids i) @ [e])"
proof
  fix r
  let ?m = "m(i \<mapsto> Obs_Event e)"
  have other: "held_at ids ?m r j = held_at ids m r j" if "j \<noteq> i" for j
    using that by (simp add: held_at_def)
  show "held n ids ?m r = ((held n ids m)(ids i := held n ids m (ids i) @ [e])) r"
  proof (cases "r = ids i")
    case False
    have "held_at ids ?m r j = held_at ids m r j" for j
      using False other none by (cases "j = i") (auto simp: held_at_def)
    then show ?thesis using False by (simp add: held_def cong: filter_map_cong)
  next
    case True
    have split: "[0..<n] = [0..<i] @ i # [Suc i..<n]"
      using i upt_add_eq_append [of 0 i "n - i"] by (simp add: upt_conv_Cons)
    have here: "held_at ids ?m r i = Some e"
      using True by (simp add: held_at_def)
    have away: "held_at ids ?m r j = None" if "j < n" "j \<noteq> i" for j
      using that True inj i by (auto simp: held_at_def dest: inj_onD split: option.splits observation.splits)
    have "filter_map (held_at ids ?m r) [0..<i] = []" "filter_map (held_at ids ?m r) [Suc i..<n] = []"
      using i by (auto simp: filter_map_Nil intro!: away)
    then have "held n ids ?m r = [e]"
      by (simp add: held_def split here)
    with True show ?thesis
      using held_fresh [where m = m and i = i, OF inj i none] by simp
  qed
qed

locale observer_custody =
  fixes env :: "('w, 'b) env"
    and front :: "'w \<Rightarrow> id_token \<Rightarrow> wait_event list"
  assumes bind_front: "env_bind env w reg = (bres, w') \<Longrightarrow> front w' = front w"
    and bind_id: "env_bind env w reg = (Ready (Inr b), w') \<Longrightarrow> env_registration_id env b = reg_id reg"
    and next_event: "env_next env w b = (Ready (Inr (Obs_Event e)), w') \<Longrightarrow>
           took (front w) (env_registration_id env b) e (front w')"
    and next_other: "env_next env w b = (nres, w') \<Longrightarrow> (\<And>e. nres \<noteq> Ready (Inr (Obs_Event e))) \<Longrightarrow>
           front w' = front w"
    and poll_ready_event: "env_poll_ready env w b = (Some (Obs_Event e), w') \<Longrightarrow>
           took (front w) (env_registration_id env b) e (front w')"
    and poll_ready_other: "env_poll_ready env w b = (q, w') \<Longrightarrow> (\<And>e. q \<noteq> Some (Obs_Event e)) \<Longrightarrow>
           front w' = front w"
    and restore_event: "env_restore_ready env w b (Obs_Event e) = (Inr (), w') \<Longrightarrow>
           front w' = (front w)(env_registration_id env b := e # front w (env_registration_id env b))"
    and restore_failed: "env_restore_ready env w b obs = (Inl err, w') \<Longrightarrow> front w' = front w"
    and restore_signal: "env_restore_ready env w b obs = (rres, w') \<Longrightarrow>
           \<not> observation_is_replayable obs \<Longrightarrow> front w' = front w"
    and now_front: "env_now env w = (t, w') \<Longrightarrow> front w' = front w"
    and sleep_front: "env_sleep_until env w t = (p, w') \<Longrightarrow> front w' = front w"
    and cancelled_front: "env_is_cancelled env w = (c, w') \<Longrightarrow> front w' = front w"
    and park_front: "front (env_park env w) = front w"
begin

lemmas quiet_front = bind_front now_front sleep_front cancelled_front

lemma poll_cancelled_front: "poll_cancelled env w = (p, w') \<Longrightarrow> front w' = front w"
  by (auto simp: poll_cancelled_def split: prod.splits dest: cancelled_front)

end

text \<open>A provider whose \<open>restore_ready\<close> accepts every observation.\<close>

locale observer_restores = observer_custody +
  assumes restore_ok: "fst (env_restore_ready env w b obs) = Inr ()"
begin

lemma restore_event_ok:
  assumes "env_restore_ready env w b (Obs_Event e) = (r, w')"
  shows "r = Inr () \<and>
    front w' = (front w)(env_registration_id env b := e # front w (env_registration_id env b))"
  using assms restore_ok [of w b "Obs_Event e"] restore_event [of w b e w'] by auto

end

section \<open>Laws of the clock and the token\<close>

text \<open>
  A clock that does not run backwards, whose sleeps end exactly when their deadline has passed,
  and under which a task parked on a sleep sees time pass; a token that stays cancelled. \<open>clk\<close> reads the
  time of a world and \<open>cxl\<close> its token without touching them; both may move during any call.
\<close>

locale clock_laws =
  fixes env :: "('w, 'b) env"
    and clk :: "'w \<Rightarrow> int"
    and cxl :: "'w \<Rightarrow> bool"
    and later :: "'w \<Rightarrow> 'w \<Rightarrow> bool"
  assumes later_iff: "later w w' \<longleftrightarrow> clk w \<le> clk w' \<and> (cxl w \<longrightarrow> cxl w')"
    and now_bounds: "env_now env w = (t, w') \<Longrightarrow>
           clk w \<le> ts_instant t \<and> ts_instant t \<le> clk w' \<and> later w w'"
    and sleep_later: "env_sleep_until env w t = (p, w') \<Longrightarrow> later w w'"
    and sleep_ready: "env_sleep_until env w t = (Ready u, w') \<Longrightarrow> ts_instant t \<le> clk w'"
    and sleep_due: "env_sleep_until env w t = (Pending, w') \<Longrightarrow> clk w < ts_instant t"
    and sleep_parks: "env_sleep_until env w t = (Pending, w') \<Longrightarrow> clk w' < clk (env_park env w')"
    and bind_later: "env_bind env w reg = (r, w') \<Longrightarrow> later w w'"
    and next_later: "env_next env w b = (n, w') \<Longrightarrow> later w w'"
    and poll_ready_later: "env_poll_ready env w b = (q, w') \<Longrightarrow> later w w'"
    and restore_later: "env_restore_ready env w b obs = (s, w') \<Longrightarrow> later w w'"
    and cancelled_later: "env_is_cancelled env w = (c, w') \<Longrightarrow> later w w'"
    and cancelled_flag: "env_is_cancelled env w = (c, w') \<Longrightarrow> (cxl w \<longrightarrow> c) \<and> (c \<longrightarrow> cxl w')"
    and park_later: "later w (env_park env w)"
begin

lemma later_refl [simp]: "later w w"
  by (simp add: later_iff)

lemma later_trans [trans]: "later u v \<Longrightarrow> later v w \<Longrightarrow> later u w"
  by (auto simp: later_iff)

lemma poll_cancelled_later: "poll_cancelled env w = (p, w') \<Longrightarrow> later w w'"
  by (auto simp: poll_cancelled_def split: prod.splits dest: cancelled_later)

lemma poll_cancelled_Ready: "poll_cancelled env w = (Ready u, w') \<Longrightarrow> cxl w'"
  by (auto simp: poll_cancelled_def split: prod.splits if_splits dest: cancelled_flag)

lemmas all_later =
  sleep_later bind_later next_later poll_ready_later restore_later cancelled_later poll_cancelled_later

lemma now_later: "env_now env w = (t, w') \<Longrightarrow> later w w'"
  using now_bounds by blast

end

end
