(* ===== verification/Race.thy ===== *)
theory Race
  imports Observer_Interface
begin

text \<open>
  First-ready collection across observer arms (\<^verbatim>\<open>crates/waitprims-async/src/race.rs\<close>). A
  \<open>FirstReady\<close> future is the list of its arms. One poll scans the arms in order, and completes
  when an arm failed, an arm yielded a terminal value, or no arm is pending. On completion a
  second sweep hands out every ready value and polls the arms still pending once more.
  The future of one arm is any state \<open>'f\<close> with a poll function.
\<close>

section \<open>The future\<close>

datatype ('f, 'v) arm = Arm_Pending 'f | Arm_Ready "'v option" | Arm_Failed

type_synonym ('f, 'v) first_ready = "('f, 'v) arm list"

record 'v first_ready_output =
  fr_ready :: "(nat \<times> 'v) list"
  fr_error :: "error option"

type_synonym ('f, 'v, 'w) poll_fn = "'f \<Rightarrow> 'w \<Rightarrow> (error + 'v) poll \<times> 'f \<times> 'w"

definition fr_new :: "'f list \<Rightarrow> ('f, 'v) first_ready" where
  "fr_new futures = map Arm_Pending futures"

text \<open>\<open>take_ready\<close>: the values completed so far, with their arm indices; the slots are emptied.\<close>

fun fr_take_ready :: "nat \<Rightarrow> ('f, 'v) first_ready \<Rightarrow> (nat \<times> 'v) list \<times> ('f, 'v) first_ready" where
  "fr_take_ready idx [] = ([], [])"
| "fr_take_ready idx (Arm_Ready (Some v) # arms) =
     (let (out, arms') = fr_take_ready (Suc idx) arms in ((idx, v) # out, Arm_Ready None # arms'))"
| "fr_take_ready idx (a # arms) =
     (let (out, arms') = fr_take_ready (Suc idx) arms in (out, a # arms'))"

text \<open>
  The first loop of \<open>poll\<close>. The flags are \<open>pending\<close>, \<open>terminal\<close> and the first error.
\<close>

record scan_flags =
  sc_pending :: bool
  sc_terminal :: bool
  sc_error :: "error option"

definition note_error :: "error option \<Rightarrow> error \<Rightarrow> error option" where
  "note_error e err = (if e = None then Some err else e)"

fun fr_scan :: "('f, 'v, 'w) poll_fn \<Rightarrow> ('v \<Rightarrow> bool) \<Rightarrow> ('f, 'v) first_ready \<Rightarrow> scan_flags \<Rightarrow> 'w \<Rightarrow>
    ('f, 'v) first_ready \<times> scan_flags \<times> 'w" where
  "fr_scan pf term [] fl w = ([], fl, w)"
| "fr_scan pf term (Arm_Pending f # arms) fl w =
     (case pf f w of
        (Ready (Inr v), f', w') \<Rightarrow>
          (let (arms', r) = fr_scan pf term arms (fl\<lparr>sc_terminal := sc_terminal fl \<or> term v\<rparr>) w'
           in (Arm_Ready (Some v) # arms', r))
      | (Ready (Inl err), f', w') \<Rightarrow>
          (let (arms', r) = fr_scan pf term arms (fl\<lparr>sc_error := note_error (sc_error fl) err\<rparr>) w'
           in (Arm_Failed # arms', r))
      | (Pending, f', w') \<Rightarrow>
          (let (arms', r) = fr_scan pf term arms (fl\<lparr>sc_pending := True\<rparr>) w'
           in (Arm_Pending f' # arms', r)))"
| "fr_scan pf term (Arm_Ready (Some v) # arms) fl w =
     (let (arms', r) = fr_scan pf term arms (fl\<lparr>sc_terminal := sc_terminal fl \<or> term v\<rparr>) w
      in (Arm_Ready (Some v) # arms', r))"
| "fr_scan pf term (a # arms) fl w =
     (let (arms', r) = fr_scan pf term arms fl w in (a # arms', r))"

text \<open>The completing sweep: ready values are taken, pending arms polled once more.\<close>

fun fr_harvest :: "('f, 'v, 'w) poll_fn \<Rightarrow> nat \<Rightarrow> ('f, 'v) first_ready \<Rightarrow> error option \<Rightarrow> 'w \<Rightarrow>
    (nat \<times> 'v) list \<times> error option \<times> 'w" where
  "fr_harvest pf idx [] e w = ([], e, w)"
| "fr_harvest pf idx (Arm_Ready (Some v) # arms) e w =
     (let (out, r) = fr_harvest pf (Suc idx) arms e w in ((idx, v) # out, r))"
| "fr_harvest pf idx (Arm_Pending f # arms) e w =
     (case pf f w of
        (Ready (Inr v), f', w') \<Rightarrow>
          (let (out, r) = fr_harvest pf (Suc idx) arms e w' in ((idx, v) # out, r))
      | (Ready (Inl err), f', w') \<Rightarrow> fr_harvest pf (Suc idx) arms (note_error e err) w'
      | (Pending, f', w') \<Rightarrow> fr_harvest pf (Suc idx) arms e w')"
| "fr_harvest pf idx (a # arms) e w = fr_harvest pf (Suc idx) arms e w"

definition no_flags :: scan_flags where
  "no_flags = \<lparr>sc_pending = False, sc_terminal = False, sc_error = None\<rparr>"

definition fr_poll :: "('f, 'v, 'w) poll_fn \<Rightarrow> ('v \<Rightarrow> bool) \<Rightarrow> ('f, 'v) first_ready \<Rightarrow> 'w \<Rightarrow>
    'v first_ready_output poll \<times> ('f, 'v) first_ready \<times> 'w" where
  "fr_poll pf term arms w =
     (let (arms, fl, w) = fr_scan pf term arms no_flags w
      in if sc_error fl \<noteq> None \<or> sc_terminal fl \<or> \<not> sc_pending fl
         then let (out, e, w) = fr_harvest pf 0 arms (sc_error fl) w
              in (Ready \<lparr>fr_ready = out, fr_error = e\<rparr>, [], w)
         else (Pending, arms, w))"

section \<open>What an arm holds\<close>

fun slot :: "('f, 'v) arm \<Rightarrow> 'v option" where
  "slot (Arm_Ready v) = v"
| "slot _ = None"

text \<open>\<open>overlay m k arms\<close>: the values of arms \<open>k, k + 1, \<dots>\<close>, with \<open>m\<close> below \<open>k\<close>.\<close>

definition overlay :: "(nat \<Rightarrow> 'v option) \<Rightarrow> nat \<Rightarrow> ('f, 'v) first_ready \<Rightarrow> nat \<Rightarrow> 'v option" where
  "overlay m k arms i =
     (if i < k then m i else if i - k < length arms then slot (arms ! (i - k)) else None)"

definition overlay_out :: "(nat \<Rightarrow> 'v option) \<Rightarrow> nat \<Rightarrow> (nat \<times> 'v) list \<Rightarrow> nat \<Rightarrow> 'v option" where
  "overlay_out m k out i = (if i < k then m i else map_of out i)"

definition slots :: "('f, 'v) first_ready \<Rightarrow> nat \<Rightarrow> 'v option" where
  "slots arms = overlay (\<lambda>_. None) 0 arms"

lemma overlay_Nil: "overlay m k [] = (\<lambda>i. if i < k then m i else None)"
  by (auto simp: overlay_def)

lemma overlay_Cons: "overlay m k (a # arms) = overlay (m(k := slot a)) (Suc k) arms"
  by (rule ext) (auto simp: overlay_def nth_Cons' less_Suc_eq_le not_le)

lemma overlay_upd: "overlay (m(k := None)) (Suc k) arms = (overlay m' (Suc k) arms)(k := None)"
  if "\<And>i. i < k \<Longrightarrow> m i = m' i"
  using that by (rule_tac ext) (auto simp: overlay_def less_Suc_eq)

lemma overlay_set: "(overlay (m(k := None)) (Suc k) arms)(k \<mapsto> v) = overlay (m(k \<mapsto> v)) (Suc k) arms"
  by (rule ext) (auto simp: overlay_def)

lemma overlay_at [simp]: "overlay m (Suc k) arms k = m k"
  by (simp add: overlay_def)

lemma slots_new [simp]: "slots (fr_new fs) = (\<lambda>_. None)"
  by (rule ext) (auto simp: slots_def overlay_def fr_new_def)

section \<open>Case analysis of one arm\<close>

lemma fr_scan_pendingE:
  assumes "fr_scan pf term (Arm_Pending f # arms) fl w = (arms', fl', w')"
  obtains
    (ready) v f' w1 arms1 where "pf f w = (Ready (Inr v), f', w1)"
      "fr_scan pf term arms (fl\<lparr>sc_terminal := sc_terminal fl \<or> term v\<rparr>) w1 = (arms1, fl', w')"
      "arms' = Arm_Ready (Some v) # arms1"
  | (error) err f' w1 arms1 where "pf f w = (Ready (Inl err), f', w1)"
      "fr_scan pf term arms (fl\<lparr>sc_error := note_error (sc_error fl) err\<rparr>) w1 = (arms1, fl', w')"
      "arms' = Arm_Failed # arms1"
  | (pending) f' w1 arms1 where "pf f w = (Pending, f', w1)"
      "fr_scan pf term arms (fl\<lparr>sc_pending := True\<rparr>) w1 = (arms1, fl', w')"
      "arms' = Arm_Pending f' # arms1"
proof (cases "pf f w")
  case (fields p f' w1)
  show ?thesis
  proof (cases p)
    case Pending
    with assms fields show ?thesis by (auto intro: pending split: prod.splits)
  next
    case (Ready x)
    with assms fields show ?thesis
      by (cases x) (auto intro: ready error split: prod.splits)
  qed
qed

lemma fr_scan_readyE:
  assumes "fr_scan pf term (Arm_Ready s # arms) fl w = (arms', fl', w')"
  obtains fl1 arms1 where "fr_scan pf term arms fl1 w = (arms1, fl', w')" "arms' = Arm_Ready s # arms1"
    "fl1 = (case s of None \<Rightarrow> fl | Some v \<Rightarrow> fl\<lparr>sc_terminal := sc_terminal fl \<or> term v\<rparr>)"
  using assms by (cases s) (auto split: prod.splits)

lemma fr_scan_failedE:
  assumes "fr_scan pf term (Arm_Failed # arms) fl w = (arms', fl', w')"
  obtains arms1 where "fr_scan pf term arms fl w = (arms1, fl', w')" "arms' = Arm_Failed # arms1"
  using assms by (auto split: prod.splits)

lemma fr_harvest_pendingE:
  assumes "fr_harvest pf k (Arm_Pending f # arms) e w = (out, e', w')"
  obtains
    (ready) v f' w1 out1 where "pf f w = (Ready (Inr v), f', w1)"
      "fr_harvest pf (Suc k) arms e w1 = (out1, e', w')" "out = (k, v) # out1"
  | (error) err f' w1 where "pf f w = (Ready (Inl err), f', w1)"
      "fr_harvest pf (Suc k) arms (note_error e err) w1 = (out, e', w')"
  | (pending) f' w1 where "pf f w = (Pending, f', w1)"
      "fr_harvest pf (Suc k) arms e w1 = (out, e', w')"
proof (cases "pf f w")
  case (fields p f' w1)
  show ?thesis
  proof (cases p)
    case Pending
    with assms fields show ?thesis by (auto intro: pending)
  next
    case (Ready x)
    with assms fields show ?thesis
      by (cases x) (auto intro: ready error split: prod.splits)
  qed
qed

lemma fr_harvest_readyE:
  assumes "fr_harvest pf k (Arm_Ready s # arms) e w = (out, e', w')"
  obtains out1 where "fr_harvest pf (Suc k) arms e w = (out1, e', w')"
    "out = (case s of None \<Rightarrow> out1 | Some v \<Rightarrow> (k, v) # out1)"
  using assms by (cases s) (auto split: prod.splits)

section \<open>Harvest order and completeness\<close>

lemma fr_harvest_idx:
  "fr_harvest pf k arms e w = (out, e', w') \<Longrightarrow>
     sorted_wrt (<) (map fst out) \<and> (\<forall>i \<in> fst ` set out. k \<le> i \<and> i < k + length arms)"
proof (induction arms arbitrary: k e w out)
  case (Cons a arms)
  show ?case
  proof (cases a)
    case (Arm_Pending f)
    with Cons.prems have "fr_harvest pf k (Arm_Pending f # arms) e w = (out, e', w')" by simp
    then show ?thesis
      by (cases rule: fr_harvest_pendingE) (fastforce dest!: Cons.IH)+
  next
    case (Arm_Ready s)
    with Cons.prems have "fr_harvest pf k (Arm_Ready s # arms) e w = (out, e', w')" by simp
    then show ?thesis
      by (cases rule: fr_harvest_readyE) (fastforce dest!: Cons.IH split: option.splits)
  next
    case Arm_Failed
    with Cons.prems show ?thesis by (fastforce dest!: Cons.IH)
  qed
qed simp

lemma fr_harvest_error:
  "fr_harvest pf k arms e w = (out, e', w') \<Longrightarrow> e' = None \<Longrightarrow> e = None"
proof (induction arms arbitrary: k e w out)
  case (Cons a arms)
  note ih = Cons.IH [OF _ Cons.prems(2)]
  show ?case
  proof (cases a)
    case (Arm_Pending f)
    with Cons.prems have "fr_harvest pf k (Arm_Pending f # arms) e w = (out, e', w')" by simp
    then show ?thesis
      by (cases rule: fr_harvest_pendingE) (drule ih, auto simp: note_error_def split: if_splits)+
  next
    case (Arm_Ready s)
    with Cons.prems have "fr_harvest pf k (Arm_Ready s # arms) e w = (out, e', w')" by simp
    then show ?thesis
      by (cases rule: fr_harvest_readyE) (drule ih, simp)
  next
    case Arm_Failed
    with Cons.prems have "fr_harvest pf (Suc k) arms e w = (out, e', w')" by simp
    then show ?thesis by (rule ih)
  qed
qed simp

lemma fr_scan_length: "fr_scan pf term arms fl w = (arms', fl', w') \<Longrightarrow> length arms' = length arms"
proof (induction arms arbitrary: fl w arms')
  case (Cons a arms)
  show ?case
  proof (cases a)
    case (Arm_Pending f)
    with Cons.prems have "fr_scan pf term (Arm_Pending f # arms) fl w = (arms', fl', w')" by simp
    then show ?thesis by (cases rule: fr_scan_pendingE) (auto dest!: Cons.IH)
  next
    case (Arm_Ready s)
    with Cons.prems have "fr_scan pf term (Arm_Ready s # arms) fl w = (arms', fl', w')" by simp
    then show ?thesis by (cases rule: fr_scan_readyE) (auto dest!: Cons.IH)
  next
    case Arm_Failed
    with Cons.prems have "fr_scan pf term (Arm_Failed # arms) fl w = (arms', fl', w')" by simp
    then show ?thesis by (cases rule: fr_scan_failedE) (auto dest!: Cons.IH)
  qed
qed simp

lemma fr_poll_readyE:
  assumes "fr_poll pf term arms w = (Ready res, arms', w')"
  obtains arms1 fl w1 where "fr_scan pf term arms no_flags w = (arms1, fl, w1)"
    "sc_error fl \<noteq> None \<or> sc_terminal fl \<or> \<not> sc_pending fl"
    "fr_harvest pf 0 arms1 (sc_error fl) w1 = (fr_ready res, fr_error res, w')"
  using assms by (auto simp: fr_poll_def split: prod.splits if_splits)

lemma fr_poll_pendingE:
  assumes "fr_poll pf term arms w = (Pending, arms', w')"
  obtains fl where "fr_scan pf term arms no_flags w = (arms', fl, w')"
    "sc_error fl = None" "\<not> sc_terminal fl" "sc_pending fl"
  using assms by (auto simp: fr_poll_def split: prod.splits if_splits)

lemma fr_poll_sorted:
  assumes "fr_poll pf term arms w = (Ready res, arms', w')"
  shows "sorted_wrt (<) (map fst (fr_ready res)) \<and> (\<forall>i \<in> fst ` set (fr_ready res). i < length arms)"
  using assms
proof (cases rule: fr_poll_readyE)
  case (1 arms1 fl w1)
  from fr_harvest_idx [OF 1(3)] fr_scan_length [OF 1(1)] show ?thesis by simp
qed

lemma fr_poll_distinct:
  "fr_poll pf term arms w = (Ready res, arms', w') \<Longrightarrow> distinct (map fst (fr_ready res))"
  by (drule fr_poll_sorted) (simp add: strict_sorted_iff)

text \<open>The flags only accumulate.\<close>

lemma fr_scan_flags:
  "fr_scan pf term arms fl w = (arms', fl', w') \<Longrightarrow>
     (sc_pending fl \<longrightarrow> sc_pending fl') \<and> (sc_terminal fl \<longrightarrow> sc_terminal fl') \<and>
     (sc_error fl' = None \<longrightarrow> sc_error fl = None)"
proof (induction arms arbitrary: fl w arms')
  case (Cons a arms)
  show ?case
  proof (cases a)
    case (Arm_Pending f)
    with Cons.prems have "fr_scan pf term (Arm_Pending f # arms) fl w = (arms', fl', w')" by simp
    then show ?thesis
      by (cases rule: fr_scan_pendingE) (auto dest!: Cons.IH simp: note_error_def split: if_splits)
  next
    case (Arm_Ready s)
    with Cons.prems have "fr_scan pf term (Arm_Ready s # arms) fl w = (arms', fl', w')" by simp
    then show ?thesis
      by (cases rule: fr_scan_readyE) (auto dest!: Cons.IH split: option.splits)
  next
    case Arm_Failed
    with Cons.prems have "fr_scan pf term (Arm_Failed # arms) fl w = (arms', fl', w')" by simp
    then show ?thesis by (cases rule: fr_scan_failedE) (auto dest!: Cons.IH)
  qed
qed simp

text \<open>An arm that was live and neither pending nor failed after the scan holds a value.\<close>

definition arm_live :: "('f, 'v) arm \<Rightarrow> bool" where
  "arm_live a \<longleftrightarrow> (case a of Arm_Ready None \<Rightarrow> False | Arm_Failed \<Rightarrow> False | _ \<Rightarrow> True)"

lemma arm_live_simps [simp]:
  "arm_live (Arm_Pending f)" "arm_live (Arm_Ready s) \<longleftrightarrow> s \<noteq> None" "\<not> arm_live Arm_Failed"
  by (auto simp: arm_live_def split: option.splits)

definition holds_value :: "('v \<Rightarrow> bool) \<Rightarrow> bool \<Rightarrow> ('f, 'v) arm \<Rightarrow> bool" where
  "holds_value term t a \<longleftrightarrow> (\<exists>v. a = Arm_Ready (Some v) \<and> (term v \<longrightarrow> t))"

lemma fr_scan_all_ready:
  "fr_scan pf term arms fl w = (arms', fl', w') \<Longrightarrow> \<forall>a \<in> set arms. arm_live a \<Longrightarrow>
   \<not> sc_pending fl' \<Longrightarrow> sc_error fl' = None \<Longrightarrow> \<forall>a \<in> set arms'. holds_value term (sc_terminal fl') a"
proof (induction arms arbitrary: fl w arms')
  case (Cons a arms)
  note rest = Cons.IH [OF _ _ Cons.prems(3,4)]
  show ?case
  proof (cases a)
    case (Arm_Pending f)
    with Cons.prems have "fr_scan pf term (Arm_Pending f # arms) fl w = (arms', fl', w')" by simp
    then show ?thesis
    proof (cases rule: fr_scan_pendingE)
      case (ready v f' w1 arms1)
      with fr_scan_flags [OF ready(2)] rest [OF ready(2)] Cons.prems show ?thesis
        by (auto simp: holds_value_def)
    next
      case (error err f' w1 arms1)
      with fr_scan_flags [OF error(2)] Cons.prems show ?thesis
        by (auto simp: note_error_def split: if_splits)
    next
      case (pending f' w1 arms1)
      with fr_scan_flags [OF pending(2)] Cons.prems show ?thesis by auto
    qed
  next
    case (Arm_Ready s)
    with Cons.prems obtain fl1 arms1 where
      r: "fr_scan pf term arms fl1 w = (arms1, fl', w')" "arms' = Arm_Ready s # arms1"
      "fl1 = (case s of None \<Rightarrow> fl | Some v \<Rightarrow> fl\<lparr>sc_terminal := sc_terminal fl \<or> term v\<rparr>)"
      by (auto elim: fr_scan_readyE)
    with fr_scan_flags [OF r(1)] rest [OF r(1)] Cons.prems Arm_Ready show ?thesis
      by (auto simp: holds_value_def)
  next
    case Arm_Failed
    with Cons.prems show ?thesis by simp
  qed
qed simp

text \<open>A scan without an error leaves live arms live.\<close>

lemma fr_scan_live:
  "fr_scan pf term arms fl w = (arms', fl', w') \<Longrightarrow> \<forall>a \<in> set arms. arm_live a \<Longrightarrow>
   sc_error fl' = None \<Longrightarrow> \<forall>a \<in> set arms'. arm_live a"
proof (induction arms arbitrary: fl w arms')
  case (Cons a arms)
  show ?case
  proof (cases a)
    case (Arm_Pending f)
    with Cons.prems have "fr_scan pf term (Arm_Pending f # arms) fl w = (arms', fl', w')" by simp
    then show ?thesis
    proof (cases rule: fr_scan_pendingE)
      case (error err f' w1 arms1)
      with fr_scan_flags [OF error(2)] Cons.prems show ?thesis
        by (auto simp: note_error_def split: if_splits)
    qed (use Cons in auto)
  next
    case (Arm_Ready s)
    with Cons.prems have "fr_scan pf term (Arm_Ready s # arms) fl w = (arms', fl', w')" by simp
    then show ?thesis by (cases rule: fr_scan_readyE) (use Cons Arm_Ready in auto)
  qed (use Cons.prems in auto)
qed simp

lemma fr_poll_pending_live:
  "fr_poll pf term arms w = (Pending, arms', w') \<Longrightarrow> \<forall>a \<in> set arms. arm_live a \<Longrightarrow>
   (\<forall>a \<in> set arms'. arm_live a) \<and> length arms' = length arms"
  by (erule fr_poll_pendingE) (blast dest: fr_scan_live fr_scan_length)

lemma fr_new_live [simp]: "\<forall>a \<in> set (fr_new fs). arm_live a" "length (fr_new fs) = length fs"
  by (auto simp: fr_new_def)

lemma fr_harvest_all_ready:
  "\<forall>a \<in> set arms. holds_value term t a \<Longrightarrow> fr_harvest pf k arms e w = (out, e', w') \<Longrightarrow>
   map fst out = [k..<k + length arms] \<and> e' = e \<and> w' = w \<and> map (Arm_Ready \<circ> Some \<circ> snd) out = arms"
proof (induction arms arbitrary: k e w out)
  case (Cons a arms)
  then obtain v where a: "a = Arm_Ready (Some v)" by (auto simp: holds_value_def)
  with Cons.prems obtain out1 where o: "fr_harvest pf (Suc k) arms e w = (out1, e', w')"
    and out: "out = (k, v) # out1"
    by (auto split: prod.splits)
  from Cons.IH [OF _ o] Cons.prems(1) show ?case
    by (simp add: out a upt_conv_Cons del: upt_Suc)
qed simp

lemma fr_scan_terminal:
  "fr_scan pf term arms fl w = (arms', fl', w') \<Longrightarrow> sc_terminal fl' \<Longrightarrow> \<not> sc_terminal fl \<Longrightarrow>
   \<exists>i v. i < length arms' \<and> arms' ! i = Arm_Ready (Some v) \<and> term v"
proof (induction arms arbitrary: fl w arms')
  case (Cons a arms)
  have shift: "\<exists>i v. i < length (b # bs) \<and> (b # bs) ! i = Arm_Ready (Some v) \<and> term v"
    if "\<exists>i v. i < length bs \<and> bs ! i = Arm_Ready (Some v) \<and> term v" for b and bs :: "('a, 'b) arm list"
    using that by force
  have head: "\<exists>i v. i < length (Arm_Ready (Some u) # bs) \<and> (Arm_Ready (Some u) # bs) ! i = Arm_Ready (Some v) \<and> term v"
    if "term u" for u and bs :: "('a, 'b) arm list"
    using that by (intro exI [of _ 0] exI [of _ u]) simp
  show ?case
  proof (cases a)
    case (Arm_Pending f)
    with Cons.prems have "fr_scan pf term (Arm_Pending f # arms) fl w = (arms', fl', w')" by simp
    then show ?thesis
    proof (cases rule: fr_scan_pendingE)
      case (ready v f' w1 arms1)
      show ?thesis
      proof (cases "term v")
        case True
        with head show ?thesis unfolding ready(3) by blast
      next
        case False
        with Cons.IH [OF ready(2)] Cons.prems show ?thesis
          unfolding ready(3) by (intro shift) auto
      qed
    next
      case (error err f' w1 arms1)
      with Cons.IH [OF error(2)] Cons.prems show ?thesis
        unfolding error(3) by (intro shift) auto
    next
      case (pending f' w1 arms1)
      with Cons.IH [OF pending(2)] Cons.prems show ?thesis
        unfolding pending(3) by (intro shift) auto
    qed
  next
    case (Arm_Ready s)
    with Cons.prems obtain fl1 arms1 where
      r: "fr_scan pf term arms fl1 w = (arms1, fl', w')" "arms' = Arm_Ready s # arms1"
      "fl1 = (case s of None \<Rightarrow> fl | Some v \<Rightarrow> fl\<lparr>sc_terminal := sc_terminal fl \<or> term v\<rparr>)"
      by (auto elim: fr_scan_readyE)
    show ?thesis
    proof (cases "sc_terminal fl1")
      case True
      with r Cons.prems obtain u where "s = Some u" "term u" by (auto split: option.splits)
      with head show ?thesis unfolding r(2) by blast
    next
      case False
      with Cons.IH [OF r(1)] Cons.prems show ?thesis
        unfolding r(2) by (intro shift) auto
    qed
  next
    case Arm_Failed
    with Cons.prems obtain arms1 where
      r: "fr_scan pf term arms fl w = (arms1, fl', w')" "arms' = Arm_Failed # arms1"
      by (auto split: prod.splits)
    with Cons.IH [OF r(1)] Cons.prems show ?thesis
      unfolding r(2) by (intro shift) auto
  qed
qed simp

lemma fr_harvest_slot:
  "fr_harvest pf k arms e w = (out, e', w') \<Longrightarrow> i < length arms \<Longrightarrow> arms ! i = Arm_Ready (Some v) \<Longrightarrow>
   (k + i, v) \<in> set out"
proof (induction arms arbitrary: k e w out i)
  case (Cons a arms)
  show ?case
  proof (cases i)
    case 0
    with Cons.prems show ?thesis by (auto split: prod.splits)
  next
    case (Suc j)
    with Cons.prems have j: "j < length arms" "arms ! j = Arm_Ready (Some v)" by auto
    show ?thesis
    proof (cases a)
      case (Arm_Pending f)
      with Cons.prems have "fr_harvest pf k (Arm_Pending f # arms) e w = (out, e', w')" by simp
      then show ?thesis
        by (cases rule: fr_harvest_pendingE) (use j Suc in \<open>auto dest!: Cons.IH\<close>)
    next
      case (Arm_Ready s)
      with Cons.prems have "fr_harvest pf k (Arm_Ready s # arms) e w = (out, e', w')" by simp
      then show ?thesis
        by (cases rule: fr_harvest_readyE) (use j Suc in \<open>auto dest!: Cons.IH split: option.splits\<close>)
    next
      case Arm_Failed
      with Cons.prems j Suc show ?thesis by (auto dest!: Cons.IH)
    qed
  qed
qed simp

text \<open>
  Arms that are all live, no error and no terminal value among the results: every arm answered,
  and the results cover the arms in order.
\<close>

lemma fr_poll_all_ready:
  assumes p: "fr_poll pf term arms w = (Ready res, arms', w')"
    and live: "\<forall>a \<in> set arms. arm_live a"
    and err: "fr_error res = None"
    and quiet: "\<And>i v. (i, v) \<in> set (fr_ready res) \<Longrightarrow> \<not> term v"
  shows "map fst (fr_ready res) = [0..<length arms]"
  using p
proof (cases rule: fr_poll_readyE)
  case (1 arms1 fl w1)
  have e: "sc_error fl = None"
    using fr_harvest_error [OF 1(3) err] .
  have t: "\<not> sc_terminal fl"
  proof
    assume "sc_terminal fl"
    then obtain i v where "i < length arms1" "arms1 ! i = Arm_Ready (Some v)" "term v"
      using fr_scan_terminal [OF 1(1)] by (auto simp: no_flags_def)
    with fr_harvest_slot [OF 1(3), of i v] quiet show False by fastforce
  qed
  with 1(2) e have "\<forall>a \<in> set arms1. holds_value term (sc_terminal fl) a"
    by (intro fr_scan_all_ready [OF 1(1) live]) auto
  from fr_harvest_all_ready [OF this 1(3)] fr_scan_length [OF 1(1)] show ?thesis by simp
qed

section \<open>A rule for invariants of a race\<close>

text \<open>
  An invariant \<open>Inv m w\<close> over the values \<open>m\<close> collected so far and the world is kept by a poll of
  the race when every single poll of an arm keeps it. \<open>Fut i f\<close> is what is known of the pending
  future of arm \<open>i\<close>.
\<close>

definition futs_ok :: "(nat \<Rightarrow> 'f \<Rightarrow> bool) \<Rightarrow> nat \<Rightarrow> ('f, 'v) first_ready \<Rightarrow> bool" where
  "futs_ok Fut k arms \<longleftrightarrow> (\<forall>j < length arms. \<forall>f. arms ! j = Arm_Pending f \<longrightarrow> Fut (k + j) f)"

lemma futs_ok_Nil [simp]: "futs_ok Fut k []"
  by (simp add: futs_ok_def)

lemma futs_ok_Cons [simp]:
  "futs_ok Fut k (a # arms) \<longleftrightarrow> (\<forall>f. a = Arm_Pending f \<longrightarrow> Fut k f) \<and> futs_ok Fut (Suc k) arms"
  by (simp add: futs_ok_def All_less_Suc2)

definition race_inv ::
  "('f, 'v, 'w) poll_fn \<Rightarrow> (nat \<Rightarrow> 'f \<Rightarrow> bool) \<Rightarrow> ((nat \<Rightarrow> 'v option) \<Rightarrow> 'w \<Rightarrow> bool) \<Rightarrow> bool" where
  "race_inv pf Fut Inv \<longleftrightarrow>
     (\<forall>i m f w. Fut i f \<longrightarrow> m i = None \<longrightarrow> Inv m w \<longrightarrow>
        (case pf f w of
           (Ready (Inr v), _, w') \<Rightarrow> Inv (m(i \<mapsto> v)) w'
         | (Ready (Inl _), _, w') \<Rightarrow> Inv m w'
         | (Pending, f', w') \<Rightarrow> Inv m w' \<and> Fut i f'))"

lemma race_invI:
  assumes "\<And>i m f w v f' w'. Fut i f \<Longrightarrow> m i = None \<Longrightarrow> Inv m w \<Longrightarrow> pf f w = (Ready (Inr v), f', w') \<Longrightarrow>
      Inv (m(i \<mapsto> v)) w'"
    and "\<And>i m f w err f' w'. Fut i f \<Longrightarrow> m i = None \<Longrightarrow> Inv m w \<Longrightarrow> pf f w = (Ready (Inl err), f', w') \<Longrightarrow>
      Inv m w'"
    and "\<And>i m f w f' w'. Fut i f \<Longrightarrow> m i = None \<Longrightarrow> Inv m w \<Longrightarrow> pf f w = (Pending, f', w') \<Longrightarrow>
      Inv m w' \<and> Fut i f'"
  shows "race_inv pf Fut Inv"
  unfolding race_inv_def
  by (auto split: prod.splits poll.splits sum.splits simp del: fun_upd_apply intro: assms(1,2) dest: assms(3))

lemma race_invD:
  assumes "race_inv pf Fut Inv" "Fut i f" "m i = None" "Inv m w"
  shows "pf f w = (Ready (Inr v), f', w') \<Longrightarrow> Inv (m(i \<mapsto> v)) w'"
    and "pf f w = (Ready (Inl err), f', w') \<Longrightarrow> Inv m w'"
    and "pf f w = (Pending, f', w') \<Longrightarrow> Inv m w' \<and> Fut i f'"
proof -
  have c: "case pf f w of
      (Ready (Inr v), _, w') \<Rightarrow> Inv (m(i \<mapsto> v)) w'
    | (Ready (Inl _), _, w') \<Rightarrow> Inv m w'
    | (Pending, f', w') \<Rightarrow> Inv m w' \<and> Fut i f'"
    by (rule assms(1) [unfolded race_inv_def, THEN spec, THEN spec, THEN spec, THEN spec,
          THEN mp, THEN mp, THEN mp, OF assms(2-4)])
  show "Inv (m(i \<mapsto> v)) w'" if "pf f w = (Ready (Inr v), f', w')"
    using c unfolding that prod.case poll.case sum.case .
  show "Inv m w'" if "pf f w = (Ready (Inl err), f', w')"
    using c unfolding that prod.case poll.case sum.case .
  show "Inv m w' \<and> Fut i f'" if "pf f w = (Pending, f', w')"
    using c unfolding that prod.case poll.case sum.case .
qed

lemma overlay_pending: "overlay m k (Arm_Pending f # arms) = overlay (m(k := None)) (Suc k) arms"
  by (simp add: overlay_Cons)

lemma fr_scan_inv:
  assumes ri: "race_inv pf Fut Inv"
  shows "fr_scan pf term arms fl w = (arms', fl', w') \<Longrightarrow> futs_ok Fut k arms \<Longrightarrow>
    Inv (overlay m k arms) w \<Longrightarrow> Inv (overlay m k arms') w' \<and> futs_ok Fut k arms'"
proof (induction arms arbitrary: fl w arms' m k)
  case (Cons a arms)
  show ?case
  proof (cases a)
    case (Arm_Pending f)
    with Cons.prems have i0: "Inv (overlay (m(k := None)) (Suc k) arms) w" and "Fut k f"
      and fo: "futs_ok Fut (Suc k) arms"
      by (simp_all add: overlay_pending del: fun_upd_apply)
    have none: "overlay (m(k := None)) (Suc k) arms k = None" by simp
    note inv = race_invD [OF ri \<open>Fut k f\<close> none i0]
    from Cons.prems Arm_Pending have "fr_scan pf term (Arm_Pending f # arms) fl w = (arms', fl', w')"
      by simp
    then show ?thesis
    proof (cases rule: fr_scan_pendingE)
      case (ready v f' w1 arms1)
      from inv(1) [OF ready(1)] have "Inv (overlay (m(k \<mapsto> v)) (Suc k) arms) w1"
        by (simp only: overlay_set)
      from Cons.IH [OF ready(2) fo this] show ?thesis
        by (simp add: ready(3) overlay_Cons del: fun_upd_apply)
    next
      case (error err f' w1 arms1)
      from Cons.IH [OF error(2) fo inv(2) [OF error(1)]] show ?thesis
        by (simp add: error(3) overlay_Cons del: fun_upd_apply)
    next
      case (pending f' w1 arms1)
      have "Inv (overlay (m(k := None)) (Suc k) arms) w1 \<and> Fut k f'"
        using inv(3) [OF pending(1)] by blast
      then have i1: "Inv (overlay (m(k := None)) (Suc k) arms) w1" and "Fut k f'" by blast+
      from Cons.IH [OF pending(2) fo i1] \<open>Fut k f'\<close> show ?thesis
        by (simp add: pending(3) overlay_Cons del: fun_upd_apply)
    qed
  next
    case (Arm_Ready s)
    with Cons.prems have "fr_scan pf term (Arm_Ready s # arms) fl w = (arms', fl', w')" by simp
    then show ?thesis
      by (cases rule: fr_scan_readyE) (use Cons.prems Arm_Ready Cons.IH in \<open>auto simp: overlay_Cons simp del: fun_upd_apply\<close>)
  next
    case Arm_Failed
    with Cons.prems have "fr_scan pf term (Arm_Failed # arms) fl w = (arms', fl', w')" by simp
    then show ?thesis
      by (cases rule: fr_scan_failedE) (use Cons.prems Arm_Failed Cons.IH in \<open>auto simp: overlay_Cons simp del: fun_upd_apply\<close>)
  qed
qed (auto simp: overlay_Nil)

lemma overlay_out_Nil: "overlay_out m k [] = (\<lambda>i. if i < k then m i else None)"
  by (rule ext) (simp add: overlay_out_def)

lemma overlay_out_Cons: "overlay_out m k ((k, v) # out) = overlay_out (m(k \<mapsto> v)) (Suc k) out"
  if "\<forall>i \<in> fst ` set out. Suc k \<le> i"
  using that by (rule_tac ext) (auto simp: overlay_out_def less_Suc_eq)

lemma overlay_out_skip: "overlay_out m k out = overlay_out (m(k := None)) (Suc k) out"
  if "\<forall>i \<in> fst ` set out. Suc k \<le> i"
  using that by (rule_tac ext)
    (auto simp: overlay_out_def less_Suc_eq map_of_eq_None_iff)

lemma fr_harvest_inv:
  assumes ri: "race_inv pf Fut Inv"
  shows "fr_harvest pf k arms e w = (out, e', w') \<Longrightarrow> futs_ok Fut k arms \<Longrightarrow>
    Inv (overlay m k arms) w \<Longrightarrow> Inv (overlay_out m k out) w'"
proof (induction arms arbitrary: e w out m k)
  case Nil
  then show ?case by (simp add: overlay_Nil overlay_out_Nil)
next
  case (Cons a arms)
  show ?case
  proof (cases a)
    case (Arm_Pending f)
    with Cons.prems have i0: "Inv (overlay (m(k := None)) (Suc k) arms) w" and "Fut k f"
      and fo: "futs_ok Fut (Suc k) arms"
      by (simp_all add: overlay_pending del: fun_upd_apply)
    have none: "overlay (m(k := None)) (Suc k) arms k = None" by simp
    note inv = race_invD [OF ri \<open>Fut k f\<close> none i0]
    from Cons.prems Arm_Pending have "fr_harvest pf k (Arm_Pending f # arms) e w = (out, e', w')"
      by simp
    then show ?thesis
    proof (cases rule: fr_harvest_pendingE)
      case (ready v f' w1 out1)
      from inv(1) [OF ready(1)] have "Inv (overlay (m(k \<mapsto> v)) (Suc k) arms) w1"
        by (simp only: overlay_set)
      from Cons.IH [OF ready(2) fo this] fr_harvest_idx [OF ready(2)] show ?thesis
        by (simp add: ready(3) overlay_out_Cons del: fun_upd_apply)
    next
      case (error err f' w1)
      from Cons.IH [OF error(2) fo inv(2) [OF error(1)]] fr_harvest_idx [OF error(2)] show ?thesis
        by (simp add: overlay_out_skip [of out k m] del: fun_upd_apply)
    next
      case (pending f' w1)
      have "Inv (overlay (m(k := None)) (Suc k) arms) w1"
        using inv(3) [OF pending(1)] by blast
      from Cons.IH [OF pending(2) fo this] fr_harvest_idx [OF pending(2)] show ?thesis
        by (simp add: overlay_out_skip [of out k m] del: fun_upd_apply)
    qed
  next
    case (Arm_Ready s)
    with Cons.prems have "fr_harvest pf k (Arm_Ready s # arms) e w = (out, e', w')" by simp
    then show ?thesis
    proof (cases rule: fr_harvest_readyE)
      case (1 out1)
      from Cons.prems Arm_Ready have "Inv (overlay (m(k := s)) (Suc k) arms) w"
        and "futs_ok Fut (Suc k) arms"
        by (simp_all add: overlay_Cons del: fun_upd_apply)
      from Cons.IH [OF 1(1) this(2,1)] fr_harvest_idx [OF 1(1)] show ?thesis
        by (cases s) (simp_all add: 1(2) overlay_out_Cons overlay_out_skip [of out1 k m] del: fun_upd_apply)
    qed
  next
    case Arm_Failed
    with Cons.prems have h: "fr_harvest pf (Suc k) arms e w = (out, e', w')"
      and "Inv (overlay (m(k := None)) (Suc k) arms) w" and "futs_ok Fut (Suc k) arms"
      by (simp_all add: overlay_Cons del: fun_upd_apply)
    from Cons.IH [OF h this(3,2)] fr_harvest_idx [OF h] show ?thesis
      by (simp add: overlay_out_skip [of out k m] del: fun_upd_apply)
  qed
qed

lemma overlay_out_0: "overlay_out m 0 out = map_of out"
  by (rule ext) (simp add: overlay_out_def)

text \<open>The rule for a poll that completes, and for one that stays pending.\<close>

theorem fr_poll_ready_inv:
  assumes "race_inv pf Fut Inv" "futs_ok Fut 0 arms" "Inv (slots arms) w"
    and "fr_poll pf term arms w = (Ready res, arms', w')"
  shows "Inv (map_of (fr_ready res)) w'"
  using assms(4)
proof (cases rule: fr_poll_readyE)
  case (1 arms1 fl w1)
  have "Inv (overlay (\<lambda>_. None) 0 arms1) w1 \<and> futs_ok Fut 0 arms1"
    using fr_scan_inv [OF assms(1) 1(1) assms(2)] assms(3) by (simp add: slots_def)
  then have "Inv (overlay_out (\<lambda>_. None) 0 (fr_ready res)) w'"
    using fr_harvest_inv [OF assms(1) 1(3)] by blast
  then show ?thesis by (simp add: overlay_out_0)
qed

theorem fr_poll_pending_inv:
  assumes "race_inv pf Fut Inv" "futs_ok Fut 0 arms" "Inv (slots arms) w"
    and "fr_poll pf term arms w = (Pending, arms', w')"
  shows "Inv (slots arms') w' \<and> futs_ok Fut 0 arms'"
  using assms(4)
proof (cases rule: fr_poll_pendingE)
  case (1 fl)
  from fr_scan_inv [OF assms(1) 1(1) assms(2)] assms(3) show ?thesis by (simp add: slots_def)
qed

text \<open>While the race is pending it holds no terminal value.\<close>

lemma fr_scan_quiet:
  "fr_scan pf term arms fl w = (arms', fl', w') \<Longrightarrow> \<not> sc_terminal fl' \<Longrightarrow>
   Arm_Ready (Some v) \<in> set arms' \<Longrightarrow> \<not> term v"
proof (induction arms arbitrary: fl w arms')
  case (Cons a arms)
  note ih = Cons.IH [OF _ Cons.prems(2)]
  show ?case
  proof (cases a)
    case (Arm_Pending f)
    with Cons.prems have "fr_scan pf term (Arm_Pending f # arms) fl w = (arms', fl', w')" by simp
    then show ?thesis
    proof (cases rule: fr_scan_pendingE)
      case (ready u f' w1 arms1)
      with fr_scan_flags [OF ready(2)] ih [OF ready(2)] Cons.prems show ?thesis by auto
    qed (use ih Cons.prems in auto)
  next
    case (Arm_Ready s)
    with Cons.prems have "fr_scan pf term (Arm_Ready s # arms) fl w = (arms', fl', w')" by simp
    then show ?thesis
    proof (cases rule: fr_scan_readyE)
      case (1 fl1 arms1)
      with fr_scan_flags [OF 1(1)] ih [OF 1(1)] Cons.prems show ?thesis by auto
    qed
  next
    case Arm_Failed
    with Cons.prems have "fr_scan pf term (Arm_Failed # arms) fl w = (arms', fl', w')" by simp
    then show ?thesis by (cases rule: fr_scan_failedE) (use ih Cons.prems in auto)
  qed
qed simp

definition race_quiet :: "('v \<Rightarrow> bool) \<Rightarrow> ('f, 'v) first_ready \<Rightarrow> bool" where
  "race_quiet term arms \<longleftrightarrow> (\<forall>v. Arm_Ready (Some v) \<in> set arms \<longrightarrow> \<not> term v)"

lemma race_quiet_new [simp]: "race_quiet term (fr_new fs)"
  by (auto simp: race_quiet_def fr_new_def)

lemma fr_poll_pending_quiet: "fr_poll pf term arms w = (Pending, arms', w') \<Longrightarrow> race_quiet term arms'"
  by (erule fr_poll_pendingE) (auto simp: race_quiet_def dest: fr_scan_quiet)

lemma slots_mem: "slots arms i = Some v \<Longrightarrow> Arm_Ready (Some v) \<in> set arms"
  by (auto simp: slots_def overlay_def split: if_splits elim!: slot.elims)
    (metis nth_mem slot.elims option.distinct(1))

lemma race_quiet_slots: "race_quiet term arms \<Longrightarrow> slots arms i = Some v \<Longrightarrow> \<not> term v"
  by (auto simp: race_quiet_def dest: slots_mem)

lemma fr_take_ready_mem: "(i, v) \<in> set (fst (fr_take_ready k arms)) \<Longrightarrow> Arm_Ready (Some v) \<in> set arms"
  by (induction k arms rule: fr_take_ready.induct) (auto split: prod.splits)

lemma futs_ok_new: "futs_ok Fut 0 (fr_new fs) \<longleftrightarrow> (\<forall>i < length fs. Fut i (fs ! i))"
  by (auto simp: futs_ok_def fr_new_def)

end
