(* ===== verification/Live_Outcome.thy ===== *)
theory Live_Outcome
  imports Observer_Interface
begin

text \<open>
  Construction of \<open>live_wait_outcome\<close> bodies (\<^verbatim>\<open>crates/waitprims-async/src/outcome.rs\<close>): one
  builder per outcome kind over a common base that echoes the request, and the coverage arms
  derived from the start cursors resolved at bind.
\<close>

record resolved_start =
  rst_registration_id :: id_token
  rst_start :: anchor

definition live_arm_id :: "registration \<Rightarrow> id_token" where
  "live_arm_id reg = IdToken (''arm:'' @ id_str (reg_id reg))"

definition coverage_arm_for ::
  "registration \<Rightarrow> arm_status \<Rightarrow> wait_event option \<Rightarrow> anchor option \<Rightarrow> coverage_arm option" where
  "coverage_arm_for reg status event resolved =
     (case (case event of Some ev \<Rightarrow> Some (ev_start_anchor ev) | None \<Rightarrow> resolved) of
        None \<Rightarrow> None
      | Some start \<Rightarrow>
          Some \<lparr>arm_id = live_arm_id reg,
                arm_registration_id = reg_id reg,
                arm_required = reg_required reg,
                arm_stat = status,
                arm_degraded = False,
                arm_start_anchor = start,
                arm_proposed_next_anchor =
                  (case event of Some ev \<Rightarrow> ev_proposed_next_anchor ev | None \<Rightarrow> start),
                arm_event_count = (if event = None then 0 else 1),
                arm_byte_count = 0,
                arm_reason_code = None\<rparr>)"

definition live_base :: "live_wait_request \<Rightarrow> timestamp \<Rightarrow> outcome_kind \<Rightarrow> live_wait_outcome" where
  "live_base req completed kind =
     \<lparr>capabilities = capabilities req,
      message_id = IdToken (id_str (message_id req) @ '':outcome''),
      correlation_id = correlation_id req,
      created_at = completed,
      hdr_actor_ref = hdr_actor_ref req,
      causation_id = Some (message_id req),
      grant_ref = grant_ref req,
      verification_receipt_ref = verification_receipt_ref req,
      policy_decision_ref = policy_decision_ref req,
      lo_waiter_id = lr_waiter_id req,
      lo_request_ref = message_id req,
      lo_completed_at = completed,
      lo_outcome_kind = kind,
      lo_logical_deadline = None,
      lo_events = None,
      lo_proposed_next_anchor = None,
      lo_coverage_complete = None,
      lo_arms = None,
      lo_reason_code = None\<rparr>"

text \<open>The hash map of starts: a later start for the same registration replaces an earlier one.\<close>

definition start_map :: "resolved_start list \<Rightarrow> string \<Rightarrow> anchor option" where
  "start_map resolved =
     map_of (rev (map (\<lambda>item. (id_str (rst_registration_id item), rst_start item)) resolved))"

definition clean_arms :: "registration_set \<Rightarrow> resolved_start list \<Rightarrow> coverage_arm list" where
  "clean_arms rset resolved =
     filter_map (\<lambda>reg. coverage_arm_for reg AS_NoChange None
                         (start_map resolved (id_str (reg_id reg)))) (rs_registrations rset)"

definition outcome_events :: "live_wait_request \<Rightarrow> timestamp \<Rightarrow> wait_event \<Rightarrow> live_wait_outcome" where
  "outcome_events req completed event =
     (live_base req completed Events)
       \<lparr>lo_events := Some [event], lo_proposed_next_anchor := Some (ev_proposed_next_anchor event)\<rparr>"

definition partial_arms ::
  "registration_set \<Rightarrow> wait_event option \<Rightarrow> resolved_start list \<Rightarrow> coverage_arm list" where
  "partial_arms rset event resolved =
     filter_map (\<lambda>reg.
        let start = start_map resolved (id_str (reg_id reg));
            is_winner = (case event of None \<Rightarrow> False
                         | Some ev \<Rightarrow> id_str (ev_registration_id ev) = id_str (reg_id reg))
        in if is_winner then coverage_arm_for reg AS_Events event start
           else coverage_arm_for reg AS_Deferred None start) (rs_registrations rset)"

definition outcome_partial ::
  "registration_set \<Rightarrow> live_wait_request \<Rightarrow> timestamp \<Rightarrow> wait_event option \<Rightarrow> resolved_start list \<Rightarrow>
   live_wait_outcome" where
  "outcome_partial rset req completed event resolved =
     (live_base req completed Partial)
       \<lparr>lo_events := Some (case event of None \<Rightarrow> [] | Some ev \<Rightarrow> [ev]),
        lo_proposed_next_anchor := map_option ev_proposed_next_anchor event,
        lo_coverage_complete := Some False,
        lo_arms := Some (partial_arms rset event resolved)\<rparr>"

definition outcome_logical_deadman ::
  "registration_set \<Rightarrow> live_wait_request \<Rightarrow> timestamp \<Rightarrow> resolved_start list \<Rightarrow> live_wait_outcome" where
  "outcome_logical_deadman rset req completed resolved =
     (live_base req completed LogicalDeadman)
       \<lparr>lo_events := Some [],
        lo_logical_deadline := Some (lr_logical_deadline req),
        lo_coverage_complete := Some True,
        lo_arms := Some (clean_arms rset resolved)\<rparr>"

definition outcome_no_change ::
  "registration_set \<Rightarrow> live_wait_request \<Rightarrow> timestamp \<Rightarrow> resolved_start list \<Rightarrow> live_wait_outcome" where
  "outcome_no_change rset req completed resolved =
     (live_base req completed NoChange)
       \<lparr>lo_events := Some [],
        lo_logical_deadline := Some (lr_logical_deadline req),
        lo_coverage_complete := Some True,
        lo_arms := Some (clean_arms rset resolved)\<rparr>"

definition outcome_cancelled :: "live_wait_request \<Rightarrow> timestamp \<Rightarrow> live_wait_outcome" where
  "outcome_cancelled req completed =
     (live_base req completed Cancelled)
       \<lparr>lo_reason_code := Some (IdToken ''consumer_cancelled''), lo_events := Some []\<rparr>"

definition outcome_failed :: "live_wait_request \<Rightarrow> timestamp \<Rightarrow> string \<Rightarrow> live_wait_outcome" where
  "outcome_failed req completed reason =
     (live_base req completed Failed)
       \<lparr>lo_reason_code := Some (IdToken reason), lo_events := Some []\<rparr>"

definition outcome_refused :: "live_wait_request \<Rightarrow> timestamp \<Rightarrow> string \<Rightarrow> live_wait_outcome" where
  "outcome_refused req completed reason =
     (live_base req completed Refused)
       \<lparr>lo_reason_code := Some (IdToken reason), lo_events := Some []\<rparr>"

definition outcome_reauthentication_required ::
  "live_wait_request \<Rightarrow> timestamp \<Rightarrow> string \<Rightarrow> live_wait_outcome" where
  "outcome_reauthentication_required req completed reason =
     (live_base req completed ReauthenticationRequired)
       \<lparr>lo_reason_code := Some (IdToken reason), lo_events := Some []\<rparr>"

lemmas outcome_defs =
  outcome_events_def outcome_partial_def outcome_logical_deadman_def outcome_no_change_def
  outcome_cancelled_def outcome_failed_def outcome_refused_def
  outcome_reauthentication_required_def live_base_def

section \<open>Lemmas\<close>

lemma outcome_kind_simps [simp]:
  "lo_outcome_kind (outcome_events req t ev) = Events"
  "lo_outcome_kind (outcome_partial rset req t e rs) = Partial"
  "lo_outcome_kind (outcome_logical_deadman rset req t rs) = LogicalDeadman"
  "lo_outcome_kind (outcome_no_change rset req t rs) = NoChange"
  "lo_outcome_kind (outcome_cancelled req t) = Cancelled"
  "lo_outcome_kind (outcome_failed req t r) = Failed"
  "lo_outcome_kind (outcome_refused req t r) = Refused"
  "lo_outcome_kind (outcome_reauthentication_required req t r) = ReauthenticationRequired"
  by (simp_all add: outcome_defs)

lemma coverage_arm_for_None:
  "coverage_arm_for reg st None None = None"
  by (simp add: coverage_arm_for_def)

lemma start_map_Some_iff:
  "start_map resolved rid \<noteq> None \<longleftrightarrow> (\<exists>item \<in> set resolved. id_str (rst_registration_id item) = rid)"
  by (force simp: start_map_def map_of_eq_None_iff image_iff)

text \<open>The arms of a clean outcome are undegraded and unchanged, and cover every bound registration.\<close>

lemma clean_arms_clean:
  assumes "arm \<in> set (clean_arms S resolved)"
  shows "arm_stat arm = AS_NoChange" "\<not> arm_degraded arm" "arm_event_count arm = 0"
    "arm_proposed_next_anchor arm = arm_start_anchor arm"
  using assms
  by (auto simp: clean_arms_def set_filter_map coverage_arm_for_def split: option.splits)

lemma clean_arms_cover:
  assumes "reg \<in> set (rs_registrations S)"
    and "\<exists>item \<in> set resolved. rst_registration_id item = reg_id reg"
  shows "\<exists>arm \<in> set (clean_arms S resolved). arm_registration_id arm = reg_id reg \<and>
           arm_required arm = reg_required reg"
proof -
  from assms(2) have "start_map resolved (id_str (reg_id reg)) \<noteq> None"
    unfolding start_map_Some_iff by auto
  then obtain start where st: "start_map resolved (id_str (reg_id reg)) = Some start"
    by blast
  define arm where "arm = coverage_arm_for reg AS_NoChange None (Some start)"
  then obtain a where a: "arm = Some a" "arm_registration_id a = reg_id reg"
    "arm_required a = reg_required reg"
    by (simp add: coverage_arm_for_def)
  with assms(1) st have "a \<in> set (clean_arms S resolved)"
    unfolding clean_arms_def set_filter_map arm_def by (auto intro!: bexI [of _ reg])
  with a show ?thesis by blast
qed

lemma length_clean_arms_le: "length (clean_arms S resolved) \<le> length (rs_registrations S)"
proof -
  have "length (filter_map f xs) \<le> length xs" for f :: "registration \<Rightarrow> coverage_arm option" and xs
    by (induction xs) (auto split: option.splits)
  then show ?thesis by (simp add: clean_arms_def)
qed

end
