(* ===== verification/First_Match.thy ===== *)
theory First_Match
  imports Race Live_Outcome
begin

text \<open>
  The live first-match runner (\<^verbatim>\<open>crates/waitprims-async/src/first_match.rs\<close>). The \<open>async\<close>
  loop is a step function: a step runs from one suspension point to the next. The suspension
  points are the head of the loop, the two \<open>select!\<close> blocks (with the state of their race) and
  the back-off sleep. A \<open>select!\<close> is biased: each poll tries the race, then cancellation, then
  the deadline, and parks when none is ready.
\<close>

section \<open>Pure decisions\<close>

definition tie_rule :: string where
  "tie_rule = ''same-instant winner is the earliest arm in registration_set.registrations''"

definition backoff_ms :: "nat list" where
  "backoff_ms = [50, 100, 200, 400, 800, 1000]"

definition fm_resolve :: "registration_set \<Rightarrow> live_wait_request \<Rightarrow> error + unit" where
  "fm_resolve rset req =
     (if id_str (lr_registration_set_ref req) \<noteq> id_str (message_id rset)
      then Inl (EValidation (ve_new ''/registration_set_ref'' ''mismatch''))
      else if id_str (lr_registration_revision req) \<noteq> id_str (rs_registration_revision rset)
      then Inl (EValidation (ve_new ''/registration_revision'' ''revision_mismatch''))
      else if id_str (lr_waiter_id req) \<noteq> id_str (rs_waiter_id rset)
      then Inl (EValidation (ve_new ''/waiter_id'' ''mismatch''))
      else Inr ())"

definition resolved_of :: "('w, 'b) env \<Rightarrow> 'b \<Rightarrow> resolved_start" where
  "resolved_of env b =
     \<lparr>rst_registration_id = env_registration_id env b, rst_start = env_resolved_start env b\<rparr>"

definition starts_from_binds :: "('w, 'b) env \<Rightarrow> 'b list \<Rightarrow> resolved_start list" where
  "starts_from_binds env binds = map (resolved_of env) binds"

definition starts_from_indexed :: "('w, 'b) env \<Rightarrow> (nat \<times> 'b) list \<Rightarrow> resolved_start list" where
  "starts_from_indexed env binds = map (\<lambda>(_, b). resolved_of env b) binds"

definition indexed_binds :: "'b list \<Rightarrow> (nat \<times> 'b) list" where
  "indexed_binds binds = enumerate 0 binds"

definition required_binding_complete :: "registration_set \<Rightarrow> resolved_start list \<Rightarrow> bool" where
  "required_binding_complete rset resolved =
     list_all (\<lambda>reg. list_ex (\<lambda>start. id_str (rst_registration_id start) = id_str (reg_id reg)) resolved)
       (filter reg_required (rs_registrations rset))"

definition earliest_deadline :: "live_wait_request \<Rightarrow> timestamp" where
  "earliest_deadline req =
     (if ts_less (lr_run_deadline req) (lr_logical_deadline req)
      then lr_run_deadline req else lr_logical_deadline req)"

definition posture_reject ::
  "registration_set \<Rightarrow> live_wait_request \<Rightarrow> timestamp \<Rightarrow> live_wait_outcome option" where
  "posture_reject rset req now =
     (if list_ex (\<lambda>reg. ts_less (reg_lease_expires_at reg) now) (rs_registrations rset)
      then Some (outcome_reauthentication_required req now ''lease_expired'')
      else if rs_authn_mode rset = AuthnModeRequired \<and> verification_receipt_ref req = None
      then Some (outcome_refused req now ''authn_required'')
      else None)"

definition finish ::
  "registration_set \<Rightarrow> live_wait_request \<Rightarrow> timestamp \<Rightarrow> live_wait_outcome \<Rightarrow> live_wait_outcome" where
  "finish rset req now out =
     (if lo_outcome_kind out \<in> {Cancelled, Failed, Refused, ReauthenticationRequired} then out
      else case posture_reject rset req now of Some rejected \<Rightarrow> rejected | None \<Rightarrow> out)"

definition terminal_deadline ::
  "registration_set \<Rightarrow> live_wait_request \<Rightarrow> timestamp \<Rightarrow> resolved_start list \<Rightarrow> live_wait_outcome option" where
  "terminal_deadline rset req now resolved =
     (let at_logical = ts_le (lr_logical_deadline req) now;
          at_run = ts_le (lr_run_deadline req) now
      in if \<not> at_logical \<and> \<not> at_run then None
         else if \<not> required_binding_complete rset resolved
         then Some (outcome_failed req now ''required_bind_pending'')
         else if at_logical then Some (outcome_logical_deadman rset req now resolved)
         else Some (outcome_no_change rset req now resolved))"

definition ready_events :: "(nat \<times> observation) list \<Rightarrow> (nat \<times> wait_event) list" where
  "ready_events ready =
     filter_map (\<lambda>(idx, obs). case obs of Obs_Event ev \<Rightarrow> Some (idx, ev) | _ \<Rightarrow> None) ready"

fun obs_reason :: "observation \<Rightarrow> id_token option" where
  "obs_reason (Obs_Failed r) = Some r"
| "obs_reason (Obs_Outage r) = Some r"
| "obs_reason (Obs_CursorUncertain r) = Some r"
| "obs_reason (Obs_Degraded r) = Some r"
| "obs_reason _ = None"

text \<open>The last failure seen in the scan gives the reason.\<close>

definition ready_failed :: "(nat \<times> observation) list \<Rightarrow> string option" where
  "ready_failed ready =
     fold (\<lambda>(_, obs) acc. case obs_reason obs of Some r \<Rightarrow> Some (id_str r) | None \<Rightarrow> acc) ready None"

definition ready_overflow :: "(nat \<times> observation) list \<Rightarrow> bool" where
  "ready_overflow ready = list_ex (\<lambda>(_, obs). case obs of Obs_Overflow \<Rightarrow> True | _ \<Rightarrow> False) ready"

definition event_winner_idx :: "(nat \<times> observation) list \<Rightarrow> nat option" where
  "event_winner_idx ready = min_by_key id (map fst (ready_events ready))"

definition decide ::
  "registration_set \<Rightarrow> live_wait_request \<Rightarrow> timestamp \<Rightarrow> (nat \<times> observation) list \<Rightarrow>
   resolved_start list \<Rightarrow> live_wait_outcome option" where
  "decide rset req now ready resolved =
     (let events = ready_events ready;
          winner = map_option snd (min_by_key fst events)
      in if ready_overflow ready
         then Some (if winner \<noteq> None then outcome_partial rset req now winner resolved
                    else outcome_failed req now ''buffer_overflow'')
         else case (ready_failed ready, events) of
                (Some reason, []) \<Rightarrow> Some (outcome_failed req now reason)
              | _ \<Rightarrow> map_option (outcome_events req now) winner)"

section \<open>Operations on the observer\<close>

fun extend_ready_refs ::
  "('w, 'b) env \<Rightarrow> (nat \<times> 'b) list \<Rightarrow> (nat \<times> observation) list \<Rightarrow> 'w \<Rightarrow>
   (nat \<times> observation) list \<times> 'w" where
  "extend_ready_refs env [] ready w = (ready, w)"
| "extend_ready_refs env ((idx, b) # binds) ready w =
     (if list_ex (\<lambda>(have_idx, _). have_idx = idx) ready then extend_ready_refs env binds ready w
      else case env_poll_ready env w b of
             (Some obs, w') \<Rightarrow> extend_ready_refs env binds (ready @ [(idx, obs)]) w'
           | (None, w') \<Rightarrow> extend_ready_refs env binds ready w')"

definition bind_at :: "(nat \<times> 'b) list \<Rightarrow> nat \<Rightarrow> 'b option" where
  "bind_at binds idx = map_option snd (find (\<lambda>p. fst p = idx) binds)"

fun restore_owned ::
  "('w, 'b) env \<Rightarrow> (nat \<times> 'b) list \<Rightarrow> (nat \<times> observation) list \<Rightarrow> 'w \<Rightarrow> (error + unit) \<times> 'w" where
  "restore_owned env binds [] w = (Inr (), w)"
| "restore_owned env binds ((idx, obs) # ready) w =
     (if \<not> observation_is_replayable obs then restore_owned env binds ready w
      else case bind_at binds idx of
             None \<Rightarrow> restore_owned env binds ready w
           | Some b \<Rightarrow>
               (case env_restore_ready env w b obs of
                  (Inl err, w') \<Rightarrow> (Inl err, w')
                | (Inr _, w') \<Rightarrow> restore_owned env binds ready w'))"

fun restore_bound_pairs ::
  "('w, 'b) env \<Rightarrow> (nat \<times> 'b \<times> observation) list \<Rightarrow> 'w \<Rightarrow> (error + unit) \<times> 'w" where
  "restore_bound_pairs env [] w = (Inr (), w)"
| "restore_bound_pairs env ((_, b, obs) # ready) w =
     (if observation_is_replayable obs
      then (case env_restore_ready env w b obs of
              (Inl err, w') \<Rightarrow> (Inl err, w')
            | (Inr _, w') \<Rightarrow> restore_bound_pairs env ready w')
      else restore_bound_pairs env ready w)"

fun restore_except ::
  "('w, 'b) env \<Rightarrow> (nat \<times> 'b) list \<Rightarrow> nat option \<Rightarrow> (nat \<times> observation) list \<Rightarrow> 'w \<Rightarrow>
   (error + unit) \<times> 'w" where
  "restore_except env binds winner [] w = (Inr (), w)"
| "restore_except env binds winner ((idx, obs) # ready) w =
     (if Some idx = winner \<or> \<not> observation_is_replayable obs
      then restore_except env binds winner ready w
      else case bind_at binds idx of
             None \<Rightarrow> restore_except env binds winner ready w
           | Some b \<Rightarrow>
               (case env_restore_ready env w b obs of
                  (Inl err, w') \<Rightarrow> (Inl err, w')
                | (Inr _, w') \<Rightarrow> restore_except env binds winner ready w'))"

definition restore_losers ::
  "('w, 'b) env \<Rightarrow> (nat \<times> 'b) list \<Rightarrow> (nat \<times> observation) list \<Rightarrow> 'w \<Rightarrow> (error + unit) \<times> 'w" where
  "restore_losers env binds ready w = restore_except env binds (event_winner_idx ready) ready w"

definition decide_and_restore ::
  "('w, 'b) env \<Rightarrow> registration_set \<Rightarrow> live_wait_request \<Rightarrow> timestamp \<Rightarrow> (nat \<times> 'b) list \<Rightarrow>
   (nat \<times> observation) list \<Rightarrow> resolved_start list \<Rightarrow> 'w \<Rightarrow>
   (error + live_wait_outcome option) \<times> 'w" where
  "decide_and_restore env rset req now binds ready resolved w =
     (case decide rset req now ready resolved of
        None \<Rightarrow> (Inr None, w)
      | Some out \<Rightarrow>
          (case posture_reject rset req now of
             Some rejected \<Rightarrow>
               (case restore_owned env binds ready w of
                  (Inl err, w') \<Rightarrow> (Inl err, w')
                | (Inr _, w') \<Rightarrow> (Inr (Some rejected), w'))
           | None \<Rightarrow>
               (case restore_losers env binds ready w of
                  (Inl err, w') \<Rightarrow> (Inl err, w')
                | (Inr _, w') \<Rightarrow> (Inr (Some out), w'))))"

definition backoff_deadline ::
  "('w, 'b) env \<Rightarrow> live_wait_request \<Rightarrow> nat \<Rightarrow> 'w \<Rightarrow> timestamp \<times> 'w" where
  "backoff_deadline env req step w =
     (let idx = min (step - 1) (length backoff_ms - 1);
          delay = duration_from_millis (backoff_ms ! idx);
          (now, w) = env_now env w;
          wake = saturating_add (env_calendar env) now delay;
          cap = earliest_deadline req
      in (if ts_less wake cap then wake else cap, w))"

text \<open>The future of \<open>bind_then_observe\<close>: binding, then waiting on the bind.\<close>

datatype 'b bind_fut = Fut_Bind registration | Fut_Next 'b

definition poll_observe ::
  "('w, 'b) env \<Rightarrow> 'b \<Rightarrow> 'w \<times> resolved_start list \<Rightarrow>
   (error + 'b \<times> observation) poll \<times> 'b bind_fut \<times> 'w \<times> resolved_start list" where
  "poll_observe env b wr =
     (case wr of (w, rs) \<Rightarrow>
        (case env_next env w b of
           (Pending, w') \<Rightarrow> (Pending, Fut_Next b, w', rs)
         | (Ready (Inl err), w') \<Rightarrow> (Ready (Inl err), Fut_Next b, w', rs)
         | (Ready (Inr obs), w') \<Rightarrow> (Ready (Inr (b, obs)), Fut_Next b, w', rs)))"

definition poll_bind_then_observe ::
  "('w, 'b) env \<Rightarrow> ('b bind_fut, 'b \<times> observation, 'w \<times> resolved_start list) poll_fn" where
  "poll_bind_then_observe env fut wr =
     (case fut of
        Fut_Next b \<Rightarrow> poll_observe env b wr
      | Fut_Bind reg \<Rightarrow>
          (case wr of (w, rs) \<Rightarrow>
             (case env_bind env w reg of
                (Pending, w') \<Rightarrow> (Pending, Fut_Bind reg, w', rs)
              | (Ready (Inl err), w') \<Rightarrow> (Ready (Inl err), Fut_Bind reg, w', rs)
              | (Ready (Inr b), w') \<Rightarrow> poll_observe env b (w', rs @ [resolved_of env b]))))"

definition poll_next :: "('w, 'b) env \<Rightarrow> ('b, observation, 'w) poll_fn" where
  "poll_next env b w = (case env_next env w b of (r, w') \<Rightarrow> (r, b, w'))"

section \<open>The loop\<close>

datatype 'b fm_pc =
    FM_Top
  | FM_SelBound "('b, observation) first_ready"
  | FM_SelBind "('b bind_fut, 'b \<times> observation) first_ready"
  | FM_Backoff timestamp bool
  | FM_Done "error + live_wait_outcome"

record 'b fm_state =
  fm_pc :: "'b fm_pc"
  fm_bound :: "'b list option"
  fm_resolved :: "resolved_start list"
  fm_backoff_step :: nat

definition fm_init :: "'b fm_state" where
  "fm_init = \<lparr>fm_pc = FM_Top, fm_bound = None, fm_resolved = [], fm_backoff_step = 0\<rparr>"

definition fm_done :: "'b fm_state \<Rightarrow> error + live_wait_outcome \<Rightarrow> 'w \<Rightarrow> 'b fm_state \<times> 'w" where
  "fm_done st r w = (st\<lparr>fm_pc := FM_Done r\<rparr>, w)"

definition fm_cancelled ::
  "('w, 'b) env \<Rightarrow> registration_set \<Rightarrow> live_wait_request \<Rightarrow> 'b fm_state \<Rightarrow> 'w \<Rightarrow> 'b fm_state \<times> 'w" where
  "fm_cancelled env rset req st w =
     (let (now, w) = env_now env w;
          (now', w) = env_now env w
      in fm_done st (Inr (finish rset req now (outcome_cancelled req now'))) w)"

definition fm_starts :: "('w, 'b) env \<Rightarrow> 'b fm_state \<Rightarrow> resolved_start list" where
  "fm_starts env st =
     (case fm_bound st of Some binds \<Rightarrow> starts_from_binds env binds | None \<Rightarrow> fm_resolved st)"

definition fm_top ::
  "('w, 'b) env \<Rightarrow> registration_set \<Rightarrow> live_wait_request \<Rightarrow> 'b fm_state \<Rightarrow> 'w \<Rightarrow> 'b fm_state \<times> 'w" where
  "fm_top env rset req st w =
     (let (cancelled, w) = env_is_cancelled env w
      in if cancelled then fm_cancelled env rset req st w
         else
           let (now, w) = env_now env w
           in case terminal_deadline rset req now (fm_starts env st) of
                Some out \<Rightarrow>
                  let (now', w) = env_now env w in fm_done st (Inr (finish rset req now' out)) w
              | None \<Rightarrow>
                  (case fm_bound st of
                     Some binds \<Rightarrow> (st\<lparr>fm_pc := FM_SelBound (fr_new binds)\<rparr>, w)
                   | None \<Rightarrow>
                       (st\<lparr>fm_pc := FM_SelBind (fr_new (map Fut_Bind (rs_registrations rset)))\<rparr>, w)))"

text \<open>No decision yet: count the attempt and sleep. The flag records the phase.\<close>

definition fm_enter_backoff ::
  "('w, 'b) env \<Rightarrow> live_wait_request \<Rightarrow> bool \<Rightarrow> 'b fm_state \<Rightarrow> 'w \<Rightarrow> 'b fm_state \<times> 'w" where
  "fm_enter_backoff env req phase st w =
     (let step = fm_backoff_step st + 1;
          (sleep_to, w) = backoff_deadline env req step w
      in (st\<lparr>fm_backoff_step := step, fm_pc := FM_Backoff sleep_to phase\<rparr>, w))"

text \<open>The three branches of the \<open>select!\<close> over held binds.\<close>

definition fm_bound_collected ::
  "('w, 'b) env \<Rightarrow> registration_set \<Rightarrow> live_wait_request \<Rightarrow> 'b list \<Rightarrow>
   observation first_ready_output \<Rightarrow> 'b fm_state \<Rightarrow> 'w \<Rightarrow> 'b fm_state \<times> 'w" where
  "fm_bound_collected env rset req binds collected st w =
     (let indexed = indexed_binds binds
      in case fr_error collected of
           Some err \<Rightarrow>
             (case restore_owned env indexed (fr_ready collected) w of
                (Inl err', w) \<Rightarrow> fm_done st (Inl err') w
              | (Inr _, w) \<Rightarrow> fm_done st (Inl err) w)
         | None \<Rightarrow>
             (let (ready, w) = extend_ready_refs env indexed (fr_ready collected) w;
                  (now, w) = env_now env w
              in case decide_and_restore env rset req now indexed ready
                        (starts_from_binds env binds) w of
                   (Inl err, w) \<Rightarrow> fm_done st (Inl err) w
                 | (Inr (Some out), w) \<Rightarrow>
                     (let (now', w) = env_now env w in fm_done st (Inr (finish rset req now' out)) w)
                 | (Inr None, w) \<Rightarrow> fm_enter_backoff env req True st w))"

definition fm_bound_cancel ::
  "('w, 'b) env \<Rightarrow> registration_set \<Rightarrow> live_wait_request \<Rightarrow> 'b list \<Rightarrow>
   ('b, observation) first_ready \<Rightarrow> 'b fm_state \<Rightarrow> 'w \<Rightarrow> 'b fm_state \<times> 'w" where
  "fm_bound_cancel env rset req binds race st w =
     (case restore_owned env (indexed_binds binds) (fst (fr_take_ready 0 race)) w of
        (Inl err, w) \<Rightarrow> fm_done st (Inl err) w
      | (Inr _, w) \<Rightarrow> fm_cancelled env rset req st w)"

definition fm_bound_deadline ::
  "('w, 'b) env \<Rightarrow> registration_set \<Rightarrow> live_wait_request \<Rightarrow> 'b list \<Rightarrow>
   ('b, observation) first_ready \<Rightarrow> 'b fm_state \<Rightarrow> 'w \<Rightarrow> 'b fm_state \<times> 'w" where
  "fm_bound_deadline env rset req binds race st w =
     (let (now, w) = env_now env w;
          indexed = indexed_binds binds
      in case restore_owned env indexed (fst (fr_take_ready 0 race)) w of
           (Inl err, w) \<Rightarrow> fm_done st (Inl err) w
         | (Inr _, w) \<Rightarrow>
             (let (ready, w) = extend_ready_refs env indexed [] w
              in case decide_and_restore env rset req now indexed ready
                        (starts_from_binds env binds) w of
                   (Inl err, w) \<Rightarrow> fm_done st (Inl err) w
                 | (Inr (Some out), w) \<Rightarrow> fm_done st (Inr (finish rset req now out)) w
                 | (Inr None, w) \<Rightarrow>
                     (case terminal_deadline rset req now (starts_from_binds env binds) of
                        Some out \<Rightarrow> fm_done st (Inr (finish rset req now out)) w
                      | None \<Rightarrow> (st\<lparr>fm_pc := FM_Top\<rparr>, w))))"

definition fm_sel_bound ::
  "('w, 'b) env \<Rightarrow> registration_set \<Rightarrow> live_wait_request \<Rightarrow> 'b list \<Rightarrow>
   ('b, observation) first_ready \<Rightarrow> 'b fm_state \<Rightarrow> 'w \<Rightarrow> 'b fm_state \<times> 'w" where
  "fm_sel_bound env rset req binds race st w =
     (case fr_poll (poll_next env) observation_is_terminal race w of
        (Ready collected, _, w) \<Rightarrow> fm_bound_collected env rset req binds collected st w
      | (Pending, race, w) \<Rightarrow>
          (case poll_cancelled env w of
             (Ready _, w) \<Rightarrow> fm_bound_cancel env rset req binds race st w
           | (Pending, w) \<Rightarrow>
               (case env_sleep_until env w (earliest_deadline req) of
                  (Ready _, w) \<Rightarrow> fm_bound_deadline env rset req binds race st w
                | (Pending, w) \<Rightarrow> (st\<lparr>fm_pc := FM_SelBound race\<rparr>, env_park env w))))"

text \<open>The three branches of the \<open>select!\<close> that binds and observes.\<close>

definition fm_bind_collected ::
  "('w, 'b) env \<Rightarrow> registration_set \<Rightarrow> live_wait_request \<Rightarrow>
   ('b \<times> observation) first_ready_output \<Rightarrow> 'b fm_state \<Rightarrow> 'w \<Rightarrow> 'b fm_state \<times> 'w" where
  "fm_bind_collected env rset req collected st w =
     (case fr_error collected of
        Some err \<Rightarrow>
          (case restore_bound_pairs env (fr_ready collected) w of
             (Inl err', w) \<Rightarrow> fm_done st (Inl err') w
           | (Inr _, w) \<Rightarrow> fm_done st (Inl err) w)
      | None \<Rightarrow>
          (let observations = map (\<lambda>(idx, b, obs). (idx, obs)) (fr_ready collected);
               indexed = map (\<lambda>(idx, b, obs). (idx, b)) (fr_ready collected);
               starts = starts_from_indexed env indexed;
               (ready, w) = extend_ready_refs env indexed observations w;
               (now, w) = env_now env w
           in case decide_and_restore env rset req now indexed ready starts w of
                (Inl err, w) \<Rightarrow> fm_done st (Inl err) w
              | (Inr (Some out), w) \<Rightarrow>
                  (let (now', w) = env_now env w in fm_done st (Inr (finish rset req now' out)) w)
              | (Inr None, w) \<Rightarrow>
                  fm_enter_backoff env req False
                    (st\<lparr>fm_bound := Some (map snd (sort_key fst indexed))\<rparr>) w))"

definition fm_bind_cancel ::
  "('w, 'b) env \<Rightarrow> registration_set \<Rightarrow> live_wait_request \<Rightarrow>
   ('b bind_fut, 'b \<times> observation) first_ready \<Rightarrow> 'b fm_state \<Rightarrow> 'w \<Rightarrow> 'b fm_state \<times> 'w" where
  "fm_bind_cancel env rset req race st w =
     (case restore_bound_pairs env (fst (fr_take_ready 0 race)) w of
        (Inl err, w) \<Rightarrow> fm_done st (Inl err) w
      | (Inr _, w) \<Rightarrow> fm_cancelled env rset req st w)"

definition fm_bind_deadline ::
  "('w, 'b) env \<Rightarrow> registration_set \<Rightarrow> live_wait_request \<Rightarrow>
   ('b bind_fut, 'b \<times> observation) first_ready \<Rightarrow> 'b fm_state \<Rightarrow> 'w \<Rightarrow> 'b fm_state \<times> 'w" where
  "fm_bind_deadline env rset req race st w =
     (case restore_bound_pairs env (fst (fr_take_ready 0 race)) w of
        (Inl err, w) \<Rightarrow> fm_done st (Inl err) w
      | (Inr _, w) \<Rightarrow>
          (let (now, w) = env_now env w
           in case terminal_deadline rset req now (fm_resolved st) of
                Some out \<Rightarrow> fm_done st (Inr (finish rset req now out)) w
              | None \<Rightarrow> (st\<lparr>fm_pc := FM_Top\<rparr>, w)))"

definition fm_sel_bind ::
  "('w, 'b) env \<Rightarrow> registration_set \<Rightarrow> live_wait_request \<Rightarrow>
   ('b bind_fut, 'b \<times> observation) first_ready \<Rightarrow> 'b fm_state \<Rightarrow> 'w \<Rightarrow> 'b fm_state \<times> 'w" where
  "fm_sel_bind env rset req race st w =
     (case fr_poll (poll_bind_then_observe env) bound_observation_is_terminal race (w, fm_resolved st) of
        (Ready collected, _, w, rs) \<Rightarrow>
          fm_bind_collected env rset req collected (st\<lparr>fm_resolved := rs\<rparr>) w
      | (Pending, race, w, rs) \<Rightarrow>
          (let st = st\<lparr>fm_resolved := rs\<rparr>
           in case poll_cancelled env w of
                (Ready _, w) \<Rightarrow> fm_bind_cancel env rset req race st w
              | (Pending, w) \<Rightarrow>
                  (case env_sleep_until env w (earliest_deadline req) of
                     (Ready _, w) \<Rightarrow> fm_bind_deadline env rset req race st w
                   | (Pending, w) \<Rightarrow> (st\<lparr>fm_pc := FM_SelBind race\<rparr>, env_park env w))))"

text \<open>\<open>sleep_backoff\<close>, then the check of the bound phase, then the loop again.\<close>

definition fm_backoff ::
  "('w, 'b) env \<Rightarrow> registration_set \<Rightarrow> live_wait_request \<Rightarrow> timestamp \<Rightarrow> bool \<Rightarrow>
   'b fm_state \<Rightarrow> 'w \<Rightarrow> 'b fm_state \<times> 'w" where
  "fm_backoff env rset req sleep_to phase st w =
     (let woken = (\<lambda>w.
            if phase then
              let (cancelled, w) = env_is_cancelled env w
              in if cancelled then fm_cancelled env rset req st w else (st\<lparr>fm_pc := FM_Top\<rparr>, w)
            else (st\<lparr>fm_pc := FM_Top\<rparr>, w))
      in case poll_cancelled env w of
           (Ready _, w) \<Rightarrow> woken w
         | (Pending, w) \<Rightarrow>
             (case env_sleep_until env w sleep_to of
                (Ready _, w) \<Rightarrow> woken w
              | (Pending, w) \<Rightarrow> (st, env_park env w)))"

definition fm_step ::
  "('w, 'b) env \<Rightarrow> registration_set \<Rightarrow> live_wait_request \<Rightarrow> 'b fm_state \<times> 'w \<Rightarrow> 'b fm_state \<times> 'w" where
  "fm_step env rset req c =
     (case c of (st, w) \<Rightarrow>
        (case fm_pc st of
           FM_Top \<Rightarrow> fm_top env rset req st w
         | FM_SelBound race \<Rightarrow>
             (case fm_bound st of
                Some binds \<Rightarrow> fm_sel_bound env rset req binds race st w
              | None \<Rightarrow> (st, w))
         | FM_SelBind race \<Rightarrow> fm_sel_bind env rset req race st w
         | FM_Backoff sleep_to phase \<Rightarrow> fm_backoff env rset req sleep_to phase st w
         | FM_Done r \<Rightarrow> (st, w)))"

fun fm_run ::
  "('w, 'b) env \<Rightarrow> registration_set \<Rightarrow> live_wait_request \<Rightarrow> nat \<Rightarrow> 'b fm_state \<times> 'w \<Rightarrow> 'b fm_state \<times> 'w" where
  "fm_run env rset req 0 c = c"
| "fm_run env rset req (Suc n) c = fm_run env rset req n (fm_step env rset req c)"

text \<open>\<open>run_first_match\<close> with a bound on the number of steps; \<open>None\<close> is still waiting.\<close>

definition run_first_match ::
  "('w, 'b) env \<Rightarrow> registration_set \<Rightarrow> live_wait_request \<Rightarrow> nat \<Rightarrow> 'w \<Rightarrow>
   (error + live_wait_outcome) option \<times> 'w" where
  "run_first_match env rset req fuel w =
     (case fm_resolve rset req of
        Inl err \<Rightarrow> (Some (Inl err), w)
      | Inr _ \<Rightarrow>
          (let (st, w) = fm_run env rset req fuel (fm_init, w)
           in case fm_pc st of FM_Done r \<Rightarrow> (Some r, w) | _ \<Rightarrow> (None, w)))"

end
