(* ===== verification/First_Match_Run.thy ===== *)
theory First_Match_Run
  imports First_Match
begin

text \<open>
  What the first-match loop guarantees: events are never lost in transit (custody), the
  outcome it returns satisfies the contract of its kind, and the loop returns.
\<close>

section \<open>Custody of the restore and drain operations\<close>

lemma map_of_snoc:
  assumes "i \<notin> fst ` set xs"
  shows "map_of (xs @ [(i, v)]) = (map_of xs)(i \<mapsto> v)"
proof -
  from assms have "map_of xs i = None" by (simp add: map_of_eq_None_iff)
  then show ?thesis by (rule_tac ext) (auto simp: map_add_def split: option.splits)
qed

lemma map_of_filter_key: "map_of (filter (\<lambda>(i, _). P i) xs) i = (if P i then map_of xs i else None)"
  by (induction xs) auto

lemma map_of_split:
  "map_of (filter (\<lambda>(i, _). \<not> P i) xs) ++ map_of (filter (\<lambda>(i, _). P i) xs) = map_of xs"
  by (rule ext) (simp add: map_add_def map_of_filter_key split: option.splits)

lemma find_SomeD: "find P xs = Some x \<Longrightarrow> x \<in> set xs \<and> P x"
  by (induction xs) (auto split: if_splits)

lemma bind_at_Some: "bind_at binds i = Some b \<Longrightarrow> (i, b) \<in> set binds"
  by (auto simp: bind_at_def dest!: find_SomeD)

lemma bind_at_None: "bind_at binds i = None \<longleftrightarrow> i \<notin> fst ` set binds"
  by (auto simp: bind_at_def find_None_iff image_iff)

definition binds_ok :: "('w, 'b) env \<Rightarrow> nat \<Rightarrow> (nat \<Rightarrow> id_token) \<Rightarrow> (nat \<times> 'b) list \<Rightarrow> bool" where
  "binds_ok env n ids binds \<longleftrightarrow> (\<forall>(i, b) \<in> set binds. i < n \<and> env_registration_id env b = ids i)"

lemma binds_ok_Cons [simp]:
  "binds_ok env n ids ((i, b) # binds) \<longleftrightarrow>
     i < n \<and> env_registration_id env b = ids i \<and> binds_ok env n ids binds"
  by (simp add: binds_ok_def)

lemma bind_at_ok:
  "binds_ok env n ids binds \<Longrightarrow> bind_at binds i = Some b \<Longrightarrow> i < n \<and> env_registration_id env b = ids i"
  by (auto simp: binds_ok_def dest!: bind_at_Some)

lemma restore_except_filter:
  "restore_except env binds winner ready w =
     restore_owned env binds (filter (\<lambda>(i, _). Some i \<noteq> winner) ready) w"
  by (induction env binds winner ready w rule: restore_except.induct)
    (auto split: option.splits prod.splits sum.splits)

context observer_restores
begin

lemma next_custody:
  assumes "env_next env w b = (Ready (Inr obs), w')" and "inj_on ids {..<n}" "i < n" "m i = None"
    and "env_registration_id env b = ids i" and "conserved F0 (held n ids m) (front w)"
  shows "conserved F0 (held n ids (m(i \<mapsto> obs))) (front w')"
proof (cases obs)
  case (Obs_Event e)
  with assms next_event [of w b e w'] show ?thesis
    using conserved_took [OF assms(6)] held_event [OF assms(2,3), of m e] by metis
qed (use assms next_other [OF assms(1)] in \<open>auto simp: held_signal\<close>)

lemma poll_ready_custody:
  assumes "env_poll_ready env w b = (Some obs, w')" and "inj_on ids {..<n}" "i < n" "m i = None"
    and "env_registration_id env b = ids i" and "conserved F0 (held n ids m) (front w)"
  shows "conserved F0 (held n ids (m(i \<mapsto> obs))) (front w')"
proof (cases obs)
  case (Obs_Event e)
  with assms poll_ready_event [of w b e w'] show ?thesis
    using conserved_took [OF assms(6)] held_event [OF assms(2,3), of m e] by metis
qed (use assms poll_ready_other [OF assms(1)] in \<open>auto simp: held_signal\<close>)

lemma restore_custody:
  assumes "env_restore_ready env w b (Obs_Event e) = (r, w')" and "inj_on ids {..<n}" "i < n" "m i = None"
    and "env_registration_id env b = ids i"
    and "conserved F0 (held n ids (m(i \<mapsto> Obs_Event e))) (front w)"
  shows "r = Inr () \<and> conserved F0 (held n ids m) (front w')"
  using restore_event_ok [OF assms(1)] assms(5,6) conserved_restore
  unfolding held_event [where m = m and i = i, OF assms(2-4)] by metis

lemma extend_ready_custody:
  "extend_ready_refs env binds ready w = (ready', w') \<Longrightarrow> inj_on ids {..<n} \<Longrightarrow>
   binds_ok env n ids binds \<Longrightarrow> distinct (map fst ready) \<Longrightarrow>
   conserved F0 (held n ids (map_of ready)) (front w) \<Longrightarrow>
   conserved F0 (held n ids (map_of ready')) (front w') \<and> distinct (map fst ready') \<and>
   fst ` set ready \<subseteq> fst ` set ready' \<and> fst ` set ready' \<subseteq> fst ` set ready \<union> fst ` set binds"
proof (induction binds arbitrary: ready w)
  case (Cons p binds)
  obtain i b where p: "p = (i, b)" by (cases p)
  show ?case
  proof (cases "i \<in> fst ` set ready")
    case True
    then have "list_ex (\<lambda>(have_idx, _). have_idx = i) ready"
      by (auto simp: list_ex_iff)
    with Cons.prems(1) p have "extend_ready_refs env binds ready w = (ready', w')"
      by simp
    from Cons.IH [OF this Cons.prems(2)] Cons.prems(3-5) p show ?thesis
      by (simp add: p) blast
  next
    case False
    then have no: "\<not> list_ex (\<lambda>(have_idx, _). have_idx = i) ready" and none: "map_of ready i = None"
      by (force simp: list_ex_iff map_of_eq_None_iff)+
    show ?thesis
    proof (cases "env_poll_ready env w b")
      case (Pair q w1)
      show ?thesis
      proof (cases q)
        case None
        then have e: "extend_ready_refs env binds ready w1 = (ready', w')"
          using Cons.prems(1) no Pair by (simp add: p)
        have "front w1 = front w"
          using poll_ready_other [OF Pair] None by simp
        with Cons.IH [OF e Cons.prems(2)] Cons.prems(3-5) p show ?thesis
          by (simp add: p) blast
      next
        case (Some obs)
        let ?r = "ready @ [(i, obs)]"
        have "conserved F0 (held n ids (map_of ?r)) (front w1)"
          using poll_ready_custody [of w b obs w1 ids n i "map_of ready" F0] Pair Some Cons.prems none False
          by (simp add: p map_of_snoc del: map_of_append fun_upd_apply)
        moreover have "extend_ready_refs env binds ?r w1 = (ready', w')"
          using Cons.prems(1) no Pair Some by (simp add: p)
        moreover have "distinct (map fst ?r)"
          using Cons.prems False by auto
        ultimately have "conserved F0 (held n ids (map_of ready')) (front w') \<and> distinct (map fst ready') \<and>
            fst ` set ?r \<subseteq> fst ` set ready' \<and> fst ` set ready' \<subseteq> fst ` set ?r \<union> fst ` set binds"
          using Cons.IH [of ?r w1] Cons.prems(2,3) p by simp
        then show ?thesis by (simp add: p)
      qed
    qed
  qed
qed simp

lemma restore_owned_custody:
  "restore_owned env binds ready w = (r, w') \<Longrightarrow> inj_on ids {..<n} \<Longrightarrow> binds_ok env n ids binds \<Longrightarrow>
   distinct (map fst ready) \<Longrightarrow> fst ` set ready \<subseteq> fst ` set binds \<Longrightarrow>
   (\<And>i. i \<in> fst ` set ready \<Longrightarrow> k i = None) \<Longrightarrow>
   conserved F0 (held n ids (k ++ map_of ready)) (front w) \<Longrightarrow>
   r = Inr () \<and> conserved F0 (held n ids k) (front w')"
proof (induction ready arbitrary: w)
  case (Cons p ready)
  obtain i obs where p: "p = (i, obs)" by (cases p)
  let ?m = "k ++ map_of ready"
  have none: "?m i = None"
    using Cons.prems(4,6) by (auto simp: p map_add_None map_of_eq_None_iff)
  have c: "conserved F0 (held n ids (?m(i \<mapsto> obs))) (front w)"
    using Cons.prems(7) by (simp add: p map_add_upd del: fun_upd_apply)
  note ih = Cons.IH [OF _ Cons.prems(2,3)]
  show ?case
  proof (cases "observation_is_replayable obs")
    case False
    with c none have "conserved F0 (held n ids ?m) (front w)"
      by (simp add: held_signal del: fun_upd_apply)
    with ih [of w] Cons.prems False show ?thesis by (auto simp: p)
  next
    case True
    then obtain e where e: "obs = Obs_Event e" by (rule replayable_cases)
    from Cons.prems(5) p obtain b where b: "bind_at binds i = Some b"
      using bind_at_None [of binds i] by auto
    obtain r1 w1 where r1: "env_restore_ready env w b obs = (r1, w1)" by fastforce
    have "r1 = Inr () \<and> conserved F0 (held n ids ?m) (front w1)"
      using restore_custody [OF r1 [unfolded e] Cons.prems(2) _ none _ c [unfolded e]]
        bind_at_ok [OF Cons.prems(3) b] by blast
    with ih [of w1] Cons.prems r1 b e show ?thesis by (auto simp: p)
  qed
qed simp

text \<open>Restoring everything a race handed over leaves the providers as they were.\<close>

lemmas restore_all_custody =
  restore_owned_custody [where k = Map.empty, simplified]

lemma restore_losers_custody:
  assumes "restore_losers env binds ready w = (r, w')" and "inj_on ids {..<n}" "binds_ok env n ids binds"
    and "distinct (map fst ready)" "fst ` set ready \<subseteq> fst ` set binds"
    and "conserved F0 (held n ids (map_of ready)) (front w)"
  shows "r = Inr () \<and>
    conserved F0 (held n ids (map_of (filter (\<lambda>(i, _). Some i = event_winner_idx ready) ready))) (front w')"
proof -
  let ?P = "\<lambda>i. Some i \<noteq> event_winner_idx ready"
  let ?losers = "filter (\<lambda>(i, _). ?P i) ready" and ?won = "filter (\<lambda>(i, _). \<not> ?P i) ready"
  have c: "conserved F0 (held n ids (map_of ?won ++ map_of ?losers)) (front w)"
    unfolding map_of_split by (rule assms(6))
  have l: "restore_owned env binds ?losers w = (r, w')"
    using assms(1) by (simp add: restore_losers_def restore_except_filter)
  have s: "fst ` set ?losers \<subseteq> fst ` set binds"
    using assms(5) by auto
  have k: "map_of ?won i = None" if "i \<in> fst ` set ?losers" for i
    using that map_of_filter_key [where P = "\<lambda>i. \<not> ?P i" and xs = ready and i = i] by auto
  have "r = Inr () \<and> conserved F0 (held n ids (map_of ?won)) (front w')"
    by (rule restore_owned_custody [OF l assms(2,3) distinct_map_filter [OF assms(4)] s k c])
  then show ?thesis by simp
qed

end

section \<open>The decision\<close>

lemma min_by_key_map: "min_by_key id (map f xs) = map_option f (min_by_key f xs)"
  by (induction xs) (auto split: option.splits)

lemma event_winner_idx_eq: "event_winner_idx ready = map_option fst (min_by_key fst (ready_events ready))"
  by (simp add: event_winner_idx_def min_by_key_map)

lemma set_ready_events: "set (ready_events ready) = {(i, ev). (i, Obs_Event ev) \<in> set ready}"
  by (force simp: ready_events_def set_filter_map split: observation.splits)

lemma ready_failed_None: "ready_failed ready = None \<longleftrightarrow> (\<forall>(i, obs) \<in> set ready. obs_reason obs = None)"
proof -
  have "fold (\<lambda>(_, obs) acc. case obs_reason obs of Some r \<Rightarrow> Some (id_str r) | None \<Rightarrow> acc) ready acc = None
      \<longleftrightarrow> acc = None \<and> (\<forall>(i, obs) \<in> set ready. obs_reason obs = None)" for acc
    by (induction ready arbitrary: acc) (auto split: option.splits)
  then show ?thesis by (simp add: ready_failed_def)
qed

lemma decide_None:
  assumes d: "decide rset req now ready resolved = None" and obs: "(i, obs) \<in> set ready"
  shows "obs = Obs_Idle"
proof -
  from d have o: "\<not> ready_overflow ready" and e: "ready_events ready = []" and f: "ready_failed ready = None"
    by (auto simp: decide_def Let_def split: if_splits option.splits list.splits)
  from f obs have "obs_reason obs = None" by (auto simp: ready_failed_None)
  moreover from e obs have "obs \<noteq> Obs_Event ev" for ev
    using set_ready_events [of ready] by auto
  moreover from o obs have "obs \<noteq> Obs_Overflow" by (auto simp: ready_overflow_def list_ex_iff)
  ultimately show ?thesis by (cases obs) auto
qed

text \<open>The winner of a positive decision is the ready event of the least arm index.\<close>

definition wins :: "(nat \<times> observation) list \<Rightarrow> nat \<Rightarrow> wait_event \<Rightarrow> bool" where
  "wins ready i ev \<longleftrightarrow> (i, Obs_Event ev) \<in> set ready \<and> (\<forall>j e. (j, Obs_Event e) \<in> set ready \<longrightarrow> i \<le> j)
     \<and> event_winner_idx ready = Some i"

lemma decide_Some:
  assumes "decide rset req now ready resolved = Some out"
  obtains
    (winner) i ev where "wins ready i ev" "lo_events out = Some [ev]" "lo_outcome_kind out \<in> {Events, Partial}"
      "lo_outcome_kind out = Partial \<longleftrightarrow> ready_overflow ready"
  | (failed) "event_winner_idx ready = None" "lo_outcome_kind out = Failed" "lo_events out = Some []"
proof (cases "min_by_key fst (ready_events ready)")
  case None
  with assms show ?thesis
    by (intro failed) (auto simp: decide_def event_winner_idx_eq outcome_failed_def live_base_def split: if_splits option.splits list.splits)
next
  case (Some w)
  obtain i ev where w: "w = (i, ev)" by (cases w)
  from min_by_key_Some [OF Some] have "wins ready i ev"
    unfolding wins_def set_ready_events event_winner_idx_eq Some w by auto
  moreover from Some have "ready_events ready \<noteq> []" by auto
  ultimately show ?thesis
    using assms Some w
    by (intro winner [of i ev])
      (auto simp: decide_def Let_def outcome_events_def outcome_partial_def live_base_def
        split: if_splits option.splits list.splits)
qed

text \<open>A posture that was acceptable can only turn into an expired lease.\<close>

lemma posture_reject_later:
  "posture_reject rset req now = None \<Longrightarrow> posture_reject rset req now' = Some out \<Longrightarrow>
   lo_outcome_kind out = ReauthenticationRequired"
  by (auto simp: posture_reject_def split: if_splits)

lemma posture_reject_kind:
  "posture_reject rset req now = Some out \<Longrightarrow> lo_outcome_kind out \<in> {Refused, ReauthenticationRequired}"
  by (auto simp: posture_reject_def split: if_splits)

lemma finish_cases:
  obtains "finish rset req now out = out"
  | rejected where "finish rset req now out = rejected" "posture_reject rset req now = Some rejected"
      "lo_outcome_kind out \<notin> {Cancelled, Failed, Refused, ReauthenticationRequired}"
  by (cases "lo_outcome_kind out \<in> {Cancelled, Failed, Refused, ReauthenticationRequired}";
      cases "posture_reject rset req now") (auto simp: finish_def)

lemma terminal_deadline_kind:
  "terminal_deadline rset req now resolved = Some out \<Longrightarrow>
   lo_outcome_kind out \<in> {Failed, LogicalDeadman, NoChange}"
  by (auto simp: terminal_deadline_def Let_def split: if_splits)

section \<open>What a finished run has taken\<close>

definition arm_reg_id :: "registration_set \<Rightarrow> nat \<Rightarrow> id_token" where
  "arm_reg_id rset i = reg_id (rs_registrations rset ! i)"

definition arm_count :: "registration_set \<Rightarrow> nat" where
  "arm_count rset = length (rs_registrations rset)"

definition distinct_arms :: "registration_set \<Rightarrow> bool" where
  "distinct_arms rset = distinct (map reg_id (rs_registrations rset))"

lemma arm_reg_id_inj: "distinct_arms rset \<Longrightarrow> inj_on (arm_reg_id rset) {..<arm_count rset}"
  by (auto simp: distinct_arms_def arm_count_def arm_reg_id_def inj_on_def distinct_conv_nth)

definition one_taken :: "id_token \<Rightarrow> wait_event \<Rightarrow> id_token \<Rightarrow> wait_event list" where
  "one_taken r ev = (\<lambda>_. [])(r := [ev])"

text \<open>
  \<open>fm_custody\<close>: against the start, a run that reports an event has taken exactly that event from
  one arm; a run that demands reauthentication has taken at most one event; any other run,
  failed ones included, has taken nothing.
\<close>

definition fm_custody ::
  "registration_set \<Rightarrow> (id_token \<Rightarrow> wait_event list) \<Rightarrow> error + live_wait_outcome \<Rightarrow>
   (id_token \<Rightarrow> wait_event list) \<Rightarrow> bool" where
  "fm_custody rset F0 r F \<longleftrightarrow>
     (case r of
        Inl err \<Rightarrow> conserved F0 (\<lambda>_. []) F
      | Inr out \<Rightarrow>
          (if lo_outcome_kind out \<in> {Events, Partial}
           then \<exists>i < arm_count rset. \<exists>ev. lo_events out = Some [ev] \<and>
                  conserved F0 (one_taken (arm_reg_id rset i) ev) F
           else if lo_outcome_kind out = ReauthenticationRequired
           then conserved F0 (\<lambda>_. []) F \<or>
                  (\<exists>i < arm_count rset. \<exists>ev. conserved F0 (one_taken (arm_reg_id rset i) ev) F)
           else conserved F0 (\<lambda>_. []) F))"

lemma fm_custody_none:
  "conserved F0 (\<lambda>_. []) F \<Longrightarrow> (case r of Inl _ \<Rightarrow> True | Inr out \<Rightarrow> lo_outcome_kind out \<notin> {Events, Partial}) \<Longrightarrow>
   fm_custody rset F0 r F"
  by (auto simp: fm_custody_def split: sum.splits)

lemma fm_custody_finish_none:
  assumes "conserved F0 (\<lambda>_. []) F" "lo_outcome_kind out \<notin> {Events, Partial}"
  shows "fm_custody rset F0 (Inr (finish rset req now out)) F"
  by (rule finish_cases [of rset req now out])
    (use assms posture_reject_kind in \<open>force intro!: fm_custody_none\<close>)+

lemma fm_custody_finish:
  assumes c: "fm_custody rset F0 (Inr out) F"
    and p: "lo_outcome_kind out \<in> {Events, Partial} \<Longrightarrow> posture_reject rset req now = None"
  shows "fm_custody rset F0 (Inr (finish rset req now' out)) F"
proof (cases rule: finish_cases [of rset req now' out])
  case 1
  with c show ?thesis by simp
next
  case (2 rejected)
  show ?thesis
  proof (cases "lo_outcome_kind out \<in> {Events, Partial}")
    case True
    from posture_reject_later [OF p [OF True] 2(2)]
    have "lo_outcome_kind rejected = ReauthenticationRequired" .
    with c True 2(1) show ?thesis by (auto simp: fm_custody_def)
  next
    case False
    with c 2(3) have "conserved F0 (\<lambda>_. []) F" by (auto simp: fm_custody_def split: if_splits)
    with False show ?thesis by (intro fm_custody_finish_none)
  qed
qed

lemma held_single:
  assumes "inj_on ids {..<n}" "i < n" "distinct (map fst ready)" "(i, Obs_Event ev) \<in> set ready"
  shows "held n ids (map_of (filter (\<lambda>(j, _). Some j = Some i) ready)) = one_taken (ids i) ev"
proof -
  have "map_of (filter (\<lambda>(j, _). Some j = Some i) ready) = (\<lambda>_. None)(i \<mapsto> Obs_Event ev)"
    using assms(3,4) by (intro ext) (simp add: map_of_filter_key [where P = "\<lambda>j. j = i"])
  with held_event [where m = "\<lambda>_. None" and i = i and e = ev, OF assms(1,2)] show ?thesis
    by (simp add: one_taken_def)
qed

section \<open>Custody of the step function\<close>

lemma indexed_binds_fst: "map fst (indexed_binds binds) = [0..<length binds]"
  by (simp add: indexed_binds_def)

lemma indexed_binds_dom: "fst ` set (indexed_binds binds) = {..<length binds}"
  using arg_cong [OF indexed_binds_fst, of set binds] by auto

lemma indexed_binds_ok:
  "\<forall>i < length binds. env_registration_id env (binds ! i) = ids i \<Longrightarrow>
   binds_ok env (length binds) ids (indexed_binds binds)"
  by (auto simp: binds_ok_def indexed_binds_def enumerate_nth)

context observer_restores
begin

lemma decide_and_restore_custody:
  assumes d: "decide_and_restore env rset req now binds ready resolved w = (r, w')"
    and inj: "distinct_arms rset" and b: "binds_ok env (arm_count rset) (arm_reg_id rset) binds"
    and dist: "distinct (map fst ready)" and sub: "fst ` set ready \<subseteq> fst ` set binds"
    and c: "conserved F0 (held (arm_count rset) (arm_reg_id rset) (map_of ready)) (front w)"
  obtains
    (some) out where "r = Inr (Some out)" "fm_custody rset F0 (Inr out) (front w')"
      "lo_outcome_kind out \<in> {Events, Partial} \<Longrightarrow> posture_reject rset req now = None"
  | (none) "r = Inr None" "w' = w" "conserved F0 (\<lambda>_. []) (front w')" "\<And>i obs. (i, obs) \<in> set ready \<Longrightarrow> obs = Obs_Idle"
proof (cases "decide rset req now ready resolved")
  case None
  let ?n = "arm_count rset" and ?ids = "arm_reg_id rset"
  from None d have r: "r = Inr None" "w' = w" by (auto simp: decide_and_restore_def)
  have idle: "obs = Obs_Idle" if "(i, obs) \<in> set ready" for i obs
    using decide_None [OF None that] .
  then have "held ?n ?ids (map_of ready) = (\<lambda>_. [])"
    by (intro held_none) (fastforce dest: map_of_SomeD)
  with c r have "conserved F0 (\<lambda>_. []) (front w')" by simp
  from none [OF r this idle] show ?thesis .
next
  case (Some out)
  note inj = arm_reg_id_inj [OF inj]
  show ?thesis
  proof (cases "posture_reject rset req now")
    case (Some rejected)
    obtain r1 w1 where r1: "restore_owned env binds ready w = (r1, w1)" by fastforce
    from restore_all_custody [OF r1 inj b dist sub c]
    have "r1 = Inr ()" "conserved F0 (\<lambda>_. []) (front w1)" by simp_all
    with d r1 Some \<open>decide rset req now ready resolved = Some out\<close>
    have "r = Inr (Some rejected)" "conserved F0 (\<lambda>_. []) (front w')"
      by (auto simp: decide_and_restore_def)
    with posture_reject_kind [OF Some] show ?thesis
      by (intro some [of rejected]) (auto intro: fm_custody_none)
  next
    case None
    obtain r1 w1 where r1: "restore_losers env binds ready w = (r1, w1)" by fastforce
    from restore_losers_custody [OF r1 inj b dist sub c]
    have ok: "r1 = Inr ()" and c1: "conserved F0 (held (arm_count rset) (arm_reg_id rset)
        (map_of (filter (\<lambda>(i, _). Some i = event_winner_idx ready) ready))) (front w1)" by simp_all
    with d r1 None Some have r: "r = Inr (Some out)" "w' = w1"
      by (auto simp: decide_and_restore_def)
    have "fm_custody rset F0 (Inr out) (front w')"
      using Some
    proof (cases rule: decide_Some)
      case (winner i ev)
      from winner(1) sub b have "i < arm_count rset" by (force simp: wins_def binds_ok_def)
      moreover from this c1 winner held_single [OF inj this dist, of ev]
      have "conserved F0 (one_taken (arm_reg_id rset i) ev) (front w')"
        by (simp add: wins_def r)
      ultimately show ?thesis using winner by (auto simp: fm_custody_def)
    next
      case failed
      with c1 show ?thesis by (intro fm_custody_none) (auto simp: r)
    qed
    with r None show ?thesis by (intro some [of out])
  qed
qed

end

lemma restore_bound_pairs_eq:
  "\<forall>(i, b, obs) \<in> set ready. bind_at binds i = Some b \<Longrightarrow>
   restore_bound_pairs env ready w = restore_owned env binds (map (\<lambda>(i, b, obs). (i, obs)) ready) w"
  by (induction ready arbitrary: w) (auto split: sum.splits prod.splits)

lemma bind_at_distinct: "distinct (map fst binds) \<Longrightarrow> (i, b) \<in> set binds \<Longrightarrow> bind_at binds i = Some b"
  by (induction binds) (force simp: bind_at_def)+

text \<open>Values a quiet race holds are not worth restoring: restoring them does nothing.\<close>

lemma restore_owned_quiet:
  "\<forall>(i, obs) \<in> set ready. \<not> observation_is_replayable obs \<Longrightarrow> restore_owned env binds ready w = (Inr (), w)"
  by (induction ready) auto

lemma restore_bound_pairs_quiet:
  "\<forall>(i, b, obs) \<in> set ready. \<not> observation_is_replayable obs \<Longrightarrow> restore_bound_pairs env ready w = (Inr (), w)"
  by (induction ready) auto

lemma not_terminal_Idle: "\<not> observation_is_terminal obs \<longleftrightarrow> obs = Obs_Idle"
  by (simp add: observation_is_terminal_def)

lemma take_ready_quiet:
  "race_quiet observation_is_terminal race \<Longrightarrow>
   \<forall>(i, obs) \<in> set (fst (fr_take_ready 0 race)). \<not> observation_is_replayable obs"
  by (auto simp: race_quiet_def not_terminal_Idle dest!: fr_take_ready_mem)

lemma take_ready_bound_quiet:
  "race_quiet bound_observation_is_terminal race \<Longrightarrow>
   \<forall>(i, b, obs) \<in> set (fst (fr_take_ready 0 race)). \<not> observation_is_replayable obs"
  by (fastforce simp: race_quiet_def bound_observation_is_terminal_def not_terminal_Idle dest!: fr_take_ready_mem)

lemma held_quiet:
  "race_quiet observation_is_terminal race \<Longrightarrow> held n ids (slots race) = (\<lambda>_. [])"
  by (rule held_none) (auto simp: observation_is_terminal_def dest!: race_quiet_slots)

definition bound_ok :: "('w, 'b) env \<Rightarrow> registration_set \<Rightarrow> 'b list \<Rightarrow> bool" where
  "bound_ok env rset binds \<longleftrightarrow> length binds = arm_count rset \<and>
     (\<forall>i < arm_count rset. env_registration_id env (binds ! i) = arm_reg_id rset i)"

definition next_fut_ok :: "('w, 'b) env \<Rightarrow> registration_set \<Rightarrow> nat \<Rightarrow> 'b \<Rightarrow> bool" where
  "next_fut_ok env rset i b \<longleftrightarrow> i < arm_count rset \<and> env_registration_id env b = arm_reg_id rset i"

definition bind_fut_ok :: "('w, 'b) env \<Rightarrow> registration_set \<Rightarrow> nat \<Rightarrow> 'b bind_fut \<Rightarrow> bool" where
  "bind_fut_ok env rset i fut \<longleftrightarrow>
     (case fut of Fut_Bind reg \<Rightarrow> i < arm_count rset \<and> reg_id reg = arm_reg_id rset i
      | Fut_Next b \<Rightarrow> next_fut_ok env rset i b)"

text \<open>
  The invariant of the loop. Between polls the runner holds no event: every event has been
  reported or put back.
\<close>

definition fm_inv ::
  "('w, 'b) env \<Rightarrow> ('w \<Rightarrow> id_token \<Rightarrow> wait_event list) \<Rightarrow> (id_token \<Rightarrow> wait_event list) \<Rightarrow>
   registration_set \<Rightarrow> 'b fm_state \<times> 'w \<Rightarrow> bool" where
  "fm_inv env front F0 rset c \<longleftrightarrow>
     (case c of (st, w) \<Rightarrow>
        (\<forall>binds. fm_bound st = Some binds \<longrightarrow> bound_ok env rset binds) \<and>
        (case fm_pc st of
           FM_Done r \<Rightarrow> fm_custody rset F0 r (front w)
         | FM_SelBound race \<Rightarrow>
             fm_bound st \<noteq> None \<and> length race = arm_count rset \<and> race_quiet observation_is_terminal race \<and>
             futs_ok (next_fut_ok env rset) 0 race \<and> conserved F0 (\<lambda>_. []) (front w)
         | FM_SelBind race \<Rightarrow>
             length race = arm_count rset \<and> (\<forall>a \<in> set race. arm_live a) \<and>
             race_quiet bound_observation_is_terminal race \<and>
             (\<forall>i b obs. slots race i = Some (b, obs) \<longrightarrow> next_fut_ok env rset i b) \<and>
             futs_ok (bind_fut_ok env rset) 0 race \<and> conserved F0 (\<lambda>_. []) (front w)
         | _ \<Rightarrow> conserved F0 (\<lambda>_. []) (front w)))"

definition bind_vals ::
  "('w, 'b) env \<Rightarrow> ('w \<Rightarrow> id_token \<Rightarrow> wait_event list) \<Rightarrow> (id_token \<Rightarrow> wait_event list) \<Rightarrow>
   registration_set \<Rightarrow> (nat \<Rightarrow> ('b \<times> observation) option) \<Rightarrow> 'w \<times> resolved_start list \<Rightarrow> bool" where
  "bind_vals env front F0 rset m wr \<longleftrightarrow>
     (\<forall>i b obs. m i = Some (b, obs) \<longrightarrow> next_fut_ok env rset i b) \<and>
     conserved F0 (held (arm_count rset) (arm_reg_id rset) (\<lambda>i. map_option snd (m i))) (front (fst wr))"

lemma poll_bindE:
  assumes p: "poll_bind_then_observe env fut (w, rs) = (r, f', wr')"
  obtains
    (observe) b w1 rs1 where "poll_observe env b (w1, rs1) = (r, f', wr')"
      "fut = Fut_Next b \<and> w1 = w \<and> rs1 = rs \<or>
       (\<exists>reg. fut = Fut_Bind reg \<and> env_bind env w reg = (Ready (Inr b), w1) \<and> rs1 = rs @ [resolved_of env b])"
  | (waiting) reg q w1 where "fut = Fut_Bind reg" "env_bind env w reg = (q, w1)" "f' = fut" "wr' = (w1, rs)"
      "\<And>v. r \<noteq> Ready (Inr v)"
proof (cases fut)
  case (Fut_Bind reg)
  obtain q w1 where q: "env_bind env w reg = (q, w1)" by fastforce
  from p Fut_Bind q show ?thesis
    by (auto simp: poll_bind_then_observe_def split: poll.splits sum.splits intro: observe waiting)
next
  case (Fut_Next b)
  with p show ?thesis by (intro observe [of b w rs]) (auto simp: poll_bind_then_observe_def)
qed

lemma extend_ready_refs_incl:
  "extend_ready_refs env binds ready w = (ready', w') \<Longrightarrow> set ready \<subseteq> set ready'"
  by (induction env binds ready w arbitrary: ready' w' rule: extend_ready_refs.induct)
    (fastforce split: if_splits option.splits prod.splits)+

context observer_restores
begin

lemma poll_next_race:
  assumes inj: "inj_on ids {..<n}"
  shows "race_inv (poll_next env) (\<lambda>i b. i < n \<and> env_registration_id env b = ids i)
           (\<lambda>m w. conserved F0 (held n ids m) (front w))"
proof (rule race_invI)
  fix i m b w v b' w'
  assume f: "i < n \<and> env_registration_id env b = ids i" and m: "m i = None"
    and c: "conserved F0 (held n ids m) (front w)"
  {
    assume "poll_next env b w = (Ready (Inr v), b', w')"
    then have "env_next env w b = (Ready (Inr v), w')" by (simp add: poll_next_def split: prod.splits)
    from next_custody [where m = m and i = i, OF this inj _ m _ c] f
    show "conserved F0 (held n ids (m(i \<mapsto> v))) (front w')" by simp
  next
    fix err
    assume "poll_next env b w = (Ready (Inl err), b', w')"
    then have "env_next env w b = (Ready (Inl err), w')" by (simp add: poll_next_def split: prod.splits)
    from next_other [OF this] c show "conserved F0 (held n ids m) (front w')" by simp
  next
    assume p: "poll_next env b w = (Pending, b', w')"
    then have "env_next env w b = (Pending, w')" by (simp add: poll_next_def split: prod.splits)
    from next_other [OF this] c f p
    show "conserved F0 (held n ids m) (front w') \<and> i < n \<and> env_registration_id env b' = ids i"
      by (simp add: poll_next_def split: prod.splits)
  }
qed

lemma poll_next_inv:
  assumes "distinct_arms rset"
  shows "race_inv (poll_next env) (next_fut_ok env rset)
           (\<lambda>m w. conserved F0 (held (arm_count rset) (arm_reg_id rset) m) (front w))"
  using poll_next_race [OF arm_reg_id_inj [OF assms]] by (simp add: next_fut_ok_def [abs_def])

lemma poll_observe_vals:
  assumes p: "poll_observe env b (w, rs) = (r, f', w', rs')" and "distinct_arms rset"
    and f: "next_fut_ok env rset i b" and m: "m i = None" and v: "bind_vals env front F0 rset m (w, rs)"
  shows "f' = Fut_Next b" "r = Ready (Inr (b1, obs)) \<Longrightarrow> bind_vals env front F0 rset (m(i \<mapsto> (b1, obs))) (w', rs')"
    "(\<And>v. r \<noteq> Ready (Inr v)) \<Longrightarrow> bind_vals env front F0 rset m (w', rs')"
proof -
  obtain q w1 where q: "env_next env w b = (q, w1)" by fastforce
  from p q show "f' = Fut_Next b"
    by (auto simp: poll_observe_def split: poll.splits sum.splits)
  have c: "conserved F0 (held (arm_count rset) (arm_reg_id rset) (\<lambda>i. map_option snd (m i))) (front w)"
    using v by (simp add: bind_vals_def)
  {
    assume r: "r = Ready (Inr (b1, obs))"
    with p q have q1: "env_next env w b = (Ready (Inr obs), w')" and b: "b1 = b" "rs' = rs"
      by (auto simp: poll_observe_def split: poll.splits sum.splits)
    have e: "(\<lambda>j. map_option snd ((m(i \<mapsto> (b1, obs))) j)) = (\<lambda>j. map_option snd (m j))(i \<mapsto> obs)"
      by (rule ext) simp
    have "conserved F0 (held (arm_count rset) (arm_reg_id rset) ((\<lambda>j. map_option snd (m j))(i \<mapsto> obs))) (front w')"
      by (rule next_custody [OF q1 arm_reg_id_inj [OF assms(2)] _ _ _ c]) (use f m in \<open>auto simp: next_fut_ok_def\<close>)
    with v f b show "bind_vals env front F0 rset (m(i \<mapsto> (b1, obs))) (w', rs')"
      unfolding bind_vals_def e by auto
  next
    assume "\<And>v. r \<noteq> Ready (Inr v)"
    with p q have "w1 = w'" "\<And>e. q \<noteq> Ready (Inr (Obs_Event e))"
      by (auto simp: poll_observe_def split: poll.splits sum.splits)
    with next_other [OF q] v show "bind_vals env front F0 rset m (w', rs')"
      by (simp add: bind_vals_def)
  }
qed

lemma poll_bind_inv:
  assumes "distinct_arms rset"
  shows "race_inv (poll_bind_then_observe env) (bind_fut_ok env rset) (bind_vals env front F0 rset)"
proof (rule race_invI)
  fix i m fut wr
  assume f: "bind_fut_ok env rset i fut" and m: "m i = None" and v: "bind_vals env front F0 rset m wr"
  obtain w rs where wr: "wr = (w, rs)" by (cases wr)
  have obs: "next_fut_ok env rset i b \<and> bind_vals env front F0 rset m (w1, rs1)"
    if "fut = Fut_Next b \<and> w1 = w \<and> rs1 = rs \<or>
      (\<exists>reg. fut = Fut_Bind reg \<and> env_bind env w reg = (Ready (Inr b), w1) \<and> rs1 = rs @ [resolved_of env b])"
    for b w1 rs1
    using that f v wr
    by (auto simp: bind_fut_ok_def next_fut_ok_def bind_vals_def dest: bind_front bind_id)
  have wait: "bind_vals env front F0 rset m (w1, rs)" if "env_bind env w reg = (q, w1)" for reg q w1
    using bind_front [OF that] v wr by (simp add: bind_vals_def)
  show "bind_vals env front F0 rset (m(i \<mapsto> x)) wr'"
    if p: "poll_bind_then_observe env fut wr = (Ready (Inr x), f', wr')" for x f' wr'
    using p [unfolded wr]
  proof (cases rule: poll_bindE)
    case (observe b w1 rs1)
    from obs [OF observe(2)] have o: "next_fut_ok env rset i b" "bind_vals env front F0 rset m (w1, rs1)" by auto
    obtain b1 ob where x: "x = (b1, ob)" by (cases x)
    obtain w2 rs2 where w2: "wr' = (w2, rs2)" by (cases wr')
    from poll_observe_vals(2) [OF observe(1) [unfolded w2] assms o(1) m o(2), of b1 ob]
    show ?thesis by (simp add: x w2)
  qed blast
  show "bind_vals env front F0 rset m wr'"
    if p: "poll_bind_then_observe env fut wr = (Ready (Inl err), f', wr')" for err f' wr'
    using p [unfolded wr]
  proof (cases rule: poll_bindE)
    case (observe b w1 rs1)
    from obs [OF observe(2)] have o: "next_fut_ok env rset i b" "bind_vals env front F0 rset m (w1, rs1)" by auto
    obtain w2 rs2 where w2: "wr' = (w2, rs2)" by (cases wr')
    from poll_observe_vals(3) [OF observe(1) [unfolded w2] assms o(1) m o(2)] show ?thesis by (simp add: w2)
  qed (use wait in blast)
  show "bind_vals env front F0 rset m wr' \<and> bind_fut_ok env rset i f'"
    if p: "poll_bind_then_observe env fut wr = (Pending, f', wr')" for f' wr'
    using p [unfolded wr]
  proof (cases rule: poll_bindE)
    case (observe b w1 rs1)
    from obs [OF observe(2)] have o: "next_fut_ok env rset i b" "bind_vals env front F0 rset m (w1, rs1)" by auto
    obtain w2 rs2 where w2: "wr' = (w2, rs2)" by (cases wr')
    from poll_observe_vals(1,3) [OF observe(1) [unfolded w2] assms o(1) m o(2)] o(1)
    show ?thesis by (simp add: w2 bind_fut_ok_def)
  qed (use wait f in blast)
qed

text \<open>The branches of a bound \<open>select!\<close>.\<close>

lemma terminal_done:
  assumes "terminal_deadline rset req now starts = Some out" "conserved F0 (\<lambda>_. []) (front w)"
  shows "fm_custody rset F0 (Inr (finish rset req now' out)) (front w)"
  using terminal_deadline_kind [OF assms(1)] assms(2) by (intro fm_custody_finish_none) auto

lemma fm_cancelled_inv:
  assumes "fm_cancelled env rset req st w = (st', w')" "conserved F0 (\<lambda>_. []) (front w)"
    and "\<forall>binds. fm_bound st = Some binds \<longrightarrow> bound_ok env rset binds"
  shows "fm_inv env front F0 rset (st', w')"
proof -
  obtain t1 w1 where t1: "env_now env w = (t1, w1)" by fastforce
  obtain t2 w2 where t2: "env_now env w1 = (t2, w2)" by fastforce
  from assms t1 t2 now_front [OF t1] now_front [OF t2] show ?thesis
    by (auto simp: fm_cancelled_def fm_done_def fm_inv_def intro!: fm_custody_finish_none)
qed

lemma fm_enter_backoff_inv:
  assumes "fm_enter_backoff env req phase st w = (st', w')" "conserved F0 (\<lambda>_. []) (front w)"
    and "\<forall>binds. fm_bound st = Some binds \<longrightarrow> bound_ok env rset binds"
  shows "fm_inv env front F0 rset (st', w')"
proof -
  obtain t1 w1 where t1: "env_now env w = (t1, w1)" by fastforce
  from assms t1 now_front [OF t1] show ?thesis
    by (auto simp: fm_enter_backoff_def backoff_deadline_def fm_inv_def Let_def)
qed

lemma fm_bound_collected_inv:
  assumes s: "fm_bound_collected env rset req binds collected st w = (st', w')"
    and d: "distinct_arms rset" and b: "fm_bound st = Some binds" "bound_ok env rset binds"
    and c: "conserved F0 (held (arm_count rset) (arm_reg_id rset) (map_of (fr_ready collected))) (front w)"
    and r: "distinct (map fst (fr_ready collected))" "\<forall>i \<in> fst ` set (fr_ready collected). i < arm_count rset"
  shows "fm_inv env front F0 rset (st', w')"
proof -
  let ?ib = "indexed_binds binds"
  have len: "length binds = arm_count rset" using b(2) by (simp add: bound_ok_def)
  have ok: "binds_ok env (arm_count rset) (arm_reg_id rset) ?ib"
    using indexed_binds_ok [of binds env "arm_reg_id rset"] b(2) by (simp add: bound_ok_def)
  have dom: "fst ` set ?ib = {..<arm_count rset}" by (simp add: indexed_binds_dom len)
  have sub: "fst ` set (fr_ready collected) \<subseteq> fst ` set ?ib" using r(2) by (auto simp: dom)
  note inj = arm_reg_id_inj [OF d]
  have bok: "\<forall>binds. fm_bound st = Some binds \<longrightarrow> bound_ok env rset binds" using b by simp
  show ?thesis
  proof (cases "fr_error collected")
    case (Some err)
    obtain r1 w1 where r1: "restore_owned env ?ib (fr_ready collected) w = (r1, w1)" by fastforce
    from restore_all_custody [OF r1 inj ok r(1) sub c] s Some r1 bok show ?thesis
      by (auto simp: fm_bound_collected_def fm_done_def fm_inv_def fm_custody_def)
  next
    case None
    obtain ready w1 where e: "extend_ready_refs env ?ib (fr_ready collected) w = (ready, w1)" by fastforce
    from extend_ready_custody [OF e inj ok r(1) c] sub
    have c1: "conserved F0 (held (arm_count rset) (arm_reg_id rset) (map_of ready)) (front w1)"
      and d1: "distinct (map fst ready)" and s1: "fst ` set ready \<subseteq> fst ` set ?ib" by blast+
    obtain now w2 where t: "env_now env w1 = (now, w2)" by fastforce
    from c1 now_front [OF t] have c2: "conserved F0 (held (arm_count rset) (arm_reg_id rset) (map_of ready)) (front w2)"
      by simp
    obtain q w3 where q: "decide_and_restore env rset req now ?ib ready (starts_from_binds env binds) w2 = (q, w3)"
      by fastforce
    from q d ok d1 s1 c2 show ?thesis
    proof (cases rule: decide_and_restore_custody)
      case (some out)
      obtain now' w4 where t': "env_now env w3 = (now', w4)" by fastforce
      from fm_custody_finish [OF some(2,3)] now_front [OF t'] s None e t q t' some(1) bok
      show ?thesis by (auto simp: fm_bound_collected_def fm_done_def fm_inv_def)
    next
      case none
      with s None e t q have "fm_enter_backoff env req True st w3 = (st', w')"
        by (simp add: fm_bound_collected_def)
      from fm_enter_backoff_inv [OF this none(3) bok] show ?thesis .
    qed
  qed
qed

lemma fm_bound_cancel_inv:
  assumes s: "fm_bound_cancel env rset req binds race st w = (st', w')"
    and "race_quiet observation_is_terminal race" "conserved F0 (\<lambda>_. []) (front w)"
    and "\<forall>binds. fm_bound st = Some binds \<longrightarrow> bound_ok env rset binds"
  shows "fm_inv env front F0 rset (st', w')"
  using s unfolding fm_bound_cancel_def restore_owned_quiet [OF take_ready_quiet [OF assms(2)]]
  by (intro fm_cancelled_inv [OF _ assms(3,4)]) simp

lemma fm_bound_deadline_inv:
  assumes s: "fm_bound_deadline env rset req binds race st w = (st', w')"
    and d: "distinct_arms rset" and b: "fm_bound st = Some binds" "bound_ok env rset binds"
    and quiet: "race_quiet observation_is_terminal race" and c: "conserved F0 (\<lambda>_. []) (front w)"
  shows "fm_inv env front F0 rset (st', w')"
proof -
  let ?ib = "indexed_binds binds"
  have len: "length binds = arm_count rset" using b(2) by (simp add: bound_ok_def)
  have ok: "binds_ok env (arm_count rset) (arm_reg_id rset) ?ib"
    using indexed_binds_ok [of binds env "arm_reg_id rset"] b(2) by (simp add: bound_ok_def)
  note inj = arm_reg_id_inj [OF d]
  have bok: "\<forall>binds. fm_bound st = Some binds \<longrightarrow> bound_ok env rset binds" using b by simp
  obtain now w1 where t: "env_now env w = (now, w1)" by fastforce
  have ro: "restore_owned env ?ib (fst (fr_take_ready 0 race)) w1 = (Inr (), w1)"
    by (rule restore_owned_quiet [OF take_ready_quiet [OF quiet]])
  obtain ready w2 where e: "extend_ready_refs env ?ib [] w1 = (ready, w2)" by fastforce
  have "conserved F0 (held (arm_count rset) (arm_reg_id rset) (map_of [])) (front w1)"
    using c now_front [OF t] by simp
  from extend_ready_custody [OF e inj ok _ this]
  have c1: "conserved F0 (held (arm_count rset) (arm_reg_id rset) (map_of ready)) (front w2)"
    and d1: "distinct (map fst ready)" and s1: "fst ` set ready \<subseteq> fst ` set ?ib" by auto
  obtain q w3 where q: "decide_and_restore env rset req now ?ib ready (starts_from_binds env binds) w2 = (q, w3)"
    by fastforce
  from q d ok d1 s1 c1 show ?thesis
  proof (cases rule: decide_and_restore_custody)
    case (some out)
    from fm_custody_finish [OF some(2,3)] s t ro e q some(1) bok
    show ?thesis by (auto simp: fm_bound_deadline_def fm_done_def fm_inv_def)
  next
    case none
    with s t ro e q bok show ?thesis
      by (auto simp: fm_bound_deadline_def fm_done_def fm_inv_def terminal_done split: option.splits)
  qed
qed

lemma fm_bind_collected_inv:
  assumes s: "fm_bind_collected env rset req collected st w = (st', w')"
    and d: "distinct_arms rset" and nb: "\<forall>binds. fm_bound st = Some binds \<longrightarrow> bound_ok env rset binds"
    and v: "bind_vals env front F0 rset (map_of (fr_ready collected)) (w, rs)"
    and dist: "distinct (map fst (fr_ready collected))"
    and all: "fr_error collected = None \<Longrightarrow>
        (\<And>i v. (i, v) \<in> set (fr_ready collected) \<Longrightarrow> \<not> bound_observation_is_terminal v) \<Longrightarrow>
        map fst (fr_ready collected) = [0..<arm_count rset]"
  shows "fm_inv env front F0 rset (st', w')"
proof -
  let ?obs = "map (\<lambda>(idx, b, obs). (idx, obs)) (fr_ready collected)"
  let ?ib = "map (\<lambda>(idx, b, obs). (idx, b)) (fr_ready collected)"
  note inj = arm_reg_id_inj [OF d]
  have fsts: "map fst ?obs = map fst (fr_ready collected)" "map fst ?ib = map fst (fr_ready collected)"
    by (auto simp: case_prod_unfold)
  have at: "map_of (fr_ready collected) i = Some (b, obs)" if "(i, b, obs) \<in> set (fr_ready collected)" for i b obs
    using that dist by simp
  then have nf: "next_fut_ok env rset i b" if "(i, b, obs) \<in> set (fr_ready collected)" for i b obs
    using v that by (fastforce simp: bind_vals_def)
  then have ok: "binds_ok env (arm_count rset) (arm_reg_id rset) ?ib"
    by (fastforce simp: binds_ok_def next_fut_ok_def)
  have dob: "distinct (map fst ?obs)" by (simp only: fsts dist)
  have sub: "fst ` set ?obs \<subseteq> fst ` set ?ib" by force
  have "map_of ?obs = (\<lambda>i. map_option snd (map_of (fr_ready collected) i))"
    using map_of_map [of snd "fr_ready collected"] by (simp add: case_prod_unfold comp_def)
  with v have c: "conserved F0 (held (arm_count rset) (arm_reg_id rset) (map_of ?obs)) (front w)"
    by (simp add: bind_vals_def)
  have "distinct (map fst ?ib)" by (simp only: fsts dist)
  from bind_at_distinct [OF this]
  have "\<forall>(i, b, obs) \<in> set (fr_ready collected). bind_at ?ib i = Some b" by force
  note rp = restore_bound_pairs_eq [OF this]
  show ?thesis
  proof (cases "fr_error collected")
    case (Some err)
    obtain r1 w1 where r1: "restore_owned env ?ib ?obs w = (r1, w1)" by fastforce
    from restore_all_custody [OF r1 inj ok dob sub c] s Some r1 rp [of env w] nb show ?thesis
      by (auto simp: fm_bind_collected_def fm_done_def fm_inv_def fm_custody_def)
  next
    case None
    obtain ready w1 where e: "extend_ready_refs env ?ib ?obs w = (ready, w1)" by fastforce
    from extend_ready_custody [OF e inj ok dob c] sub
    have c1: "conserved F0 (held (arm_count rset) (arm_reg_id rset) (map_of ready)) (front w1)"
      and d1: "distinct (map fst ready)" and s1: "fst ` set ready \<subseteq> fst ` set ?ib" by blast+
    obtain now w2 where t: "env_now env w1 = (now, w2)" by fastforce
    from c1 now_front [OF t] have c2: "conserved F0 (held (arm_count rset) (arm_reg_id rset) (map_of ready)) (front w2)"
      by simp
    obtain q w3 where q: "decide_and_restore env rset req now ?ib ready (starts_from_indexed env ?ib) w2 = (q, w3)"
      by fastforce
    from q d ok d1 s1 c2 show ?thesis
    proof (cases rule: decide_and_restore_custody)
      case (some out)
      obtain now' w4 where t': "env_now env w3 = (now', w4)" by fastforce
      from fm_custody_finish [OF some(2,3)] now_front [OF t'] s None e t q t' some(1) nb
      show ?thesis by (auto simp: fm_bind_collected_def fm_done_def fm_inv_def)
    next
      case none
      have "set ?obs \<subseteq> set ready" using extend_ready_refs_incl [OF e] .
      have "\<not> bound_observation_is_terminal v" if v: "(i, v) \<in> set (fr_ready collected)" for i v
      proof -
        obtain b ob where vb: "v = (b, ob)" by (cases v)
        with v have "(i, ob) \<in> set ?obs" by force
        with \<open>set ?obs \<subseteq> set ready\<close> none(4) have "ob = Obs_Idle" by blast
        with vb show ?thesis by (simp add: bound_observation_is_terminal_def observation_is_terminal_def)
      qed
      from all [OF None this] have full: "map fst (fr_ready collected) = [0..<arm_count rset]" .
      have "sort_key fst ?ib = ?ib"
        by (rule sort_key_id_if_sorted) (simp only: fsts full sorted_upt)
      moreover have "bound_ok env rset (map snd ?ib)"
      proof -
        have len: "length (fr_ready collected) = arm_count rset"
          using arg_cong [OF full, of length] by simp
        have "env_registration_id env (snd (?ib ! i)) = arm_reg_id rset i" if "i < arm_count rset" for i
        proof -
          obtain j b obs where x: "fr_ready collected ! i = (j, b, obs)" by (cases "fr_ready collected ! i")
          have "j = i" using arg_cong [OF full, of "\<lambda>l. l ! i"] that len x by simp
          with nf [of i b obs] nth_mem [of i "fr_ready collected"] that len x show ?thesis
            by (simp add: next_fut_ok_def)
        qed
        with len show ?thesis by (simp add: bound_ok_def)
      qed
      moreover from s None e t q none(1)
      have "fm_enter_backoff env req False (st\<lparr>fm_bound := Some (map snd (sort_key fst ?ib))\<rparr>) w3 = (st', w')"
        by (simp add: fm_bind_collected_def)
      ultimately show ?thesis
        using none(3) by (intro fm_enter_backoff_inv) auto
    qed
  qed
qed

lemma fm_bind_cancel_inv:
  assumes s: "fm_bind_cancel env rset req race st w = (st', w')"
    and "race_quiet bound_observation_is_terminal race" "conserved F0 (\<lambda>_. []) (front w)"
    and "\<forall>binds. fm_bound st = Some binds \<longrightarrow> bound_ok env rset binds"
  shows "fm_inv env front F0 rset (st', w')"
  using s unfolding fm_bind_cancel_def restore_bound_pairs_quiet [OF take_ready_bound_quiet [OF assms(2)]]
  by (intro fm_cancelled_inv [OF _ assms(3,4)]) simp

lemma fm_bind_deadline_inv:
  assumes s: "fm_bind_deadline env rset req race st w = (st', w')"
    and q: "race_quiet bound_observation_is_terminal race" and c: "conserved F0 (\<lambda>_. []) (front w)"
    and nb: "\<forall>binds. fm_bound st = Some binds \<longrightarrow> bound_ok env rset binds"
  shows "fm_inv env front F0 rset (st', w')"
proof -
  obtain t w1 where t: "env_now env w = (t, w1)" by fastforce
  from c now_front [OF t] have "conserved F0 (\<lambda>_. []) (front w1)" by simp
  with s t nb show ?thesis
    unfolding fm_bind_deadline_def restore_bound_pairs_quiet [OF take_ready_bound_quiet [OF q]]
    by (auto simp: fm_done_def fm_inv_def terminal_done split: option.splits)
qed

lemma fm_sel_bound_inv:
  assumes s: "fm_sel_bound env rset req binds race st w = (st', w')"
    and d: "distinct_arms rset" and b: "fm_bound st = Some binds" "bound_ok env rset binds"
    and quiet: "race_quiet observation_is_terminal race" and futs: "futs_ok (next_fut_ok env rset) 0 race"
    and len: "length race = arm_count rset" and c: "conserved F0 (\<lambda>_. []) (front w)"
  shows "fm_inv env front F0 rset (st', w')"
proof -
  obtain p race' w1 where p: "fr_poll (poll_next env) observation_is_terminal race w = (p, race', w1)"
    by (metis prod_cases3)
  have c0: "conserved F0 (held (arm_count rset) (arm_reg_id rset) (slots race)) (front w)"
    using c held_quiet [OF quiet] by simp
  note ri = poll_next_inv [OF d, of F0]
  show ?thesis
  proof (cases p)
    case (Ready collected)
    note p = p [unfolded Ready]
    from s p have "fm_bound_collected env rset req binds collected st w1 = (st', w')"
      by (simp add: fm_sel_bound_def)
    from this d b fr_poll_ready_inv [OF ri futs c0 p] fr_poll_distinct [OF p] show ?thesis
      by (rule fm_bound_collected_inv) (use fr_poll_sorted [OF p] len in simp)
  next
    case Pending
    note p = p [unfolded Pending]
    note quiet' = fr_poll_pending_quiet [OF p]
    from fr_poll_pending_inv [OF ri futs c0 p] held_quiet [OF quiet']
    have c1: "conserved F0 (\<lambda>_. []) (front w1)" and futs': "futs_ok (next_fut_ok env rset) 0 race'" by auto
    obtain x w2 where x: "poll_cancelled env w1 = (x, w2)" by fastforce
    from c1 poll_cancelled_front [OF x] have c2: "conserved F0 (\<lambda>_. []) (front w2)" by simp
    obtain y w3 where y: "env_sleep_until env w2 (earliest_deadline req) = (y, w3)" by fastforce
    from c2 sleep_front [OF y] have c3: "conserved F0 (\<lambda>_. []) (front w3)" by simp
    consider "x = Ready ()" | "x = Pending" "y = Ready ()" | "x = Pending" "y = Pending"
      by (metis poll.exhaust unit.exhaust)
    then show ?thesis
    proof cases
      case 1
      with s p x have "fm_bound_cancel env rset req binds race' st w2 = (st', w')" by (simp add: fm_sel_bound_def)
      from fm_bound_cancel_inv [OF this quiet' c2] b show ?thesis by simp
    next
      case 2
      with s p x y have "fm_bound_deadline env rset req binds race' st w3 = (st', w')" by (simp add: fm_sel_bound_def)
      from fm_bound_deadline_inv [OF this d b quiet' c3] show ?thesis .
    next
      case 3
      have "length race' = length race"
        using p by (rule fr_poll_pendingE) (rule fr_scan_length)
      with 3 s p x y b c3 quiet' futs' len show ?thesis
        by (auto simp: fm_sel_bound_def fm_inv_def park_front)
    qed
  qed
qed

lemma slots_bind_held:
  "race_quiet bound_observation_is_terminal race \<Longrightarrow> held n ids (\<lambda>i. map_option snd (slots race i)) = (\<lambda>_. [])"
  by (rule held_none) (auto simp: bound_observation_is_terminal_def observation_is_terminal_def dest!: race_quiet_slots)

lemma fm_sel_bind_inv:
  assumes s: "fm_sel_bind env rset req race st w = (st', w')"
    and d: "distinct_arms rset" and nb: "\<forall>binds. fm_bound st = Some binds \<longrightarrow> bound_ok env rset binds"
    and len: "length race = arm_count rset" and live: "\<forall>a \<in> set race. arm_live a"
    and quiet: "race_quiet bound_observation_is_terminal race"
    and ids: "\<forall>i b obs. slots race i = Some (b, obs) \<longrightarrow> next_fut_ok env rset i b"
    and futs: "futs_ok (bind_fut_ok env rset) 0 race"
    and c: "conserved F0 (\<lambda>_. []) (front w)"
  shows "fm_inv env front F0 rset (st', w')"
proof -
  obtain p race' w1 rs where p: "fr_poll (poll_bind_then_observe env) bound_observation_is_terminal race (w, fm_resolved st)
      = (p, race', w1, rs)"
    by (metis prod_cases4)
  have v0: "bind_vals env front F0 rset (slots race) (w, fm_resolved st)"
    using c ids slots_bind_held [OF quiet] by (simp add: bind_vals_def)
  note ri = poll_bind_inv [OF d, of F0]
  show ?thesis
  proof (cases p)
    case (Ready collected)
    note p = p [unfolded Ready]
    from s p have "fm_bind_collected env rset req collected (st\<lparr>fm_resolved := rs\<rparr>) w1 = (st', w')"
      by (simp add: fm_sel_bind_def)
    from this d _ fr_poll_ready_inv [OF ri futs v0 p] fr_poll_distinct [OF p] show ?thesis
      by (rule fm_bind_collected_inv) (use nb fr_poll_all_ready [OF p live] len in simp_all)
  next
    case Pending
    note p = p [unfolded Pending]
    note quiet' = fr_poll_pending_quiet [OF p]
    from fr_poll_pending_inv [OF ri futs v0 p] slots_bind_held [OF quiet']
    have c1: "conserved F0 (\<lambda>_. []) (front w1)" and futs': "futs_ok (bind_fut_ok env rset) 0 race'"
      and ids': "\<forall>i b obs. slots race' i = Some (b, obs) \<longrightarrow> next_fut_ok env rset i b"
      by (auto simp: bind_vals_def)
    let ?st = "st\<lparr>fm_resolved := rs\<rparr>"
    have nb': "\<forall>binds. fm_bound ?st = Some binds \<longrightarrow> bound_ok env rset binds" using nb by simp
    obtain x w2 where x: "poll_cancelled env w1 = (x, w2)" by fastforce
    from c1 poll_cancelled_front [OF x] have c2: "conserved F0 (\<lambda>_. []) (front w2)" by simp
    obtain y w3 where y: "env_sleep_until env w2 (earliest_deadline req) = (y, w3)" by fastforce
    from c2 sleep_front [OF y] have c3: "conserved F0 (\<lambda>_. []) (front w3)" by simp
    consider "x = Ready ()" | "x = Pending" "y = Ready ()" | "x = Pending" "y = Pending"
      by (metis poll.exhaust unit.exhaust)
    then show ?thesis
    proof cases
      case 1
      with s p x have "fm_bind_cancel env rset req race' ?st w2 = (st', w')" by (simp add: fm_sel_bind_def)
      from fm_bind_cancel_inv [OF this quiet' c2 nb'] show ?thesis .
    next
      case 2
      with s p x y have "fm_bind_deadline env rset req race' ?st w3 = (st', w')" by (simp add: fm_sel_bind_def)
      from fm_bind_deadline_inv [OF this quiet' c3 nb'] show ?thesis .
    next
      case 3
      with s p x y nb c3 quiet' futs' ids' fr_poll_pending_live [OF p live] len show ?thesis
        by (auto simp: fm_sel_bind_def fm_inv_def park_front)
    qed
  qed
qed

lemma fm_top_inv:
  assumes s: "fm_top env rset req st w = (st', w')"
    and nb: "\<forall>binds. fm_bound st = Some binds \<longrightarrow> bound_ok env rset binds"
    and c: "conserved F0 (\<lambda>_. []) (front w)"
  shows "fm_inv env front F0 rset (st', w')"
proof -
  obtain x w1 where x: "env_is_cancelled env w = (x, w1)" by fastforce
  from c cancelled_front [OF x] have c1: "conserved F0 (\<lambda>_. []) (front w1)" by simp
  show ?thesis
  proof (cases x)
    case True
    with s x have "fm_cancelled env rset req st w1 = (st', w')" by (simp add: fm_top_def)
    from fm_cancelled_inv [OF this c1 nb] show ?thesis .
  next
    case False
    obtain t w2 where t: "env_now env w1 = (t, w2)" by fastforce
    from c1 now_front [OF t] have c2: "conserved F0 (\<lambda>_. []) (front w2)" by simp
    show ?thesis
    proof (cases "terminal_deadline rset req t (fm_starts env st)")
      case (Some out)
      obtain t' w3 where t': "env_now env w2 = (t', w3)" by fastforce
      from c2 now_front [OF t'] have "conserved F0 (\<lambda>_. []) (front w3)" by simp
      from terminal_done [OF Some this] s x t t' False Some nb show ?thesis
        by (auto simp: fm_top_def fm_done_def fm_inv_def)
    next
      case None
      show ?thesis
      proof (cases "fm_bound st")
        case (Some binds)
        with nb have "bound_ok env rset binds" by simp
        with s x t False None Some nb c2 show ?thesis
          by (auto simp: fm_top_def fm_inv_def futs_ok_new bound_ok_def next_fut_ok_def)
      next
        case nob: None
        with s x t False None c2 show ?thesis
          by (auto simp: fm_top_def fm_inv_def futs_ok_new bind_fut_ok_def arm_count_def arm_reg_id_def)
      qed
    qed
  qed
qed

lemma fm_backoff_inv:
  assumes s: "fm_backoff env rset req sleep_to phase st w = (st', w')"
    and pc: "fm_pc st = FM_Backoff sleep_to phase"
    and nb: "\<forall>binds. fm_bound st = Some binds \<longrightarrow> bound_ok env rset binds"
    and c: "conserved F0 (\<lambda>_. []) (front w)"
  shows "fm_inv env front F0 rset (st', w')"
proof -
  define woken where "woken = (\<lambda>w.
    if phase then
      let (cancelled, w) = env_is_cancelled env w
      in if cancelled then fm_cancelled env rset req st w else (st\<lparr>fm_pc := FM_Top\<rparr>, w)
    else (st\<lparr>fm_pc := FM_Top\<rparr>, w))"
  have wk: "fm_inv env front F0 rset (st', w')"
    if "woken w2 = (st', w')" and c2: "conserved F0 (\<lambda>_. []) (front w2)" for w2
  proof (cases phase)
    case True
    obtain x w3 where x: "env_is_cancelled env w2 = (x, w3)" by fastforce
    from c2 cancelled_front [OF x] have c3: "conserved F0 (\<lambda>_. []) (front w3)" by simp
    from that x True fm_cancelled_inv [OF _ c3 nb] show ?thesis
      by (cases x) (use c3 nb in \<open>auto simp: woken_def fm_inv_def\<close>)
  next
    case False
    with that nb show ?thesis by (auto simp: woken_def fm_inv_def)
  qed
  obtain x w1 where x: "poll_cancelled env w = (x, w1)" by fastforce
  from c poll_cancelled_front [OF x] have c1: "conserved F0 (\<lambda>_. []) (front w1)" by simp
  obtain y w2 where y: "env_sleep_until env w1 sleep_to = (y, w2)" by fastforce
  from c1 sleep_front [OF y] have c2: "conserved F0 (\<lambda>_. []) (front w2)" by simp
  show ?thesis
    using s x y wk [OF _ c1] wk [OF _ c2] c2 nb pc
    unfolding fm_backoff_def Let_def woken_def [symmetric, unfolded Let_def]
    by (auto simp: fm_inv_def park_front split: poll.splits)
qed

lemma fm_step_inv:
  assumes d: "distinct_arms rset" and i: "fm_inv env front F0 rset c"
  shows "fm_inv env front F0 rset (fm_step env rset req c)"
proof -
  obtain st w where c: "c = (st, w)" by (cases c)
  obtain st' w' where s: "fm_step env rset req (st, w) = (st', w')" by fastforce
  show ?thesis
  proof (cases "fm_pc st")
    case FM_Top
    with s have t: "fm_top env rset req st w = (st', w')" by (simp add: fm_step_def)
    from i c FM_Top have "\<forall>binds. fm_bound st = Some binds \<longrightarrow> bound_ok env rset binds"
      "conserved F0 (\<lambda>_. []) (front w)" by (simp_all add: fm_inv_def)
    from fm_top_inv [OF t this] show ?thesis by (simp add: c s)
  next
    case (FM_SelBound race)
    with i c obtain binds where b: "fm_bound st = Some binds" "bound_ok env rset binds"
      by (auto simp: fm_inv_def)
    from s FM_SelBound b have t: "fm_sel_bound env rset req binds race st w = (st', w')" by (simp add: fm_step_def)
    from i c FM_SelBound have "race_quiet observation_is_terminal race" "futs_ok (next_fut_ok env rset) 0 race"
      "length race = arm_count rset" "conserved F0 (\<lambda>_. []) (front w)" by (simp_all add: fm_inv_def)
    from fm_sel_bound_inv [OF t d b this] show ?thesis by (simp add: c s)
  next
    case (FM_SelBind race)
    with s have t: "fm_sel_bind env rset req race st w = (st', w')" by (simp add: fm_step_def)
    from i c FM_SelBind have "\<forall>binds. fm_bound st = Some binds \<longrightarrow> bound_ok env rset binds"
      "length race = arm_count rset" "\<forall>a \<in> set race. arm_live a"
      "race_quiet bound_observation_is_terminal race"
      "\<forall>i b obs. slots race i = Some (b, obs) \<longrightarrow> next_fut_ok env rset i b"
      "futs_ok (bind_fut_ok env rset) 0 race" "conserved F0 (\<lambda>_. []) (front w)"
      by (simp_all add: fm_inv_def)
    from fm_sel_bind_inv [OF t d this] show ?thesis by (simp add: c s)
  next
    case (FM_Backoff t ph)
    with s have u: "fm_backoff env rset req t ph st w = (st', w')" by (simp add: fm_step_def)
    from i c FM_Backoff have "\<forall>binds. fm_bound st = Some binds \<longrightarrow> bound_ok env rset binds"
      "conserved F0 (\<lambda>_. []) (front w)" by (simp_all add: fm_inv_def)
    from fm_backoff_inv [OF u FM_Backoff this] show ?thesis by (simp add: c s)
  next
    case (FM_Done r)
    with i c show ?thesis by (simp add: fm_step_def)
  qed
qed

lemma fm_run_inv:
  "distinct_arms rset \<Longrightarrow> fm_inv env front F0 rset c \<Longrightarrow> fm_inv env front F0 rset (fm_run env rset req n c)"
  by (induction n arbitrary: c) (simp_all add: fm_step_inv)

theorem run_first_match_custody:
  assumes "distinct_arms rset" "run_first_match env rset req fuel w = (Some r, w')"
  shows "fm_custody rset (front w) r (front w')"
proof (cases "fm_resolve rset req")
  case (Inl err)
  with assms(2) show ?thesis
    by (auto simp: run_first_match_def fm_custody_def conserved_start)
next
  case (Inr u)
  obtain st w1 where r: "fm_run env rset req fuel (fm_init, w) = (st, w1)" by fastforce
  have "fm_inv env front (front w) rset (fm_init, w)"
    by (simp add: fm_inv_def fm_init_def conserved_start)
  from fm_run_inv [OF assms(1) this, of req fuel] r assms(2) Inr show ?thesis
    by (auto simp: run_first_match_def fm_inv_def split: fm_pc.splits)
qed

end

end
