(* ===== verification/First_Match_Live.thy ===== *)
theory First_Match_Live
  imports First_Match_Run
begin

text \<open>
  The first-match loop returns. Under a clock that moves while the runner is parked, the number
  of steps is bounded by the time left until the earlier of the two deadlines, whatever the
  observer does.
\<close>

lemma race_inv_weaken:
  "(\<And>f w r f' w'. pf f w = (r, f', w') \<Longrightarrow> P w \<Longrightarrow> P w') \<Longrightarrow> race_inv pf (\<lambda>_ _. True) (\<lambda>_. P)"
  by (rule race_invI) blast+

lemma futs_ok_True [simp]: "futs_ok (\<lambda>_ _. True) k arms"
  by (simp add: futs_ok_def)

text \<open>What every poll of an arm keeps, a poll of the race keeps.\<close>

lemma fr_poll_keeps:
  assumes keep: "\<And>f w r f' w'. pf f w = (r, f', w') \<Longrightarrow> P w \<Longrightarrow> P w'"
    and p: "fr_poll pf term arms w = (p, arms', w')" and P: "P w"
  shows "P w'"
proof -
  have ri: "race_inv pf (\<lambda>_ _. True) (\<lambda>_. P)" by (rule race_inv_weaken) (rule keep)
  show ?thesis
  proof (cases p)
    case Pending
    from fr_poll_pending_inv [OF ri futs_ok_True P p [unfolded Pending]] show ?thesis by simp
  next
    case (Ready res)
    from fr_poll_ready_inv [OF ri futs_ok_True P p [unfolded Ready]] show ?thesis .
  qed
qed

definition fm_cap :: "live_wait_request \<Rightarrow> int" where
  "fm_cap req = ts_instant (earliest_deadline req)"

lemma fm_cap_min: "fm_cap req = min (ts_instant (lr_run_deadline req)) (ts_instant (lr_logical_deadline req))"
  by (auto simp: fm_cap_def earliest_deadline_def ts_less_def)

lemma terminal_deadline_due:
  "fm_cap req \<le> ts_instant now \<Longrightarrow> terminal_deadline rset req now starts \<noteq> None"
  by (auto simp: terminal_deadline_def fm_cap_min Let_def ts_le_def)

lemma terminal_deadline_early:
  "terminal_deadline rset req now starts = None \<Longrightarrow> ts_instant now < fm_cap req"
  by (rule ccontr) (use terminal_deadline_due in \<open>auto simp: not_less\<close>)

lemma backoff_delay:
  "ms \<in> set backoff_ms \<Longrightarrow> 0 < signed_nanos (duration_from_millis ms) \<and>
     signed_nanos (duration_from_millis ms) \<le> nanos_per_sec"
  by (auto simp: backoff_ms_def duration_from_millis_def signed_nanos_def nanos_per_sec_def)

definition fm_idle_pc :: "'b fm_state \<Rightarrow> bool" where
  "fm_idle_pc st \<longleftrightarrow> (\<forall>race. fm_pc st = FM_SelBound race \<longrightarrow> fm_bound st \<noteq> None)"

definition fm_is_done :: "'b fm_state \<Rightarrow> bool" where
  "fm_is_done st \<longleftrightarrow> (\<exists>r. fm_pc st = FM_Done r)"

lemma fm_done_simps [simp]: "fm_is_done (fst (fm_done st r w))" "fm_is_done (st\<lparr>fm_pc := FM_Done r\<rparr>)"
  by (simp_all add: fm_done_def fm_is_done_def)

text \<open>
  The measure: eight steps for each nanosecond left until the deadline, arranged so that a turn
  of the loop through the back-off pays for itself.
\<close>

definition fm_time :: "('w \<Rightarrow> int) \<Rightarrow> live_wait_request \<Rightarrow> 'w \<Rightarrow> nat" where
  "fm_time clk req w = nat (fm_cap req - clk w)"

definition fm_measure ::
  "('w \<Rightarrow> int) \<Rightarrow> ('w \<Rightarrow> bool) \<Rightarrow> live_wait_request \<Rightarrow> 'b fm_state \<times> 'w \<Rightarrow> nat" where
  "fm_measure clk cxl req c =
     (case c of (st, w) \<Rightarrow>
        (case fm_pc st of
           FM_Done _ \<Rightarrow> 0
         | FM_Top \<Rightarrow> if cxl w \<or> fm_time clk req w = 0 then 1 else 8 * fm_time clk req w + 7
         | FM_Backoff t _ \<Rightarrow>
             (let s = nat (fm_cap req - ts_instant t)
              in (if s = 0 then 2 else 8 * s + 8) + nat (ts_instant t - clk w))
         | _ \<Rightarrow> 8 * fm_time clk req w + 6))"

context clock_laws
begin

lemma fm_cancelled_done: "fm_is_done (fst (fm_cancelled env rset req st w))"
  by (auto simp: fm_cancelled_def Let_def split: prod.splits)

lemma extend_ready_later:
  "extend_ready_refs env binds ready w = (ready', w') \<Longrightarrow> later w w'"
proof (induction binds arbitrary: ready w)
  case (Cons p binds)
  obtain i b where p: "p = (i, b)" by (cases p)
  obtain q w1 where q: "env_poll_ready env w b = (q, w1)" by fastforce
  from Cons.prems Cons.IH poll_ready_later [OF q] show ?case
    by (auto simp: p q split: if_splits option.splits intro: later_trans)
qed simp

lemma restore_owned_later: "restore_owned env binds ready w = (r, w') \<Longrightarrow> later w w'"
proof (induction ready arbitrary: w)
  case (Cons p ready)
  obtain i obs where p: "p = (i, obs)" by (cases p)
  have "later w w1" if "env_restore_ready env w b obs = (s, w1)" for b s w1
    using that by (rule restore_later)
  with Cons show ?case
    by (auto simp: p split: if_splits option.splits prod.splits sum.splits) (metis later_trans)
qed simp

lemma restore_bound_pairs_later: "restore_bound_pairs env ready w = (r, w') \<Longrightarrow> later w w'"
proof (induction ready arbitrary: w)
  case (Cons p ready)
  obtain i b obs where p: "p = (i, b, obs)" by (cases p)
  obtain s w1 where s: "env_restore_ready env w b obs = (s, w1)" by fastforce
  from Cons restore_later [OF s] show ?case
    by (auto simp: p s split: if_splits sum.splits intro: later_trans)
qed simp

lemma restore_losers_later: "restore_losers env binds ready w = (r, w') \<Longrightarrow> later w w'"
  by (auto simp: restore_losers_def restore_except_filter intro: restore_owned_later)

lemma decide_and_restore_later:
  "decide_and_restore env rset req now binds ready starts w = (r, w') \<Longrightarrow> later w w'"
  by (auto simp: decide_and_restore_def split: option.splits prod.splits sum.splits
      dest: restore_owned_later restore_losers_later)

lemma poll_next_later: "poll_next env b w = (r, f', w') \<Longrightarrow> later w w'"
  by (auto simp: poll_next_def split: prod.splits dest: next_later)

lemma poll_observe_later: "poll_observe env b wr = (r, f', wr') \<Longrightarrow> later (fst wr) (fst wr')"
  by (auto simp: poll_observe_def split: prod.splits poll.splits sum.splits dest: next_later)

lemma poll_bind_later: "poll_bind_then_observe env fut wr = (r, f', wr') \<Longrightarrow> later (fst wr) (fst wr')"
proof (cases wr)
  case (Pair w rs)
  assume "poll_bind_then_observe env fut wr = (r, f', wr')"
  then have "poll_bind_then_observe env fut (w, rs) = (r, f', wr')" by (simp add: Pair)
  then show ?thesis
  proof (cases rule: poll_bindE)
    case (observe b w1 rs1)
    from poll_observe_later [OF observe(1)] observe(2) bind_later show ?thesis
      by (auto simp: Pair) (metis later_trans)
  next
    case (waiting reg q w1)
    with bind_later show ?thesis by (auto simp: Pair)
  qed
qed

lemma race_next_later: "fr_poll (poll_next env) term race w = (p, race', w') \<Longrightarrow> later w w'"
  by (rule fr_poll_keeps [where P = "later w" and pf = "poll_next env"])
    (auto dest: poll_next_later intro: later_trans)

lemma race_bind_later:
  "fr_poll (poll_bind_then_observe env) term race wr = (p, race', wr') \<Longrightarrow> later (fst wr) (fst wr')"
  by (rule fr_poll_keeps [where P = "\<lambda>x. later (fst wr) (fst x)" and pf = "poll_bind_then_observe env"])
    (auto dest: poll_bind_later intro: later_trans)

lemma fm_time_later: "later w w' \<Longrightarrow> fm_time clk req w' \<le> fm_time clk req w"
  by (auto simp: fm_time_def later_iff)

lemma fm_time_park:
  "env_sleep_until env w (earliest_deadline req) = (Pending, w') \<Longrightarrow>
   fm_time clk req (env_park env w') < fm_time clk req w"
  using sleep_due [of w "earliest_deadline req" w'] sleep_parks [of w "earliest_deadline req" w']
    sleep_later [of w "earliest_deadline req" Pending w']
  by (auto simp: fm_time_def fm_cap_def later_iff)

text \<open>Entering the back-off pays for the turn of the loop it ends.\<close>

lemma fm_enter_backoff_measure:
  assumes e: "fm_enter_backoff env req ph st w = (st', w')"
    and lo: "cal_min (env_calendar env) \<le> clk w"
    and hi: "fm_cap req + nanos_per_sec \<le> cal_max (env_calendar env)"
  shows "fm_measure clk cxl req (st', w') < 8 * fm_time clk req w + 6 \<and> fm_idle_pc st' \<and> later w w'"
proof -
  let ?i = "min (fm_backoff_step st) (length backoff_ms - 1)"
  let ?d = "duration_from_millis (backoff_ms ! ?i)"
  obtain now w1 where now: "env_now env w = (now, w1)" by fastforce
  define wake where "wake = saturating_add (env_calendar env) now ?d"
  define t where "t = (if ts_less wake (earliest_deadline req) then wake else earliest_deadline req)"
  from e now have st': "fm_pc st' = FM_Backoff t ph" "w' = w1"
    by (auto simp: fm_enter_backoff_def backoff_deadline_def Let_def t_def wake_def)
  from now_bounds [OF now] have b: "clk w \<le> ts_instant now" "ts_instant now \<le> clk w1" "later w w1" by auto
  have "?i < length backoff_ms" by (simp add: backoff_ms_def)
  then have "backoff_ms ! ?i \<in> set backoff_ms" by (rule nth_mem)
  note d = backoff_delay [OF this]
  have "fm_measure clk cxl req (st', w') < 8 * fm_time clk req w + 6"
  proof (cases "ts_instant now < fm_cap req")
    case True
    have "ts_instant wake = ts_instant now + signed_nanos ?d"
      unfolding wake_def using d True lo hi b by (intro saturating_add_in_range) auto
    then have "ts_instant now < ts_instant t" "ts_instant t \<le> fm_cap req"
      using True d by (auto simp: t_def fm_cap_def ts_less_def)
    with b True show ?thesis by (auto simp: fm_measure_def st' fm_time_def Let_def nat_less_iff)
  next
    case False
    have "ts_instant now \<le> ts_instant wake"
      using d by (auto simp: wake_def saturating_add_def Let_def)
    with False have "t = earliest_deadline req" by (auto simp: t_def fm_cap_def ts_less_def)
    with False b have "nat (ts_instant t - clk w1) = 0" "nat (fm_cap req - ts_instant t) = 0"
      by (auto simp: fm_cap_def)
    then show ?thesis by (auto simp: fm_measure_def st' fm_time_def Let_def)
  qed
  with st' b show ?thesis by (simp add: fm_idle_pc_def)
qed

lemma fm_bound_collected_measure:
  assumes s: "fm_bound_collected env rset req binds collected st w = c"
    and lo: "cal_min (env_calendar env) \<le> clk w"
    and hi: "fm_cap req + nanos_per_sec \<le> cal_max (env_calendar env)"
  shows "fm_is_done (fst c) \<or> (fm_measure clk cxl req c < 8 * fm_time clk req w + 6 \<and> fm_idle_pc (fst c) \<and> later w (snd c))"
proof (cases "fr_error collected")
  case (Some err)
  with s show ?thesis
    by (auto simp: fm_bound_collected_def split: prod.splits sum.splits)
next
  case None
  let ?ib = "indexed_binds binds"
  obtain ready w1 where e: "extend_ready_refs env ?ib (fr_ready collected) w = (ready, w1)" by fastforce
  obtain now w2 where t: "env_now env w1 = (now, w2)" by fastforce
  obtain q w3 where q: "decide_and_restore env rset req now ?ib ready (starts_from_binds env binds) w2 = (q, w3)"
    by fastforce
  have l: "later w w3"
    using extend_ready_later [OF e] now_later [OF t] decide_and_restore_later [OF q] by (meson later_trans)
  then have lo3: "cal_min (env_calendar env) \<le> clk w3" using lo by (simp add: later_iff)
  from s None e t q consider "fm_is_done (fst c)" | "fm_enter_backoff env req True st w3 = c"
    by (auto simp: fm_bound_collected_def split: sum.splits option.splits prod.splits)
  then show ?thesis
  proof cases
    case 2
    with fm_enter_backoff_measure [OF _ lo3 hi, of True st "fst c" "snd c"] fm_time_later [OF l, of req] l
    show ?thesis by (cases c) (auto intro: later_trans)
  qed simp
qed

lemma fm_bind_collected_measure:
  assumes s: "fm_bind_collected env rset req collected st w = c"
    and lo: "cal_min (env_calendar env) \<le> clk w"
    and hi: "fm_cap req + nanos_per_sec \<le> cal_max (env_calendar env)"
  shows "fm_is_done (fst c) \<or> (fm_measure clk cxl req c < 8 * fm_time clk req w + 6 \<and> fm_idle_pc (fst c) \<and> later w (snd c))"
proof (cases "fr_error collected")
  case (Some err)
  with s show ?thesis
    by (auto simp: fm_bind_collected_def split: prod.splits sum.splits)
next
  case None
  let ?obs = "map (\<lambda>(idx, b, obs). (idx, obs)) (fr_ready collected)"
  let ?ib = "map (\<lambda>(idx, b, obs). (idx, b)) (fr_ready collected)"
  obtain ready w1 where e: "extend_ready_refs env ?ib ?obs w = (ready, w1)" by fastforce
  obtain now w2 where t: "env_now env w1 = (now, w2)" by fastforce
  obtain q w3 where q: "decide_and_restore env rset req now ?ib ready (starts_from_indexed env ?ib) w2 = (q, w3)"
    by fastforce
  have l: "later w w3"
    using extend_ready_later [OF e] now_later [OF t] decide_and_restore_later [OF q] by (meson later_trans)
  then have lo3: "cal_min (env_calendar env) \<le> clk w3" using lo by (simp add: later_iff)
  let ?st = "st\<lparr>fm_bound := Some (map snd (sort_key fst ?ib))\<rparr>"
  from s None e t q consider "fm_is_done (fst c)" | "fm_enter_backoff env req False ?st w3 = c"
    by (auto simp: fm_bind_collected_def split: sum.splits option.splits prod.splits)
  then show ?thesis
  proof cases
    case 2
    with fm_enter_backoff_measure [OF _ lo3 hi, of False ?st "fst c" "snd c"] fm_time_later [OF l, of req] l
    show ?thesis by (cases c) (auto intro: later_trans)
  qed simp
qed

lemma fm_bound_deadline_done:
  assumes "fm_cap req \<le> clk w"
  shows "fm_is_done (fst (fm_bound_deadline env rset req binds race st w))"
proof -
  obtain now w1 where t: "env_now env w = (now, w1)" by fastforce
  from now_bounds [OF t] assms have "terminal_deadline rset req now starts \<noteq> None" for starts
    by (intro terminal_deadline_due) auto
  then show ?thesis
    by (auto simp: fm_bound_deadline_def t Let_def simp del: not_None_eq split: sum.splits option.splits prod.splits)
qed

lemma fm_bind_deadline_done:
  assumes "fm_cap req \<le> clk w"
  shows "fm_is_done (fst (fm_bind_deadline env rset req race st w))"
proof -
  obtain r w1 where r: "restore_bound_pairs env (fst (fr_take_ready 0 race)) w = (r, w1)" by fastforce
  obtain now w2 where t: "env_now env w1 = (now, w2)" by fastforce
  from restore_bound_pairs_later [OF r] now_bounds [OF t] assms
  have "terminal_deadline rset req now starts \<noteq> None" for starts
    by (intro terminal_deadline_due) (auto simp: later_iff)
  then show ?thesis
    by (auto simp: fm_bind_deadline_def r t Let_def simp del: not_None_eq split: sum.splits option.splits prod.splits)
qed

lemma fm_sel_bound_measure:
  assumes s: "fm_sel_bound env rset req binds race st w = c" and b: "fm_bound st \<noteq> None"
    and lo: "cal_min (env_calendar env) \<le> clk w"
    and hi: "fm_cap req + nanos_per_sec \<le> cal_max (env_calendar env)"
  shows "fm_is_done (fst c) \<or> (fm_measure clk cxl req c < 8 * fm_time clk req w + 6 \<and> fm_idle_pc (fst c) \<and> later w (snd c))"
proof -
  obtain p race' w1 where p: "fr_poll (poll_next env) observation_is_terminal race w = (p, race', w1)"
    by (metis prod_cases3)
  note l1 = race_next_later [OF p]
  have lo1: "cal_min (env_calendar env) \<le> clk w1" using lo l1 by (simp add: later_iff)
  show ?thesis
  proof (cases p)
    case (Ready collected)
    with s p have "fm_bound_collected env rset req binds collected st w1 = c" by (simp add: fm_sel_bound_def)
    from fm_bound_collected_measure [OF this lo1 hi] fm_time_later [OF l1, of req] l1 show ?thesis
      by (auto intro: later_trans)
  next
    case Pending
    obtain x w2 where x: "poll_cancelled env w1 = (x, w2)" by fastforce
    obtain y w3 where y: "env_sleep_until env w2 (earliest_deadline req) = (y, w3)" by fastforce
    have l2: "later w w2" using l1 poll_cancelled_later [OF x] by (rule later_trans)
    have l3: "later w (env_park env w3)"
      using l2 sleep_later [OF y] park_later by (meson later_trans)
    from s p Pending x y consider
        "fm_bound_cancel env rset req binds race' st w2 = c"
      | u where "y = Ready u" "fm_bound_deadline env rset req binds race' st w3 = c"
      | "y = Pending" "(st\<lparr>fm_pc := FM_SelBound race'\<rparr>, env_park env w3) = c"
      by (auto simp: fm_sel_bound_def split: poll.splits)
    then show ?thesis
    proof cases
      case 1
      then show ?thesis
        by (auto simp: fm_bound_cancel_def fm_cancelled_done split: prod.splits sum.splits)
    next
      case 2
      with sleep_ready [of w2 "earliest_deadline req"] y fm_bound_deadline_done [of req w3] show ?thesis
        by (auto simp: fm_cap_def)
    next
      case 3
      with fm_time_park [of w2 req w3] y fm_time_later [OF l2, of req] l3 b show ?thesis
        by (auto simp: fm_measure_def fm_idle_pc_def)
    qed
  qed
qed

lemma fm_sel_bind_measure:
  assumes s: "fm_sel_bind env rset req race st w = c"
    and lo: "cal_min (env_calendar env) \<le> clk w"
    and hi: "fm_cap req + nanos_per_sec \<le> cal_max (env_calendar env)"
  shows "fm_is_done (fst c) \<or> (fm_measure clk cxl req c < 8 * fm_time clk req w + 6 \<and> fm_idle_pc (fst c) \<and> later w (snd c))"
proof -
  obtain p race' w1 rs where p: "fr_poll (poll_bind_then_observe env) bound_observation_is_terminal race (w, fm_resolved st)
      = (p, race', w1, rs)"
    by (metis prod_cases4)
  from race_bind_later [OF p] have l1: "later w w1" by simp
  have lo1: "cal_min (env_calendar env) \<le> clk w1" using lo l1 by (simp add: later_iff)
  let ?st = "st\<lparr>fm_resolved := rs\<rparr>"
  show ?thesis
  proof (cases p)
    case (Ready collected)
    with s p have "fm_bind_collected env rset req collected ?st w1 = c" by (simp add: fm_sel_bind_def)
    from fm_bind_collected_measure [OF this lo1 hi] fm_time_later [OF l1, of req] l1 show ?thesis
      by (auto intro: later_trans)
  next
    case Pending
    obtain x w2 where x: "poll_cancelled env w1 = (x, w2)" by fastforce
    obtain y w3 where y: "env_sleep_until env w2 (earliest_deadline req) = (y, w3)" by fastforce
    have l2: "later w w2" using l1 poll_cancelled_later [OF x] by (rule later_trans)
    have l3: "later w (env_park env w3)"
      using l2 sleep_later [OF y] park_later by (meson later_trans)
    from s p Pending x y consider
        "fm_bind_cancel env rset req race' ?st w2 = c"
      | u where "y = Ready u" "fm_bind_deadline env rset req race' ?st w3 = c"
      | "y = Pending" "(?st\<lparr>fm_pc := FM_SelBind race'\<rparr>, env_park env w3) = c"
      by (auto simp: fm_sel_bind_def Let_def split: poll.splits)
    then show ?thesis
    proof cases
      case 1
      then show ?thesis
        by (auto simp: fm_bind_cancel_def fm_cancelled_done split: prod.splits sum.splits)
    next
      case 2
      with sleep_ready [of w2 "earliest_deadline req"] y fm_bind_deadline_done [of req w3] show ?thesis
        by (auto simp: fm_cap_def)
    next
      case 3
      with fm_time_park [of w2 req w3] y fm_time_later [OF l2, of req] l3 show ?thesis
        by (auto simp: fm_measure_def fm_idle_pc_def)
    qed
  qed
qed

lemma fm_top_measure:
  assumes s: "fm_top env rset req st w = c" and pc: "fm_pc st = FM_Top"
  shows "fm_is_done (fst c) \<or>
    (fm_measure clk cxl req c < fm_measure clk cxl req (st, w) \<and> fm_idle_pc (fst c) \<and> later w (snd c))"
proof -
  obtain x w1 where x: "env_is_cancelled env w = (x, w1)" by fastforce
  obtain now w2 where t: "env_now env w1 = (now, w2)" by fastforce
  note l1 = cancelled_later [OF x]
  from l1 now_later [OF t] have l2: "later w w2" by (rule later_trans)
  show ?thesis
  proof (cases "x \<or> terminal_deadline rset req now (fm_starts env st) \<noteq> None")
    case True
    with s x t show ?thesis
      by (auto simp: fm_top_def fm_cancelled_done split: prod.splits)
  next
    case False
    then have "ts_instant now < fm_cap req" by (intro terminal_deadline_early) auto
    with l1 now_bounds [OF t] have early: "fm_time clk req w \<noteq> 0" by (auto simp: fm_time_def later_iff)
    moreover have "\<not> cxl w" using cancelled_flag [OF x] False by auto
    ultimately have "fm_measure clk cxl req (st, w) = 8 * fm_time clk req w + 7"
      by (simp add: fm_measure_def pc)
    moreover from s x t False have "fm_measure clk cxl req c = 8 * fm_time clk req w2 + 6"
      "fm_idle_pc (fst c)" "snd c = w2"
      by (auto simp: fm_top_def fm_measure_def fm_idle_pc_def split: option.splits)
    ultimately show ?thesis using fm_time_later [OF l2, of req] l2 by simp
  qed
qed

lemma fm_backoff_measure:
  assumes s: "fm_backoff env rset req t ph st w = c" and pc: "fm_pc st = FM_Backoff t ph"
  shows "fm_is_done (fst c) \<or>
    (fm_measure clk cxl req c < fm_measure clk cxl req (st, w) \<and> fm_idle_pc (fst c) \<and> later w (snd c))"
proof -
  define m where "m = (let s = nat (fm_cap req - ts_instant t) in if s = 0 then 2 else 8 * s + 8)"
  have mw: "fm_measure clk cxl req (st, w) = m + nat (ts_instant t - clk w)"
    by (simp add: fm_measure_def pc m_def Let_def)
  have m2: "2 \<le> m" by (simp add: m_def Let_def)
  have top: "fm_measure clk cxl req (st\<lparr>fm_pc := FM_Top\<rparr>, w') < m" if "cxl w' \<or> ts_instant t \<le> clk w'" for w'
    using that by (auto simp: fm_measure_def m_def fm_time_def Let_def)
  obtain x w1 where x: "poll_cancelled env w = (x, w1)" by fastforce
  note l1 = poll_cancelled_later [OF x]
  obtain y w2 where y: "env_sleep_until env w1 t = (y, w2)" by fastforce
  from l1 sleep_later [OF y] have l2: "later w w2" by (rule later_trans)
  have woken: ?thesis
    if w: "(if ph then
        let (cancelled, w) = env_is_cancelled env w'
        in if cancelled then fm_cancelled env rset req st w else (st\<lparr>fm_pc := FM_Top\<rparr>, w)
      else (st\<lparr>fm_pc := FM_Top\<rparr>, w')) = c"
      and l: "later w w'" and d: "cxl w' \<or> ts_instant t \<le> clk w'" for w'
  proof (cases ph)
    case True
    obtain z w3 where z: "env_is_cancelled env w' = (z, w3)" by fastforce
    from cancelled_later [OF z] d have d3: "cxl w3 \<or> ts_instant t \<le> clk w3" by (auto simp: later_iff)
    from l cancelled_later [OF z] have l3: "later w w3" by (rule later_trans)
    from w True z top [OF d3] l3 show ?thesis
      by (auto simp: fm_cancelled_done mw fm_idle_pc_def split: if_splits)
  next
    case False
    with w top [OF d] l show ?thesis by (auto simp: mw fm_idle_pc_def)
  qed
  show ?thesis
  proof (cases x)
    case (Ready u)
    with s x l1 poll_cancelled_Ready [of w u w1] show ?thesis
      by (intro woken [of w1]) (auto simp: fm_backoff_def Let_def)
  next
    case Pending
    show ?thesis
    proof (cases y)
      case (Ready u)
      with s x y Pending l2 sleep_ready [of w1 t u w2] show ?thesis
        by (intro woken [of w2]) (auto simp: fm_backoff_def Let_def)
    next
      case P2: Pending
      with s x y Pending have c: "c = (st, env_park env w2)" by (simp add: fm_backoff_def Let_def)
      from sleep_due [of w1 t w2] sleep_parks [of w1 t w2] y P2 sleep_later [OF y] l1
      have "clk w < ts_instant t \<or> clk w1 < ts_instant t" "clk w < clk (env_park env w2)"
        by (auto simp: later_iff)
      moreover have "clk w < ts_instant t"
        using sleep_due [of w1 t w2] y P2 l1 by (auto simp: later_iff)
      moreover have "later w (env_park env w2)" using l2 park_later by (rule later_trans)
      ultimately show ?thesis by (auto simp: c fm_measure_def pc fm_idle_pc_def Let_def)
    qed
  qed
qed

definition fm_ready :: "live_wait_request \<Rightarrow> 'b fm_state \<times> 'w \<Rightarrow> bool" where
  "fm_ready req c \<longleftrightarrow> fm_idle_pc (fst c) \<and> cal_min (env_calendar env) \<le> clk (snd c)"

lemma fm_step_measure:
  assumes r: "fm_ready req c" and hi: "fm_cap req + nanos_per_sec \<le> cal_max (env_calendar env)"
  shows "fm_is_done (fst (fm_step env rset req c)) \<or>
    (fm_ready req (fm_step env rset req c) \<and> fm_measure clk cxl req (fm_step env rset req c) < fm_measure clk cxl req c)"
proof -
  obtain st w where c: "c = (st, w)" by (cases c)
  let ?c = "fm_step env rset req c"
  from r c have lo: "cal_min (env_calendar env) \<le> clk w" by (simp add: fm_ready_def)
  have "fm_is_done (fst ?c) \<or> (fm_measure clk cxl req ?c < fm_measure clk cxl req c \<and> fm_idle_pc (fst ?c) \<and> later w (snd ?c))"
  proof (cases "fm_pc st")
    case FM_Top
    then have "fm_top env rset req st w = ?c" by (simp add: fm_step_def c)
    from fm_top_measure [OF this FM_Top] show ?thesis by (simp add: c)
  next
    case (FM_SelBound race)
    with r c obtain binds where b: "fm_bound st = Some binds" by (auto simp: fm_ready_def fm_idle_pc_def)
    with FM_SelBound have "fm_sel_bound env rset req binds race st w = ?c" by (simp add: fm_step_def c)
    from fm_sel_bound_measure [OF this _ lo hi] b FM_SelBound show ?thesis by (simp add: c fm_measure_def)
  next
    case (FM_SelBind race)
    then have "fm_sel_bind env rset req race st w = ?c" by (simp add: fm_step_def c)
    from fm_sel_bind_measure [OF this lo hi] FM_SelBind show ?thesis by (simp add: c fm_measure_def)
  next
    case (FM_Backoff t ph)
    then have "fm_backoff env rset req t ph st w = ?c" by (simp add: fm_step_def c)
    from fm_backoff_measure [OF this FM_Backoff] show ?thesis by (simp add: c)
  next
    case (FM_Done x)
    then show ?thesis by (simp add: fm_step_def c fm_is_done_def)
  qed
  with lo show ?thesis by (auto simp: fm_ready_def later_iff)
qed

lemma fm_run_done: "fm_is_done (fst c) \<Longrightarrow> fm_run env rset req n c = c"
proof (induction n)
  case (Suc n)
  then have "fm_step env rset req c = c" by (auto simp: fm_step_def fm_is_done_def split: prod.splits)
  with Suc show ?case by simp
qed simp

lemma fm_run_finishes:
  "fm_ready req c \<Longrightarrow> fm_cap req + nanos_per_sec \<le> cal_max (env_calendar env) \<Longrightarrow>
   fm_measure clk cxl req c < n \<Longrightarrow> fm_is_done (fst (fm_run env rset req n c))"
proof (induction n arbitrary: c)
  case (Suc n)
  from fm_step_measure [OF Suc.prems(1,2)] show ?case
  proof
    assume "fm_is_done (fst (fm_step env rset req c))"
    then show ?thesis by (simp add: fm_run_done)
  next
    assume "fm_ready req (fm_step env rset req c) \<and>
      fm_measure clk cxl req (fm_step env rset req c) < fm_measure clk cxl req c"
    with Suc show ?thesis by simp
  qed
qed simp

theorem run_first_match_returns:
  assumes "cal_min (env_calendar env) \<le> clk w" "fm_cap req + nanos_per_sec \<le> cal_max (env_calendar env)"
    and "8 * nat (fm_cap req - clk w) + 8 \<le> fuel"
  shows "\<exists>r w'. run_first_match env rset req fuel w = (Some r, w')"
proof (cases "fm_resolve rset req")
  case (Inr u)
  have "fm_ready req (fm_init, w)"
    using assms(1) by (simp add: fm_ready_def fm_idle_pc_def fm_init_def)
  moreover have "fm_measure clk cxl req (fm_init, w) < fuel"
    using assms(3) by (simp add: fm_measure_def fm_init_def fm_time_def)
  ultimately have "fm_is_done (fst (fm_run env rset req fuel (fm_init, w)))"
    using assms(2) by (intro fm_run_finishes)
  with Inr show ?thesis
    by (auto simp: run_first_match_def fm_is_done_def split: prod.splits)
qed (simp add: run_first_match_def)

end

end
