(* ===== verification/First_Match_Outcome.thy ===== *)
theory First_Match_Outcome
  imports First_Match_Run
begin

text \<open>
  The contract of the outcome a first-match run returns, for any observer, clock and token: the
  base echoes the request, and each kind comes with the deadline, the events and the coverage
  it stands for.
\<close>

definition live_echo :: "live_wait_request \<Rightarrow> live_wait_outcome \<Rightarrow> bool" where
  "live_echo req out \<longleftrightarrow>
     lo_request_ref out = message_id req \<and> causation_id out = Some (message_id req) \<and>
     lo_waiter_id out = lr_waiter_id req \<and> correlation_id out = correlation_id req \<and>
     created_at out = lo_completed_at out"

definition clean_coverage :: "registration_set \<Rightarrow> live_wait_outcome \<Rightarrow> bool" where
  "clean_coverage rset out \<longleftrightarrow>
     lo_coverage_complete out = Some True \<and>
     (\<exists>arms. lo_arms out = Some arms \<and>
        (\<forall>arm \<in> set arms. arm_stat arm = AS_NoChange \<and> \<not> arm_degraded arm) \<and>
        (\<forall>reg \<in> set (rs_registrations rset). reg_required reg \<longrightarrow>
           (\<exists>arm \<in> set arms. arm_registration_id arm = reg_id reg \<and> arm_required arm)))"

definition live_outcome_ok :: "registration_set \<Rightarrow> live_wait_request \<Rightarrow> live_wait_outcome \<Rightarrow> bool" where
  "live_outcome_ok rset req out \<longleftrightarrow>
     live_echo req out \<and>
     (case lo_outcome_kind out of
        Events \<Rightarrow> (\<exists>ev. lo_events out = Some [ev] \<and>
                     lo_proposed_next_anchor out = Some (ev_proposed_next_anchor ev))
      | Partial \<Rightarrow> (\<exists>ev. lo_events out = Some [ev] \<and> lo_coverage_complete out = Some False \<and>
                     lo_proposed_next_anchor out = Some (ev_proposed_next_anchor ev))
      | LogicalDeadman \<Rightarrow> lo_events out = Some [] \<and> clean_coverage rset out \<and>
                     ts_le (lr_logical_deadline req) (lo_completed_at out)
      | NoChange \<Rightarrow> lo_events out = Some [] \<and> clean_coverage rset out \<and>
                     ts_le (lr_run_deadline req) (lo_completed_at out) \<and>
                     ts_less (lo_completed_at out) (lr_logical_deadline req)
      | Refused \<Rightarrow> lo_events out = Some [] \<and> rs_authn_mode rset = AuthnModeRequired \<and>
                     verification_receipt_ref req = None
      | ReauthenticationRequired \<Rightarrow> lo_events out = Some [] \<and>
                     (\<exists>reg \<in> set (rs_registrations rset).
                        ts_less (reg_lease_expires_at reg) (lo_completed_at out))
      | CoverageDegraded \<Rightarrow> False
      | _ \<Rightarrow> lo_events out = Some [] \<and> lo_reason_code out \<noteq> None)"

lemma live_echo_outcomes [simp]:
  "live_echo req (outcome_events req t ev)"
  "live_echo req (outcome_partial rset req t e rs)"
  "live_echo req (outcome_logical_deadman rset req t rs)"
  "live_echo req (outcome_no_change rset req t rs)"
  "live_echo req (outcome_cancelled req t)"
  "live_echo req (outcome_failed req t r)"
  "live_echo req (outcome_refused req t r)"
  "live_echo req (outcome_reauthentication_required req t r)"
  by (simp_all add: live_echo_def outcome_defs)

lemma clean_arms_coverage:
  assumes "required_binding_complete rset resolved" "lo_coverage_complete out = Some True"
    and "lo_arms out = Some (clean_arms rset resolved)"
  shows "clean_coverage rset out"
proof -
  have "\<exists>arm \<in> set (clean_arms rset resolved). arm_registration_id arm = reg_id reg \<and> arm_required arm"
    if "reg \<in> set (rs_registrations rset)" "reg_required reg" for reg
    using that assms(1) clean_arms_cover [OF that(1), of resolved]
    by (auto simp: required_binding_complete_def list_all_iff list_ex_iff)
  with clean_arms_clean(1,2) [of _ rset resolved] assms(2,3) show ?thesis
    unfolding clean_coverage_def by blast
qed

lemma outcome_failed_ok [simp]: "live_outcome_ok rset req (outcome_failed req t r)"
  by (simp add: live_outcome_ok_def) (simp add: outcome_defs)

lemma outcome_cancelled_ok [simp]: "live_outcome_ok rset req (outcome_cancelled req t)"
  by (simp add: live_outcome_ok_def) (simp add: outcome_defs)

lemma terminal_deadline_ok:
  "terminal_deadline rset req now resolved = Some out \<Longrightarrow> live_outcome_ok rset req out"
  by (auto simp: terminal_deadline_def Let_def live_outcome_ok_def split: if_splits
      intro!: clean_arms_coverage) (simp_all add: outcome_defs ts_order_defs)

lemma posture_reject_ok:
  "posture_reject rset req now = Some out \<Longrightarrow> live_outcome_ok rset req out"
  by (auto simp: posture_reject_def live_outcome_ok_def list_ex_iff split: if_splits)
    (auto simp: outcome_defs)

lemma finish_ok:
  "live_outcome_ok rset req out \<Longrightarrow> live_outcome_ok rset req (finish rset req now out)"
  by (cases rule: finish_cases [of rset req now out]) (auto dest: posture_reject_ok)

lemma outcome_events_ok [simp]: "live_outcome_ok rset req (outcome_events req t ev)"
  by (simp add: live_outcome_ok_def) (simp add: outcome_defs)

lemma outcome_partial_ok [simp]: "live_outcome_ok rset req (outcome_partial rset req t (Some ev) resolved)"
  by (simp add: live_outcome_ok_def) (simp add: outcome_defs)

lemma decide_ok:
  "decide rset req now ready resolved = Some out \<Longrightarrow> live_outcome_ok rset req out"
  by (cases "min_by_key fst (ready_events ready)")
    (auto simp: decide_def Let_def split: if_splits option.splits list.splits)

lemma decide_and_restore_ok:
  "decide_and_restore env rset req now binds ready resolved w = (Inr (Some out), w') \<Longrightarrow>
   live_outcome_ok rset req out"
  by (auto simp: decide_and_restore_def split: option.splits prod.splits sum.splits
      dest: decide_ok posture_reject_ok)

definition fm_ok :: "registration_set \<Rightarrow> live_wait_request \<Rightarrow> 'b fm_state \<times> 'w \<Rightarrow> bool" where
  "fm_ok rset req c \<longleftrightarrow> (\<forall>out. fm_pc (fst c) = FM_Done (Inr out) \<longrightarrow> live_outcome_ok rset req out)"

lemma fm_ok_done [simp]:
  "fm_ok rset req (fm_done st (Inl err) w)"
  "live_outcome_ok rset req out \<Longrightarrow> fm_ok rset req (fm_done st (Inr out) w)"
  by (simp_all add: fm_ok_def fm_done_def)

lemma fm_ok_moved [simp]:
  "fm_ok rset req (st\<lparr>fm_pc := FM_Top\<rparr>, w)" "fm_ok rset req (st\<lparr>fm_pc := FM_SelBound race\<rparr>, w)"
  "fm_ok rset req (st\<lparr>fm_pc := FM_SelBind race'\<rparr>, w)"
  by (simp_all add: fm_ok_def)

lemma fm_cancelled_ok [simp]: "fm_ok rset req (fm_cancelled env rset req st w)"
  by (auto simp: fm_cancelled_def Let_def finish_ok split: prod.splits)

lemma fm_enter_backoff_ok [simp]: "fm_ok rset req (fm_enter_backoff env req ph st w)"
  by (auto simp: fm_enter_backoff_def fm_ok_def Let_def split: prod.splits)

lemma fm_top_ok: "fm_ok rset req (fm_top env rset req st w)"
  by (auto simp: fm_top_def Let_def finish_ok split: prod.splits option.splits dest!: terminal_deadline_ok)

lemma fm_bound_collected_ok: "fm_ok rset req (fm_bound_collected env rset req binds collected st w)"
  by (auto simp: fm_bound_collected_def Let_def finish_ok dest!: decide_and_restore_ok
      split: prod.splits option.splits sum.splits)

lemma fm_bound_deadline_ok: "fm_ok rset req (fm_bound_deadline env rset req binds race st w)"
  by (auto simp: fm_bound_deadline_def Let_def finish_ok dest!: decide_and_restore_ok terminal_deadline_ok
      split: prod.splits option.splits sum.splits)

lemma fm_bind_collected_ok: "fm_ok rset req (fm_bind_collected env rset req collected st w)"
  by (auto simp: fm_bind_collected_def Let_def finish_ok dest!: decide_and_restore_ok
      split: prod.splits option.splits sum.splits)

lemma fm_bind_deadline_ok: "fm_ok rset req (fm_bind_deadline env rset req race st w)"
  by (auto simp: fm_bind_deadline_def Let_def finish_ok dest!: terminal_deadline_ok
      split: prod.splits option.splits sum.splits)

lemma fm_sel_bound_ok: "fm_ok rset req (fm_sel_bound env rset req binds race st w)"
  by (auto simp: fm_sel_bound_def fm_bound_cancel_def fm_bound_collected_ok fm_bound_deadline_ok
      split: prod.splits poll.splits sum.splits)

lemma fm_sel_bind_ok: "fm_ok rset req (fm_sel_bind env rset req race st w)"
  by (auto simp: fm_sel_bind_def fm_bind_cancel_def fm_bind_collected_ok fm_bind_deadline_ok Let_def
      split: prod.splits poll.splits sum.splits)

lemma fm_backoff_ok:
  "fm_pc st = FM_Backoff t ph \<Longrightarrow> fm_ok rset req (fm_backoff env rset req t ph st w)"
  by (auto simp: fm_backoff_def Let_def fm_ok_def [of _ _ "(st, w')" for w'] split: prod.splits poll.splits)

lemma fm_step_ok: "fm_ok rset req c \<Longrightarrow> fm_ok rset req (fm_step env rset req c)"
  by (auto simp: fm_step_def fm_top_ok fm_sel_bound_ok fm_sel_bind_ok fm_backoff_ok
      split: prod.splits fm_pc.splits option.splits)

lemma fm_run_ok: "fm_ok rset req c \<Longrightarrow> fm_ok rset req (fm_run env rset req n c)"
  by (induction n arbitrary: c) (simp_all add: fm_step_ok)

lemma run_first_match_ok:
  assumes "run_first_match env rset req fuel w = (Some (Inr out), w')"
  shows "live_outcome_ok rset req out"
proof -
  have "fm_ok rset req (fm_init, w)" by (simp add: fm_ok_def fm_init_def)
  from fm_run_ok [OF this, of env fuel] assms show ?thesis
    by (auto simp: run_first_match_def fm_ok_def split: sum.splits prod.splits fm_pc.splits)
qed

text \<open>The tie rule of the decision, and what a set of ready observations decides.\<close>

lemma decide_tie_rule:
  assumes "\<not> ready_overflow ready" and "(i, Obs_Event ev) \<in> set ready" "distinct (map fst ready)"
    and "\<And>j e. (j, Obs_Event e) \<in> set ready \<Longrightarrow> i \<le> j"
  shows "decide rset req now ready resolved = Some (outcome_events req now ev)"
proof -
  have mem: "(i, ev) \<in> set (ready_events ready)" using assms(2) by (simp add: set_ready_events)
  then obtain w where w: "min_by_key fst (ready_events ready) = Some w"
    by (cases "min_by_key fst (ready_events ready)") auto
  obtain j e where je: "w = (j, e)" by (cases w)
  from min_by_key_Some [OF w] je have "(j, Obs_Event e) \<in> set ready" "j \<le> i"
    using mem by (auto simp: set_ready_events)
  with assms(2,3,4) have "j = i" "e = ev" by (auto dest: eq_key_imp_eq_value antisym)
  with w je mem assms(1) show ?thesis
    by (auto simp: decide_def Let_def split: option.splits list.splits)
qed

end
