(* ===== verification/Poll_Budget.thy ===== *)
theory Poll_Budget
  imports Live_Outcome "HOL-Library.Multiset"
begin

text \<open>
  Collection under bounds in the poll-cycle runner (\<^verbatim>\<open>crates/waitprims-async/src/poll_cycle.rs\<close>):
  the weight of an event, the budget of one cycle, the visits it records, and the draining of a
  ready arm.
\<close>

section \<open>The budget\<close>

datatype arm_visit =
    V_Events "wait_event list"
  | V_Saturated "wait_event list"
  | V_Idle
  | V_Overflow
  | V_Failed string
  | V_Outage string
  | V_CursorUncertain string
  | V_Degraded string
  | V_Deferred

definition event_surface_bytes :: "wait_event \<Rightarrow> u64" where
  "event_surface_bytes ev =
     (let n = of_nat (length (opaque_str (pl_payload_ref (ev_payload ev))))
            + of_nat (length (cd_value (pl_content_digest (ev_payload ev))))
      in case pl_media_type (ev_payload ev) of
           Some media_type \<Rightarrow> n + of_nat (length media_type)
         | None \<Rightarrow> n)"

record collect_budget =
  cb_max_events :: u64
  cb_max_payload_refs :: u64
  cb_max_bytes :: u64
  cb_events :: u64
  cb_payload_refs :: u64
  cb_bytes :: u64
  cb_per_reg_events :: "(string, u64) btree"
  cb_per_reg_bytes :: "(string, u64) btree"
  cb_reg_max_events :: "(string, u64) btree"
  cb_reg_max_bytes :: "(string, u64) btree"

definition bound_or_max :: "poll_bound option \<Rightarrow> (poll_bound \<Rightarrow> u64 option) \<Rightarrow> u64" where
  "bound_or_max bound field =
     (case bound of
        None \<Rightarrow> u64_max
      | Some b \<Rightarrow> (case field b of Some n \<Rightarrow> n | None \<Rightarrow> u64_max))"

definition budget_new :: "registration_set \<Rightarrow> poll_cycle_request \<Rightarrow> collect_budget" where
  "budget_new rset req =
     \<lparr>cb_max_events = min (wb_max_events (rs_aggregate_limits rset)) (bound_or_max (pr_bound req) pb_max_events),
      cb_max_payload_refs = bound_or_max (pr_bound req) pb_max_payload_refs,
      cb_max_bytes = min (wb_max_bytes (rs_aggregate_limits rset)) (bound_or_max (pr_bound req) pb_max_bytes),
      cb_events = 0, cb_payload_refs = 0, cb_bytes = 0,
      cb_per_reg_events = [], cb_per_reg_bytes = [],
      cb_reg_max_events =
        bt_collect (map (\<lambda>reg. (id_str (reg_id reg), wb_max_events (reg_bounds reg))) (rs_registrations rset)),
      cb_reg_max_bytes =
        bt_collect (map (\<lambda>reg. (id_str (reg_id reg), wb_max_bytes (reg_bounds reg))) (rs_registrations rset))\<rparr>"

definition get_or :: "'v \<Rightarrow> ('k, 'v) btree \<Rightarrow> 'k \<Rightarrow> 'v" where
  "get_or d m k = (case bt_get m k of Some v \<Rightarrow> v | None \<Rightarrow> d)"

definition room_for_another_event :: "collect_budget \<Rightarrow> bool" where
  "room_for_another_event b \<longleftrightarrow>
     cb_events b < cb_max_events b \<and> cb_payload_refs b < cb_max_payload_refs b \<and> cb_bytes b < cb_max_bytes b"

definition room_for_registration :: "collect_budget \<Rightarrow> string \<Rightarrow> bool" where
  "room_for_registration b rid \<longleftrightarrow>
     room_for_another_event b \<and>
     get_or 0 (cb_per_reg_events b) rid < get_or u64_max (cb_reg_max_events b) rid \<and>
     get_or 0 (cb_per_reg_bytes b) rid < get_or u64_max (cb_reg_max_bytes b) rid"

definition budget_exhausted :: "collect_budget \<Rightarrow> bool" where
  "budget_exhausted b = (\<not> room_for_another_event b)"

text \<open>
  The two per-registration counters are plain \<open>u64\<close> additions; they are written as such, and
  shown below to stay exact under the checks that precede them.
\<close>

definition try_take :: "collect_budget \<Rightarrow> wait_event \<Rightarrow> bool \<times> collect_budget" where
  "try_take b ev =
     (let rid = id_str (ev_registration_id ev);
          weight = event_surface_bytes ev;
          reg_bytes = get_or 0 (cb_per_reg_bytes b) rid;
          max_b = get_or u64_max (cb_reg_max_bytes b) rid
      in if \<not> room_for_registration b rid then (False, b)
         else if cb_max_bytes b < sat_add (cb_bytes b) weight then (False, b)
         else if max_b < sat_add reg_bytes weight then (False, b)
         else (True,
           b\<lparr>cb_events := sat_add (cb_events b) 1,
             cb_payload_refs := sat_add (cb_payload_refs b) 1,
             cb_bytes := sat_add (cb_bytes b) weight,
             cb_per_reg_events := bt_insert rid (get_or 0 (cb_per_reg_events b) rid + 1) (cb_per_reg_events b),
             cb_per_reg_bytes := bt_insert rid (reg_bytes + weight) (cb_per_reg_bytes b)\<rparr>))"

lemma get_or_insert [simp]: "get_or d (bt_insert k v m) j = (if j = k then v else get_or d m j)"
  by (simp add: get_or_def)

lemma try_take_False: "try_take b ev = (False, b') \<Longrightarrow> b' = b"
  by (auto simp: try_take_def Let_def split: if_splits)

lemma try_take_True:
  assumes "try_take b ev = (True, b')"
  shows "room_for_registration b (id_str (ev_registration_id ev))"
    "cb_max_events b' = cb_max_events b" "cb_events b' = sat_add (cb_events b) 1"
    "cb_max_bytes b' = cb_max_bytes b" "cb_bytes b' = sat_add (cb_bytes b) (event_surface_bytes ev)"
    "\<not> cb_max_bytes b < sat_add (cb_bytes b) (event_surface_bytes ev)"
    "cb_reg_max_events b' = cb_reg_max_events b" "cb_reg_max_bytes b' = cb_reg_max_bytes b"
    "cb_max_payload_refs b' = cb_max_payload_refs b" "cb_payload_refs b' = sat_add (cb_payload_refs b) 1"
  using assms by (auto simp: try_take_def Let_def split: if_splits)

lemma sat_add_1: "a < b \<Longrightarrow> unat (sat_add a 1) = unat a + 1"
proof -
  assume "a < b"
  then have "unat a < unat b" by (simp add: word_less_nat_alt)
  moreover have "unat b \<le> 2 ^ 64 - 1" by (rule unat_le_u64_max)
  ultimately show ?thesis by (simp add: unat_sat_add)
qed

lemma try_take_progress:
  assumes "try_take b ev = (True, b')"
  shows "unat (cb_max_events b') - unat (cb_events b') < unat (cb_max_events b) - unat (cb_events b)"
proof -
  have lt: "cb_events b < cb_max_events b"
    using try_take_True(1) [OF assms] by (simp add: room_for_registration_def room_for_another_event_def)
  then have "unat (cb_events b) < unat (cb_max_events b)" by (simp add: word_less_nat_alt)
  with try_take_True(2,3) [OF assms] sat_add_1 [OF lt] show ?thesis by simp
qed

section \<open>Draining a ready arm\<close>

definition restore_observation ::
  "('w, 'b) env \<Rightarrow> 'b option \<Rightarrow> observation \<Rightarrow> 'w \<Rightarrow> (error + unit) \<times> 'w" where
  "restore_observation env bind obs w =
     (case bind of Some b \<Rightarrow> env_restore_ready env w b obs | None \<Rightarrow> (Inr (), w))"

text \<open>The loop ends because every round that goes on spends one event of the budget.\<close>

function drain_ready ::
  "('w, 'b) env \<Rightarrow> 'b \<Rightarrow> collect_budget \<Rightarrow> wait_event list \<Rightarrow> 'w \<Rightarrow>
   (error + bool) \<times> collect_budget \<times> wait_event list \<times> 'w" where
  "drain_ready env b budget events w =
     (if \<not> room_for_registration budget (id_str (env_registration_id env b))
      then (Inr True, budget, events, w)
      else case env_poll_ready env w b of
             (None, w1) \<Rightarrow> (Inr False, budget, events, w1)
           | (Some obs, w1) \<Rightarrow>
               (case obs of
                  Obs_Event ev \<Rightarrow>
                    (case try_take budget ev of
                       (True, budget1) \<Rightarrow> drain_ready env b budget1 (events @ [ev]) w1
                     | (False, budget1) \<Rightarrow>
                         (case restore_observation env (Some b) (Obs_Event ev) w1 of
                            (Inl err, w2) \<Rightarrow> (Inl err, budget1, events, w2)
                          | (Inr _, w2) \<Rightarrow> (Inr True, budget1, events, w2)))
                | Obs_Overflow \<Rightarrow> (Inr True, budget, events, w1)
                | other \<Rightarrow>
                    (case restore_observation env (Some b) other w1 of
                       (Inl err, w2) \<Rightarrow> (Inl err, budget, events, w2)
                     | (Inr _, w2) \<Rightarrow> (Inr False, budget, events, w2))))"
  by pat_completeness auto

termination
  by (relation "measure (\<lambda>(env, b, budget, events, w). unat (cb_max_events budget) - unat (cb_events budget))")
    (auto dest: try_take_progress [OF sym])

declare drain_ready.simps [simp del]

definition defer_ready ::
  "('w, 'b) env \<Rightarrow> 'b option \<Rightarrow> observation \<Rightarrow> 'w \<Rightarrow> (error + arm_visit) \<times> 'w" where
  "defer_ready env bind obs w =
     (case restore_observation env bind obs w of
        (Inl err, w) \<Rightarrow> (Inl err, w)
      | (Inr _, w) \<Rightarrow> (Inr V_Deferred, w))"

definition visit_from ::
  "('w, 'b) env \<Rightarrow> 'b option \<Rightarrow> collect_budget \<Rightarrow> observation \<Rightarrow> 'w \<Rightarrow>
   (error + arm_visit) \<times> collect_budget \<times> 'w" where
  "visit_from env bind budget obs w =
     (case obs of
        Obs_Event ev \<Rightarrow>
          (case try_take budget ev of
             (False, budget) \<Rightarrow>
               (let (r, w) = defer_ready env bind (Obs_Event ev) w in (r, budget, w))
           | (True, budget) \<Rightarrow>
               (case bind of
                  None \<Rightarrow> (Inr (V_Events [ev]), budget, w)
                | Some b \<Rightarrow>
                    (case drain_ready env b budget [ev] w of
                       (Inl err, budget, events, w) \<Rightarrow> (Inl err, budget, w)
                     | (Inr truncated, budget, events, w) \<Rightarrow>
                         (Inr (if truncated then V_Saturated events else V_Events events), budget, w))))
      | Obs_Idle \<Rightarrow> (Inr V_Idle, budget, w)
      | Obs_Overflow \<Rightarrow> (Inr V_Overflow, budget, w)
      | Obs_Failed r \<Rightarrow> (Inr (V_Failed (id_str r)), budget, w)
      | Obs_Outage r \<Rightarrow> (Inr (V_Outage (id_str r)), budget, w)
      | Obs_CursorUncertain r \<Rightarrow> (Inr (V_CursorUncertain (id_str r)), budget, w)
      | Obs_Degraded r \<Rightarrow> (Inr (V_Degraded (id_str r)), budget, w))"

fun visit_events :: "arm_visit \<Rightarrow> wait_event list" where
  "visit_events (V_Events evs) = evs"
| "visit_events (V_Saturated evs) = evs"
| "visit_events _ = []"

section \<open>The budget is never exceeded\<close>

text \<open>
  \<open>budget_counts b evs\<close>: the budget \<open>b\<close> has admitted exactly the events \<open>evs\<close>. The counters hold
  their number and weight, and every bound is respected.
\<close>

definition weight_of :: "wait_event list \<Rightarrow> nat" where
  "weight_of evs = sum_list (map (\<lambda>ev. unat (event_surface_bytes ev)) evs)"

definition of_reg :: "string \<Rightarrow> wait_event list \<Rightarrow> wait_event list" where
  "of_reg rid evs = filter (\<lambda>ev. id_str (ev_registration_id ev) = rid) evs"

definition budget_counts :: "collect_budget \<Rightarrow> wait_event list \<Rightarrow> bool" where
  "budget_counts b evs \<longleftrightarrow>
     unat (cb_events b) = length evs \<and> length evs \<le> unat (cb_max_events b) \<and>
     unat (cb_payload_refs b) = length evs \<and> length evs \<le> unat (cb_max_payload_refs b) \<and>
     unat (cb_bytes b) = min (weight_of evs) (2 ^ 64 - 1) \<and>
     (weight_of evs \<le> unat (cb_max_bytes b) \<or> cb_max_bytes b = u64_max) \<and>
     (\<forall>rid. unat (get_or 0 (cb_per_reg_events b) rid) = length (of_reg rid evs) \<and>
            length (of_reg rid evs) \<le> unat (get_or u64_max (cb_reg_max_events b) rid)) \<and>
     (\<forall>rid. get_or u64_max (cb_reg_max_bytes b) rid \<noteq> u64_max \<longrightarrow>
            unat (get_or 0 (cb_per_reg_bytes b) rid) = weight_of (of_reg rid evs) \<and>
            weight_of (of_reg rid evs) \<le> unat (get_or u64_max (cb_reg_max_bytes b) rid))"

lemma budget_counts_new: "budget_counts (budget_new rset req) []"
  by (simp add: budget_counts_def budget_new_def weight_of_def of_reg_def get_or_def)

lemma unat_less_iff: "(a :: u64) < b \<longleftrightarrow> unat a < unat b"
  by (simp add: word_less_nat_alt)

lemma unat_u64_max_iff: "unat (a :: u64) = 2 ^ 64 - 1 \<longleftrightarrow> a = u64_max"
  by (simp only: unat_u64_max [symmetric] word_unat_eq_iff)

lemma try_take_counts:
  assumes c: "budget_counts b evs" and t: "try_take b ev = (True, b')"
  shows "budget_counts b' (evs @ [ev])"
proof -
  let ?rid = "id_str (ev_registration_id ev)" and ?w = "event_surface_bytes ev"
  note T = try_take_True [OF t]
  have room: "cb_events b < cb_max_events b" "cb_payload_refs b < cb_max_payload_refs b"
    "get_or 0 (cb_per_reg_events b) ?rid < get_or u64_max (cb_reg_max_events b) ?rid"
    using T(1) by (simp_all add: room_for_registration_def room_for_another_event_def)
  have ev: "unat (cb_events b') = length (evs @ [ev])" "length (evs @ [ev]) \<le> unat (cb_max_events b')"
    using c room(1) sat_add_1 [OF room(1)] by (auto simp: budget_counts_def T unat_less_iff)
  have pr: "unat (cb_payload_refs b') = length (evs @ [ev])" "length (evs @ [ev]) \<le> unat (cb_max_payload_refs b')"
    using c room(2) sat_add_1 [OF room(2)] by (auto simp: budget_counts_def T unat_less_iff)
  have bs: "unat (cb_bytes b') = min (weight_of (evs @ [ev])) (2 ^ 64 - 1)"
    using c by (simp add: budget_counts_def T unat_sat_add weight_of_def)
  have mx: "weight_of (evs @ [ev]) \<le> unat (cb_max_bytes b') \<or> cb_max_bytes b' = u64_max"
  proof (rule disjCI)
    assume "cb_max_bytes b' \<noteq> u64_max"
    then have "unat (cb_max_bytes b') < 2 ^ 64 - 1"
      using unat_le_u64_max [of "cb_max_bytes b'"] unat_u64_max_iff [of "cb_max_bytes b'"] by linarith
    moreover have "unat (cb_bytes b') \<le> unat (cb_max_bytes b')"
      using T(4,5,6) by (simp add: unat_less_iff)
    ultimately show "weight_of (evs @ [ev]) \<le> unat (cb_max_bytes b')" using bs by simp
  qed
  have pe: "cb_per_reg_events b' = bt_insert ?rid (get_or 0 (cb_per_reg_events b) ?rid + 1) (cb_per_reg_events b)"
    using t by (auto simp: try_take_def Let_def split: if_splits)
  have "unat (get_or 0 (cb_per_reg_events b) ?rid + 1) = unat (get_or 0 (cb_per_reg_events b) ?rid) + 1"
    using room(3) unat_le_u64_max [of "get_or u64_max (cb_reg_max_events b) ?rid"]
    by (simp add: unat_word_ariths unat_less_iff)
  then have re: "unat (get_or 0 (cb_per_reg_events b') rid) = length (of_reg rid (evs @ [ev])) \<and>
      length (of_reg rid (evs @ [ev])) \<le> unat (get_or u64_max (cb_reg_max_events b') rid)" for rid
    using c room(3) by (auto simp: budget_counts_def pe T of_reg_def unat_less_iff)
  have rb: "unat (get_or 0 (cb_per_reg_bytes b') rid) = weight_of (of_reg rid (evs @ [ev])) \<and>
      weight_of (of_reg rid (evs @ [ev])) \<le> unat (get_or u64_max (cb_reg_max_bytes b') rid)"
    if fin: "get_or u64_max (cb_reg_max_bytes b') rid \<noteq> u64_max" for rid
  proof (cases "rid = ?rid")
    case False
    from t have "cb_per_reg_bytes b' = bt_insert ?rid (get_or 0 (cb_per_reg_bytes b) ?rid + ?w) (cb_per_reg_bytes b)"
      by (auto simp: try_take_def Let_def split: if_splits)
    with False c fin show ?thesis by (auto simp: budget_counts_def T of_reg_def)
  next
    case True
    let ?n = "get_or 0 (cb_per_reg_bytes b) ?rid" and ?m = "get_or u64_max (cb_reg_max_bytes b) ?rid"
    from t have "cb_per_reg_bytes b' = bt_insert ?rid (?n + ?w) (cb_per_reg_bytes b)" and "\<not> ?m < sat_add ?n ?w"
      by (auto simp: try_take_def Let_def split: if_splits)
    moreover have "?m \<noteq> u64_max" using fin True by (simp add: T)
    then have "unat ?m < 2 ^ 64 - 1"
      using unat_le_u64_max [of ?m] unat_u64_max_iff [of ?m] by linarith
    moreover have "unat ?n = weight_of (of_reg ?rid evs)" using c \<open>?m \<noteq> u64_max\<close> by (auto simp: budget_counts_def)
    moreover from calculation have "unat ?n + unat ?w \<le> unat ?m" "unat (?n + ?w) = unat ?n + unat ?w"
      by (auto simp: unat_less_iff unat_sat_add unat_word_ariths)
    ultimately show ?thesis by (simp add: True T of_reg_def weight_of_def)
  qed
  show ?thesis
    unfolding budget_counts_def using ev pr bs mx re rb by blast
qed

lemma budget_counts_mset:
  assumes "mset evs = mset evs'"
  shows "budget_counts b evs = budget_counts b evs'"
proof -
  have "length (of_reg rid evs) = length (of_reg rid evs')" "weight_of (of_reg rid evs) = weight_of (of_reg rid evs')" for rid
  proof -
    from assms have m: "mset (of_reg rid evs) = mset (of_reg rid evs')" by (simp add: of_reg_def mset_filter)
    from mset_eq_length [OF m] show "length (of_reg rid evs) = length (of_reg rid evs')" .
    from m have "sum_mset (mset (map (\<lambda>ev. unat (event_surface_bytes ev)) (of_reg rid evs)))
        = sum_mset (mset (map (\<lambda>ev. unat (event_surface_bytes ev)) (of_reg rid evs')))"
      by (simp only: mset_map)
    then show "weight_of (of_reg rid evs) = weight_of (of_reg rid evs')"
      by (simp only: weight_of_def sum_mset_sum_list)
  qed
  moreover have "weight_of evs = weight_of evs'"
  proof -
    from assms have "sum_mset (mset (map (\<lambda>ev. unat (event_surface_bytes ev)) evs))
        = sum_mset (mset (map (\<lambda>ev. unat (event_surface_bytes ev)) evs'))"
      by (simp only: mset_map)
    then show ?thesis by (simp only: weight_of_def sum_mset_sum_list)
  qed
  ultimately show ?thesis by (simp only: budget_counts_def mset_eq_length [OF assms])
qed

text \<open>The rounds of the drain.\<close>

lemma drain_ready_cases:
  assumes d: "drain_ready env b bud evs w = (r, bud', evs', w')"
  obtains
    (full) "r = Inr True" "bud' = bud" "evs' = evs" "w' = w"
  | (dry) "env_poll_ready env w b = (None, w')" "r = Inr False" "bud' = bud" "evs' = evs"
  | (flood) "env_poll_ready env w b = (Some Obs_Overflow, w')" "r = Inr True" "bud' = bud" "evs' = evs"
  | (admitted) ev b1 w1 where "env_poll_ready env w b = (Some (Obs_Event ev), w1)" "try_take bud ev = (True, b1)"
      "drain_ready env b b1 (evs @ [ev]) w1 = (r, bud', evs', w')"
  | (returned) obs w1 r1 where "env_poll_ready env w b = (Some obs, w1)" "env_restore_ready env w1 b obs = (r1, w')"
      "bud' = bud" "evs' = evs" "(\<exists>x. r = Inr x) \<longleftrightarrow> (\<exists>x. r1 = Inr x)"
proof (cases "room_for_registration bud (id_str (env_registration_id env b))")
  case False
  with d show ?thesis by (intro full) (simp_all add: drain_ready.simps [of env b bud evs w])
next
  case True
  obtain q w1 where q: "env_poll_ready env w b = (q, w1)" by fastforce
  obtain r1 w2 where r1: "env_restore_ready env w1 b (the q) = (r1, w2)" by fastforce
  show ?thesis
  proof (cases q)
    case None
    with d True q show ?thesis by (intro dry) (simp_all add: drain_ready.simps [of env b bud evs w])
  next
    case (Some obs)
    show ?thesis
    proof (cases "\<exists>ev b1. obs = Obs_Event ev \<and> try_take bud ev = (True, b1)")
      case taken: True
      then obtain ev b1 where "obs = Obs_Event ev" "try_take bud ev = (True, b1)" by blast
      with d True q Some show ?thesis
        by (intro admitted [of ev w1 b1]) (simp_all add: drain_ready.simps [of env b bud evs w])
    next
      case False
      show ?thesis
      proof (cases "obs = Obs_Overflow")
        case True': True
        with d True q Some show ?thesis by (intro flood) (simp_all add: drain_ready.simps [of env b bud evs w])
      next
        case not_over: False
        show ?thesis
        proof (rule returned [of obs w1 r1])
          show "env_poll_ready env w b = (Some obs, w1)" using q Some by simp
          have "w' = w2 \<and> bud' = bud \<and> evs' = evs \<and> ((\<exists>x. r = Inr x) \<longleftrightarrow> (\<exists>x. r1 = Inr x))"
          proof (cases obs)
            case (Obs_Event ev)
            with False have "try_take bud ev = (False, bud)"
              by (cases "try_take bud ev"; cases "fst (try_take bud ev)") (auto dest: try_take_False)
            with d True q Some r1 Obs_Event show ?thesis
              by (auto simp: drain_ready.simps [of env b bud evs w] restore_observation_def split: sum.splits)
          qed (use d True q Some r1 not_over in
              \<open>auto simp: drain_ready.simps [of env b bud evs w] restore_observation_def split: sum.splits\<close>)
          with r1 Some show "env_restore_ready env w1 b obs = (r1, w')" "bud' = bud" "evs' = evs"
            "(\<exists>x. r = Inr x) \<longleftrightarrow> (\<exists>x. r1 = Inr x)" by auto
        qed
      qed
    qed
  qed
qed

text \<open>An invariant of the drain is kept when every round keeps it.\<close>

lemma drain_ready_keeps:
  assumes d: "drain_ready env b bud evs w = (r, bud', evs', w')"
    and p: "P bud evs w"
    and admit: "\<And>bud evs w ev b1 w1. P bud evs w \<Longrightarrow> env_poll_ready env w b = (Some (Obs_Event ev), w1) \<Longrightarrow>
        try_take bud ev = (True, b1) \<Longrightarrow> P b1 (evs @ [ev]) w1"
    and dry: "\<And>bud evs w w1. P bud evs w \<Longrightarrow> env_poll_ready env w b = (None, w1) \<Longrightarrow> P bud evs w1"
    and flood: "\<And>bud evs w w1. P bud evs w \<Longrightarrow> env_poll_ready env w b = (Some Obs_Overflow, w1) \<Longrightarrow> P bud evs w1"
    and put: "\<And>bud evs w obs w1 r1 w2. P bud evs w \<Longrightarrow> env_poll_ready env w b = (Some obs, w1) \<Longrightarrow>
        env_restore_ready env w1 b obs = (r1, w2) \<Longrightarrow> P bud evs w2"
  shows "P bud' evs' w'"
  using d p
proof (induction "unat (cb_max_events bud) - unat (cb_events bud)" arbitrary: bud evs w rule: less_induct)
  case less
  from less.prems(1) show ?case
  proof (cases rule: drain_ready_cases)
    case (admitted ev b1 w1)
    from less.hyps [OF try_take_progress [OF admitted(2)] admitted(3)] assms(3) [OF less.prems(2) admitted(1,2)] show ?thesis .
  qed (use less.prems(2) dry flood put in blast)+
qed

lemma drain_ready_counts:
  assumes "drain_ready env b bud evs w = (r, bud', evs', w')" "budget_counts bud (pre @ evs)"
  shows "budget_counts bud' (pre @ evs')"
  using assms(1)
  by (rule drain_ready_keeps [where P = "\<lambda>bud evs _. budget_counts bud (pre @ evs)"])
    (use assms(2) try_take_counts in \<open>fastforce+\<close>)

lemma visit_from_counts:
  assumes "visit_from env bind bud obs w = (Inr v, bud', w')" "budget_counts bud pre"
  shows "budget_counts bud' (pre @ visit_events v)"
proof (cases "\<exists>ev. obs = Obs_Event ev")
  case True
  then obtain ev where obs: "obs = Obs_Event ev" by blast
  obtain t b1 where t: "try_take bud ev = (t, b1)" by fastforce
  show ?thesis
  proof (cases t)
    case False
    with t assms obs show ?thesis
      by (auto simp: visit_from_def defer_ready_def dest!: try_take_False split: prod.splits sum.splits)
  next
    case True
    with try_take_counts [OF assms(2)] t have c1: "budget_counts b1 (pre @ [ev])" by simp
    show ?thesis
    proof (cases bind)
      case None
      with assms obs t True c1 show ?thesis by (auto simp: visit_from_def)
    next
      case (Some b)
      obtain r b2 evs w2 where d: "drain_ready env b b1 [ev] w = (r, b2, evs, w2)" by (metis prod_cases4)
      with assms obs t True Some drain_ready_counts [OF d c1] show ?thesis
        by (auto simp: visit_from_def split: sum.splits)
    qed
  qed
next
  case False
  with assms show ?thesis by (cases obs) (auto simp: visit_from_def)
qed

end
