(* ===== verification/Poll_Outcome.thy ===== *)
theory Poll_Outcome
  imports Poll_Budget
begin

text \<open>
  The decisions of the poll-cycle runner (\<^verbatim>\<open>crates/waitprims-async/src/poll_cycle.rs\<close>): the
  fairness rotation, the kind of the outcome, and its construction. Nothing here touches the
  observer.
\<close>

section \<open>Arms and fairness\<close>

definition derived_arm_id :: "registration \<Rightarrow> id_token" where
  "derived_arm_id reg =
     IdToken (''arm:'' @ (case strip_prefix ''reg:'' (id_str (reg_id reg)) of
                           Some rest \<Rightarrow> rest | None \<Rightarrow> id_str (reg_id reg)))"

text \<open>The index counts the required registrations met so far.\<close>

definition poll_arm_id :: "poll_cycle_request \<Rightarrow> registration \<Rightarrow> nat \<Rightarrow> id_token \<times> nat" where
  "poll_arm_id req reg required_index =
     (if reg_required reg
      then (if required_index < length (pr_required_arms req) then pr_required_arms req ! required_index
            else derived_arm_id reg, required_index + 1)
      else (derived_arm_id reg, required_index))"

fun arm_ids_from :: "poll_cycle_request \<Rightarrow> registration list \<Rightarrow> nat \<Rightarrow> id_token list" where
  "arm_ids_from req [] required_index = []"
| "arm_ids_from req (reg # regs) required_index =
     (let (arm, required_index) = poll_arm_id req reg required_index
      in arm # arm_ids_from req regs required_index)"

definition fair_str :: "string \<Rightarrow> string" where
  "fair_str s = ''fair:'' @ s"

fun fairness_search :: "string \<Rightarrow> (registration \<times> id_token) list \<Rightarrow> nat \<Rightarrow> nat" where
  "fairness_search cursor [] idx = 0"
| "fairness_search cursor ((reg, arm) # rest) idx =
     (if cursor = id_str arm \<or> cursor = fair_str (id_str arm) \<or> cursor = id_str (reg_id reg)
         \<or> cursor = fair_str (id_str (reg_id reg))
      then idx else fairness_search cursor rest (idx + 1))"

definition fairness_start_index :: "registration_set \<Rightarrow> poll_cycle_request \<Rightarrow> nat" where
  "fairness_start_index rset req =
     (let cursor = id_str (pr_fairness_cursor req);
          regs = rs_registrations rset
      in if cursor = ''fair:start'' then 0
         else fairness_search cursor (zip regs (arm_ids_from req regs 0)) 0)"

definition fairness_order :: "registration_set \<Rightarrow> poll_cycle_request \<Rightarrow> nat list" where
  "fairness_order rset req =
     (let n = length (rs_registrations rset)
      in if n = 0 then []
         else map (\<lambda>i. (fairness_start_index rset req + i) mod n) [0..<n])"

definition next_fairness_cursor :: "registration_set \<Rightarrow> poll_cycle_request \<Rightarrow> id_token" where
  "next_fairness_cursor rset req =
     (let regs = rs_registrations rset
      in if regs = [] then pr_fairness_cursor req
         else let nxt = (fairness_start_index rset req + 1) mod length regs;
                  arm = arm_ids_from req regs 0 ! nxt
              in if starts_with (id_str arm) ''fair:'' then arm
                 else IdToken (fair_str (id_str arm)))"

section \<open>Resolution and starts\<close>

definition pc_resolve :: "registration_set \<Rightarrow> poll_cycle_request \<Rightarrow> error + unit" where
  "pc_resolve rset req =
     (if id_str (pr_registration_set_ref req) \<noteq> id_str (message_id rset)
      then Inl (EValidation (ve_new ''/registration_set_ref'' ''mismatch''))
      else if id_str (pr_registration_revision req) \<noteq> id_str (rs_registration_revision rset)
      then Inl (EValidation (ve_new ''/registration_revision'' ''revision_mismatch''))
      else if id_str (pr_waiter_id req) \<noteq> id_str (rs_waiter_id rset)
      then Inl (EValidation (ve_new ''/waiter_id'' ''mismatch''))
      else if list_ex (\<lambda>key. \<not> list_ex (\<lambda>reg. id_str (reg_id reg) = key) (rs_registrations rset))
                (bt_keys (pr_acknowledged_anchors req))
      then Inl (EValidation (ve_new ''/acknowledged_anchors'' ''unknown_registration''))
      else Inr ())"

definition bind_registration :: "registration \<Rightarrow> poll_cycle_request \<Rightarrow> registration" where
  "bind_registration reg req =
     (case bt_get (pr_acknowledged_anchors req) (id_str (reg_id reg)) of
        Some ack \<Rightarrow> reg\<lparr>reg_start_anchor := Some ack, reg_baseline_policy := None\<rparr>
      | None \<Rightarrow> reg)"

definition merge_starts :: "resolved_start list \<Rightarrow> resolved_start list \<Rightarrow> resolved_start list" where
  "merge_starts slot_starts resolved =
     map snd (bt_collect (map (\<lambda>start. (id_str (rst_registration_id start), start)) (resolved @ slot_starts)))"

definition pc_required_binding_complete :: "registration_set \<Rightarrow> resolved_start list \<Rightarrow> bool" where
  "pc_required_binding_complete rset resolved =
     list_all (\<lambda>reg. list_ex (\<lambda>start. id_str (rst_registration_id start) = id_str (reg_id reg)) resolved)
       (filter reg_required (rs_registrations rset))"

definition deadline_reached :: "poll_cycle_request \<Rightarrow> timestamp \<Rightarrow> bool" where
  "deadline_reached req now \<longleftrightarrow> ts_le (pr_logical_deadline req) now \<or> ts_le (pr_run_deadline req) now"

definition pc_earliest_deadline :: "poll_cycle_request \<Rightarrow> timestamp" where
  "pc_earliest_deadline req =
     (if ts_less (pr_run_deadline req) (pr_logical_deadline req)
      then pr_run_deadline req else pr_logical_deadline req)"

definition honest_start ::
  "resolved_start list \<Rightarrow> poll_cycle_request \<Rightarrow> registration \<Rightarrow> anchor option" where
  "honest_start resolved req reg =
     (case find (\<lambda>item. id_str (rst_registration_id item) = id_str (reg_id reg)) resolved of
        Some start \<Rightarrow> Some (rst_start start)
      | None \<Rightarrow>
          (case bt_get (pr_acknowledged_anchors req) (id_str (reg_id reg)) of
             Some ack \<Rightarrow> Some ack
           | None \<Rightarrow> reg_start_anchor reg))"

section \<open>Building the outcome\<close>

type_synonym visits = "(nat, arm_visit) btree"

fun visit_status :: "arm_visit option \<Rightarrow> arm_status \<times> bool \<times> string option \<times> wait_event list" where
  "visit_status (Some (V_Events events)) = (AS_Events, False, None, events)"
| "visit_status (Some (V_Saturated events)) = (AS_Events, False, Some ''bound_exhausted'', events)"
| "visit_status (Some V_Idle) = (AS_NoChange, False, None, [])"
| "visit_status (Some V_Overflow) = (AS_Observed, False, Some ''buffer_overflow'', [])"
| "visit_status (Some (V_Failed reason)) = (AS_Observed, False, Some reason, [])"
| "visit_status (Some (V_Outage reason)) = (AS_Outage, False, Some reason, [])"
| "visit_status (Some (V_CursorUncertain reason)) = (AS_CursorUncertain, False, Some reason, [])"
| "visit_status (Some (V_Degraded reason)) = (AS_Observed, True, Some reason, [])"
| "visit_status (Some V_Deferred) = (AS_Deferred, False, None, [])"
| "visit_status None = (AS_Deferred, False, None, [])"

definition bears_events :: "outcome_kind \<Rightarrow> bool" where
  "bears_events kind \<longleftrightarrow> kind = Events \<or> kind = Partial"

definition is_rejection :: "outcome_kind \<Rightarrow> bool" where
  "is_rejection kind \<longleftrightarrow> kind \<in> {Cancelled, Failed, Refused, ReauthenticationRequired}"

text \<open>What one registration contributes.\<close>

record arm_row =
  row_arm :: coverage_arm
  row_events :: "wait_event list"
  row_retained_cursor :: anchor
  row_retained_ids :: "id_token list"

definition build_row ::
  "registration \<Rightarrow> id_token \<Rightarrow> anchor \<Rightarrow> arm_visit option \<Rightarrow> outcome_kind \<Rightarrow> arm_row" where
  "build_row reg arm start visit kind =
     (let (status, degraded, reason, arm_events) = visit_status visit;
          proposed = (if arm_events = [] then start else ev_proposed_next_anchor (last arm_events));
          retain_events = (bears_events kind \<and> status = AS_Events \<and> arm_events \<noteq> [])
      in \<lparr>row_arm =
            \<lparr>arm_id = arm, arm_registration_id = reg_id reg, arm_required = reg_required reg,
             arm_stat = status, arm_degraded = degraded, arm_start_anchor = start,
             arm_proposed_next_anchor = proposed,
             arm_event_count = of_nat (length arm_events),
             arm_byte_count = sum_list (map event_surface_bytes arm_events),
             arm_reason_code =
               (case reason of
                  Some code \<Rightarrow> Some (IdToken code)
                | None \<Rightarrow> if degraded \<or> status = AS_Outage \<or> status = AS_CursorUncertain
                          then Some (IdToken ''arm_dirty'') else None)\<rparr>,
          row_events = (if bears_events kind then arm_events else []),
          row_retained_cursor = (if retain_events then proposed else start),
          row_retained_ids = (if retain_events then map ev_event_id arm_events else [])\<rparr>)"

fun build_rows ::
  "poll_cycle_request \<Rightarrow> resolved_start list \<Rightarrow> visits \<Rightarrow> outcome_kind \<Rightarrow> nat \<Rightarrow> nat \<Rightarrow>
   registration list \<Rightarrow> arm_row list" where
  "build_rows req resolved visits kind idx required_index [] = []"
| "build_rows req resolved visits kind idx required_index (reg # regs) =
     (let (arm, required_index) = poll_arm_id req reg required_index
      in case honest_start resolved req reg of
           None \<Rightarrow> build_rows req resolved visits kind (idx + 1) required_index regs
         | Some start \<Rightarrow>
             build_row reg arm start (bt_get visits idx) kind
               # build_rows req resolved visits kind (idx + 1) required_index regs)"

definition clear_arm :: "coverage_arm \<Rightarrow> coverage_arm" where
  "clear_arm arm =
     (if arm_stat arm = AS_Events
      then arm\<lparr>arm_stat := AS_NoChange, arm_event_count := 0, arm_byte_count := 0\<rparr> else arm)"

definition empty_event_map_from_arms :: "coverage_arm list \<Rightarrow> (string, id_token list) btree" where
  "empty_event_map_from_arms arms = bt_collect (map (\<lambda>arm. (id_str (arm_registration_id arm), [])) arms)"

definition coverage_is_complete :: "poll_cycle_request \<Rightarrow> coverage_arm list \<Rightarrow> outcome_kind \<Rightarrow> bool" where
  "coverage_is_complete req arms kind =
     (if kind \<in> {Partial, CoverageDegraded, Cancelled, Failed, Refused, ReauthenticationRequired} then False
      else list_all (\<lambda>required.
             list_ex (\<lambda>arm. id_str (arm_id arm) = id_str required \<and> \<not> arm_degraded arm
                 \<and> \<not> (arm_stat arm = AS_Outage \<or> arm_stat arm = AS_CursorUncertain)) arms)
           (pr_required_arms req))"

definition row_id :: "arm_row \<Rightarrow> string" where
  "row_id row = id_str (arm_registration_id (row_arm row))"

definition pc_build ::
  "registration_set \<Rightarrow> poll_cycle_request \<Rightarrow> timestamp \<Rightarrow> resolved_start list \<Rightarrow> visits \<Rightarrow>
   outcome_kind \<Rightarrow> string option \<Rightarrow> error + poll_cycle_outcome" where
  "pc_build rset req completed resolved visits kind reason_code =
     (let rows = build_rows req resolved visits kind 0 0 (rs_registrations rset);
          rejected = is_rejection kind;
          arms = map row_arm rows;
          arms' = (if rejected then map clear_arm arms else arms)
      in if rows = [] then Inl (EValidation (ve_new ''/arms'' ''unresolved_start''))
         else Inr
           \<lparr>capabilities = capabilities req,
            message_id = IdToken (id_str (message_id req) @ '':outcome''),
            correlation_id = correlation_id req,
            created_at = completed,
            hdr_actor_ref = hdr_actor_ref req,
            causation_id = Some (message_id req),
            grant_ref = grant_ref req,
            verification_receipt_ref = verification_receipt_ref req,
            policy_decision_ref = policy_decision_ref req,
            po_waiter_id = pr_waiter_id req,
            po_request_ref = message_id req,
            po_completed_at = completed,
            po_logical_deadline = pr_logical_deadline req,
            po_outcome_kind = kind,
            po_events = (if rejected then [] else concat (map row_events rows)),
            po_coverage_complete = coverage_is_complete req arms' kind,
            po_arms = arms',
            po_retained_through = bt_collect (map (\<lambda>row. (row_id row, row_retained_cursor row)) rows),
            po_retained_events =
              (if rejected then empty_event_map_from_arms arms'
               else bt_collect (map (\<lambda>row. (row_id row, row_retained_ids row)) rows)),
            po_proposed_next_anchors =
              bt_collect (map (\<lambda>row. (row_id row, arm_proposed_next_anchor (row_arm row))) rows),
            po_fairness_cursor = pr_fairness_cursor req,
            po_next_fairness_cursor = next_fairness_cursor rset req,
            po_acknowledged_anchors =
              (if pr_acknowledged_anchors req = [] then None else Some (pr_acknowledged_anchors req)),
            po_bound = pr_bound req,
            po_reason_code = map_option IdToken reason_code\<rparr>)"

definition rebuild_reason :: "poll_cycle_outcome \<Rightarrow> outcome_kind \<Rightarrow> string \<Rightarrow> poll_cycle_outcome" where
  "rebuild_reason out kind reason =
     (let arms = map clear_arm (po_arms out)
      in out\<lparr>po_outcome_kind := kind,
             po_reason_code := Some (IdToken reason),
             po_events := [],
             po_coverage_complete := False,
             po_arms := arms,
             po_retained_events := empty_event_map_from_arms arms\<rparr>)"

definition apply_posture ::
  "registration_set \<Rightarrow> poll_cycle_request \<Rightarrow> poll_cycle_outcome \<Rightarrow> poll_cycle_outcome" where
  "apply_posture rset req out =
     (if is_rejection (po_outcome_kind out) then out
      else if list_ex (\<lambda>reg. ts_less (reg_lease_expires_at reg) (po_completed_at out)) (rs_registrations rset)
      then rebuild_reason out ReauthenticationRequired ''lease_expired''
      else if rs_authn_mode rset = AuthnModeRequired \<and> verification_receipt_ref req = None
      then rebuild_reason out Refused ''authn_required''
      else out)"

section \<open>The kind of the outcome\<close>

record cycle_scan =
  cs_events :: "wait_event list"
  cs_overflow :: bool
  cs_truncated :: bool
  cs_failed :: "string option"
  cs_dirty :: bool
  cs_deferred_required :: bool

definition scan_visit :: "registration \<Rightarrow> arm_visit option \<Rightarrow> cycle_scan \<Rightarrow> cycle_scan" where
  "scan_visit reg visit s =
     (case visit of
        Some (V_Events found) \<Rightarrow> s\<lparr>cs_events := cs_events s @ found\<rparr>
      | Some (V_Saturated found) \<Rightarrow> s\<lparr>cs_events := cs_events s @ found, cs_truncated := True\<rparr>
      | Some V_Overflow \<Rightarrow> s\<lparr>cs_overflow := True\<rparr>
      | Some (V_Failed reason) \<Rightarrow> s\<lparr>cs_failed := Some reason\<rparr>
      | Some (V_Outage _) \<Rightarrow> (if reg_required reg then s\<lparr>cs_dirty := True\<rparr> else s)
      | Some (V_CursorUncertain _) \<Rightarrow> (if reg_required reg then s\<lparr>cs_dirty := True\<rparr> else s)
      | Some (V_Degraded _) \<Rightarrow> (if reg_required reg then s\<lparr>cs_dirty := True\<rparr> else s)
      | Some V_Deferred \<Rightarrow> (if reg_required reg then s\<lparr>cs_deferred_required := True\<rparr> else s)
      | Some V_Idle \<Rightarrow> s
      | None \<Rightarrow> s)"

definition scan_cycle :: "registration_set \<Rightarrow> poll_cycle_request \<Rightarrow> visits \<Rightarrow> cycle_scan" where
  "scan_cycle rset req visits =
     fold (\<lambda>idx. scan_visit (rs_registrations rset ! idx) (bt_get visits idx)) (fairness_order rset req)
       \<lparr>cs_events = [], cs_overflow = False, cs_truncated = False, cs_failed = None,
        cs_dirty = False, cs_deferred_required = False\<rparr>"

definition choose_kind :: "poll_cycle_request \<Rightarrow> timestamp \<Rightarrow> cycle_scan \<Rightarrow> outcome_kind \<times> string option" where
  "choose_kind req now s =
     (let at_logical = ts_le (pr_logical_deadline req) now
      in if cs_overflow s \<and> cs_events s = [] then (Failed, Some ''buffer_overflow'')
         else if cs_overflow s then (Partial, None)
         else if cs_dirty s then (CoverageDegraded, None)
         else case cs_failed s of
                Some reason \<Rightarrow>
                  (if cs_events s = [] then (Failed, Some reason) else (CoverageDegraded, None))
              | None \<Rightarrow>
                  (if cs_events s \<noteq> []
                   then (if cs_deferred_required s \<or> cs_truncated s then Partial else Events, None)
                   else if cs_truncated s then (Partial, None)
                   else if cs_deferred_required s \<and> \<not> at_logical then (Partial, None)
                   else if at_logical then (LogicalDeadman, None)
                   else (NoChange, None)))"

definition decide_kind ::
  "registration_set \<Rightarrow> poll_cycle_request \<Rightarrow> timestamp \<Rightarrow> resolved_start list \<Rightarrow> visits \<Rightarrow>
   error + poll_cycle_outcome" where
  "decide_kind rset req now resolved visits =
     (let (kind, reason) = choose_kind req now (scan_cycle rset req visits)
      in pc_build rset req now resolved visits kind reason)"

definition pc_assemble ::
  "registration_set \<Rightarrow> poll_cycle_request \<Rightarrow> timestamp \<Rightarrow> resolved_start list \<Rightarrow> visits \<Rightarrow>
   error + poll_cycle_outcome" where
  "pc_assemble rset req now resolved visits =
     (case decide_kind rset req now resolved visits of
        Inl err \<Rightarrow> Inl err
      | Inr out \<Rightarrow> Inr (apply_posture rset req out))"

definition pc_finish ::
  "registration_set \<Rightarrow> poll_cycle_request \<Rightarrow> timestamp \<Rightarrow> resolved_start list \<Rightarrow> visits \<Rightarrow>
   string option \<Rightarrow> error + poll_cycle_outcome" where
  "pc_finish rset req now resolved visits force_reason =
     (case force_reason of
        Some reason \<Rightarrow>
          (let kind = (if reason = ''consumer_cancelled'' then Cancelled else Failed)
           in case pc_build rset req now resolved visits kind (Some reason) of
                Inl err \<Rightarrow> Inl err
              | Inr out \<Rightarrow> Inr (apply_posture rset req out))
      | None \<Rightarrow> pc_assemble rset req now resolved visits)"

fun fill_visits :: "arm_visit \<Rightarrow> nat list \<Rightarrow> visits \<Rightarrow> visits" where
  "fill_visits v [] visits = visits"
| "fill_visits v (idx # idxs) visits =
     fill_visits v idxs (if bt_contains visits idx then visits else bt_insert idx v visits)"

definition decide_at_deadline ::
  "registration_set \<Rightarrow> poll_cycle_request \<Rightarrow> timestamp \<Rightarrow> resolved_start list \<Rightarrow> visits \<Rightarrow>
   error + poll_cycle_outcome" where
  "decide_at_deadline rset req now resolved visits =
     (if \<not> pc_required_binding_complete rset resolved
      then pc_finish rset req now resolved visits (Some ''required_bind_pending'')
      else
        let saw_events = list_ex (\<lambda>(_, visit). visit_events visit \<noteq> []) visits;
            visits = fill_visits (if saw_events then V_Deferred else V_Idle) (fairness_order rset req) visits
        in pc_assemble rset req now resolved visits)"

end
