(* ===== verification/Poll_Cycle.thy ===== *)
theory Poll_Cycle
  imports Race Poll_Outcome First_Match
begin

text \<open>
  The poll-cycle runner (\<^verbatim>\<open>crates/waitprims-async/src/poll_cycle.rs\<close>): binding, observing and
  recording visits in one loop, and the restoration of everything admitted when the cycle ends.
  As in the first-match runner a step goes from one suspension point to the next, and a biased
  \<open>select!\<close> tries its branches in order on every poll.
\<close>

section \<open>Slots\<close>

type_synonym 'b slots = "'b option list"

definition slot_at :: "'b slots \<Rightarrow> nat \<Rightarrow> 'b option" where
  "slot_at binds idx = (if idx < length binds then binds ! idx else None)"

definition starts_from_slots :: "('w, 'b) env \<Rightarrow> 'b slots \<Rightarrow> resolved_start list" where
  "starts_from_slots env binds = filter_map (map_option (resolved_of env)) binds"

definition remap_ready :: "nat list \<Rightarrow> (nat \<times> 'a) list \<Rightarrow> (nat \<times> 'a) list" where
  "remap_ready pending ready =
     filter_map (\<lambda>(local, v). if local < length pending then Some (pending ! local, v) else None) ready"

definition pending_refs :: "'b slots \<Rightarrow> nat list \<Rightarrow> (nat \<times> 'b) list" where
  "pending_refs binds pending = filter_map (\<lambda>idx. map_option (Pair idx) (slot_at binds idx)) pending"

definition occupied_refs :: "'b slots \<Rightarrow> (nat \<times> 'b) list" where
  "occupied_refs binds = filter_map (\<lambda>(idx, bind). map_option (Pair idx) bind) (enumerate 0 binds)"

section \<open>The two races\<close>

text \<open>
  \<open>bind_one\<close>: the start a provider resolved must be the acknowledged anchor, if there is one.
\<close>

definition poll_bind_one ::
  "('w, 'b) env \<Rightarrow> poll_cycle_request \<Rightarrow> (registration, 'b, 'w \<times> resolved_start list) poll_fn" where
  "poll_bind_one env req reg wr =
     (case wr of (w, resolved) \<Rightarrow>
        (case env_bind env w reg of
           (Pending, w) \<Rightarrow> (Pending, reg, w, resolved)
         | (Ready (Inl err), w) \<Rightarrow> (Ready (Inl err), reg, w, resolved)
         | (Ready (Inr b), w) \<Rightarrow>
             (case bt_get (pr_acknowledged_anchors req) (id_str (reg_id reg)) of
                Some expected \<Rightarrow>
                  (if env_resolved_start env b \<noteq> expected
                   then (Ready (Inl (EValidation (ve_new ''/acknowledged_anchors'' ''bind_start_mismatch''))),
                         reg, w, resolved)
                   else (Ready (Inr b), reg, w, resolved @ [resolved_of env b]))
              | None \<Rightarrow> (Ready (Inr b), reg, w, resolved @ [resolved_of env b]))))"

definition bind_is_terminal :: "'b \<Rightarrow> bool" where
  "bind_is_terminal _ = True"

type_synonym 'b obs_race = "('b, observation) first_ready"
type_synonym 'b bind_race = "(registration, 'b) first_ready"

definition obs_race_new :: "'b slots \<Rightarrow> nat list \<Rightarrow> 'b obs_race" where
  "obs_race_new bound pending = fr_new (map (\<lambda>idx. the (slot_at bound idx)) pending)"

definition bind_race_new :: "registration_set \<Rightarrow> poll_cycle_request \<Rightarrow> nat list \<Rightarrow> 'b bind_race" where
  "bind_race_new rset req unbound =
     fr_new (map (\<lambda>idx. bind_registration (rs_registrations rset ! idx) req) unbound)"

text \<open>One poll of \<open>observe_pending\<close> and of \<open>bind_unbound\<close>; without arms they stay pending.\<close>

definition poll_observe_pending ::
  "('w, 'b) env \<Rightarrow> nat list \<Rightarrow> 'b obs_race \<Rightarrow> 'w \<Rightarrow>
   observation first_ready_output poll \<times> 'b obs_race \<times> 'w" where
  "poll_observe_pending env pending race w =
     (if pending = [] then (Pending, race, w)
      else case fr_poll (poll_next env) observation_is_terminal race w of
             (Pending, race, w) \<Rightarrow> (Pending, race, w)
           | (Ready collected, race, w) \<Rightarrow>
               (Ready (collected\<lparr>fr_ready := remap_ready pending (fr_ready collected)\<rparr>), race, w))"

definition poll_bind_unbound ::
  "('w, 'b) env \<Rightarrow> poll_cycle_request \<Rightarrow> nat list \<Rightarrow> 'b bind_race \<Rightarrow> 'w \<times> resolved_start list \<Rightarrow>
   'b first_ready_output poll \<times> 'b bind_race \<times> 'w \<times> resolved_start list" where
  "poll_bind_unbound env req unbound race wr =
     (if unbound = [] then (Pending, race, wr)
      else case fr_poll (poll_bind_one env req) bind_is_terminal race wr of
             (Pending, race, wr) \<Rightarrow> (Pending, race, wr)
           | (Ready collected, race, wr) \<Rightarrow>
               (Ready (collected\<lparr>fr_ready := remap_ready unbound (fr_ready collected)\<rparr>), race, wr))"

section \<open>Restoration\<close>

fun restore_owned_observations ::
  "('w, 'b) env \<Rightarrow> 'b slots \<Rightarrow> (nat \<times> observation) list \<Rightarrow> 'w \<Rightarrow> (error + unit) \<times> 'w" where
  "restore_owned_observations env binds [] w = (Inr (), w)"
| "restore_owned_observations env binds ((idx, obs) # ready) w =
     (if \<not> observation_is_replayable obs then restore_owned_observations env binds ready w
      else case restore_observation env (slot_at binds idx) obs w of
             (Inl err, w) \<Rightarrow> (Inl err, w)
           | (Inr _, w) \<Rightarrow> restore_owned_observations env binds ready w)"

fun restore_events :: "('w, 'b) env \<Rightarrow> 'b \<Rightarrow> wait_event list \<Rightarrow> 'w \<Rightarrow> (error + unit) \<times> 'w" where
  "restore_events env b [] w = (Inr (), w)"
| "restore_events env b (ev # events) w =
     (case env_restore_ready env w b (Obs_Event ev) of
        (Inl err, w) \<Rightarrow> (Inl err, w)
      | (Inr _, w) \<Rightarrow> restore_events env b events w)"

fun restore_admitted :: "('w, 'b) env \<Rightarrow> 'b slots \<Rightarrow> visits \<Rightarrow> 'w \<Rightarrow> (error + unit) \<times> 'w" where
  "restore_admitted env binds [] w = (Inr (), w)"
| "restore_admitted env binds ((idx, visit) # visits) w =
     (case slot_at binds idx of
        None \<Rightarrow> restore_admitted env binds visits w
      | Some b \<Rightarrow>
          (case restore_events env b (rev (visit_events visit)) w of
             (Inl err, w) \<Rightarrow> (Inl err, w)
           | (Inr _, w) \<Rightarrow> restore_admitted env binds visits w))"

definition pc_emit ::
  "('w, 'b) env \<Rightarrow> 'b slots \<Rightarrow> visits \<Rightarrow> error + poll_cycle_outcome \<Rightarrow> 'w \<Rightarrow>
   (error + poll_cycle_outcome) \<times> 'w" where
  "pc_emit env binds visits outcome w =
     (let (restored, w) = restore_admitted env binds visits w
      in (case (outcome, restored) of
            (Inr out, Inr _) \<Rightarrow> Inr out
          | (Inl err, _) \<Rightarrow> Inl err
          | (Inr _, Inl err) \<Rightarrow> Inl err, w))"

section \<open>Recording what is ready\<close>

fun collect_ready ::
  "('w, 'b) env \<Rightarrow> 'b slots \<Rightarrow> (nat \<times> observation) list \<Rightarrow> (nat, observation) btree \<Rightarrow> 'w \<Rightarrow>
   (error + (nat, observation) btree) \<times> 'w" where
  "collect_ready env binds [] ready_map w = (Inr ready_map, w)"
| "collect_ready env binds ((idx, obs) # ready) ready_map w =
     (if bt_contains ready_map idx
      then (case restore_observation env (slot_at binds idx) obs w of
              (Inl err, w) \<Rightarrow> (Inl err, w)
            | (Inr _, w) \<Rightarrow> collect_ready env binds ready ready_map w)
      else collect_ready env binds ready (bt_insert idx obs ready_map) w)"

fun record_visits ::
  "('w, 'b) env \<Rightarrow> 'b slots \<Rightarrow> nat list \<Rightarrow> collect_budget \<Rightarrow> visits \<Rightarrow> (nat, observation) btree \<Rightarrow> 'w \<Rightarrow>
   (error + (nat, observation) btree) \<times> collect_budget \<times> visits \<times> 'w" where
  "record_visits env binds [] budget visits ready_map w = (Inr ready_map, budget, visits, w)"
| "record_visits env binds (idx # order) budget visits ready_map w =
     (if bt_contains visits idx then record_visits env binds order budget visits ready_map w
      else case bt_get ready_map idx of
             None \<Rightarrow> record_visits env binds order budget visits ready_map w
           | Some obs \<Rightarrow>
               (let ready_map = bt_remove idx ready_map;
                    bind = slot_at binds idx
                in if budget_exhausted budget \<and> observation_is_replayable obs
                   then (case defer_ready env bind obs w of
                           (Inl err, w) \<Rightarrow> (Inl err, budget, visits, w)
                         | (Inr v, w) \<Rightarrow>
                             record_visits env binds order budget (bt_insert idx v visits) ready_map w)
                   else (case visit_from env bind budget obs w of
                           (Inl err, budget, w) \<Rightarrow> (Inl err, budget, visits, w)
                         | (Inr v, budget, w) \<Rightarrow>
                             record_visits env binds order budget (bt_insert idx v visits) ready_map w)))"

fun restore_rest :: "('w, 'b) env \<Rightarrow> 'b slots \<Rightarrow> (nat, observation) btree \<Rightarrow> 'w \<Rightarrow> (error + unit) \<times> 'w" where
  "restore_rest env binds [] w = (Inr (), w)"
| "restore_rest env binds ((idx, obs) # rest) w =
     (case restore_observation env (slot_at binds idx) obs w of
        (Inl err, w) \<Rightarrow> (Inl err, w)
      | (Inr _, w) \<Rightarrow> restore_rest env binds rest w)"

definition record_ready ::
  "('w, 'b) env \<Rightarrow> registration_set \<Rightarrow> poll_cycle_request \<Rightarrow> 'b slots \<Rightarrow> collect_budget \<Rightarrow> visits \<Rightarrow>
   (nat \<times> observation) list \<Rightarrow> 'w \<Rightarrow> (error + unit) \<times> collect_budget \<times> visits \<times> 'w" where
  "record_ready env rset req binds budget visits ready w =
     (case collect_ready env binds ready [] w of
        (Inl err, w) \<Rightarrow> (Inl err, budget, visits, w)
      | (Inr ready_map, w) \<Rightarrow>
          (case record_visits env binds (fairness_order rset req) budget visits ready_map w of
             (Inl err, budget, visits, w) \<Rightarrow> (Inl err, budget, visits, w)
           | (Inr rest, budget, visits, w) \<Rightarrow>
               (let (r, w) = restore_rest env binds rest w in (r, budget, visits, w))))"

section \<open>The loop\<close>

datatype 'b pc_pc =
    PC_Top
  | PC_Observe "nat list" "nat list" "resolved_start list" "'b obs_race" "'b bind_race"
  | PC_Bind "'b bind_race"
  | PC_Done "error + poll_cycle_outcome"

record 'b pc_state =
  pc_pc :: "'b pc_pc"
  pc_bound :: "'b slots"
  pc_any_bound :: bool
  pc_resolved :: "resolved_start list"
  pc_visits :: visits
  pc_budget :: collect_budget

definition pc_init :: "registration_set \<Rightarrow> poll_cycle_request \<Rightarrow> 'b pc_state" where
  "pc_init rset req =
     \<lparr>pc_pc = PC_Top, pc_bound = map (\<lambda>_. None) (rs_registrations rset), pc_any_bound = False,
      pc_resolved = [], pc_visits = [], pc_budget = budget_new rset req\<rparr>"

definition pc_done ::
  "('w, 'b) env \<Rightarrow> 'b pc_state \<Rightarrow> error + poll_cycle_outcome \<Rightarrow> 'w \<Rightarrow> 'b pc_state \<times> 'w" where
  "pc_done env st outcome w =
     (let (r, w) = pc_emit env (pc_bound st) (pc_visits st) outcome w in (st\<lparr>pc_pc := PC_Done r\<rparr>, w))"

text \<open>An error of \<open>record_ready\<close> is returned as it is, past \<open>emit\<close>.\<close>

definition pc_fail :: "'b pc_state \<Rightarrow> error \<Rightarrow> 'w \<Rightarrow> 'b pc_state \<times> 'w" where
  "pc_fail st err w = (st\<lparr>pc_pc := PC_Done (Inl err)\<rparr>, w)"

definition pc_cancelled ::
  "('w, 'b) env \<Rightarrow> registration_set \<Rightarrow> poll_cycle_request \<Rightarrow> resolved_start list \<Rightarrow> 'b pc_state \<Rightarrow> 'w \<Rightarrow>
   'b pc_state \<times> 'w" where
  "pc_cancelled env rset req starts st w =
     (let (now, w) = env_now env w
      in pc_done env st (pc_finish rset req now starts (pc_visits st) (Some ''consumer_cancelled'')) w)"

definition all_visited :: "registration_set \<Rightarrow> 'b pc_state \<Rightarrow> bool" where
  "all_visited rset st \<longleftrightarrow> length (pc_visits st) = length (rs_registrations rset)"

definition pc_assembled ::
  "('w, 'b) env \<Rightarrow> registration_set \<Rightarrow> poll_cycle_request \<Rightarrow> resolved_start list \<Rightarrow> 'b pc_state \<Rightarrow> 'w \<Rightarrow>
   'b pc_state \<times> 'w" where
  "pc_assembled env rset req starts st w =
     (let (now, w) = env_now env w
      in pc_done env st (pc_assemble rset req now starts (pc_visits st)) w)"

definition pc_top ::
  "('w, 'b) env \<Rightarrow> registration_set \<Rightarrow> poll_cycle_request \<Rightarrow> 'b pc_state \<Rightarrow> 'w \<Rightarrow> 'b pc_state \<times> 'w" where
  "pc_top env rset req st w =
     (let (cancelled, w) = env_is_cancelled env w
      in if cancelled then pc_cancelled env rset req (pc_resolved st) st w
         else
           let starts = merge_starts (starts_from_slots env (pc_bound st)) (pc_resolved st);
               (now, w) = env_now env w
           in if deadline_reached req now
              then let (now, w) = env_now env w
                   in pc_done env st (decide_at_deadline rset req now starts (pc_visits st)) w
              else if pc_any_bound st
              then
                let order = fairness_order rset req;
                    pending = filter (\<lambda>idx. slot_at (pc_bound st) idx \<noteq> None \<and> \<not> bt_contains (pc_visits st) idx) order;
                    unbound = filter (\<lambda>idx. slot_at (pc_bound st) idx = None \<and> \<not> bt_contains (pc_visits st) idx) order
                in if pending = [] \<and> (all_visited rset st \<or> unbound = [])
                   then pc_assembled env rset req starts st w
                   else (st\<lparr>pc_pc := PC_Observe pending unbound starts (obs_race_new (pc_bound st) pending)
                                       (bind_race_new rset req unbound)\<rparr>, w)
              else (st\<lparr>pc_pc := PC_Bind (bind_race_new rset req (fairness_order rset req))\<rparr>, w))"

text \<open>Record what is ready; then go on, or end the cycle when every arm has been visited.\<close>

definition pc_record ::
  "('w, 'b) env \<Rightarrow> registration_set \<Rightarrow> poll_cycle_request \<Rightarrow> ('b pc_state \<Rightarrow> resolved_start list) \<Rightarrow>
   (nat \<times> observation) list \<Rightarrow> 'b pc_state \<Rightarrow> 'w \<Rightarrow> 'b pc_state \<times> 'w" where
  "pc_record env rset req starts ready st w =
     (case record_ready env rset req (pc_bound st) (pc_budget st) (pc_visits st) ready w of
        (Inl err, budget, visits, w) \<Rightarrow> pc_fail (st\<lparr>pc_budget := budget, pc_visits := visits\<rparr>) err w
      | (Inr _, budget, visits, w) \<Rightarrow>
          (let st = st\<lparr>pc_budget := budget, pc_visits := visits\<rparr>
           in if all_visited rset st then pc_assembled env rset req (starts st) st w
              else (st\<lparr>pc_pc := PC_Top\<rparr>, w)))"

definition pc_observed ::
  "('w, 'b) env \<Rightarrow> registration_set \<Rightarrow> poll_cycle_request \<Rightarrow> nat list \<Rightarrow> resolved_start list \<Rightarrow>
   observation first_ready_output \<Rightarrow> 'b pc_state \<Rightarrow> 'w \<Rightarrow> 'b pc_state \<times> 'w" where
  "pc_observed env rset req pending starts collected st w =
     (case fr_error collected of
        Some err \<Rightarrow>
          (case restore_owned_observations env (pc_bound st) (fr_ready collected) w of
             (Inl err', w) \<Rightarrow> pc_fail st err' w
           | (Inr _, w) \<Rightarrow> pc_done env st (Inl err) w)
      | None \<Rightarrow>
          (let (ready, w) = extend_ready_refs env (pending_refs (pc_bound st) pending) (fr_ready collected) w
           in pc_record env rset req (\<lambda>_. starts) ready st w))"

definition place_binds :: "(nat \<times> 'b) list \<Rightarrow> 'b slots \<Rightarrow> 'b slots" where
  "place_binds ready bound = fold (\<lambda>(idx, b) bound. bound[idx := Some b]) ready bound"

definition pc_bound_more ::
  "('w, 'b) env \<Rightarrow> registration_set \<Rightarrow> poll_cycle_request \<Rightarrow> 'b first_ready_output \<Rightarrow>
   'b pc_state \<Rightarrow> 'w \<Rightarrow> 'b pc_state \<times> 'w" where
  "pc_bound_more env rset req collected st w =
     (case fr_error collected of
        Some err \<Rightarrow> pc_done env st (Inl err) w
      | None \<Rightarrow>
          (let st = st\<lparr>pc_bound := place_binds (fr_ready collected) (pc_bound st),
                       pc_any_bound := pc_any_bound st \<or> fr_ready collected \<noteq> []\<rparr>;
               (ready, w) = extend_ready_refs env (occupied_refs (pc_bound st)) [] w
           in pc_record env rset req (\<lambda>st. starts_from_slots env (pc_bound st)) ready st w))"

definition pc_deadline ::
  "('w, 'b) env \<Rightarrow> registration_set \<Rightarrow> poll_cycle_request \<Rightarrow> nat list \<Rightarrow> resolved_start list \<Rightarrow>
   'b pc_state \<Rightarrow> 'w \<Rightarrow> 'b pc_state \<times> 'w" where
  "pc_deadline env rset req pending starts st w =
     (let (now, w) = env_now env w;
          (ready, w) = extend_ready_refs env (pending_refs (pc_bound st) pending) [] w
      in case record_ready env rset req (pc_bound st) (pc_budget st) (pc_visits st) ready w of
           (Inl err, budget, visits, w) \<Rightarrow> pc_fail (st\<lparr>pc_budget := budget, pc_visits := visits\<rparr>) err w
         | (Inr _, budget, visits, w) \<Rightarrow>
             (let st = st\<lparr>pc_budget := budget, pc_visits := visits\<rparr>
              in pc_done env st (decide_at_deadline rset req now starts (pc_visits st)) w))"

definition pc_observe ::
  "('w, 'b) env \<Rightarrow> registration_set \<Rightarrow> poll_cycle_request \<Rightarrow> nat list \<Rightarrow> nat list \<Rightarrow> resolved_start list \<Rightarrow>
   'b obs_race \<Rightarrow> 'b bind_race \<Rightarrow> 'b pc_state \<Rightarrow> 'w \<Rightarrow> 'b pc_state \<times> 'w" where
  "pc_observe env rset req pending unbound starts obs_race bind_race st w =
     (case poll_observe_pending env pending obs_race w of
        (Ready collected, _, w) \<Rightarrow> pc_observed env rset req pending starts collected st w
      | (Pending, obs_race, w) \<Rightarrow>
          (case poll_bind_unbound env req unbound bind_race (w, pc_resolved st) of
             (Ready collected, _, w, resolved) \<Rightarrow>
               pc_bound_more env rset req collected (st\<lparr>pc_resolved := resolved\<rparr>) w
           | (Pending, bind_race, w, resolved) \<Rightarrow>
               (let st = st\<lparr>pc_resolved := resolved\<rparr>
                in case poll_cancelled env w of
                     (Ready _, w) \<Rightarrow> pc_cancelled env rset req starts st w
                   | (Pending, w) \<Rightarrow>
                       (case env_sleep_until env w (pc_earliest_deadline req) of
                          (Ready _, w) \<Rightarrow> pc_deadline env rset req pending starts st w
                        | (Pending, w) \<Rightarrow>
                            (st\<lparr>pc_pc := PC_Observe pending unbound starts obs_race bind_race\<rparr>,
                             env_park env w)))))"

definition pc_bind ::
  "('w, 'b) env \<Rightarrow> registration_set \<Rightarrow> poll_cycle_request \<Rightarrow> 'b bind_race \<Rightarrow> 'b pc_state \<Rightarrow> 'w \<Rightarrow>
   'b pc_state \<times> 'w" where
  "pc_bind env rset req bind_race st w =
     (case poll_bind_unbound env req (fairness_order rset req) bind_race (w, pc_resolved st) of
        (Ready collected, _, w, resolved) \<Rightarrow>
          pc_bound_more env rset req collected (st\<lparr>pc_resolved := resolved\<rparr>) w
      | (Pending, bind_race, w, resolved) \<Rightarrow>
          (let st = st\<lparr>pc_resolved := resolved\<rparr>
           in case poll_cancelled env w of
                (Ready _, w) \<Rightarrow> pc_cancelled env rset req (pc_resolved st) st w
              | (Pending, w) \<Rightarrow>
                  (case env_sleep_until env w (pc_earliest_deadline req) of
                     (Ready _, w) \<Rightarrow>
                       (let (now, w) = env_now env w
                        in pc_done env st (decide_at_deadline rset req now (pc_resolved st) (pc_visits st)) w)
                   | (Pending, w) \<Rightarrow> (st\<lparr>pc_pc := PC_Bind bind_race\<rparr>, env_park env w))))"

definition pc_step ::
  "('w, 'b) env \<Rightarrow> registration_set \<Rightarrow> poll_cycle_request \<Rightarrow> 'b pc_state \<times> 'w \<Rightarrow> 'b pc_state \<times> 'w" where
  "pc_step env rset req c =
     (case c of (st, w) \<Rightarrow>
        (case pc_pc st of
           PC_Top \<Rightarrow> pc_top env rset req st w
         | PC_Observe pending unbound starts obs_race bind_race \<Rightarrow>
             pc_observe env rset req pending unbound starts obs_race bind_race st w
         | PC_Bind bind_race \<Rightarrow> pc_bind env rset req bind_race st w
         | PC_Done r \<Rightarrow> (st, w)))"

fun pc_run ::
  "('w, 'b) env \<Rightarrow> registration_set \<Rightarrow> poll_cycle_request \<Rightarrow> nat \<Rightarrow> 'b pc_state \<times> 'w \<Rightarrow> 'b pc_state \<times> 'w" where
  "pc_run env rset req 0 c = c"
| "pc_run env rset req (Suc n) c = pc_run env rset req n (pc_step env rset req c)"

definition run_poll_cycle ::
  "('w, 'b) env \<Rightarrow> registration_set \<Rightarrow> poll_cycle_request \<Rightarrow> nat \<Rightarrow> 'w \<Rightarrow>
   (error + poll_cycle_outcome) option \<times> 'w" where
  "run_poll_cycle env rset req fuel w =
     (case pc_resolve rset req of
        Inl err \<Rightarrow> (Some (Inl err), w)
      | Inr _ \<Rightarrow>
          (let (st, w) = pc_run env rset req fuel (pc_init rset req, w)
           in case pc_pc st of PC_Done r \<Rightarrow> (Some r, w) | _ \<Rightarrow> (None, w)))"

end
