(* ===== verification/Poll_Cycle_Run.thy ===== *)
theory Poll_Cycle_Run
  imports Poll_Cycle First_Match_Run
begin

text \<open>
  Custody in the poll-cycle runner: whatever a cycle admits stays with the provider until it is
  acknowledged, so a cycle that ends has put back, in order, every event it took.
\<close>

section \<open>Events held per arm\<close>

definition lheld :: "nat \<Rightarrow> (nat \<Rightarrow> id_token) \<Rightarrow> (nat \<Rightarrow> wait_event list) \<Rightarrow> id_token \<Rightarrow> wait_event list" where
  "lheld n ids m r = concat (map (\<lambda>i. if ids i = r then m i else []) [0..<n])"

lemma lheld_Nil [simp]: "lheld n ids (\<lambda>_. []) = (\<lambda>_. [])"
  by (rule ext) (simp add: lheld_def)

lemma lheld_cong: "(\<And>i. i < n \<Longrightarrow> m i = m' i) \<Longrightarrow> lheld n ids m = lheld n ids m'"
  by (rule ext) (auto simp: lheld_def intro!: arg_cong [where f = concat])

lemma concat_Nil_iff: "concat xss = [] \<longleftrightarrow> (\<forall>xs \<in> set xss. xs = [])"
  by (induction xss) auto

lemma lheld_other: "(\<And>i. i < n \<Longrightarrow> ids i \<noteq> r) \<Longrightarrow> lheld n ids m r = []"
  by (simp add: lheld_def concat_Nil_iff)

lemma lheld_at:
  assumes "inj_on ids {..<n}" "i < n"
  shows "lheld n ids m (ids i) = m i"
proof -
  have split: "[0..<n] = [0..<i] @ i # [Suc i..<n]"
    using assms(2) upt_add_eq_append [of 0 i "n - i"] by (simp add: upt_conv_Cons)
  have "ids j \<noteq> ids i" if "j < n" "j \<noteq> i" for j
    using that assms by (auto dest: inj_onD)
  then have "concat (map (\<lambda>j. if ids j = ids i then m j else []) [0..<i]) = []"
    "concat (map (\<lambda>j. if ids j = ids i then m j else []) [Suc i..<n]) = []"
    using assms(2) by (auto simp: concat_Nil_iff)
  then show ?thesis
    by (simp only: lheld_def split map_append list.map concat_append concat.simps if_True append_Nil append_Nil2 refl)
qed

lemma lheld_upd:
  assumes "inj_on ids {..<n}" "i < n"
  shows "lheld n ids (m(i := es)) = (lheld n ids m)(ids i := es)"
proof
  fix r
  show "lheld n ids (m(i := es)) r = ((lheld n ids m)(ids i := es)) r"
  proof (cases "\<exists>j < n. ids j = r")
    case True
    then obtain j where j: "j < n" "ids j = r" by blast
    have "ids i = ids j \<Longrightarrow> i = j" using assms j(1) by (auto dest: inj_onD)
    with j lheld_at [OF assms(1) j(1), of "m(i := es)"] lheld_at [OF assms(1) j(1), of m] show ?thesis by auto
  next
    case False
    with assms(2) have "lheld n ids m' r = []" "r \<noteq> ids i" for m'
      by (auto intro: lheld_other)
    then show ?thesis by simp
  qed
qed

definition obs_event :: "observation option \<Rightarrow> wait_event list" where
  "obs_event obs = (case obs of Some (Obs_Event e) \<Rightarrow> [e] | _ \<Rightarrow> [])"

lemma obs_event_simps [simp]:
  "obs_event None = []" "obs_event (Some (Obs_Event e)) = [e]"
  "\<not> observation_is_replayable obs \<Longrightarrow> obs_event (Some obs) = []"
  by (auto simp: obs_event_def split: observation.splits)

lemma held_lheld: "held n ids m = lheld n ids (\<lambda>i. obs_event (m i))"
proof
  fix r
  have "filter_map (held_at ids m r) xs = concat (map (\<lambda>i. if ids i = r then obs_event (m i) else []) xs)" for xs
    by (induction xs) (auto simp: held_at_def obs_event_def split: option.splits observation.splits)
  then show "held n ids m r = lheld n ids (\<lambda>i. obs_event (m i)) r"
    by (simp add: held_def lheld_def)
qed

text \<open>Two stretches of custody compose.\<close>

lemma conserved_trans:
  "conserved F0 V F \<Longrightarrow> conserved F H F' \<Longrightarrow> conserved F0 (\<lambda>r. V r @ H r) F'"
  unfolding conserved_def
proof
  fix r
  assume "\<forall>r. \<exists>fresh. V r @ F r = F0 r @ fresh" "\<forall>r. \<exists>fresh. H r @ F' r = F r @ fresh"
  then obtain f f' where "V r @ F r = F0 r @ f" "H r @ F' r = F r @ f'" by blast
  then have "(V r @ H r) @ F' r = F0 r @ f @ f'" by (metis append_assoc)
  then show "\<exists>fresh. (V r @ H r) @ F' r = F0 r @ fresh" ..
qed

lemma lheld_append:
  assumes "inj_on ids {..<n}"
  shows "(\<lambda>r. lheld n ids m r @ lheld n ids m' r) = lheld n ids (\<lambda>i. m i @ m' i)"
proof
  fix r
  show "lheld n ids m r @ lheld n ids m' r = lheld n ids (\<lambda>i. m i @ m' i) r"
  proof (cases "\<exists>j < n. ids j = r")
    case True
    then obtain j where "j < n" "ids j = r" by blast
    then show ?thesis using lheld_at [OF assms] by auto
  next
    case False
    then have "lheld n ids m'' r = []" for m'' by (auto intro: lheld_other)
    then show ?thesis by simp
  qed
qed

lemma map_of_rev_keys: "distinct (map fst xs) \<Longrightarrow> map_of (rev xs) = map_of xs"
proof (induction xs)
  case (Cons p xs)
  then show ?case
    using map_of_snoc [of "fst p" "rev xs" "snd p"] by (cases p) auto
qed simp

section \<open>Custody of recording and restoring\<close>

definition slots_ok :: "('w, 'b) env \<Rightarrow> registration_set \<Rightarrow> 'b slots \<Rightarrow> bool" where
  "slots_ok env rset binds \<longleftrightarrow>
     (\<forall>i b. slot_at binds i = Some b \<longrightarrow> i < arm_count rset \<and> env_registration_id env b = arm_reg_id rset i)"

definition visit_held :: "visits \<Rightarrow> nat \<Rightarrow> wait_event list" where
  "visit_held visits i = (case bt_get visits i of Some v \<Rightarrow> visit_events v | None \<Rightarrow> [])"

definition visits_ok :: "'b slots \<Rightarrow> visits \<Rightarrow> bool" where
  "visits_ok binds visits \<longleftrightarrow>
     bt_sorted visits \<and> (\<forall>i. visit_held visits i \<noteq> [] \<longrightarrow> slot_at binds i \<noteq> None)"

abbreviation arm_held :: "registration_set \<Rightarrow> (nat \<Rightarrow> wait_event list) \<Rightarrow> id_token \<Rightarrow> wait_event list" where
  "arm_held rset \<equiv> lheld (arm_count rset) (arm_reg_id rset)"

context observer_restores
begin

lemma restore_observation_custody:
  assumes r: "restore_observation env (Some b) obs w = (r, w')"
    and c: "conserved F0 (T(env_registration_id env b := pre @ obs_event (Some obs))) (front w)"
  shows "(\<exists>u. r = Inr u) \<and> conserved F0 (T(env_registration_id env b := pre)) (front w')"
proof (cases "observation_is_replayable obs")
  case True
  then obtain e where e: "obs = Obs_Event e" by (rule replayable_cases)
  from r e have "env_restore_ready env w b (Obs_Event e) = (r, w')" by (simp add: restore_observation_def)
  from restore_event_ok [OF this] c
    conserved_restore [of F0 "T(env_registration_id env b := pre)" "env_registration_id env b" e "front w"]
  show ?thesis by (simp add: e)
next
  case False
  from r have r1: "env_restore_ready env w b obs = (r, w')" by (simp add: restore_observation_def)
  from restore_signal [OF r1 False] restore_ok [of w b obs] c False r1 show ?thesis by auto
qed

lemma drain_ready_custody:
  assumes d: "drain_ready env b bud evs w = (r, bud', evs', w')"
    and c: "conserved F0 (T(env_registration_id env b := evs)) (front w)"
  shows "(\<exists>t. r = Inr t) \<and> conserved F0 (T(env_registration_id env b := evs')) (front w')"
proof
  let ?r = "env_registration_id env b"
  show "conserved F0 (T(?r := evs')) (front w')"
    using d
  proof (rule drain_ready_keeps [where P = "\<lambda>_ evs w. conserved F0 (T(?r := evs)) (front w)"])
    show "conserved F0 (T(?r := evs)) (front w)" by (rule c)
  next
    fix bud evs w ev b1 w1
    assume "conserved F0 (T(?r := evs)) (front w)" "env_poll_ready env w b = (Some (Obs_Event ev), w1)"
    from conserved_took [OF this(1) poll_ready_event [OF this(2)]]
    show "conserved F0 (T(?r := evs @ [ev])) (front w1)" by simp
  next
    fix bud evs w w1
    assume "conserved F0 (T(?r := evs)) (front w)" "env_poll_ready env w b = (None, w1)"
    with poll_ready_other show "conserved F0 (T(?r := evs)) (front w1)" by simp
  next
    fix bud evs w w1
    assume "conserved F0 (T(?r := evs)) (front w)" "env_poll_ready env w b = (Some Obs_Overflow, w1)"
    with poll_ready_other show "conserved F0 (T(?r := evs)) (front w1)" by simp
  next
    fix bud evs w obs w1 r1 w2
    assume c: "conserved F0 (T(?r := evs)) (front w)" and q: "env_poll_ready env w b = (Some obs, w1)"
      and r: "env_restore_ready env w1 b obs = (r1, w2)"
    have "conserved F0 (T(?r := evs @ obs_event (Some obs))) (front w1)"
    proof (cases obs)
      case (Obs_Event e)
      with conserved_took [OF c poll_ready_event [of w b e w1]] q show ?thesis by simp
    qed (use c q poll_ready_other [OF q] in simp_all)
    from restore_observation_custody [OF _ this] r show "conserved F0 (T(?r := evs)) (front w2)"
      by (simp add: restore_observation_def)
  qed
  show "\<exists>t. r = Inr t"
    using d
  proof (induction "unat (cb_max_events bud) - unat (cb_events bud)" arbitrary: bud evs w rule: less_induct)
    case less
    from less.prems show ?case
    proof (cases rule: drain_ready_cases)
      case (admitted ev b1 w1)
      from less.hyps [OF try_take_progress [OF admitted(2)] admitted(3)] show ?thesis .
    next
      case (returned obs w1 r1)
      with restore_ok [of w1 b obs] show ?thesis by (cases r1) auto
    qed auto
  qed
qed

lemma visit_from_custody:
  assumes v: "visit_from env (Some b) bud obs w = (r, bud', w')"
    and c: "conserved F0 (T(env_registration_id env b := obs_event (Some obs))) (front w)"
  shows "\<exists>v. r = Inr v \<and> conserved F0 (T(env_registration_id env b := visit_events v)) (front w')"
proof (cases "observation_is_replayable obs")
  case True
  then obtain ev where obs: "obs = Obs_Event ev" by (rule replayable_cases)
  obtain t b1 where t: "try_take bud ev = (t, b1)" by fastforce
  show ?thesis
  proof (cases t)
    case False
    obtain r1 w1 where r1: "restore_observation env (Some b) obs w = (r1, w1)" by fastforce
    from restore_observation_custody [OF r1, of F0 T "[]"] c v obs t False r1 show ?thesis
      by (auto simp: visit_from_def defer_ready_def)
  next
    case True
    obtain r1 b2 evs w1 where d: "drain_ready env b b1 [ev] w = (r1, b2, evs, w1)" by (metis prod_cases4)
    from drain_ready_custody [OF d, of F0 T] c v obs t True d show ?thesis
      by (auto simp: visit_from_def split: sum.splits)
  qed
next
  case False
  with v c show ?thesis by (cases obs) (auto simp: visit_from_def)
qed

lemma slot_ids:
  "slots_ok env rset binds \<Longrightarrow> slot_at binds i = Some b \<Longrightarrow>
   i < arm_count rset \<and> env_registration_id env b = arm_reg_id rset i"
  by (simp add: slots_ok_def)

lemma lheld_slot:
  assumes "distinct_arms rset" "slots_ok env rset binds" "slot_at binds i = Some b"
  shows "arm_held rset (m(i := es)) = (arm_held rset m)(env_registration_id env b := es)"
    "arm_held rset m (env_registration_id env b) = m i"
  using lheld_upd [OF arm_reg_id_inj [OF assms(1)], of i m es] lheld_at [OF arm_reg_id_inj [OF assms(1)], of i m]
    slot_ids [OF assms(2,3)] by auto

lemma restore_observation_slot:
  assumes r: "restore_observation env (slot_at binds i) obs w = (r, w')"
    and ok: "distinct_arms rset" "slots_ok env rset binds" and some: "slot_at binds i \<noteq> None"
    and c: "conserved F0 (arm_held rset (m(i := m i @ obs_event (Some obs)))) (front w)"
  shows "(\<exists>u. r = Inr u) \<and> conserved F0 (arm_held rset m) (front w')"
proof -
  from some obtain b where b: "slot_at binds i = Some b" by blast
  from restore_observation_custody [OF r [unfolded b], of F0 "arm_held rset m" "m i"] c
    lheld_slot(1) [OF ok b, of m "m i @ obs_event (Some obs)"] lheld_slot(2) [OF ok b, of m]
  show ?thesis by (simp add: fun_upd_idem)
qed

lemma restore_owned_observations_custody:
  "restore_owned_observations env binds ready w = (r, w') \<Longrightarrow> distinct_arms rset \<Longrightarrow> slots_ok env rset binds \<Longrightarrow>
   distinct (map fst ready) \<Longrightarrow> \<forall>i \<in> fst ` set ready. slot_at binds i \<noteq> None \<Longrightarrow>
   conserved F0 (arm_held rset (\<lambda>i. m i @ obs_event (map_of ready i))) (front w) \<Longrightarrow>
   (\<exists>u. r = Inr u) \<and> conserved F0 (arm_held rset m) (front w')"
proof (induction ready arbitrary: w)
  case (Cons p ready)
  obtain i obs where p: "p = (i, obs)" by (cases p)
  let ?m = "\<lambda>i. m i @ obs_event (map_of ready i)"
  have mi: "?m i = m i" using Cons.prems(4) by (simp add: p map_of_eq_None_iff [THEN iffD2])
  have "(\<lambda>j. m j @ obs_event (map_of (p # ready) j)) = ?m(i := ?m i @ obs_event (Some obs))"
    using mi by (auto simp: p fun_eq_iff)
  with Cons.prems(6) have c: "conserved F0 (arm_held rset (?m(i := ?m i @ obs_event (Some obs)))) (front w)"
    by metis
  note ih = Cons.IH [OF _ Cons.prems(2,3)]
  show ?case
  proof (cases "observation_is_replayable obs")
    case False
    with c have "conserved F0 (arm_held rset ?m) (front w)" by (simp add: fun_upd_idem)
    with ih [of w] Cons.prems False show ?thesis by (simp add: p)
  next
    case True
    obtain r1 w1 where r1: "restore_observation env (slot_at binds i) obs w = (r1, w1)" by fastforce
    from Cons.prems(5) p have some: "slot_at binds i \<noteq> None" by simp
    from restore_observation_slot [OF r1 Cons.prems(2,3) some c]
    obtain u where "r1 = Inr u" "conserved F0 (arm_held rset ?m) (front w1)" by blast
    with ih [of w1] Cons.prems True r1 show ?thesis by (simp add: p)
  qed
qed simp

lemma restore_rest_custody:
  "restore_rest env binds ready w = (r, w') \<Longrightarrow> distinct_arms rset \<Longrightarrow> slots_ok env rset binds \<Longrightarrow>
   distinct (map fst ready) \<Longrightarrow> \<forall>i \<in> fst ` set ready. slot_at binds i \<noteq> None \<Longrightarrow>
   conserved F0 (arm_held rset (\<lambda>i. m i @ obs_event (map_of ready i))) (front w) \<Longrightarrow>
   (\<exists>u. r = Inr u) \<and> conserved F0 (arm_held rset m) (front w')"
proof (induction ready arbitrary: w)
  case (Cons p ready)
  obtain i obs where p: "p = (i, obs)" by (cases p)
  let ?m = "\<lambda>i. m i @ obs_event (map_of ready i)"
  have mi: "?m i = m i" using Cons.prems(4) by (simp add: p map_of_eq_None_iff [THEN iffD2])
  have "(\<lambda>j. m j @ obs_event (map_of (p # ready) j)) = ?m(i := ?m i @ obs_event (Some obs))"
    using mi by (auto simp: p fun_eq_iff)
  with Cons.prems(6) have c: "conserved F0 (arm_held rset (?m(i := ?m i @ obs_event (Some obs)))) (front w)"
    by metis
  obtain r1 w1 where r1: "restore_observation env (slot_at binds i) obs w = (r1, w1)" by fastforce
  from Cons.prems(5) p have some: "slot_at binds i \<noteq> None" by simp
  from restore_observation_slot [OF r1 Cons.prems(2,3) some c]
  obtain u where "r1 = Inr u" "conserved F0 (arm_held rset ?m) (front w1)" by blast
  with Cons.IH [OF _ Cons.prems(2,3), of w1] Cons.prems r1 show ?case by (simp add: p)
qed simp

lemma restore_events_custody:
  "restore_events env b evs w = (r, w') \<Longrightarrow>
   conserved F0 (T(env_registration_id env b := pre @ rev evs)) (front w) \<Longrightarrow>
   (\<exists>u. r = Inr u) \<and> conserved F0 (T(env_registration_id env b := pre)) (front w')"
proof (induction evs arbitrary: w)
  case (Cons ev evs)
  obtain r1 w1 where r1: "env_restore_ready env w b (Obs_Event ev) = (r1, w1)" by fastforce
  have r1': "restore_observation env (Some b) (Obs_Event ev) w = (r1, w1)" by (simp add: restore_observation_def r1)
  have "conserved F0 (T(env_registration_id env b := (pre @ rev evs) @ obs_event (Some (Obs_Event ev)))) (front w)"
    using Cons.prems(2) by (simp del: fun_upd_apply)
  from restore_observation_custody [OF r1' this]
  obtain u where "r1 = Inr u" "conserved F0 (T(env_registration_id env b := pre @ rev evs)) (front w1)" by blast
  with Cons.IH [of w1] Cons.prems(1) r1 show ?case by (simp del: fun_upd_apply)
qed simp

lemma restore_admitted_custody:
  "restore_admitted env binds visits w = (r, w') \<Longrightarrow> distinct_arms rset \<Longrightarrow> slots_ok env rset binds \<Longrightarrow>
   bt_sorted visits \<Longrightarrow> (\<forall>i. visit_held visits i \<noteq> [] \<longrightarrow> slot_at binds i \<noteq> None) \<Longrightarrow>
   conserved F0 (arm_held rset (visit_held visits)) (front w) \<Longrightarrow>
   (\<exists>u. r = Inr u) \<and> conserved F0 (\<lambda>_. []) (front w')"
proof (induction visits arbitrary: w)
  case Nil
  then show ?case by (auto simp: visit_held_def bt_get_def)
next
  case (Cons p visits)
  obtain i v where p: "p = (i, v)" by (cases p)
  have dist: "distinct (map fst (p # visits))" using Cons.prems(4) by (rule bt_sorted_distinct)
  have srt: "bt_sorted visits" using Cons.prems(4) by (auto simp: bt_sorted_def)
  have vi: "visit_held visits i = []" using dist by (auto simp: visit_held_def bt_get_def p map_of_eq_None_iff [THEN iffD2] split: option.splits dest!: map_of_SomeD)
  have vh: "visit_held (p # visits) = (visit_held visits)(i := visit_events v)"
    using vi by (auto simp: visit_held_def bt_get_def p fun_eq_iff split: option.splits)
  have some: "\<forall>j. visit_held visits j \<noteq> [] \<longrightarrow> slot_at binds j \<noteq> None"
    using Cons.prems(5) vi by (auto simp: vh split: if_splits)
  note ih = Cons.IH [OF _ Cons.prems(2,3) srt some]
  show ?case
  proof (cases "slot_at binds i")
    case None
    with Cons.prems(5) have "visit_events v = []" by (auto simp: vh split: if_splits)
    with vi vh have "visit_held (p # visits) = visit_held visits" by (simp add: fun_upd_idem)
    with ih [of w] Cons.prems None show ?thesis by (simp add: p)
  next
    case (Some b)
    obtain r1 w1 where r1: "restore_events env b (rev (visit_events v)) w = (r1, w1)" by fastforce
    note ls = lheld_slot(1) [OF Cons.prems(2,3) Some] lheld_slot(2) [OF Cons.prems(2,3) Some, of "visit_held visits"]
    have "conserved F0 ((arm_held rset (visit_held visits))(env_registration_id env b := [] @ rev (rev (visit_events v)))) (front w)"
      using Cons.prems(6) by (simp only: vh ls(1) rev_rev_ident append_Nil)
    from restore_events_custody [OF r1 this]
    obtain u where "r1 = Inr u" "conserved F0 ((arm_held rset (visit_held visits))(env_registration_id env b := [])) (front w1)"
      by blast
    moreover have "(arm_held rset (visit_held visits))(env_registration_id env b := []) = arm_held rset (visit_held visits)"
      using ls(2) vi by (simp add: fun_upd_idem)
    ultimately have "r1 = Inr u" "conserved F0 (arm_held rset (visit_held visits)) (front w1)" by metis+
    with ih [of w1] Cons.prems(1) Some r1 show ?thesis by (simp add: p)
  qed
qed

lemma pc_emit_custody:
  assumes "pc_emit env binds visits out w = (r, w')" "distinct_arms rset" "slots_ok env rset binds"
    and "visits_ok binds visits" "conserved F0 (arm_held rset (visit_held visits)) (front w)"
  shows "conserved F0 (\<lambda>_. []) (front w') \<and> r = out"
proof -
  obtain r1 w1 where r1: "restore_admitted env binds visits w = (r1, w1)" by fastforce
  from restore_admitted_custody [OF r1 assms(2,3) _ _ assms(5)] assms(4)
  obtain u where "r1 = Inr u" "conserved F0 (\<lambda>_. []) (front w1)" by (auto simp: visits_ok_def)
  with assms(1) r1 show ?thesis by (cases out) (auto simp: pc_emit_def)
qed

lemma collect_ready_distinct:
  "distinct (map fst ready) \<Longrightarrow> fst ` set ready \<inter> fst ` set ready_map = {} \<Longrightarrow>
   collect_ready env binds ready ready_map w = (Inr (bt_from_list ready ready_map), w)"
  by (induction ready arbitrary: ready_map) (auto simp: bt_contains_iff)

lemma record_visits_custody:
  "record_visits env binds order bud visits rm w = (r, bud', visits', w') \<Longrightarrow>
   distinct_arms rset \<Longrightarrow> slots_ok env rset binds \<Longrightarrow> visits_ok binds visits \<Longrightarrow> bt_sorted rm \<Longrightarrow>
   \<forall>i \<in> fst ` set rm. slot_at binds i \<noteq> None \<Longrightarrow>
   conserved F0 (arm_held rset (\<lambda>i. visit_held visits i @ obs_event (bt_get rm i))) (front w) \<Longrightarrow>
   \<exists>rm'. r = Inr rm' \<and> visits_ok binds visits' \<and> bt_sorted rm' \<and> fst ` set rm' \<subseteq> fst ` set rm \<and>
     conserved F0 (arm_held rset (\<lambda>i. visit_held visits' i @ obs_event (bt_get rm' i))) (front w')"
proof (induction order arbitrary: bud visits rm w)
  case (Cons idx order)
  note ih = Cons.IH [OF _ Cons.prems(2,3)]
  show ?case
  proof (cases "bt_contains visits idx \<or> bt_get rm idx = None")
    case True
    with Cons.prems(1) have "record_visits env binds order bud visits rm w = (r, bud', visits', w')"
      by (auto split: option.splits if_splits)
    from ih [OF this Cons.prems(4-7)] show ?thesis .
  next
    case False
    then obtain obs where nv: "\<not> bt_contains visits idx" and obs: "bt_get rm idx = Some obs" by auto
    let ?rm = "bt_remove idx rm"
    have "idx \<in> fst ` set rm" using obs by (force simp: bt_get_def dest: map_of_SomeD)
    with Cons.prems(6) obtain b where b: "slot_at binds idx = Some b" by blast
    have v0: "visit_held visits idx = []"
      using nv by (auto simp: visit_held_def bt_contains_def split: option.splits)
    define m where "m = (\<lambda>i. visit_held visits i @ obs_event (bt_get ?rm i))"
    have m0: "m idx = []" by (simp add: m_def v0)
    have "(\<lambda>i. visit_held visits i @ obs_event (bt_get rm i)) = m(idx := obs_event (Some obs))"
      by (auto simp: m_def obs v0 fun_eq_iff)
    with Cons.prems(7) have c: "conserved F0 (arm_held rset (m(idx := obs_event (Some obs)))) (front w)" by metis
    have rest: "\<exists>rm'. r = Inr rm' \<and> visits_ok binds visits' \<and> bt_sorted rm' \<and> fst ` set rm' \<subseteq> fst ` set rm \<and>
        conserved F0 (arm_held rset (\<lambda>i. visit_held visits' i @ obs_event (bt_get rm' i))) (front w')"
      if go: "record_visits env binds order bud1 (bt_insert idx v visits) ?rm w1 = (r, bud', visits', w')"
        and c1: "conserved F0 (arm_held rset (m(idx := visit_events v))) (front w1)" for bud1 v w1
    proof -
      have vh: "visit_held (bt_insert idx v visits) = (visit_held visits)(idx := visit_events v)"
        by (auto simp: visit_held_def fun_eq_iff)
      have vo: "visits_ok binds (bt_insert idx v visits)"
        using Cons.prems(4) b by (auto simp: visits_ok_def vh)
      have srm: "\<forall>i \<in> fst ` set ?rm. slot_at binds i \<noteq> None" and sub: "fst ` set ?rm \<subseteq> fst ` set rm"
        using Cons.prems(6) by (auto simp: bt_remove_def)
      have "(\<lambda>i. visit_held (bt_insert idx v visits) i @ obs_event (bt_get ?rm i)) = m(idx := visit_events v)"
        by (auto simp: vh m_def fun_eq_iff)
      with c1 have "conserved F0 (arm_held rset
          (\<lambda>i. visit_held (bt_insert idx v visits) i @ obs_event (bt_get ?rm i))) (front w1)" by metis
      from ih [OF go vo _ srm this] Cons.prems(5) sub show ?thesis by auto
    qed
    note ls = lheld_slot(1) [OF Cons.prems(2,3) b]
    show ?thesis
    proof (cases "budget_exhausted bud \<and> observation_is_replayable obs")
      case True
      obtain r1 w1 where r1: "restore_observation env (slot_at binds idx) obs w = (r1, w1)" by fastforce
      have "conserved F0 (arm_held rset (m(idx := m idx @ obs_event (Some obs)))) (front w)" using c m0 by simp
      from restore_observation_slot [OF r1 Cons.prems(2,3) _ this] b
      obtain u where "r1 = Inr u" "conserved F0 (arm_held rset m) (front w1)" by auto
      with Cons.prems(1) nv obs True r1 m0 show ?thesis
        by (intro rest [of bud V_Deferred w1]) (auto simp: defer_ready_def fun_upd_idem)
    next
      case False
      obtain r1 bud1 w1 where r1: "visit_from env (Some b) bud obs w = (r1, bud1, w1)" by (metis prod_cases3)
      from c have "conserved F0 ((arm_held rset m)(env_registration_id env b := obs_event (Some obs))) (front w)"
        by (simp only: ls)
      from visit_from_custody [OF r1 this]
      obtain v where v: "r1 = Inr v" "conserved F0 (arm_held rset (m(idx := visit_events v))) (front w1)"
        by (auto simp: ls)
      have "record_visits env binds order bud1 (bt_insert idx v visits) ?rm w1 = (r, bud', visits', w')"
        using Cons.prems(1) nv obs False r1 b v(1) by (simp add: Let_def)
      from rest [OF this v(2)] show ?thesis .
    qed
  qed
qed auto

lemma record_ready_custody:
  assumes r: "record_ready env rset req binds bud visits ready w = (r, bud', visits', w')"
    and ok: "distinct_arms rset" "slots_ok env rset binds" "visits_ok binds visits"
    and dist: "distinct (map fst ready)" and some: "\<forall>i \<in> fst ` set ready. slot_at binds i \<noteq> None"
    and c: "conserved F0 (arm_held rset (\<lambda>i. visit_held visits i @ obs_event (map_of ready i))) (front w)"
  shows "(\<exists>u. r = Inr u) \<and> visits_ok binds visits' \<and> conserved F0 (arm_held rset (visit_held visits')) (front w')"
proof -
  let ?rm = "bt_from_list ready []"
  have cr: "collect_ready env binds ready [] w = (Inr ?rm, w)"
    using collect_ready_distinct [OF dist, of "[]"] by simp
  have keys: "fst ` set ?rm = fst ` set ready"
  proof -
    have "fst ` set (bt_from_list es m) = fst ` set es \<union> fst ` set m" for es :: "(nat \<times> observation) list" and m
      by (induction es m rule: bt_from_list.induct) simp_all
    then show ?thesis by simp
  qed
  have get: "bt_get ?rm = map_of ready"
    using bt_get_from_list [of ready "[]"] dist by (auto simp: fun_eq_iff map_of_rev_keys split: option.splits)
  obtain r1 bud1 visits1 w1 where
    v: "record_visits env binds (fairness_order rset req) bud visits ?rm w = (r1, bud1, visits1, w1)"
    by (metis prod_cases4)
  from record_visits_custody [OF v ok _ _ c [folded get]] some keys
  obtain rm' where rm': "r1 = Inr rm'" "visits_ok binds visits1" "bt_sorted rm'" "fst ` set rm' \<subseteq> fst ` set ready"
    "conserved F0 (arm_held rset (\<lambda>i. visit_held visits1 i @ obs_event (bt_get rm' i))) (front w1)"
    by (auto simp: bt_sorted_from_list)
  obtain r2 w2 where r2: "restore_rest env binds rm' w1 = (r2, w2)" by fastforce
  from restore_rest_custody [OF r2 ok(1,2) bt_sorted_distinct [OF rm'(3)]] rm'(4,5) some
  obtain u where "r2 = Inr u" "conserved F0 (arm_held rset (visit_held visits1)) (front w2)"
    by (fastforce simp: bt_get_def)
  with r cr v rm'(1,2) r2 show ?thesis by (auto simp: record_ready_def)
qed

end

section \<open>Indices\<close>

lemma fairness_order_bij:
  "distinct (fairness_order rset req) \<and> set (fairness_order rset req) = {..<arm_count rset}"
proof (cases "arm_count rset = 0")
  case True
  then show ?thesis by (simp add: fairness_order_def arm_count_def)
next
  case False
  let ?n = "arm_count rset"
  let ?f = "\<lambda>i. (fairness_start_index rset req + i) mod ?n"
  have b: "bij_betw ?f {..<?n} {..<?n}" using False by (intro mod_add_bij) simp
  have o: "fairness_order rset req = map ?f [0..<?n]"
    using False by (simp add: fairness_order_def arm_count_def Let_def)
  have "inj_on ?f (set [0..<?n])" using b by (simp add: bij_betw_def atLeast0LessThan)
  then have "distinct (map ?f [0..<?n])" by (simp add: distinct_map)
  moreover have "?f ` set [0..<?n] = {..<?n}" using b by (simp add: bij_betw_def atLeast0LessThan)
  ultimately show ?thesis unfolding o by simp
qed

lemma remap_ready_mem:
  "(i, v) \<in> set (remap_ready pending ready) \<longleftrightarrow> (\<exists>j < length pending. i = pending ! j \<and> (j, v) \<in> set ready)"
  by (induction ready) (auto simp: remap_ready_def split: if_splits)

lemma remap_ready_distinct:
  "distinct pending \<Longrightarrow> distinct (map fst ready) \<Longrightarrow> distinct (map fst (remap_ready pending ready))"
proof (induction ready)
  case (Cons p ready)
  obtain j v where p: "p = (j, v)" by (cases p)
  have "pending ! j \<notin> fst ` set (remap_ready pending ready)" if "j < length pending"
  proof
    assume "pending ! j \<in> fst ` set (remap_ready pending ready)"
    then obtain k v' where "k < length pending" "pending ! j = pending ! k" "(k, v') \<in> set ready"
      by (auto simp: remap_ready_mem)
    with that Cons.prems have "k = j" by (simp add: nth_eq_iff_index_eq)
    with \<open>(k, v') \<in> set ready\<close> Cons.prems(2) p show False by force
  qed
  with Cons p show ?case by (simp add: remap_ready_def)
qed (simp add: remap_ready_def)

lemma remap_ready_get:
  assumes "distinct pending" "distinct (map fst ready)" "j < length pending"
  shows "map_of (remap_ready pending ready) (pending ! j) = map_of ready j"
proof (cases "map_of ready j")
  case None
  then have "j \<notin> fst ` set ready" by (simp add: map_of_eq_None_iff)
  then have "pending ! j \<notin> fst ` set (remap_ready pending ready)"
    using assms(1,3) by (force simp: remap_ready_mem nth_eq_iff_index_eq)
  with None show ?thesis by (metis map_of_eq_None_iff)
next
  case (Some v)
  then have "(j, v) \<in> set ready" by (rule map_of_SomeD)
  with assms(3) have "(pending ! j, v) \<in> set (remap_ready pending ready)" by (auto simp: remap_ready_mem)
  with remap_ready_distinct [OF assms(1,2)] Some show ?thesis by simp
qed

lemma held_remap:
  assumes inj: "inj_on ids {..<n}" and dist: "distinct pending" and lt: "\<forall>i \<in> set pending. i < n"
    and rd: "distinct (map fst ready)"
  shows "held (length pending) (\<lambda>j. ids (pending ! j)) (map_of ready) =
    lheld n ids (\<lambda>i. obs_event (map_of (remap_ready pending ready) i))"
proof
  fix r
  let ?ids = "\<lambda>j. ids (pending ! j)"
  have inj': "inj_on ?ids {..<length pending}"
  proof (rule inj_onI)
    fix x y
    assume xy: "x \<in> {..<length pending}" "y \<in> {..<length pending}" "ids (pending ! x) = ids (pending ! y)"
    then have "pending ! x < n" "pending ! y < n" using lt by simp_all
    with inj_onD [OF inj xy(3)] have "pending ! x = pending ! y" by simp
    with xy dist show "x = y" by (simp add: nth_eq_iff_index_eq)
  qed
  show "held (length pending) ?ids (map_of ready) r =
      lheld n ids (\<lambda>i. obs_event (map_of (remap_ready pending ready) i)) r"
  proof (cases "\<exists>j < length pending. ?ids j = r")
    case True
    then obtain j where j: "j < length pending" "?ids j = r" by blast
    have jn: "pending ! j < n" using lt j(1) by simp
    show ?thesis
      using lheld_at [OF inj' j(1)] lheld_at [OF inj jn] remap_ready_get [OF dist rd j(1)]
      by (simp add: held_lheld flip: j(2))
  next
    case False
    then have l: "held (length pending) ?ids (map_of ready) r = []"
      unfolding held_lheld by (intro lheld_other) auto
    have "lheld n ids (\<lambda>i. obs_event (map_of (remap_ready pending ready) i)) r = []"
    proof (cases "\<exists>i < n. ids i = r")
      case True
      then obtain i where i: "i < n" "ids i = r" by blast
      with False have "i \<notin> fst ` set (remap_ready pending ready)" by (auto simp: remap_ready_mem)
      then have "map_of (remap_ready pending ready) i = None" by (simp add: map_of_eq_None_iff)
      with lheld_at [OF inj i(1)] i(2) show ?thesis by auto
    next
      case False
      then show ?thesis by (intro lheld_other) auto
    qed
    with l show ?thesis by simp
  qed
qed

lemma pending_refs_mem:
  "(i, b) \<in> set (pending_refs binds pending) \<longleftrightarrow> i \<in> set pending \<and> slot_at binds i = Some b"
  by (auto simp: pending_refs_def set_filter_map)

lemma occupied_refs_mem: "(i, b) \<in> set (occupied_refs binds) \<longleftrightarrow> slot_at binds i = Some b"
proof -
  have "(i, b) \<in> set (filter_map (\<lambda>(idx, bind). map_option (Pair idx) bind) xs) \<longleftrightarrow> (i, Some b) \<in> set xs" for xs
    by (induction xs) (auto split: option.splits)
  then show ?thesis by (auto simp: occupied_refs_def enumerate_nth slot_at_def split: if_splits)
qed

lemma slots_ok_binds:
  assumes "slots_ok env rset binds"
  shows "binds_ok env (arm_count rset) (arm_reg_id rset) (pending_refs binds pending)"
    "binds_ok env (arm_count rset) (arm_reg_id rset) (occupied_refs binds)"
  using assms by (auto simp: binds_ok_def slots_ok_def pending_refs_mem occupied_refs_mem)

lemma slot_at_update: "slot_at (binds[i := x]) j = (if j = i \<and> i < length binds then x else slot_at binds j)"
  by (auto simp: slot_at_def)

lemma place_binds_slots:
  assumes "\<forall>(i, b) \<in> set ready. i < arm_count rset \<and> env_registration_id env b = arm_reg_id rset i"
    and "length binds = arm_count rset" "slots_ok env rset binds"
  shows "slots_ok env rset (place_binds ready binds) \<and> length (place_binds ready binds) = arm_count rset \<and>
    (\<forall>i. slot_at binds i \<noteq> None \<longrightarrow> slot_at (place_binds ready binds) i \<noteq> None)"
  using assms
proof (induction ready arbitrary: binds)
  case (Cons p ready)
  obtain i b where p: "p = (i, b)" by (cases p)
  have "slots_ok env rset (binds[i := Some b])"
    using Cons.prems p by (auto simp: slots_ok_def slot_at_update split: if_splits)
  with Cons.IH [of "binds[i := Some b]"] Cons.prems p show ?case
    by (auto simp: place_binds_def slot_at_update)
qed (simp add: place_binds_def)

section \<open>The invariant of the loop\<close>

definition obs_race_ok :: "('w, 'b) env \<Rightarrow> registration_set \<Rightarrow> nat list \<Rightarrow> 'b obs_race \<Rightarrow> bool" where
  "obs_race_ok env rset pending race \<longleftrightarrow>
     race_quiet observation_is_terminal race \<and> length race = length pending \<and>
     futs_ok (\<lambda>j b. j < length pending \<and> env_registration_id env b = arm_reg_id rset (pending ! j)) 0 race"

definition bind_race_ok :: "registration_set \<Rightarrow> nat list \<Rightarrow> 'b bind_race \<Rightarrow> bool" where
  "bind_race_ok rset unbound race \<longleftrightarrow>
     race_quiet bind_is_terminal race \<and>
     futs_ok (\<lambda>j reg. j < length unbound \<and> reg_id reg = arm_reg_id rset (unbound ! j)) 0 race"

definition pc_inv ::
  "('w, 'b) env \<Rightarrow> ('w \<Rightarrow> id_token \<Rightarrow> wait_event list) \<Rightarrow> (id_token \<Rightarrow> wait_event list) \<Rightarrow>
   registration_set \<Rightarrow> poll_cycle_request \<Rightarrow> 'b pc_state \<times> 'w \<Rightarrow> bool" where
  "pc_inv env front F0 rset req c \<longleftrightarrow>
     (case c of (st, w) \<Rightarrow>
        slots_ok env rset (pc_bound st) \<and> length (pc_bound st) = arm_count rset \<and>
        visits_ok (pc_bound st) (pc_visits st) \<and>
        (case pc_pc st of
           PC_Done r \<Rightarrow> conserved F0 (\<lambda>_. []) (front w)
         | pc \<Rightarrow> conserved F0 (arm_held rset (visit_held (pc_visits st))) (front w)) \<and>
        (case pc_pc st of
           PC_Observe pending unbound starts obs_race bind_race \<Rightarrow>
             distinct pending \<and> (\<forall>i \<in> set pending. slot_at (pc_bound st) i \<noteq> None) \<and>
             distinct unbound \<and> (\<forall>i \<in> set unbound. i < arm_count rset) \<and>
             obs_race_ok env rset pending obs_race \<and> bind_race_ok rset unbound bind_race
         | PC_Bind bind_race \<Rightarrow> bind_race_ok rset (fairness_order rset req) bind_race
         | _ \<Rightarrow> True))"

lemma conserved_held:
  assumes "distinct_arms rset" "conserved F0 (arm_held rset V) F"
    and "conserved F (held (arm_count rset) (arm_reg_id rset) m) F'"
  shows "conserved F0 (arm_held rset (\<lambda>i. V i @ obs_event (m i))) F'"
  using conserved_trans [OF assms(2,3)] lheld_append [OF arm_reg_id_inj [OF assms(1)]]
  by (simp add: held_lheld)

lemma pc_fail_state: "pc_fail st err w = (st', w') \<Longrightarrow> pc_pc st' = PC_Done (Inl err)"
  by (auto simp: pc_fail_def)

lemma bind_registration_id [simp]: "reg_id (bind_registration reg req) = reg_id reg"
  by (simp add: bind_registration_def split: option.splits)

lemma bind_race_new_ok: "bind_race_ok rset unbound (bind_race_new rset req unbound)"
  by (auto simp: bind_race_ok_def bind_race_new_def futs_ok_new arm_reg_id_def)

lemma obs_race_new_ok:
  assumes "slots_ok env rset binds" "\<forall>i \<in> set pending. slot_at binds i \<noteq> None"
  shows "obs_race_ok env rset pending (obs_race_new binds pending)"
proof -
  have "env_registration_id env (the (slot_at binds i)) = arm_reg_id rset i" if i: "i \<in> set pending" for i
  proof -
    obtain b where "slot_at binds i = Some b" using assms(2) i by blast
    with assms(1) show ?thesis by (simp add: slots_ok_def)
  qed
  then show ?thesis
    by (auto simp: obs_race_ok_def obs_race_new_def futs_ok_new)
qed

context observer_restores
begin

lemma poll_bind_one_inv:
  "race_inv (poll_bind_one env req) (\<lambda>j reg. j < length unbound \<and> reg_id reg = arm_reg_id rset (unbound ! j))
     (\<lambda>m wr. (\<forall>j b. m j = Some b \<longrightarrow> j < length unbound \<and> env_registration_id env b = arm_reg_id rset (unbound ! j))
        \<and> front (fst wr) = F)"
proof (rule race_invI)
  fix i and m :: "nat \<Rightarrow> 'b option" and reg :: registration and wr :: "'a \<times> resolved_start list"
  assume f: "i < length unbound \<and> reg_id reg = arm_reg_id rset (unbound ! i)"
    and v: "(\<forall>j b. m j = Some b \<longrightarrow> j < length unbound \<and> env_registration_id env b = arm_reg_id rset (unbound ! j))
        \<and> front (fst wr) = F"
  obtain w rs where wr: "wr = (w, rs)" by (cases wr)
  obtain q w1 where q: "env_bind env w reg = (q, w1)" by fastforce
  have fr: "front w1 = F" using bind_front [OF q] v wr by simp
  {
    fix b reg' wr'
    assume p: "poll_bind_one env req reg wr = (Ready (Inr b), reg', wr')"
    with q have "q = Ready (Inr b)" "fst wr' = w1"
      by (auto simp: poll_bind_one_def wr split: poll.splits sum.splits option.splits if_splits)
    with bind_id [of w reg b w1] q f v fr
    show "(\<forall>j b'. (m(i \<mapsto> b)) j = Some b' \<longrightarrow>
        j < length unbound \<and> env_registration_id env b' = arm_reg_id rset (unbound ! j)) \<and> front (fst wr') = F"
      by auto
  next
    fix err reg' wr'
    assume p: "poll_bind_one env req reg wr = (Ready (Inl err), reg', wr')"
    with q have "fst wr' = w1"
      by (auto simp: poll_bind_one_def wr split: poll.splits sum.splits option.splits if_splits)
    with v fr show "(\<forall>j b'. m j = Some b' \<longrightarrow>
        j < length unbound \<and> env_registration_id env b' = arm_reg_id rset (unbound ! j)) \<and> front (fst wr') = F"
      by auto
  next
    fix reg' wr'
    assume p: "poll_bind_one env req reg wr = (Pending, reg', wr')"
    with q have "fst wr' = w1" "reg' = reg"
      by (auto simp: poll_bind_one_def wr split: poll.splits sum.splits option.splits if_splits)
    with v fr f show "((\<forall>j b'. m j = Some b' \<longrightarrow>
        j < length unbound \<and> env_registration_id env b' = arm_reg_id rset (unbound ! j)) \<and> front (fst wr') = F) \<and>
        i < length unbound \<and> reg_id reg' = arm_reg_id rset (unbound ! i)"
      by auto
  }
qed

lemma poll_bind_unbound_inv:
  assumes p: "poll_bind_unbound env req unbound race (w, resolved) = (r, race', w', resolved')"
    and ok: "bind_race_ok rset unbound race" and lt: "\<forall>i \<in> set unbound. i < arm_count rset"
  shows "front w' = front w \<and>
    (case r of
       Pending \<Rightarrow> bind_race_ok rset unbound race'
     | Ready c \<Rightarrow> \<forall>(i, b) \<in> set (fr_ready c). i < arm_count rset \<and> env_registration_id env b = arm_reg_id rset i)"
proof (cases "unbound = []")
  case True
  with p ok show ?thesis by (auto simp: poll_bind_unbound_def)
next
  case False
  obtain q race1 w1 rs1 where q: "fr_poll (poll_bind_one env req) bind_is_terminal race (w, resolved) = (q, race1, w1, rs1)"
    by (metis prod_cases4)
  let ?Inv = "\<lambda>m wr. (\<forall>j b. m j = Some b \<longrightarrow> j < length unbound \<and> env_registration_id env b = arm_reg_id rset (unbound ! j))
        \<and> front (fst wr) = front w"
  let ?Fut = "\<lambda>j reg. j < length unbound \<and> reg_id reg = arm_reg_id rset (unbound ! j)"
  have ri: "race_inv (poll_bind_one env req) ?Fut ?Inv" by (rule poll_bind_one_inv)
  have futs: "futs_ok ?Fut 0 race" and quiet: "race_quiet bind_is_terminal race"
    using ok by (simp_all add: bind_race_ok_def)
  have i0: "?Inv (slots race) (w, resolved)"
    using race_quiet_slots [OF quiet] by (auto simp: bind_is_terminal_def)
  show ?thesis
  proof (cases q)
    case Pending
    note q = q [unfolded Pending]
    from fr_poll_pending_inv [OF ri futs i0 q] fr_poll_pending_quiet [OF q] p q False
    show ?thesis by (auto simp: poll_bind_unbound_def bind_race_ok_def)
  next
    case (Ready c)
    note q = q [unfolded Ready]
    from fr_poll_ready_inv [OF ri futs i0 q]
    have m: "\<And>j b. map_of (fr_ready c) j = Some b \<Longrightarrow> j < length unbound \<and> env_registration_id env b = arm_reg_id rset (unbound ! j)"
      and fr: "front w1 = front w" by auto
    from p q False have r: "r = Ready (c\<lparr>fr_ready := remap_ready unbound (fr_ready c)\<rparr>)" "w' = w1"
      by (auto simp: poll_bind_unbound_def)
    have "i < arm_count rset \<and> env_registration_id env b = arm_reg_id rset i"
      if ib: "(i, b) \<in> set (remap_ready unbound (fr_ready c))" for i b
    proof -
      from ib obtain j where j: "j < length unbound" "i = unbound ! j" "(j, b) \<in> set (fr_ready c)"
        by (auto simp: remap_ready_mem)
      with fr_poll_distinct [OF q] m [of j b] lt show ?thesis by simp
    qed
    with fr r show ?thesis by auto
  qed
qed

lemma poll_observe_pending_inv:
  assumes p: "poll_observe_pending env pending race w = (r, race', w')"
    and d: "distinct_arms rset" and ok: "obs_race_ok env rset pending race"
    and dist: "distinct pending" and lt: "\<forall>i \<in> set pending. i < arm_count rset"
  shows "case r of
      Pending \<Rightarrow> obs_race_ok env rset pending race' \<and> conserved (front w) (\<lambda>_. []) (front w')
    | Ready c \<Rightarrow> distinct (map fst (fr_ready c)) \<and> fst ` set (fr_ready c) \<subseteq> set pending \<and>
        conserved (front w) (held (arm_count rset) (arm_reg_id rset) (map_of (fr_ready c))) (front w')"
proof (cases "pending = []")
  case True
  with p ok show ?thesis by (auto simp: poll_observe_pending_def conserved_start)
next
  case False
  let ?ids = "\<lambda>j. arm_reg_id rset (pending ! j)"
  have inj: "inj_on ?ids {..<length pending}"
  proof (rule inj_onI)
    fix x y
    assume xy: "x \<in> {..<length pending}" "y \<in> {..<length pending}" "?ids x = ?ids y"
    with lt inj_onD [OF arm_reg_id_inj [OF d] xy(3)] have "pending ! x = pending ! y" by simp
    with xy dist show "x = y" by (simp add: nth_eq_iff_index_eq)
  qed
  obtain q race1 w1 where q: "fr_poll (poll_next env) observation_is_terminal race w = (q, race1, w1)"
    by (metis prod_cases3)
  note ri = poll_next_race [OF inj, of "front w"]
  have futs: "futs_ok (\<lambda>j b. j < length pending \<and> env_registration_id env b = ?ids j) 0 race"
    and quiet: "race_quiet observation_is_terminal race" and len: "length race = length pending"
    using ok by (simp_all add: obs_race_ok_def)
  have i0: "conserved (front w) (held (length pending) ?ids (slots race)) (front w)"
    using held_quiet [OF quiet] by (simp add: conserved_start)
  show ?thesis
  proof (cases q)
    case Pending
    note q = q [unfolded Pending]
    have "length race1 = length race" using q by (rule fr_poll_pendingE) (rule fr_scan_length)
    with fr_poll_pending_inv [OF ri futs i0 q] fr_poll_pending_quiet [OF q] p q False len
      held_quiet [OF fr_poll_pending_quiet [OF q]]
    show ?thesis by (auto simp: poll_observe_pending_def obs_race_ok_def)
  next
    case (Ready c)
    note q = q [unfolded Ready]
    from p q False have r: "r = Ready (c\<lparr>fr_ready := remap_ready pending (fr_ready c)\<rparr>)" "w' = w1"
      by (auto simp: poll_observe_pending_def)
    from fr_poll_ready_inv [OF ri futs i0 q]
    have "conserved (front w) (held (arm_count rset) (arm_reg_id rset) (map_of (remap_ready pending (fr_ready c)))) (front w1)"
      using held_remap [OF arm_reg_id_inj [OF d] dist lt fr_poll_distinct [OF q]] by (simp add: held_lheld)
    moreover have "fst ` set (remap_ready pending (fr_ready c)) \<subseteq> set pending"
      by (auto simp: remap_ready_mem)
    ultimately show ?thesis using r remap_ready_distinct [OF dist fr_poll_distinct [OF q]] by simp
  qed
qed

lemma pc_done_inv:
  assumes "pc_done env st out w = (st', w')" "distinct_arms rset" "slots_ok env rset (pc_bound st)"
    and "length (pc_bound st) = arm_count rset" "visits_ok (pc_bound st) (pc_visits st)"
    and "conserved F0 (arm_held rset (visit_held (pc_visits st))) (front w)"
  shows "pc_inv env front F0 rset req (st', w')"
proof -
  obtain r w1 where r: "pc_emit env (pc_bound st) (pc_visits st) out w = (r, w1)" by fastforce
  from pc_emit_custody [OF r assms(2,3,5,6)] assms r show ?thesis
    by (auto simp: pc_done_def pc_inv_def)
qed

lemma pc_assembled_inv:
  assumes s: "pc_assembled env rset req starts st w = (st', w')"
    and d: "distinct_arms rset" "slots_ok env rset (pc_bound st)"
    and v: "length (pc_bound st) = arm_count rset" "visits_ok (pc_bound st) (pc_visits st)"
    and c: "conserved F0 (arm_held rset (visit_held (pc_visits st))) (front w)"
  shows "pc_inv env front F0 rset req (st', w')"
proof -
  obtain now w1 where t: "env_now env w = (now, w1)" by fastforce
  from c now_front [OF t] have c1: "conserved F0 (arm_held rset (visit_held (pc_visits st))) (front w1)" by simp
  from s t have "pc_done env st (pc_assemble rset req now starts (pc_visits st)) w1 = (st', w')"
    by (simp add: pc_assembled_def)
  from pc_done_inv [OF this d v c1] show ?thesis .
qed

lemma pc_cancelled_inv:
  assumes s: "pc_cancelled env rset req starts st w = (st', w')"
    and d: "distinct_arms rset" "slots_ok env rset (pc_bound st)"
    and v: "length (pc_bound st) = arm_count rset" "visits_ok (pc_bound st) (pc_visits st)"
    and c: "conserved F0 (arm_held rset (visit_held (pc_visits st))) (front w)"
  shows "pc_inv env front F0 rset req (st', w')"
proof -
  obtain now w1 where t: "env_now env w = (now, w1)" by fastforce
  from c now_front [OF t] have c1: "conserved F0 (arm_held rset (visit_held (pc_visits st))) (front w1)" by simp
  from s t have "pc_done env st (pc_finish rset req now starts (pc_visits st) (Some ''consumer_cancelled'')) w1 = (st', w')"
    by (simp add: pc_cancelled_def)
  from pc_done_inv [OF this d v c1] show ?thesis .
qed

lemma pc_record_inv:
  assumes s: "pc_record env rset req starts ready st w = (st', w')"
    and d: "distinct_arms rset" "slots_ok env rset (pc_bound st)"
    and v: "length (pc_bound st) = arm_count rset" "visits_ok (pc_bound st) (pc_visits st)"
    and r: "distinct (map fst ready)" "\<forall>i \<in> fst ` set ready. slot_at (pc_bound st) i \<noteq> None"
    and c: "conserved F0 (arm_held rset (\<lambda>i. visit_held (pc_visits st) i @ obs_event (map_of ready i))) (front w)"
  shows "pc_inv env front F0 rset req (st', w')"
proof -
  obtain q bud' visits' w1 where
    q: "record_ready env rset req (pc_bound st) (pc_budget st) (pc_visits st) ready w = (q, bud', visits', w1)"
    by (metis prod_cases4)
  from record_ready_custody [OF q d v(2) r c]
  have ok: "\<exists>u. q = Inr u" "visits_ok (pc_bound st) visits'" "conserved F0 (arm_held rset (visit_held visits')) (front w1)"
    by auto
  let ?st = "st\<lparr>pc_budget := bud', pc_visits := visits'\<rparr>"
  from s q ok(1) consider "pc_assembled env rset req (starts ?st) ?st w1 = (st', w')"
    | "(?st\<lparr>pc_pc := PC_Top\<rparr>, w1) = (st', w')"
    by (auto simp: pc_record_def Let_def split: if_splits)
  then show ?thesis
  proof cases
    case 1
    from pc_assembled_inv [OF this d(1)] d(2) v ok show ?thesis by simp
  next
    case 2
    with d v ok show ?thesis by (auto simp: pc_inv_def)
  qed
qed

lemma slots_lt: "slots_ok env rset binds \<Longrightarrow> slot_at binds i \<noteq> None \<Longrightarrow> i < arm_count rset"
  by (auto simp: slots_ok_def)

lemma pc_observed_inv:
  assumes s: "pc_observed env rset req pending starts collected st w = (st', w')"
    and d: "distinct_arms rset" "slots_ok env rset (pc_bound st)"
    and v: "length (pc_bound st) = arm_count rset" "visits_ok (pc_bound st) (pc_visits st)"
    and pend: "\<forall>i \<in> set pending. slot_at (pc_bound st) i \<noteq> None"
    and r: "distinct (map fst (fr_ready collected))" "fst ` set (fr_ready collected) \<subseteq> set pending"
    and c: "conserved F0 (arm_held rset (visit_held (pc_visits st))) F"
    and h: "conserved F (held (arm_count rset) (arm_reg_id rset) (map_of (fr_ready collected))) (front w)"
  shows "pc_inv env front F0 rset req (st', w')"
proof (cases "fr_error collected")
  case (Some err)
  obtain q w1 where q: "restore_owned_observations env (pc_bound st) (fr_ready collected) w = (q, w1)" by fastforce
  have slots: "\<forall>i \<in> fst ` set (fr_ready collected). slot_at (pc_bound st) i \<noteq> None" using r(2) pend by blast
  from restore_owned_observations_custody [OF q d r(1) slots conserved_held [OF d(1) c h]]
  obtain u where "q = Inr u" and c1: "conserved F0 (arm_held rset (visit_held (pc_visits st))) (front w1)" by blast
  with s Some q have "pc_done env st (Inl err) w1 = (st', w')" by (simp add: pc_observed_def)
  from pc_done_inv [OF this d v c1] show ?thesis .
next
  case None
  let ?refs = "pending_refs (pc_bound st) pending"
  obtain ready w1 where e: "extend_ready_refs env ?refs (fr_ready collected) w = (ready, w1)" by fastforce
  from extend_ready_custody [OF e arm_reg_id_inj [OF d(1)] slots_ok_binds(1) [OF d(2)] r(1) h]
  have e1: "conserved F (held (arm_count rset) (arm_reg_id rset) (map_of ready)) (front w1)" "distinct (map fst ready)"
    "fst ` set ready \<subseteq> fst ` set (fr_ready collected) \<union> fst ` set ?refs" by blast+
  have "fst ` set ?refs \<subseteq> set pending" by (auto simp: pending_refs_mem)
  with e1(3) r(2) pend have slots: "\<forall>i \<in> fst ` set ready. slot_at (pc_bound st) i \<noteq> None" by blast
  from s None e have "pc_record env rset req (\<lambda>_. starts) ready st w1 = (st', w')" by (simp add: pc_observed_def)
  from pc_record_inv [OF this d v e1(2) slots conserved_held [OF d(1) c e1(1)]] show ?thesis .
qed

lemma pc_bound_more_inv:
  assumes s: "pc_bound_more env rset req collected st w = (st', w')"
    and d: "distinct_arms rset" "slots_ok env rset (pc_bound st)"
    and v: "length (pc_bound st) = arm_count rset" "visits_ok (pc_bound st) (pc_visits st)"
    and b: "\<forall>(i, b) \<in> set (fr_ready collected). i < arm_count rset \<and> env_registration_id env b = arm_reg_id rset i"
    and c: "conserved F0 (arm_held rset (visit_held (pc_visits st))) (front w)"
  shows "pc_inv env front F0 rset req (st', w')"
proof (cases "fr_error collected")
  case (Some err)
  with s have "pc_done env st (Inl err) w = (st', w')" by (simp add: pc_bound_more_def)
  from pc_done_inv [OF this d v c] show ?thesis .
next
  case None
  let ?bound = "place_binds (fr_ready collected) (pc_bound st)"
  let ?st = "st\<lparr>pc_bound := ?bound, pc_any_bound := pc_any_bound st \<or> fr_ready collected \<noteq> []\<rparr>"
  from place_binds_slots [OF b v(1) d(2)]
  have ok: "slots_ok env rset ?bound" "length ?bound = arm_count rset"
    and keep: "\<forall>i. slot_at (pc_bound st) i \<noteq> None \<longrightarrow> slot_at ?bound i \<noteq> None" by auto
  have vo: "visits_ok ?bound (pc_visits st)" using v(2) keep by (auto simp: visits_ok_def)
  let ?refs = "occupied_refs ?bound"
  obtain ready w1 where e: "extend_ready_refs env ?refs [] w = (ready, w1)" by fastforce
  have "conserved (front w) (held (arm_count rset) (arm_reg_id rset) (map_of [])) (front w)"
    by (simp add: conserved_start)
  from extend_ready_custody [OF e arm_reg_id_inj [OF d(1)] slots_ok_binds(2) [OF ok(1)] _ this]
  have e1: "conserved (front w) (held (arm_count rset) (arm_reg_id rset) (map_of ready)) (front w1)"
    "distinct (map fst ready)" "fst ` set ready \<subseteq> fst ` set ?refs" by auto
  have slots: "\<forall>i \<in> fst ` set ready. slot_at ?bound i \<noteq> None"
    using e1(3) by (fastforce simp: occupied_refs_mem)
  from s None e have "pc_record env rset req (\<lambda>st. starts_from_slots env (pc_bound st)) ready ?st w1 = (st', w')"
    by (simp add: pc_bound_more_def Let_def)
  from pc_record_inv [OF this d(1)] ok vo e1(2) slots conserved_held [OF d(1) c e1(1)] show ?thesis by simp
qed

lemma pc_deadline_inv:
  assumes s: "pc_deadline env rset req pending starts st w = (st', w')"
    and d: "distinct_arms rset" "slots_ok env rset (pc_bound st)"
    and v: "length (pc_bound st) = arm_count rset" "visits_ok (pc_bound st) (pc_visits st)"
    and pend: "\<forall>i \<in> set pending. slot_at (pc_bound st) i \<noteq> None"
    and c: "conserved F0 (arm_held rset (visit_held (pc_visits st))) (front w)"
  shows "pc_inv env front F0 rset req (st', w')"
proof -
  let ?refs = "pending_refs (pc_bound st) pending"
  obtain now w1 where t: "env_now env w = (now, w1)" by fastforce
  from c now_front [OF t] have c1: "conserved F0 (arm_held rset (visit_held (pc_visits st))) (front w1)" by simp
  obtain ready w2 where e: "extend_ready_refs env ?refs [] w1 = (ready, w2)" by fastforce
  have "conserved (front w1) (held (arm_count rset) (arm_reg_id rset) (map_of [])) (front w1)"
    by (simp add: conserved_start)
  from extend_ready_custody [OF e arm_reg_id_inj [OF d(1)] slots_ok_binds(1) [OF d(2)] _ this]
  have e1: "conserved (front w1) (held (arm_count rset) (arm_reg_id rset) (map_of ready)) (front w2)"
    "distinct (map fst ready)" "fst ` set ready \<subseteq> fst ` set ?refs" by auto
  have slots: "\<forall>i \<in> fst ` set ready. slot_at (pc_bound st) i \<noteq> None"
    using e1(3) by (fastforce simp: pending_refs_mem)
  obtain q bud' visits' w3 where
    q: "record_ready env rset req (pc_bound st) (pc_budget st) (pc_visits st) ready w2 = (q, bud', visits', w3)"
    by (metis prod_cases4)
  from record_ready_custody [OF q d v(2) e1(2) slots conserved_held [OF d(1) c1 e1(1)]]
  have ok: "\<exists>u. q = Inr u" "visits_ok (pc_bound st) visits'" "conserved F0 (arm_held rset (visit_held visits')) (front w3)"
    by auto
  let ?st = "st\<lparr>pc_budget := bud', pc_visits := visits'\<rparr>"
  from s t e q ok(1) have "pc_done env ?st (decide_at_deadline rset req now starts visits') w3 = (st', w')"
    by (auto simp: pc_deadline_def Let_def)
  from pc_done_inv [OF this d(1)] d(2) v(1) ok(2,3) show ?thesis by simp
qed

lemma pc_observe_inv:
  assumes s: "pc_observe env rset req pending unbound starts obs_race bind_race st w = (st', w')"
    and d: "distinct_arms rset" "slots_ok env rset (pc_bound st)"
    and v: "length (pc_bound st) = arm_count rset" "visits_ok (pc_bound st) (pc_visits st)"
    and p: "distinct pending" "\<forall>i \<in> set pending. slot_at (pc_bound st) i \<noteq> None"
    and u: "distinct unbound" "\<forall>i \<in> set unbound. i < arm_count rset"
    and ro: "obs_race_ok env rset pending obs_race" and rb: "bind_race_ok rset unbound bind_race"
    and c: "conserved F0 (arm_held rset (visit_held (pc_visits st))) (front w)"
  shows "pc_inv env front F0 rset req (st', w')"
proof -
  obtain q ro' w1 where q: "poll_observe_pending env pending obs_race w = (q, ro', w1)" by (metis prod_cases3)
  have lt: "\<forall>i \<in> set pending. i < arm_count rset" using p(2) slots_lt [OF d(2)] by blast
  note qi = poll_observe_pending_inv [OF q d(1) ro p(1) lt]
  show ?thesis
  proof (cases q)
    case (Ready collected)
    with s q have "pc_observed env rset req pending starts collected st w1 = (st', w')" by (simp add: pc_observe_def)
    from pc_observed_inv [OF this d v p(2) _ _ c] qi Ready show ?thesis by simp
  next
    case Pending
    from qi Pending have ro': "obs_race_ok env rset pending ro'" and c0: "conserved (front w) (\<lambda>_. []) (front w1)" by auto
    from conserved_trans [OF c c0] have c1: "conserved F0 (arm_held rset (visit_held (pc_visits st))) (front w1)" by simp
    obtain x rb' w2 rs where x: "poll_bind_unbound env req unbound bind_race (w1, pc_resolved st) = (x, rb', w2, rs)"
      by (metis prod_cases4)
    note xi = poll_bind_unbound_inv [OF x rb u(2)]
    from c1 xi have c2: "conserved F0 (arm_held rset (visit_held (pc_visits st))) (front w2)" by simp
    let ?st = "st\<lparr>pc_resolved := rs\<rparr>"
    show ?thesis
    proof (cases x)
      case (Ready collected)
      with s q x Pending have "pc_bound_more env rset req collected ?st w2 = (st', w')" by (simp add: pc_observe_def)
      from pc_bound_more_inv [OF this d(1)] d(2) v xi Ready c2 show ?thesis by simp
    next
      case xp: Pending
      obtain y w3 where y: "poll_cancelled env w2 = (y, w3)" by fastforce
      from c2 poll_cancelled_front [OF y] have c3: "conserved F0 (arm_held rset (visit_held (pc_visits st))) (front w3)"
        by simp
      obtain z w4 where z: "env_sleep_until env w3 (pc_earliest_deadline req) = (z, w4)" by fastforce
      from c3 sleep_front [OF z] have c4: "conserved F0 (arm_held rset (visit_held (pc_visits st))) (front w4)" by simp
      consider "y = Ready ()" | "y = Pending" "z = Ready ()" | "y = Pending" "z = Pending"
        by (metis poll.exhaust unit.exhaust)
      then show ?thesis
      proof cases
        case 1
        with s q x Pending xp y have "pc_cancelled env rset req starts ?st w3 = (st', w')"
          by (simp add: pc_observe_def Let_def)
        from pc_cancelled_inv [OF this d(1)] d(2) v c3 show ?thesis by simp
      next
        case 2
        with s q x Pending xp y z have "pc_deadline env rset req pending starts ?st w4 = (st', w')"
          by (simp add: pc_observe_def Let_def)
        from pc_deadline_inv [OF this d(1)] d(2) v p(2) c4 show ?thesis by simp
      next
        case 3
        with s q x Pending xp y z have "st' = ?st\<lparr>pc_pc := PC_Observe pending unbound starts ro' rb'\<rparr>"
          "w' = env_park env w4"
          by (auto simp: pc_observe_def Let_def)
        with d(2) v p u ro' xi xp c4 show ?thesis by (simp add: pc_inv_def park_front)
      qed
    qed
  qed
qed

lemma pc_bind_inv:
  assumes s: "pc_bind env rset req bind_race st w = (st', w')"
    and d: "distinct_arms rset" "slots_ok env rset (pc_bound st)"
    and v: "length (pc_bound st) = arm_count rset" "visits_ok (pc_bound st) (pc_visits st)"
    and rb: "bind_race_ok rset (fairness_order rset req) bind_race"
    and c: "conserved F0 (arm_held rset (visit_held (pc_visits st))) (front w)"
  shows "pc_inv env front F0 rset req (st', w')"
proof -
  obtain x rb' w2 rs where
    x: "poll_bind_unbound env req (fairness_order rset req) bind_race (w, pc_resolved st) = (x, rb', w2, rs)"
    by (metis prod_cases4)
  have "\<forall>i \<in> set (fairness_order rset req). i < arm_count rset" using fairness_order_bij [of rset req] by auto
  note xi = poll_bind_unbound_inv [OF x rb this]
  from c xi have c2: "conserved F0 (arm_held rset (visit_held (pc_visits st))) (front w2)" by simp
  let ?st = "st\<lparr>pc_resolved := rs\<rparr>"
  show ?thesis
  proof (cases x)
    case (Ready collected)
    with s x have "pc_bound_more env rset req collected ?st w2 = (st', w')" by (simp add: pc_bind_def)
    from pc_bound_more_inv [OF this d(1)] d(2) v xi Ready c2 show ?thesis by simp
  next
    case xp: Pending
    obtain y w3 where y: "poll_cancelled env w2 = (y, w3)" by fastforce
    from c2 poll_cancelled_front [OF y] have c3: "conserved F0 (arm_held rset (visit_held (pc_visits st))) (front w3)"
      by simp
    obtain z w4 where z: "env_sleep_until env w3 (pc_earliest_deadline req) = (z, w4)" by fastforce
    from c3 sleep_front [OF z] have c4: "conserved F0 (arm_held rset (visit_held (pc_visits st))) (front w4)" by simp
    consider "y = Ready ()" | "y = Pending" "z = Ready ()" | "y = Pending" "z = Pending"
      by (metis poll.exhaust unit.exhaust)
    then show ?thesis
    proof cases
      case 1
      with s x xp y have "pc_cancelled env rset req rs ?st w3 = (st', w')" by (simp add: pc_bind_def Let_def)
      from pc_cancelled_inv [OF this d(1)] d(2) v c3 show ?thesis by simp
    next
      case 2
      obtain now w5 where t: "env_now env w4 = (now, w5)" by fastforce
      from c4 now_front [OF t] have c5: "conserved F0 (arm_held rset (visit_held (pc_visits st))) (front w5)" by simp
      from 2 s x xp y z t have "pc_done env ?st (decide_at_deadline rset req now rs (pc_visits st)) w5 = (st', w')"
        by (simp add: pc_bind_def Let_def)
      from pc_done_inv [OF this d(1)] d(2) v c5 show ?thesis by simp
    next
      case 3
      with s x xp y z have "st' = ?st\<lparr>pc_pc := PC_Bind rb'\<rparr>" "w' = env_park env w4"
        by (auto simp: pc_bind_def Let_def)
      with d(2) v xi xp c4 show ?thesis by (simp add: pc_inv_def park_front)
    qed
  qed
qed

lemma pc_top_inv:
  assumes s: "pc_top env rset req st w = (st', w')"
    and d: "distinct_arms rset" "slots_ok env rset (pc_bound st)"
    and v: "length (pc_bound st) = arm_count rset" "visits_ok (pc_bound st) (pc_visits st)"
    and c: "conserved F0 (arm_held rset (visit_held (pc_visits st))) (front w)"
  shows "pc_inv env front F0 rset req (st', w')"
proof -
  obtain x w1 where x: "env_is_cancelled env w = (x, w1)" by fastforce
  from c cancelled_front [OF x] have c1: "conserved F0 (arm_held rset (visit_held (pc_visits st))) (front w1)" by simp
  obtain now w2 where t: "env_now env w1 = (now, w2)" by fastforce
  from c1 now_front [OF t] have c2: "conserved F0 (arm_held rset (visit_held (pc_visits st))) (front w2)" by simp
  define starts where "starts = merge_starts (starts_from_slots env (pc_bound st)) (pc_resolved st)"
  define pending where "pending = filter (\<lambda>idx. slot_at (pc_bound st) idx \<noteq> None \<and> \<not> bt_contains (pc_visits st) idx)
      (fairness_order rset req)"
  define unbound where "unbound = filter (\<lambda>idx. slot_at (pc_bound st) idx = None \<and> \<not> bt_contains (pc_visits st) idx)
      (fairness_order rset req)"
  consider "x" | "\<not> x" "deadline_reached req now"
    | "\<not> x" "\<not> deadline_reached req now" "pc_any_bound st" "pending = []" "all_visited rset st \<or> unbound = []"
    | "\<not> x" "\<not> deadline_reached req now" "pc_any_bound st" "\<not> (pending = [] \<and> (all_visited rset st \<or> unbound = []))"
    | "\<not> x" "\<not> deadline_reached req now" "\<not> pc_any_bound st"
    by blast
  then show ?thesis
  proof cases
    case 1
    with s x have "pc_cancelled env rset req (pc_resolved st) st w1 = (st', w')" by (simp add: pc_top_def)
    from pc_cancelled_inv [OF this d v c1] show ?thesis .
  next
    case 2
    obtain now' w3 where t': "env_now env w2 = (now', w3)" by fastforce
    from c2 now_front [OF t'] have c3: "conserved F0 (arm_held rset (visit_held (pc_visits st))) (front w3)" by simp
    from 2 s x t t' have "pc_done env st (decide_at_deadline rset req now' starts (pc_visits st)) w3 = (st', w')"
      by (simp add: pc_top_def Let_def starts_def)
    from pc_done_inv [OF this d v c3] show ?thesis .
  next
    case 3
    with s x t have "pc_assembled env rset req starts st w2 = (st', w')"
      by (simp add: pc_top_def Let_def starts_def pending_def unbound_def)
    from pc_assembled_inv [OF this d v c2] show ?thesis .
  next
    case 4
    with s x t have st': "st' = st\<lparr>pc_pc := PC_Observe pending unbound starts (obs_race_new (pc_bound st) pending)
        (bind_race_new rset req unbound)\<rparr>" "w' = w2"
      by (auto simp: pc_top_def Let_def starts_def pending_def unbound_def)
    have p: "\<forall>i \<in> set pending. slot_at (pc_bound st) i \<noteq> None" "distinct pending" "distinct unbound"
      "\<forall>i \<in> set unbound. i < arm_count rset"
      using fairness_order_bij [of rset req] by (auto simp: pending_def unbound_def)
    with d(2) v c2 st' obs_race_new_ok [OF d(2) p(1)] bind_race_new_ok show ?thesis by (simp add: pc_inv_def)
  next
    case 5
    with s x t have "st' = st\<lparr>pc_pc := PC_Bind (bind_race_new rset req (fairness_order rset req))\<rparr>" "w' = w2"
      by (auto simp: pc_top_def Let_def)
    with d(2) v c2 bind_race_new_ok show ?thesis by (simp add: pc_inv_def)
  qed
qed

lemma pc_step_inv:
  assumes d: "distinct_arms rset" and i: "pc_inv env front F0 rset req c"
  shows "pc_inv env front F0 rset req (pc_step env rset req c)"
proof -
  obtain st w where c: "c = (st, w)" by (cases c)
  obtain st' w' where s: "pc_step env rset req (st, w) = (st', w')" by fastforce
  have b: "slots_ok env rset (pc_bound st)" "length (pc_bound st) = arm_count rset"
    "visits_ok (pc_bound st) (pc_visits st)"
    using i c by (simp_all add: pc_inv_def)
  show ?thesis
  proof (cases "pc_pc st")
    case PC_Top
    with s have t: "pc_top env rset req st w = (st', w')" by (simp add: pc_step_def)
    from i c PC_Top have "conserved F0 (arm_held rset (visit_held (pc_visits st))) (front w)" by (simp add: pc_inv_def)
    from pc_top_inv [OF t d b this] show ?thesis by (simp add: c s)
  next
    case (PC_Observe pending unbound starts ro rb)
    with s have t: "pc_observe env rset req pending unbound starts ro rb st w = (st', w')" by (simp add: pc_step_def)
    from i c PC_Observe have "distinct pending" "\<forall>i \<in> set pending. slot_at (pc_bound st) i \<noteq> None"
      "distinct unbound" "\<forall>i \<in> set unbound. i < arm_count rset"
      "obs_race_ok env rset pending ro" "bind_race_ok rset unbound rb"
      "conserved F0 (arm_held rset (visit_held (pc_visits st))) (front w)"
      by (simp_all add: pc_inv_def)
    from pc_observe_inv [OF t d b this] show ?thesis by (simp add: c s)
  next
    case (PC_Bind rb)
    with s have t: "pc_bind env rset req rb st w = (st', w')" by (simp add: pc_step_def)
    from i c PC_Bind have "bind_race_ok rset (fairness_order rset req) rb"
      "conserved F0 (arm_held rset (visit_held (pc_visits st))) (front w)"
      by (simp_all add: pc_inv_def)
    from pc_bind_inv [OF t d b this] show ?thesis by (simp add: c s)
  next
    case (PC_Done r)
    with i c show ?thesis by (simp add: pc_step_def)
  qed
qed

lemma pc_run_inv:
  "distinct_arms rset \<Longrightarrow> pc_inv env front F0 rset req c \<Longrightarrow> pc_inv env front F0 rset req (pc_run env rset req n c)"
  by (induction n arbitrary: c) (simp_all add: pc_step_inv)

lemma pc_inv_init: "pc_inv env front (front w) rset req (pc_init rset req, w)"
proof -
  have slot: "slot_at (map (\<lambda>_. None) (rs_registrations rset)) i = None" for i
    by (simp add: slot_at_def)
  have "visit_held [] = (\<lambda>_. [])" by (rule ext) (simp add: visit_held_def)
  then show ?thesis
    by (simp add: pc_inv_def pc_init_def slots_ok_def visits_ok_def slot conserved_start arm_count_def)
qed

theorem run_poll_cycle_custody:
  assumes "distinct_arms rset" "run_poll_cycle env rset req fuel w = (Some r, w')"
  shows "conserved (front w) (\<lambda>_. []) (front w')"
proof (cases "pc_resolve rset req")
  case (Inl err)
  with assms(2) show ?thesis by (auto simp: run_poll_cycle_def conserved_start)
next
  case (Inr u)
  obtain st w1 where s: "pc_run env rset req fuel (pc_init rset req, w) = (st, w1)" by fastforce
  from pc_run_inv [OF assms(1) pc_inv_init [of w rset req], of fuel] s assms(2) Inr show ?thesis
    by (auto simp: run_poll_cycle_def pc_inv_def split: pc_pc.splits)
qed

end

end
