(* ===== verification/Poll_Cycle_Live.thy ===== *)
theory Poll_Cycle_Live
  imports Poll_Cycle_Run First_Match_Live
begin

text \<open>
  The poll cycle returns: every turn of its loop binds or visits an arm, and every park brings
  the deadline closer.
\<close>

lemma record_visits_progress:
  "record_visits env binds order bud visits rm w = (Inr rm', bud', visits', w') \<Longrightarrow>
   (\<forall>i. bt_contains visits i \<longrightarrow> bt_contains visits' i) \<and>
   (\<forall>i \<in> set order. bt_get rm i \<noteq> None \<longrightarrow> bt_contains visits' i)"
proof (induction order arbitrary: bud visits rm w)
  case (Cons idx order)
  show ?case
  proof (cases "bt_contains visits idx \<or> bt_get rm idx = None")
    case True
    with Cons.prems have "record_visits env binds order bud visits rm w = (Inr rm', bud', visits', w')"
      by (auto split: option.splits if_splits)
    from Cons.IH [OF this] True show ?thesis by auto
  next
    case False
    then obtain obs where obs: "\<not> bt_contains visits idx" "bt_get rm idx = Some obs" by auto
    have rest: ?thesis
      if go: "record_visits env binds order bud1 (bt_insert idx v visits) (bt_remove idx rm) w1
        = (Inr rm', bud', visits', w')" for bud1 v w1
      using Cons.IH [OF go] by (auto split: if_splits)
    show ?thesis
    proof (cases "budget_exhausted bud \<and> observation_is_replayable obs")
      case True
      obtain r1 w1 where "defer_ready env (slot_at binds idx) obs w = (r1, w1)" by fastforce
      note d = this
      show ?thesis
      proof (cases r1)
        case (Inr v)
        with Cons.prems obs True d have "record_visits env binds order bud (bt_insert idx v visits) (bt_remove idx rm) w1
            = (Inr rm', bud', visits', w')"
          by (auto simp: Let_def)
        then show ?thesis by (rule rest)
      qed (use Cons.prems obs True d in \<open>auto simp: Let_def\<close>)
    next
      case False
      obtain r1 bud1 w1 where r: "visit_from env (slot_at binds idx) bud obs w = (r1, bud1, w1)" by (metis prod_cases3)
      show ?thesis
      proof (cases r1)
        case (Inr v)
        with Cons.prems obs False r have "record_visits env binds order bud1 (bt_insert idx v visits) (bt_remove idx rm) w1
            = (Inr rm', bud', visits', w')"
          by (auto simp: Let_def)
        then show ?thesis by (rule rest)
      qed (use Cons.prems obs False r in \<open>auto simp: Let_def\<close>)
    qed
  qed
qed simp

lemma collect_ready_keys:
  "collect_ready env binds ready rm w = (Inr rm', w') \<Longrightarrow>
   (\<forall>i. bt_get rm i \<noteq> None \<longrightarrow> bt_get rm' i \<noteq> None) \<and> (\<forall>i \<in> fst ` set ready. bt_get rm' i \<noteq> None)"
proof (induction ready arbitrary: rm w)
  case (Cons p ready)
  obtain i obs where p: "p = (i, obs)" by (cases p)
  show ?case
  proof (cases "bt_contains rm i")
    case True
    obtain r1 w1 where "restore_observation env (slot_at binds i) obs w = (r1, w1)" by fastforce
    with Cons True p show ?thesis by (cases r1) (auto simp: bt_contains_def)
  next
    case False
    with Cons.prems p have "collect_ready env binds ready (bt_insert i obs rm) w = (Inr rm', w')" by simp
    from Cons.IH [OF this] p show ?thesis by auto
  qed
qed simp

lemma record_ready_progress:
  assumes "record_ready env rset req binds bud visits ready w = (Inr u, bud', visits', w')"
  shows "(\<forall>i. bt_contains visits i \<longrightarrow> bt_contains visits' i) \<and>
    (\<forall>i \<in> fst ` set ready. i < arm_count rset \<longrightarrow> bt_contains visits' i)"
proof -
  obtain r1 w1 where c: "collect_ready env binds ready [] w = (r1, w1)" by fastforce
  with assms obtain rm where r1: "r1 = Inr rm" by (cases r1) (auto simp: record_ready_def)
  obtain r2 bud2 visits2 w2 where
    v: "record_visits env binds (fairness_order rset req) bud visits rm w1 = (r2, bud2, visits2, w2)"
    by (metis prod_cases4)
  with assms c r1 obtain rest where r2: "r2 = Inr rest" "visits' = visits2"
    by (cases r2) (auto simp: record_ready_def Let_def split: prod.splits)
  from record_visits_progress [OF v [unfolded r2(1)]] collect_ready_keys [OF c [unfolded r1]]
    fairness_order_bij [of rset req] r2(2)
  show ?thesis by auto
qed

text \<open>A race over live arms that ends without an error has something to show.\<close>

lemma fr_poll_nonempty:
  assumes "fr_poll pf term race w = (Ready c, race', w')" "\<forall>a \<in> set race. arm_live a" "race \<noteq> []"
    and "fr_error c = None"
  shows "fr_ready c \<noteq> []"
proof
  assume e: "fr_ready c = []"
  with fr_poll_all_ready [OF assms(1,2,4)] have "length race = 0"
    by (metis empty_iff length_map length_upt list.set(1) list.size(3) minus_nat.diff_0)
  with assms(3) show False by simp
qed

lemma fr_poll_some_arm:
  assumes "fr_poll pf term race w = (Ready c, race', w')" "\<forall>a \<in> set race. arm_live a" "pending \<noteq> []"
    and "fr_error c = None" "length race = length pending"
  shows "\<exists>i v. i \<in> set pending \<and> (i, v) \<in> set (remap_ready pending (fr_ready c))"
proof -
  have "race \<noteq> []" using assms(3,5) by auto
  from fr_poll_nonempty [OF assms(1,2) this assms(4)] obtain j v where "(j, v) \<in> set (fr_ready c)"
    by (metis list.set_intros(1) neq_Nil_conv surj_pair)
  moreover from this fr_poll_sorted [OF assms(1)] assms(5) have "j < length pending" by force
  ultimately have "(pending ! j, v) \<in> set (remap_ready pending (fr_ready c))" by (auto simp: remap_ready_mem)
  with \<open>j < length pending\<close> show ?thesis by (meson nth_mem)
qed

lemma extend_ready_keys:
  "extend_ready_refs env binds ready w = (ready', w') \<Longrightarrow> fst ` set ready \<subseteq> fst ` set ready'"
proof (induction binds arbitrary: ready w)
  case (Cons p binds)
  obtain i b where p: "p = (i, b)" by (cases p)
  obtain q w1 where q: "env_poll_ready env w b = (q, w1)" by fastforce
  show ?case
  proof (cases "list_ex (\<lambda>(have_idx, _). have_idx = i) ready \<or> q = None")
    case True
    with Cons.prems Cons.IH [of ready] show ?thesis by (auto simp: p q split: if_splits)
  next
    case False
    then obtain obs where "q = Some obs" by blast
    with Cons.prems False have "extend_ready_refs env binds (ready @ [(i, obs)]) w1 = (ready', w')"
      by (simp add: p q)
    from Cons.IH [OF this] show ?thesis by simp
  qed
qed simp

lemma place_binds_some:
  "slot_at bound i \<noteq> None \<or> (i \<in> fst ` set ready \<and> i < length bound) \<Longrightarrow> slot_at (place_binds ready bound) i \<noteq> None"
proof (induction ready arbitrary: bound)
  case (Cons p ready)
  from Cons.prems Cons.IH [of "bound[fst p := Some (snd p)]"] show ?case
    by (cases p) (auto simp: place_binds_def slot_at_update)
qed (simp add: place_binds_def)

lemma place_binds_length [simp]: "length (place_binds ready bound) = length bound"
  by (induction ready arbitrary: bound) (auto simp: place_binds_def)

definition unvisited :: "registration_set \<Rightarrow> 'b pc_state \<Rightarrow> nat" where
  "unvisited rset st = card {i. i < arm_count rset \<and> \<not> bt_contains (pc_visits st) i}"

definition unbound_count :: "registration_set \<Rightarrow> 'b pc_state \<Rightarrow> nat" where
  "unbound_count rset st = card {i. i < arm_count rset \<and> slot_at (pc_bound st) i = None}"

definition pc_left :: "registration_set \<Rightarrow> 'b pc_state \<Rightarrow> nat" where
  "pc_left rset st = unvisited rset st + unbound_count rset st"

definition pc_time :: "('w \<Rightarrow> int) \<Rightarrow> poll_cycle_request \<Rightarrow> 'w \<Rightarrow> nat" where
  "pc_time clk req w = nat (ts_instant (pc_earliest_deadline req) - clk w)"

definition pc_measure ::
  "('w \<Rightarrow> int) \<Rightarrow> registration_set \<Rightarrow> poll_cycle_request \<Rightarrow> 'b pc_state \<times> 'w \<Rightarrow> nat" where
  "pc_measure clk rset req c =
     (case c of (st, w) \<Rightarrow>
        2 * pc_left rset st + pc_time clk req w + (case pc_pc st of PC_Top \<Rightarrow> 1 | _ \<Rightarrow> 0))"

definition pc_is_done :: "'b pc_state \<Rightarrow> bool" where
  "pc_is_done st \<longleftrightarrow> (\<exists>r. pc_pc st = PC_Done r)"

definition pc_wf :: "registration_set \<Rightarrow> poll_cycle_request \<Rightarrow> 'b pc_state \<Rightarrow> bool" where
  "pc_wf rset req st \<longleftrightarrow>
     length (pc_bound st) = arm_count rset \<and>
     (case pc_pc st of
        PC_Observe pending unbound starts ro rb \<Rightarrow>
          length ro = length pending \<and> length rb = length unbound \<and>
          (\<forall>a \<in> set ro. arm_live a) \<and> (\<forall>a \<in> set rb. arm_live a) \<and>
          (\<forall>i \<in> set pending. i < arm_count rset \<and> \<not> bt_contains (pc_visits st) i) \<and>
          (\<forall>i \<in> set unbound. i < arm_count rset \<and> slot_at (pc_bound st) i = None)
      | PC_Bind rb \<Rightarrow>
          length rb = length (fairness_order rset req) \<and> (\<forall>a \<in> set rb. arm_live a) \<and>
          (\<forall>i < arm_count rset. slot_at (pc_bound st) i = None)
      | _ \<Rightarrow> True) \<and>
     (pc_any_bound st \<or> (\<forall>i < arm_count rset. slot_at (pc_bound st) i = None))"

lemma pc_done_done [simp]: "pc_is_done (fst (pc_done env st r w))" "pc_is_done (fst (pc_fail st err w))"
  by (simp_all add: pc_done_def pc_fail_def pc_is_done_def split: prod.split)

lemma pc_assembled_done [simp]: "pc_is_done (fst (pc_assembled env rset req starts st w))"
  by (auto simp: pc_assembled_def split: prod.split)

lemma pc_cancelled_done [simp]: "pc_is_done (fst (pc_cancelled env rset req starts st w))"
  by (auto simp: pc_cancelled_def split: prod.split)

lemma pc_deadline_done [simp]: "pc_is_done (fst (pc_deadline env rset req pending starts st w))"
  by (auto simp: pc_deadline_def Let_def split: prod.split sum.split)

lemma card_less: "finite A \<Longrightarrow> B \<subseteq> A \<Longrightarrow> x \<in> A \<Longrightarrow> x \<notin> B \<Longrightarrow> card B < card A"
  by (rule psubset_card_mono) auto

lemma unvisited_less:
  assumes "\<forall>i. bt_contains (pc_visits st) i \<longrightarrow> bt_contains (pc_visits st') i"
    and "i < arm_count rset" "\<not> bt_contains (pc_visits st) i" "bt_contains (pc_visits st') i"
  shows "unvisited rset st' < unvisited rset st"
  unfolding unvisited_def using assms by (intro card_less [where x = i]) auto

lemma unvisited_le:
  "\<forall>i. bt_contains (pc_visits st) i \<longrightarrow> bt_contains (pc_visits st') i \<Longrightarrow> unvisited rset st' \<le> unvisited rset st"
  unfolding unvisited_def by (intro card_mono) auto

lemma pc_record_progress:
  assumes s: "pc_record env rset req starts ready st w = (st', w')" and nd: "\<not> pc_is_done st'"
  shows "pc_pc st' = PC_Top \<and> pc_bound st' = pc_bound st \<and> pc_any_bound st' = pc_any_bound st \<and>
    (\<forall>i. bt_contains (pc_visits st) i \<longrightarrow> bt_contains (pc_visits st') i) \<and>
    (\<forall>i \<in> fst ` set ready. i < arm_count rset \<longrightarrow> bt_contains (pc_visits st') i)"
proof -
  obtain q bud' visits' w1 where
    q: "record_ready env rset req (pc_bound st) (pc_budget st) (pc_visits st) ready w = (q, bud', visits', w1)"
    by (metis prod_cases4)
  let ?st = "st\<lparr>pc_budget := bud', pc_visits := visits'\<rparr>"
  show ?thesis
  proof (cases q)
    case (Inl err)
    with s q have "st' = fst (pc_fail ?st err w1)" by (simp add: pc_record_def)
    with nd show ?thesis by simp
  next
    case (Inr u)
    show ?thesis
    proof (cases "all_visited rset ?st")
      case True
      with s q Inr have "st' = fst (pc_assembled env rset req (starts ?st) ?st w1)"
        by (simp add: pc_record_def Let_def)
      with nd show ?thesis by simp
    next
      case False
      with s q Inr have "st' = ?st\<lparr>pc_pc := PC_Top\<rparr>" by (simp add: pc_record_def Let_def)
      with record_ready_progress [OF q [unfolded Inr]] show ?thesis by simp
    qed
  qed
qed

context clock_laws
begin

lemma restore_observation_later: "restore_observation env b obs w = (r, w') \<Longrightarrow> later w w'"
  by (cases b) (auto simp: restore_observation_def dest: restore_later)

lemma drain_ready_later:
  assumes "drain_ready env b bud evs w = (r, bud', evs', w')"
  shows "later w w'"
  using assms
  by (rule drain_ready_keeps [where P = "\<lambda>_ _ x. later w x"])
    (auto dest: poll_ready_later restore_later, (meson later_trans poll_ready_later restore_later)+)

lemma visit_from_later:
  assumes "visit_from env bind bud obs w = (r, bud', w')"
  shows "later w w'"
proof (cases obs)
  case (Obs_Event ev)
  obtain t b1 where t: "try_take bud ev = (t, b1)" by fastforce
  obtain r1 w1 where r1: "restore_observation env bind (Obs_Event ev) w = (r1, w1)" by fastforce
  show ?thesis
  proof (cases t)
    case False
    with assms Obs_Event t r1 restore_observation_later [OF r1] show ?thesis
      by (cases r1) (auto simp: visit_from_def defer_ready_def)
  next
    case True
    show ?thesis
    proof (cases bind)
      case (Some b)
      obtain r2 b2 evs w2 where d: "drain_ready env b b1 [ev] w = (r2, b2, evs, w2)" by (metis prod_cases4)
      with assms Obs_Event t True Some drain_ready_later [OF d] show ?thesis
        by (cases r2) (auto simp: visit_from_def)
    qed (use assms Obs_Event t True in \<open>auto simp: visit_from_def\<close>)
  qed
qed (use assms in \<open>auto simp: visit_from_def\<close>)

lemma record_visits_later:
  "record_visits env binds order bud visits rm w = (r, bud', visits', w') \<Longrightarrow> later w w'"
proof (induction order arbitrary: bud visits rm w)
  case (Cons idx order)
  show ?case
  proof (cases "bt_contains visits idx \<or> bt_get rm idx = None")
    case True
    with Cons.prems have "record_visits env binds order bud visits rm w = (r, bud', visits', w')"
      by (auto split: option.splits if_splits)
    then show ?thesis by (rule Cons.IH)
  next
    case False
    then obtain obs where obs: "\<not> bt_contains visits idx" "bt_get rm idx = Some obs" by auto
    obtain r1 w1 where d: "restore_observation env (slot_at binds idx) obs w = (r1, w1)" by fastforce
    obtain r2 b2 w2 where v: "visit_from env (slot_at binds idx) bud obs w = (r2, b2, w2)"
      by (metis prod_cases3)
    from Cons obs restore_observation_later [OF d] visit_from_later [OF v] show ?thesis
      by (auto simp: Let_def defer_ready_def d v split: if_splits sum.splits intro: later_trans)
  qed
qed simp

lemma restore_rest_later: "restore_rest env binds ready w = (r, w') \<Longrightarrow> later w w'"
proof (induction ready arbitrary: w)
  case (Cons p ready)
  obtain i obs where p: "p = (i, obs)" by (cases p)
  obtain q w1 where q: "restore_observation env (slot_at binds i) obs w = (q, w1)" by fastforce
  from Cons.prems Cons.IH restore_observation_later [OF q] show ?case
    by (auto simp: p q split: sum.splits if_splits intro: later_trans)
qed simp

lemma restore_owned_observations_later: "restore_owned_observations env binds ready w = (r, w') \<Longrightarrow> later w w'"
proof (induction ready arbitrary: w)
  case (Cons p ready)
  obtain i obs where p: "p = (i, obs)" by (cases p)
  obtain q w1 where q: "restore_observation env (slot_at binds i) obs w = (q, w1)" by fastforce
  from Cons.prems Cons.IH restore_observation_later [OF q] show ?case
    by (auto simp: p q split: sum.splits if_splits intro: later_trans)
qed simp

lemma collect_ready_later: "collect_ready env binds ready rm w = (r, w') \<Longrightarrow> later w w'"
proof (induction ready arbitrary: w rm)
  case (Cons p ready)
  obtain i obs where p: "p = (i, obs)" by (cases p)
  obtain q w1 where q: "restore_observation env (slot_at binds i) obs w = (q, w1)" by fastforce
  from Cons.prems Cons.IH restore_observation_later [OF q] show ?case
    by (auto simp: p q split: sum.splits if_splits intro: later_trans)
qed simp

lemma record_ready_later:
  assumes "record_ready env rset req binds bud visits ready w = (r, bud', visits', w')"
  shows "later w w'"
proof -
  obtain r1 w1 where c: "collect_ready env binds ready [] w = (r1, w1)" by fastforce
  note l1 = collect_ready_later [OF c]
  show ?thesis
  proof (cases r1)
    case (Inl e)
    with assms c l1 show ?thesis by (simp add: record_ready_def)
  next
    case (Inr rm)
    obtain r2 bud2 visits2 w2 where
      v: "record_visits env binds (fairness_order rset req) bud visits rm w1 = (r2, bud2, visits2, w2)"
      by (metis prod_cases4)
    from l1 record_visits_later [OF v] have l2: "later w w2" by (rule later_trans)
    obtain r3 w3 where x: "restore_rest env binds (projr r2) w2 = (r3, w3)" by fastforce
    from l2 restore_rest_later [OF x] have l3: "later w w3" by (rule later_trans)
    from assms c Inr v x l2 l3 show ?thesis by (cases r2) (auto simp: record_ready_def Let_def)
  qed
qed

lemma pc_record_later:
  assumes "pc_record env rset req starts ready st w = (st', w')" "\<not> pc_is_done st'"
  shows "later w w'"
proof -
  obtain q bud' visits' w1 where
    q: "record_ready env rset req (pc_bound st) (pc_budget st) (pc_visits st) ready w = (q, bud', visits', w1)"
    by (metis prod_cases4)
  let ?st = "st\<lparr>pc_budget := bud', pc_visits := visits'\<rparr>"
  have "w' = w1"
  proof (cases q)
    case (Inl err)
    with assms q have "st' = fst (pc_fail ?st err w1)" by (simp add: pc_record_def)
    with assms(2) show ?thesis by simp
  next
    case (Inr u)
    with assms(1) q have "(if all_visited rset ?st then pc_assembled env rset req (starts ?st) ?st w1
        else (?st\<lparr>pc_pc := PC_Top\<rparr>, w1)) = (st', w')" by (simp add: pc_record_def Let_def)
    with assms(2) pc_assembled_done [of env rset req "starts ?st" ?st w1] show ?thesis
      by (metis fst_conv snd_conv)
  qed
  with record_ready_later [OF q] show ?thesis by simp
qed

lemma poll_bind_one_later: "poll_bind_one env req reg wr = (r, f', wr') \<Longrightarrow> later (fst wr) (fst wr')"
  by (auto simp: poll_bind_one_def split: prod.splits poll.splits sum.splits option.splits if_splits dest: bind_later)

lemma race_bind_one_later:
  "fr_poll (poll_bind_one env req) term race wr = (p, race', wr') \<Longrightarrow> later (fst wr) (fst wr')"
  by (rule fr_poll_keeps [where P = "\<lambda>x. later (fst wr) (fst x)" and pf = "poll_bind_one env req"])
    (auto dest: poll_bind_one_later intro: later_trans)

lemma pc_time_later: "later w w' \<Longrightarrow> pc_time clk req w' \<le> pc_time clk req w"
  by (auto simp: pc_time_def later_iff)

lemma pc_time_park:
  "env_sleep_until env w (pc_earliest_deadline req) = (Pending, w') \<Longrightarrow>
   pc_time clk req (env_park env w') < pc_time clk req w"
  using sleep_due [of w "pc_earliest_deadline req" w'] sleep_parks [of w "pc_earliest_deadline req" w']
    sleep_later [of w "pc_earliest_deadline req" Pending w']
  by (auto simp: pc_time_def later_iff)

section \<open>Every step makes progress\<close>

lemma unbound_le:
  "\<forall>i. slot_at (pc_bound st) i \<noteq> None \<longrightarrow> slot_at (pc_bound st') i \<noteq> None \<Longrightarrow>
   unbound_count rset st' \<le> unbound_count rset st"
  unfolding unbound_count_def by (intro card_mono) auto

lemma unbound_less:
  assumes "\<forall>i. slot_at (pc_bound st) i \<noteq> None \<longrightarrow> slot_at (pc_bound st') i \<noteq> None"
    and "i < arm_count rset" "slot_at (pc_bound st) i = None" "slot_at (pc_bound st') i \<noteq> None"
  shows "unbound_count rset st' < unbound_count rset st"
  unfolding unbound_count_def using assms by (intro card_less [where x = i]) auto

definition pc_base :: "registration_set \<Rightarrow> 'b pc_state \<Rightarrow> bool" where
  "pc_base rset st \<longleftrightarrow> length (pc_bound st) = arm_count rset \<and>
     (pc_any_bound st \<or> (\<forall>i < arm_count rset. slot_at (pc_bound st) i = None))"

lemma pc_observed_progress:
  assumes s: "pc_observed env rset req pending starts c st w = (st', w')" and nd: "\<not> pc_is_done st'"
    and b: "pc_base rset st" and l: "later w0 w"
    and i: "fr_error c = None \<longrightarrow> (\<exists>i v. i < arm_count rset \<and> \<not> bt_contains (pc_visits st) i \<and> (i, v) \<in> set (fr_ready c))"
  shows "pc_wf rset req st' \<and> pc_measure clk rset req (st', w') < 2 * pc_left rset st + pc_time clk req w0"
proof (cases "fr_error c")
  case (Some err)
  obtain r1 w1 where r: "restore_owned_observations env (pc_bound st) (fr_ready c) w = (r1, w1)" by fastforce
  from s Some r have "st' = fst (case r1 of Inl err' \<Rightarrow> pc_fail st err' w1 | Inr _ \<Rightarrow> pc_done env st (Inl err) w1)"
    by (auto simp: pc_observed_def split: sum.splits)
  with nd show ?thesis by (cases r1) auto
next
  case None
  obtain ready w1 where e: "extend_ready_refs env (pending_refs (pc_bound st) pending) (fr_ready c) w = (ready, w1)"
    by fastforce
  from s None e have r: "pc_record env rset req (\<lambda>_. starts) ready st w1 = (st', w')" by (simp add: pc_observed_def)
  note p = pc_record_progress [OF r nd]
  from i None obtain k v where k: "k < arm_count rset" "\<not> bt_contains (pc_visits st) k" "(k, v) \<in> set (fr_ready c)" by blast
  with extend_ready_keys [OF e] p have "bt_contains (pc_visits st') k" by force
  from unvisited_less [OF _ k(1,2) this] p have "unvisited rset st' < unvisited rset st" by blast
  moreover have "unbound_count rset st' = unbound_count rset st" using p by (simp add: unbound_count_def)
  moreover have "later w0 w'" using l extend_ready_later [OF e] pc_record_later [OF r nd] by (meson later_trans)
  ultimately show ?thesis using p b pc_time_later [of w0 w' req]
    by (auto simp: pc_measure_def pc_left_def pc_wf_def pc_base_def)
qed

lemma pc_bound_more_progress:
  assumes s: "pc_bound_more env rset req c st w = (st', w')" and nd: "\<not> pc_is_done st'"
    and b: "pc_base rset st" and l: "later w0 w"
    and i: "fr_error c = None \<longrightarrow> (\<exists>i v. i < arm_count rset \<and> slot_at (pc_bound st) i = None \<and> (i, v) \<in> set (fr_ready c))"
  shows "pc_wf rset req st' \<and> pc_measure clk rset req (st', w') < 2 * pc_left rset st + pc_time clk req w0"
proof (cases "fr_error c")
  case (Some err)
  with s have "st' = fst (pc_done env st (Inl err) w)" by (simp add: pc_bound_more_def)
  with nd show ?thesis by simp
next
  case None
  let ?bound = "place_binds (fr_ready c) (pc_bound st)"
  let ?st = "st\<lparr>pc_bound := ?bound, pc_any_bound := pc_any_bound st \<or> fr_ready c \<noteq> []\<rparr>"
  obtain ready w1 where e: "extend_ready_refs env (occupied_refs ?bound) [] w = (ready, w1)" by fastforce
  from s None e have r: "pc_record env rset req (\<lambda>st. starts_from_slots env (pc_bound st)) ready ?st w1 = (st', w')"
    by (simp add: pc_bound_more_def Let_def)
  note p = pc_record_progress [OF r nd]
  from i None obtain k v where k: "k < arm_count rset" "slot_at (pc_bound st) k = None" "(k, v) \<in> set (fr_ready c)" by blast
  have keep: "\<forall>i. slot_at (pc_bound st) i \<noteq> None \<longrightarrow> slot_at (pc_bound st') i \<noteq> None"
    using p place_binds_some [of "pc_bound st" _ "fr_ready c"] by simp
  from k(3) have "k \<in> fst ` set (fr_ready c)" by force
  moreover have "k < length (pc_bound st)" using k(1) b by (simp add: pc_base_def)
  ultimately have "slot_at ?bound k \<noteq> None" by (intro place_binds_some) simp
  with p have "slot_at (pc_bound st') k \<noteq> None" by simp
  from unbound_less [OF keep k(1,2) this] have "unbound_count rset st' < unbound_count rset st" .
  moreover have "unvisited rset st' \<le> unvisited rset st" using p by (intro unvisited_le) simp
  moreover have "later w0 w'" using l extend_ready_later [OF e] pc_record_later [OF r nd] by (meson later_trans)
  moreover have "pc_any_bound st'" using p k(3) by auto
  ultimately show ?thesis using p b pc_time_later [of w0 w' req]
    by (auto simp: pc_measure_def pc_left_def pc_wf_def pc_base_def)
qed

lemma poll_bind_unbound_later:
  "poll_bind_unbound env req unbound race wr = (r, race', wr') \<Longrightarrow> later (fst wr) (fst wr')"
  by (auto simp: poll_bind_unbound_def split: if_splits prod.splits poll.splits dest!: race_bind_one_later)

lemma poll_observe_pending_later:
  "poll_observe_pending env pending race w = (r, race', w') \<Longrightarrow> later w w'"
  by (auto simp: poll_observe_pending_def split: if_splits prod.splits poll.splits dest!: race_next_later)

lemma pc_bind_race_some:
  assumes p: "poll_bind_unbound env req unbound rb wr = (Ready c, rb', wr')"
    and l: "length rb = length unbound" "\<forall>a \<in> set rb. arm_live a"
    and u: "\<forall>i \<in> set unbound. i < arm_count rset \<and> slot_at (pc_bound st) i = None"
  shows "fr_error c = None \<longrightarrow> (\<exists>i v. i < arm_count rset \<and> slot_at (pc_bound st) i = None \<and> (i, v) \<in> set (fr_ready c))"
proof
  assume n: "fr_error c = None"
  from p obtain c0 where q: "fr_poll (poll_bind_one env req) bind_is_terminal rb wr = (Ready c0, rb', wr')"
    and c: "c = c0\<lparr>fr_ready := remap_ready unbound (fr_ready c0)\<rparr>" and ne: "unbound \<noteq> []"
    by (auto simp: poll_bind_unbound_def split: if_splits prod.splits poll.splits)
  from fr_poll_some_arm [OF q l(2) ne _ l(1)] n c u
  show "\<exists>i v. i < arm_count rset \<and> slot_at (pc_bound st) i = None \<and> (i, v) \<in> set (fr_ready c)" by auto
qed

lemma poll_bind_unbound_live:
  "poll_bind_unbound env req unbound rb wr = (Pending, rb', wr') \<Longrightarrow> \<forall>a \<in> set rb. arm_live a \<Longrightarrow>
   (\<forall>a \<in> set rb'. arm_live a) \<and> length rb' = length rb"
  by (auto simp: poll_bind_unbound_def split: if_splits prod.splits poll.splits dest: fr_poll_pending_live)

lemma poll_observe_pending_live:
  "poll_observe_pending env pending ro w = (Pending, ro', w') \<Longrightarrow> \<forall>a \<in> set ro. arm_live a \<Longrightarrow>
   (\<forall>a \<in> set ro'. arm_live a) \<and> length ro' = length ro"
  by (auto simp: poll_observe_pending_def split: if_splits prod.splits poll.splits dest: fr_poll_pending_live)

lemma pc_wf_base: "pc_wf rset req st \<Longrightarrow> pc_base rset st"
  by (simp add: pc_wf_def pc_base_def)

lemma pc_bind_progress:
  assumes s: "pc_bind env rset req rb st w = (st', w')" and nd: "\<not> pc_is_done st'"
    and wf: "pc_wf rset req st" and pc: "pc_pc st = PC_Bind rb"
  shows "pc_wf rset req st' \<and> pc_measure clk rset req (st', w') < pc_measure clk rset req (st, w)"
proof -
  let ?o = "fairness_order rset req"
  obtain x rb' w1 rs where x: "poll_bind_unbound env req ?o rb (w, pc_resolved st) = (x, rb', w1, rs)"
    by (metis prod_cases4)
  from poll_bind_unbound_later [OF x] have l1: "later w w1" by simp
  from wf pc have l: "length rb = length ?o" "\<forall>a \<in> set rb. arm_live a"
    and u: "\<forall>i \<in> set ?o. i < arm_count rset \<and> slot_at (pc_bound st) i = None"
    using fairness_order_bij [of rset req] by (auto simp: pc_wf_def)
  let ?st = "st\<lparr>pc_resolved := rs\<rparr>"
  have m: "pc_measure clk rset req (st, w) = 2 * pc_left rset ?st + pc_time clk req w"
    by (simp add: pc_measure_def pc pc_left_def unvisited_def unbound_count_def)
  show ?thesis
  proof (cases x)
    case (Ready c)
    with s x have b: "pc_bound_more env rset req c ?st w1 = (st', w')" by (simp add: pc_bind_def)
    from pc_bind_race_some [OF x [unfolded Ready] l u]
    have i: "fr_error c = None \<longrightarrow> (\<exists>i v. i < arm_count rset \<and> slot_at (pc_bound ?st) i = None \<and> (i, v) \<in> set (fr_ready c))"
      by simp
    have "pc_base rset ?st" using pc_wf_base [OF wf] by (simp add: pc_base_def)
    from pc_bound_more_progress [OF b nd this l1 i] show ?thesis by (simp add: m)
  next
    case Pending
    obtain y w2 where y: "poll_cancelled env w1 = (y, w2)" by fastforce
    obtain z w3 where z: "env_sleep_until env w2 (pc_earliest_deadline req) = (z, w3)" by fastforce
    have "y = Pending"
    proof (rule ccontr)
      assume "y \<noteq> Pending"
      then obtain u where "y = Ready u" by (cases y) auto
      with s x Pending y have "st' = fst (pc_cancelled env rset req rs ?st w2)" by (simp add: pc_bind_def)
      with nd show False by simp
    qed
    moreover have "z = Pending"
    proof (rule ccontr)
      assume "z \<noteq> Pending"
      then obtain u where "z = Ready u" by (cases z) auto
      with s x Pending y z \<open>y = Pending\<close> have "pc_is_done st'"
        by (auto simp: pc_bind_def Let_def pc_done_def pc_is_done_def split: prod.splits)
      with nd show False by simp
    qed
    ultimately have st: "st' = ?st\<lparr>pc_pc := PC_Bind rb'\<rparr>" "w' = env_park env w3"
      using s x Pending y z by (auto simp: pc_bind_def Let_def)
    have "later w w2" using l1 poll_cancelled_later [OF y] by (rule later_trans)
    from pc_time_later [OF this] pc_time_park [of w2 req w3] z \<open>z = Pending\<close>
    have "pc_time clk req w' < pc_time clk req w" by (simp add: st) (metis le_less_trans less_le_trans)
    moreover from poll_bind_unbound_live [OF x [unfolded Pending] l(2)] wf pc l
    have "pc_wf rset req st'" by (auto simp: st pc_wf_def)
    ultimately show ?thesis
      by (simp add: pc_measure_def pc st pc_left_def unvisited_def unbound_count_def)
  qed
qed

lemma pc_observe_progress:
  assumes s: "pc_observe env rset req pending unbound starts ro rb st w = (st', w')" and nd: "\<not> pc_is_done st'"
    and wf: "pc_wf rset req st" and pc: "pc_pc st = PC_Observe pending unbound starts ro rb"
  shows "pc_wf rset req st' \<and> pc_measure clk rset req (st', w') < pc_measure clk rset req (st, w)"
proof -
  obtain x ro' w1 where x: "poll_observe_pending env pending ro w = (x, ro', w1)" by (metis prod_cases3)
  note l1 = poll_observe_pending_later [OF x]
  from wf pc have lo: "length ro = length pending" "\<forall>a \<in> set ro. arm_live a"
    and lb: "length rb = length unbound" "\<forall>a \<in> set rb. arm_live a"
    and po: "\<forall>i \<in> set pending. i < arm_count rset \<and> \<not> bt_contains (pc_visits st) i"
    and u: "\<forall>i \<in> set unbound. i < arm_count rset \<and> slot_at (pc_bound st) i = None"
    by (auto simp: pc_wf_def)
  have m0: "pc_measure clk rset req (st, w) = 2 * pc_left rset st + pc_time clk req w"
    by (simp add: pc_measure_def pc)
  show ?thesis
  proof (cases x)
    case (Ready c)
    with s x have o: "pc_observed env rset req pending starts c st w1 = (st', w')" by (simp add: pc_observe_def)
    from x Ready obtain c0 where q: "fr_poll (poll_next env) observation_is_terminal ro w = (Ready c0, ro', w1)"
      and c: "c = c0\<lparr>fr_ready := remap_ready pending (fr_ready c0)\<rparr>" and ne: "pending \<noteq> []"
      by (auto simp: poll_observe_pending_def split: if_splits prod.splits poll.splits)
    have "fr_error c = None \<longrightarrow> (\<exists>i v. i < arm_count rset \<and> \<not> bt_contains (pc_visits st) i \<and> (i, v) \<in> set (fr_ready c))"
      using fr_poll_some_arm [OF q lo(2) ne _ lo(1)] c po by auto
    from pc_observed_progress [OF o nd pc_wf_base [OF wf] l1 this] show ?thesis by (simp add: m0)
  next
    case Pending
    obtain y rb' w2 rs where y: "poll_bind_unbound env req unbound rb (w1, pc_resolved st) = (y, rb', w2, rs)"
      by (metis prod_cases4)
    from l1 poll_bind_unbound_later [OF y] have l2: "later w w2" by (auto intro: later_trans)
    let ?st = "st\<lparr>pc_resolved := rs\<rparr>"
    have m: "pc_measure clk rset req (st, w) = 2 * pc_left rset ?st + pc_time clk req w"
      by (simp add: pc_measure_def pc pc_left_def unvisited_def unbound_count_def)
    show ?thesis
    proof (cases y)
      case (Ready c)
      with s x y Pending have b: "pc_bound_more env rset req c ?st w2 = (st', w')" by (simp add: pc_observe_def)
      from pc_bind_race_some [OF y [unfolded Ready] lb u]
      have i: "fr_error c = None \<longrightarrow> (\<exists>i v. i < arm_count rset \<and> slot_at (pc_bound ?st) i = None \<and> (i, v) \<in> set (fr_ready c))"
        by simp
      have "pc_base rset ?st" using pc_wf_base [OF wf] by (simp add: pc_base_def)
      from pc_bound_more_progress [OF b nd this l2 i] show ?thesis by (simp add: m)
    next
      case P2: Pending
      obtain z w3 where z: "poll_cancelled env w2 = (z, w3)" by fastforce
      obtain v w4 where v: "env_sleep_until env w3 (pc_earliest_deadline req) = (v, w4)" by fastforce
      have z0: "z = Pending"
      proof (rule ccontr)
        assume "z \<noteq> Pending"
        then obtain e where "z = Ready e" by (cases z) auto
        with s x Pending y P2 z have "st' = fst (pc_cancelled env rset req starts ?st w3)"
          by (simp add: pc_observe_def)
        with nd show False by simp
      qed
      have v0: "v = Pending"
      proof (rule ccontr)
        assume "v \<noteq> Pending"
        then obtain e where "v = Ready e" by (cases v) auto
        with s x Pending y P2 z z0 v have "st' = fst (pc_deadline env rset req pending starts ?st w4)"
          by (simp add: pc_observe_def)
        with nd show False by simp
      qed
      from s x Pending y P2 z z0 v v0
      have st: "st' = ?st\<lparr>pc_pc := PC_Observe pending unbound starts ro' rb'\<rparr>" "w' = env_park env w4"
        by (auto simp: pc_observe_def Let_def)
      have "later w w3" using l2 poll_cancelled_later [OF z] by (rule later_trans)
      from pc_time_later [OF this, of req] pc_time_park [of w3 req w4] v v0
      have "pc_time clk req w' < pc_time clk req w" by (simp add: st)
      moreover from poll_bind_unbound_live [OF y [unfolded P2] lb(2)]
        poll_observe_pending_live [OF x [unfolded Pending] lo(2)] wf pc
      have "pc_wf rset req st'" by (auto simp: st pc_wf_def)
      ultimately show ?thesis
        by (simp add: pc_measure_def pc st pc_left_def unvisited_def unbound_count_def)
    qed
  qed
qed

lemma pc_top_progress:
  assumes s: "pc_top env rset req st w = (st', w')" and nd: "\<not> pc_is_done st'"
    and wf: "pc_wf rset req st" and pc: "pc_pc st = PC_Top"
  shows "pc_wf rset req st' \<and> pc_measure clk rset req (st', w') < pc_measure clk rset req (st, w)"
proof -
  obtain x w1 where x: "env_is_cancelled env w = (x, w1)" by fastforce
  obtain now w2 where t: "env_now env w1 = (now, w2)" by fastforce
  obtain now' w3 where t': "env_now env w2 = (now', w3)" by fastforce
  let ?order = "fairness_order rset req"
  define pending where
    "pending = filter (\<lambda>idx. slot_at (pc_bound st) idx \<noteq> None \<and> \<not> bt_contains (pc_visits st) idx) ?order"
  define unbound where
    "unbound = filter (\<lambda>idx. slot_at (pc_bound st) idx = None \<and> \<not> bt_contains (pc_visits st) idx) ?order"
  define starts where "starts = merge_starts (starts_from_slots env (pc_bound st)) (pc_resolved st)"
  have lt: "later w w2" using cancelled_later [OF x] now_later [OF t] by (rule later_trans)
  have x0: "\<not> x"
  proof
    assume x
    with s x have "st' = fst (pc_cancelled env rset req (pc_resolved st) st w1)" by (simp add: pc_top_def)
    with nd show False by simp
  qed
  have d0: "\<not> deadline_reached req now"
  proof
    assume "deadline_reached req now"
    with s x x0 t t' have "pc_is_done st'"
      by (auto simp: pc_top_def Let_def pc_done_def pc_is_done_def split: prod.splits)
    with nd show False by simp
  qed
  note order = fairness_order_bij [of rset req]
  show ?thesis
  proof (cases "pc_any_bound st")
    case False
    with s x x0 t d0 have "st' = st\<lparr>pc_pc := PC_Bind (bind_race_new rset req ?order)\<rparr>" "w' = w2"
      by (simp_all add: pc_top_def Let_def)
    with wf pc False pc_time_later [OF lt, of req] show ?thesis
      by (simp add: pc_wf_def pc_measure_def pc_left_def unvisited_def unbound_count_def bind_race_new_def)
  next
    case True
    have "\<not> (pending = [] \<and> (all_visited rset st \<or> unbound = []))"
    proof
      assume "pending = [] \<and> (all_visited rset st \<or> unbound = [])"
      with s x x0 t d0 True have "st' = fst (pc_assembled env rset req starts st w2)"
        by (simp add: pc_top_def Let_def pending_def unbound_def starts_def)
      with nd show False by simp
    qed
    with s x x0 t d0 True
    have st: "st' = st\<lparr>pc_pc := PC_Observe pending unbound starts (obs_race_new (pc_bound st) pending)
        (bind_race_new rset req unbound)\<rparr>" "w' = w2"
      by (auto simp: pc_top_def Let_def pending_def unbound_def starts_def)
    have "\<forall>i \<in> set pending. i < arm_count rset \<and> \<not> bt_contains (pc_visits st) i"
      "\<forall>i \<in> set unbound. i < arm_count rset \<and> slot_at (pc_bound st) i = None"
      using order by (auto simp: pending_def unbound_def)
    with wf pc True pc_time_later [OF lt, of req] show ?thesis
      by (simp add: st pc_wf_def pc_measure_def pc_left_def unvisited_def unbound_count_def
          obs_race_new_def bind_race_new_def)
  qed
qed

lemma pc_step_progress:
  assumes "pc_step env rset req c = c'" "\<not> pc_is_done (fst c')" "pc_wf rset req (fst c)"
  shows "pc_wf rset req (fst c') \<and> pc_measure clk rset req c' < pc_measure clk rset req c"
proof -
  obtain st w where c: "c = (st, w)" by (cases c)
  obtain st' w' where c': "c' = (st', w')" by (cases c')
  show ?thesis
  proof (cases "pc_pc st")
    case PC_Top
    with assms pc_top_progress [of rset req st w st' w'] show ?thesis by (simp add: c c' pc_step_def)
  next
    case (PC_Observe pending unbound starts ro rb)
    with assms pc_observe_progress [of rset req pending unbound starts ro rb st w st' w'] show ?thesis
      by (simp add: c c' pc_step_def)
  next
    case (PC_Bind rb)
    with assms pc_bind_progress [of rset req rb st w st' w'] show ?thesis by (simp add: c c' pc_step_def)
  next
    case (PC_Done r)
    with assms show ?thesis by (auto simp: c c' pc_step_def pc_is_done_def)
  qed
qed

lemma pc_run_done: "pc_is_done (fst c) \<Longrightarrow> pc_run env rset req n c = c"
proof (induction n)
  case (Suc n)
  then have "pc_step env rset req c = c" by (auto simp: pc_step_def pc_is_done_def split: prod.splits)
  with Suc show ?case by simp
qed simp

lemma pc_run_finishes:
  "pc_wf rset req (fst c) \<Longrightarrow> pc_measure clk rset req c < n \<Longrightarrow> pc_is_done (fst (pc_run env rset req n c))"
proof (induction n arbitrary: c)
  case (Suc n)
  show ?case
  proof (cases "pc_is_done (fst (pc_step env rset req c))")
    case True
    then show ?thesis by (simp add: pc_run_done)
  next
    case False
    from pc_step_progress [OF refl False Suc.prems(1)] Suc show ?thesis by simp
  qed
qed simp

theorem run_poll_cycle_returns:
  assumes "4 * arm_count rset + nat (ts_instant (pc_earliest_deadline req) - clk w) + 2 \<le> fuel"
  shows "\<exists>r w'. run_poll_cycle env rset req fuel w = (Some r, w')"
proof (cases "pc_resolve rset req")
  case (Inr u)
  let ?n = "arm_count rset"
  have none: "slot_at (map (\<lambda>_. None) (rs_registrations rset)) i = None" for i
    by (simp add: slot_at_def)
  have c: "card {i. i < ?n} = ?n" by simp
  have "pc_wf rset req (pc_init rset req)"
    by (simp add: pc_wf_def pc_init_def arm_count_def none)
  moreover have "pc_measure clk rset req (pc_init rset req, w) < fuel"
    using assms c by (simp add: pc_measure_def pc_init_def pc_left_def unvisited_def unbound_count_def pc_time_def none)
  ultimately have "pc_is_done (fst (pc_run env rset req fuel (pc_init rset req, w)))"
    by (intro pc_run_finishes) simp_all
  with Inr show ?thesis
    by (auto simp: run_poll_cycle_def pc_is_done_def split: prod.splits)
qed (simp add: run_poll_cycle_def)

end

end
