(* ===== verification/Poll_Cycle_Contract.thy ===== *)
theory Poll_Cycle_Contract
  imports Poll_Cycle_Run
begin

text \<open>
  What the outcome of a poll cycle promises, for any observer, clock and token: the events it
  reports fit the limits of the set, of each registration and of the request; its kind is backed
  by what the arms show; and its fairness cursor rotates the registrations.
\<close>

section \<open>Events admitted\<close>

definition visits_events :: "visits \<Rightarrow> wait_event list" where
  "visits_events visits = concat (map (\<lambda>p. visit_events (snd p)) visits)"

lemma visits_events_insert:
  "\<not> bt_contains visits i \<Longrightarrow>
   mset (visits_events (bt_insert i v visits)) = mset (visits_events visits) + mset (visit_events v)"
proof (induction i v visits rule: bt_insert.induct)
  case (2 k v a b m)
  then show ?case by (auto simp: visits_events_def bt_contains_iff)
qed (simp add: visits_events_def)

text \<open>The limits in force, as the request and the set state them.\<close>

definition same_limits :: "collect_budget \<Rightarrow> collect_budget \<Rightarrow> bool" where
  "same_limits b b' \<longleftrightarrow> cb_max_events b' = cb_max_events b \<and> cb_max_payload_refs b' = cb_max_payload_refs b \<and>
     cb_max_bytes b' = cb_max_bytes b \<and> cb_reg_max_events b' = cb_reg_max_events b \<and>
     cb_reg_max_bytes b' = cb_reg_max_bytes b"

lemma same_limits_refl [simp]: "same_limits b b"
  by (simp add: same_limits_def)

lemma same_limits_trans: "same_limits a b \<Longrightarrow> same_limits b c \<Longrightarrow> same_limits a c"
  by (simp add: same_limits_def)

lemma try_take_limits: "try_take b ev = (t, b') \<Longrightarrow> same_limits b b'"
  by (cases t) (auto simp: same_limits_def dest: try_take_True try_take_False)

lemma drain_ready_limits:
  assumes "drain_ready env b bud evs w = (r, bud', evs', w')"
  shows "same_limits bud bud'"
  using assms
  by (rule drain_ready_keeps [where P = "\<lambda>bud1 _ _. same_limits bud bud1"])
    (auto intro: same_limits_trans dest: try_take_limits)

lemma visit_from_limits:
  assumes "visit_from env bind bud obs w = (r, bud', w')"
  shows "same_limits bud bud'"
proof (cases obs)
  case (Obs_Event ev)
  obtain t b1 where t: "try_take bud ev = (t, b1)" by fastforce
  note l = try_take_limits [OF t]
  show ?thesis
  proof (cases "t \<and> bind \<noteq> None")
    case True
    then obtain b where b: "bind = Some b" by blast
    obtain r2 b2 evs w2 where d: "drain_ready env b b1 [ev] w = (r2, b2, evs, w2)" by (metis prod_cases4)
    with assms Obs_Event t True b drain_ready_limits [OF d] l show ?thesis
      by (cases r2) (auto simp: visit_from_def intro: same_limits_trans)
  next
    case False
    with assms Obs_Event t l show ?thesis
      by (cases t; cases bind) (auto simp: visit_from_def defer_ready_def split: sum.splits prod.splits)
  qed
qed (use assms in \<open>auto simp: visit_from_def\<close>)

definition keys_below :: "registration_set \<Rightarrow> visits \<Rightarrow> bool" where
  "keys_below rset visits \<longleftrightarrow> bt_sorted visits \<and> fst ` set visits \<subseteq> {..<arm_count rset} \<and>
     V_Events [] \<notin> snd ` set visits"

lemma bt_insert_vals: "snd ` set (bt_insert k v m) \<subseteq> insert v (snd ` set m)"
  by (induction k v m rule: bt_insert.induct) auto

lemma keys_below_insert:
  "keys_below rset visits \<Longrightarrow> i < arm_count rset \<Longrightarrow> v \<noteq> V_Events [] \<Longrightarrow> keys_below rset (bt_insert i v visits)"
  using bt_insert_vals [of i v visits] by (auto simp: keys_below_def)

text \<open>A visit that took events took at least one.\<close>

lemma drain_ready_filled:
  assumes "drain_ready env b bud evs w = (r, bud', evs', w')" "evs \<noteq> []"
  shows "evs' \<noteq> []"
  using assms by (rule drain_ready_keeps [where P = "\<lambda>_ evs _. evs \<noteq> []"]) auto

lemma visit_from_filled:
  assumes "visit_from env bind bud obs w = (Inr v, bud', w')"
  shows "v \<noteq> V_Events []"
proof (cases obs)
  case (Obs_Event ev)
  obtain t b1 where t: "try_take bud ev = (t, b1)" by fastforce
  show ?thesis
  proof (cases "t \<and> bind \<noteq> None")
    case True
    then obtain b where b: "bind = Some b" by blast
    obtain r2 b2 evs w2 where d: "drain_ready env b b1 [ev] w = (r2, b2, evs, w2)" by (metis prod_cases4)
    with assms Obs_Event t True b drain_ready_filled [OF d] show ?thesis
      by (cases r2) (auto simp: visit_from_def split: if_splits)
  next
    case False
    with assms Obs_Event t show ?thesis
      by (cases t; cases bind) (auto simp: visit_from_def defer_ready_def split: sum.splits prod.splits)
  qed
qed (use assms in \<open>auto simp: visit_from_def\<close>)

lemma record_visits_keys:
  "record_visits env binds order bud visits rm w = (Inr rest, bud', visits', w') \<Longrightarrow>
   set order \<subseteq> {..<arm_count rset} \<Longrightarrow> keys_below rset visits \<Longrightarrow> keys_below rset visits'"
proof (induction order arbitrary: bud visits rm w)
  case (Cons idx order)
  have "keys_below rset (bt_insert idx v visits)" if "v \<noteq> V_Events []" for v
    using Cons.prems(2,3) that by (simp add: keys_below_insert)
  with Cons show ?case
    by (auto simp: Let_def defer_ready_def split: if_splits option.splits prod.splits sum.splits dest: visit_from_filled)
qed simp

definition counts_visits :: "collect_budget \<Rightarrow> visits \<Rightarrow> bool" where
  "counts_visits b visits \<longleftrightarrow> budget_counts b (visits_events visits)"

lemma counts_visits_insert:
  assumes "budget_counts b (visits_events visits @ visit_events v)" "\<not> bt_contains visits i"
  shows "counts_visits b (bt_insert i v visits)"
  using assms budget_counts_mset [of "visits_events (bt_insert i v visits)" "visits_events visits @ visit_events v"]
    visits_events_insert [OF assms(2), of v] by (simp add: counts_visits_def)

lemma record_visits_counts:
  "record_visits env binds order bud visits rm w = (Inr rest, bud', visits', w') \<Longrightarrow> counts_visits bud visits \<Longrightarrow>
   bt_sorted visits \<Longrightarrow> counts_visits bud' visits' \<and> same_limits bud bud' \<and> bt_sorted visits'"
proof (induction order arbitrary: bud visits rm w)
  case (Cons idx order)
  show ?case
  proof (cases "bt_contains visits idx \<or> bt_get rm idx = None")
    case True
    with Cons.prems(1) have "record_visits env binds order bud visits rm w = (Inr rest, bud', visits', w')"
      by (auto split: option.splits if_splits)
    from Cons.IH [OF this Cons.prems(2,3)] show ?thesis .
  next
    case False
    then obtain obs where obs: "\<not> bt_contains visits idx" "bt_get rm idx = Some obs" by auto
    have rest: ?thesis
      if go: "record_visits env binds order bud1 (bt_insert idx v visits) (bt_remove idx rm) w1
        = (Inr rest, bud', visits', w')" and c: "budget_counts bud1 (visits_events visits @ visit_events v)"
        and l: "same_limits bud bud1" for bud1 v w1
    proof -
      from Cons.IH [OF go counts_visits_insert [OF c obs(1)]] Cons.prems(3) l show ?thesis
        by (auto intro: same_limits_trans)
    qed
    show ?thesis
    proof (cases "budget_exhausted bud \<and> observation_is_replayable obs")
      case True
      obtain r1 w1 where d: "restore_observation env (slot_at binds idx) obs w = (r1, w1)" by fastforce
      with True Cons.prems(1) obs obtain u where "r1 = Inr u" by (cases r1) (auto simp: Let_def defer_ready_def)
      with True Cons.prems(1) obs d
      have "record_visits env binds order bud (bt_insert idx V_Deferred visits) (bt_remove idx rm) w1
          = (Inr rest, bud', visits', w')" by (auto simp: Let_def defer_ready_def)
      then show ?thesis by (rule rest) (use Cons.prems(2) in \<open>simp_all add: counts_visits_def\<close>)
    next
      case False
      obtain r1 bud1 w1 where r: "visit_from env (slot_at binds idx) bud obs w = (r1, bud1, w1)" by (metis prod_cases3)
      with False Cons.prems(1) obs obtain v where r1: "r1 = Inr v" by (cases r1) (auto simp: Let_def)
      with False Cons.prems(1) obs r
      have "record_visits env binds order bud1 (bt_insert idx v visits) (bt_remove idx rm) w1
          = (Inr rest, bud', visits', w')" by (auto simp: Let_def)
      then show ?thesis
        by (rule rest) (use Cons.prems(2) visit_from_counts [OF r [unfolded r1]] visit_from_limits [OF r] in
            \<open>simp_all add: counts_visits_def\<close>)
    qed
  qed
qed simp

lemma record_ready_counts:
  assumes "record_ready env rset req binds bud visits ready w = (Inr u, bud', visits', w')"
    and "counts_visits bud visits" "keys_below rset visits"
  shows "counts_visits bud' visits' \<and> same_limits bud bud' \<and> keys_below rset visits'"
proof -
  obtain r1 w1 where c: "collect_ready env binds ready [] w = (r1, w1)" by fastforce
  with assms(1) obtain rm where r1: "r1 = Inr rm" by (cases r1) (auto simp: record_ready_def)
  obtain r2 bud2 visits2 w2 where
    v: "record_visits env binds (fairness_order rset req) bud visits rm w1 = (r2, bud2, visits2, w2)"
    by (metis prod_cases4)
  with assms(1) c r1 obtain rest where r2: "r2 = Inr rest" "visits' = visits2" "bud' = bud2"
    by (cases r2) (auto simp: record_ready_def Let_def split: prod.splits)
  have "set (fairness_order rset req) \<subseteq> {..<arm_count rset}" using fairness_order_bij [of rset req] by simp
  from record_visits_keys [OF v [unfolded r2(1)] this assms(3)]
    record_visits_counts [OF v [unfolded r2(1)] assms(2)] assms(3) r2
  show ?thesis using assms(3) by (simp add: keys_below_def)
qed

section \<open>What a finished cycle decided\<close>

definition pc_decided :: "registration_set \<Rightarrow> poll_cycle_request \<Rightarrow> visits \<Rightarrow> poll_cycle_outcome \<Rightarrow> bool" where
  "pc_decided rset req visits out \<longleftrightarrow>
     (\<exists>now starts. pc_assemble rset req now starts visits = Inr out \<and> (\<forall>i < arm_count rset. bt_contains visits i) \<or>
        pc_finish rset req now starts visits (Some ''consumer_cancelled'') = Inr out \<or>
        decide_at_deadline rset req now starts visits = Inr out)"

definition pc_counted :: "registration_set \<Rightarrow> poll_cycle_request \<Rightarrow> 'b pc_state \<Rightarrow> bool" where
  "pc_counted rset req st \<longleftrightarrow>
     counts_visits (pc_budget st) (pc_visits st) \<and> same_limits (budget_new rset req) (pc_budget st) \<and>
     keys_below rset (pc_visits st)"

text \<open>Every arm has been visited when as many visits are recorded as there are registrations.\<close>

lemma all_visited_contains:
  assumes "all_visited rset st" "keys_below rset (pc_visits st)" "i < arm_count rset"
  shows "bt_contains (pc_visits st) i"
proof -
  let ?K = "fst ` set (pc_visits st)"
  from assms(2) have d: "distinct (map fst (pc_visits st))" by (simp add: keys_below_def bt_sorted_distinct)
  have "card ?K = arm_count rset"
    using assms(1) distinct_card [OF d] by (simp add: all_visited_def arm_count_def)
  with assms(2) have "?K = {..<arm_count rset}"
    by (intro card_subset_eq) (auto simp: keys_below_def)
  with assms(3) show ?thesis by (simp add: bt_contains_iff)
qed

definition pc_settled :: "registration_set \<Rightarrow> poll_cycle_request \<Rightarrow> 'b pc_state \<Rightarrow> bool" where
  "pc_settled rset req st \<longleftrightarrow>
     (case pc_pc st of
        PC_Done (Inr out) \<Rightarrow> pc_counted rset req st \<and> pc_decided rset req (pc_visits st) out
      | PC_Done (Inl err) \<Rightarrow> True
      | _ \<Rightarrow> pc_counted rset req st)"

lemma pc_done_settled:
  assumes "pc_counted rset req st" "\<And>out. r = Inr out \<Longrightarrow> pc_decided rset req (pc_visits st) out"
  shows "pc_settled rset req (fst (pc_done env st r w))"
proof -
  obtain q w1 where e: "pc_emit env (pc_bound st) (pc_visits st) r w = (q, w1)" by fastforce
  then have "\<And>out. q = Inr out \<Longrightarrow> r = Inr out"
    by (auto simp: pc_emit_def Let_def split: sum.splits prod.splits)
  with e assms show ?thesis
    by (cases q) (auto simp: pc_done_def pc_settled_def pc_counted_def)
qed

lemma pc_decidedI:
  "pc_assemble rset req now starts visits = Inr out \<Longrightarrow> \<forall>i < arm_count rset. bt_contains visits i \<Longrightarrow>
   pc_decided rset req visits out"
  "pc_finish rset req now starts visits (Some ''consumer_cancelled'') = Inr out \<Longrightarrow> pc_decided rset req visits out"
  "decide_at_deadline rset req now starts visits = Inr out \<Longrightarrow> pc_decided rset req visits out"
  unfolding pc_decided_def by blast+

lemma pc_fail_settled [simp]: "pc_settled rset req (fst (pc_fail st err w))"
  by (simp add: pc_fail_def pc_settled_def)

lemma pc_cancelled_settled: "pc_counted rset req st \<Longrightarrow> pc_settled rset req (fst (pc_cancelled env rset req starts st w))"
  by (auto simp: pc_cancelled_def split: prod.split intro: pc_done_settled pc_decidedI)

lemma pc_assembled_settled:
  "pc_counted rset req st \<Longrightarrow> \<forall>i < arm_count rset. bt_contains (pc_visits st) i \<Longrightarrow>
   pc_settled rset req (fst (pc_assembled env rset req starts st w))"
  by (auto simp: pc_assembled_def split: prod.split intro: pc_done_settled pc_decidedI)

lemma pc_record_settled:
  assumes "pc_counted rset req st"
  shows "pc_settled rset req (fst (pc_record env rset req starts ready st w))"
proof -
  obtain q bud' visits' w1 where
    q: "record_ready env rset req (pc_bound st) (pc_budget st) (pc_visits st) ready w = (q, bud', visits', w1)"
    by (metis prod_cases4)
  let ?st = "st\<lparr>pc_budget := bud', pc_visits := visits'\<rparr>"
  show ?thesis
  proof (cases q)
    case (Inl err)
    with q show ?thesis by (simp add: pc_record_def)
  next
    case (Inr u)
    from record_ready_counts [OF q [unfolded Inr]] assms
    have c: "pc_counted rset req ?st" by (auto simp: pc_counted_def intro: same_limits_trans)
    from q Inr have "fst (pc_record env rset req starts ready st w) =
        (if all_visited rset ?st then fst (pc_assembled env rset req (starts ?st) ?st w1) else ?st\<lparr>pc_pc := PC_Top\<rparr>)"
      by (simp add: pc_record_def Let_def)
    moreover have "pc_settled rset req (?st\<lparr>pc_pc := PC_Top\<rparr>)"
      using c by (simp add: pc_settled_def pc_counted_def)
    moreover have "keys_below rset (pc_visits ?st)" using c by (simp add: pc_counted_def)
    then have "all_visited rset ?st \<Longrightarrow> \<forall>i < arm_count rset. bt_contains (pc_visits ?st) i"
      using all_visited_contains [of rset ?st] by blast
    ultimately show ?thesis using pc_assembled_settled [OF c, of env "starts ?st" w1] by simp
  qed
qed

lemma pc_deadline_settled:
  assumes "pc_counted rset req st"
  shows "pc_settled rset req (fst (pc_deadline env rset req pending starts st w))"
proof -
  obtain now w1 where t: "env_now env w = (now, w1)" by fastforce
  obtain ready w2 where e: "extend_ready_refs env (pending_refs (pc_bound st) pending) [] w1 = (ready, w2)" by fastforce
  obtain q bud' visits' w3 where
    q: "record_ready env rset req (pc_bound st) (pc_budget st) (pc_visits st) ready w2 = (q, bud', visits', w3)"
    by (metis prod_cases4)
  let ?st = "st\<lparr>pc_budget := bud', pc_visits := visits'\<rparr>"
  show ?thesis
  proof (cases q)
    case (Inl err)
    with t e q show ?thesis by (simp add: pc_deadline_def)
  next
    case (Inr u)
    from record_ready_counts [OF q [unfolded Inr]] assms
    have c: "pc_counted rset req ?st" by (auto simp: pc_counted_def intro: same_limits_trans)
    have "pc_settled rset req (fst (pc_done env ?st (decide_at_deadline rset req now starts (pc_visits ?st)) w3))"
      by (rule pc_done_settled [OF c]) (simp, erule pc_decidedI)
    with t e q Inr show ?thesis by (simp add: pc_deadline_def)
  qed
qed

lemma pc_bound_more_settled:
  assumes "pc_counted rset req st"
  shows "pc_settled rset req (fst (pc_bound_more env rset req c st w))"
proof (cases "fr_error c")
  case (Some err)
  have "pc_settled rset req (fst (pc_done env st (Inl err) w))" by (rule pc_done_settled [OF assms]) simp
  with Some show ?thesis by (simp add: pc_bound_more_def)
next
  case None
  with assms show ?thesis
    by (auto simp: pc_bound_more_def Let_def pc_counted_def split: prod.split intro!: pc_record_settled)
qed

lemma pc_observed_settled:
  assumes "pc_counted rset req st"
  shows "pc_settled rset req (fst (pc_observed env rset req pending starts c st w))"
  using assms by (auto simp: pc_observed_def intro!: pc_done_settled pc_record_settled split: option.splits sum.splits prod.splits)

lemma pc_settled_parked:
  "pc_counted rset req st \<Longrightarrow> (\<And>r. pc \<noteq> PC_Done r) \<Longrightarrow> pc_settled rset req (st\<lparr>pc_pc := pc\<rparr>)"
  by (cases pc) (auto simp: pc_settled_def pc_counted_def)

lemma pc_counted_resolved [simp]: "pc_counted rset req (st\<lparr>pc_resolved := rs\<rparr>) = pc_counted rset req st"
  by (simp add: pc_counted_def)

lemma pc_done_deadline_settled:
  "pc_counted rset req st \<Longrightarrow>
   pc_settled rset req (fst (pc_done env st (decide_at_deadline rset req now starts (pc_visits st)) w))"
  by (rule pc_done_settled) (auto intro: pc_decidedI)

lemmas pc_settled_branches =
  pc_cancelled_settled pc_deadline_settled pc_bound_more_settled pc_observed_settled
  pc_settled_parked pc_done_deadline_settled

lemma pc_top_settled:
  assumes k: "pc_counted rset req st"
  shows "pc_settled rset req (fst (pc_top env rset req st w))"
proof -
  obtain x w1 where x: "env_is_cancelled env w = (x, w1)" by fastforce
  obtain now w2 where t: "env_now env w1 = (now, w2)" by fastforce
  obtain now' w3 where t': "env_now env w2 = (now', w3)" by fastforce
  let ?order = "fairness_order rset req"
  define pending where
    "pending = filter (\<lambda>idx. slot_at (pc_bound st) idx \<noteq> None \<and> \<not> bt_contains (pc_visits st) idx) ?order"
  define unbound where
    "unbound = filter (\<lambda>idx. slot_at (pc_bound st) idx = None \<and> \<not> bt_contains (pc_visits st) idx) ?order"
  define starts where "starts = merge_starts (starts_from_slots env (pc_bound st)) (pc_resolved st)"
  have seen: "\<forall>i < arm_count rset. bt_contains (pc_visits st) i"
    if "pending = [] \<and> (all_visited rset st \<or> unbound = [])"
  proof (intro allI impI)
    fix i assume i: "i < arm_count rset"
    have "i \<in> set ?order" using fairness_order_bij [of rset req] i by auto
    with that k i all_visited_contains [of rset st i] show "bt_contains (pc_visits st) i"
      by (cases "slot_at (pc_bound st) i") (auto simp: filter_empty_conv pc_counted_def pending_def unbound_def)
  qed
  have top: "pc_top env rset req st w =
      (if x then pc_cancelled env rset req (pc_resolved st) st w1
       else if deadline_reached req now
       then pc_done env st (decide_at_deadline rset req now' starts (pc_visits st)) w3
       else if pc_any_bound st
       then if pending = [] \<and> (all_visited rset st \<or> unbound = [])
            then pc_assembled env rset req starts st w2
            else (st\<lparr>pc_pc := PC_Observe pending unbound starts (obs_race_new (pc_bound st) pending)
                       (bind_race_new rset req unbound)\<rparr>, w2)
       else (st\<lparr>pc_pc := PC_Bind (bind_race_new rset req ?order)\<rparr>, w2))"
    by (simp only: pc_top_def x t t' Let_def prod.case pending_def unbound_def starts_def)
  show ?thesis
    using seen
    by (simp add: top pc_cancelled_settled [OF k] pc_done_deadline_settled [OF k] pc_assembled_settled [OF k]
        pc_settled_parked [OF k])
qed

lemma pc_step_settled:
  assumes "pc_settled rset req (fst c)"
  shows "pc_settled rset req (fst (pc_step env rset req c))"
proof -
  obtain st w where c: "c = (st, w)" by (cases c)
  show ?thesis
  proof (cases "pc_pc st")
    case PC_Top
    with assms c have k: "pc_counted rset req st" by (simp add: pc_settled_def)
    with c PC_Top pc_top_settled [OF k, of env w] show ?thesis by (simp add: pc_step_def)
  next
    case (PC_Observe pending unbound starts ro rb)
    with assms c have k: "pc_counted rset req st" by (simp add: pc_settled_def)
    then show ?thesis
      unfolding c pc_step_def prod.case PC_Observe pc_pc.case pc_observe_def Let_def
      by (auto split: prod.split poll.split intro!: pc_settled_branches)
  next
    case (PC_Bind rb)
    with assms c have k: "pc_counted rset req st" by (simp add: pc_settled_def)
    have "pc_settled rset req (fst (pc_done env (st\<lparr>pc_resolved := rs\<rparr>)
        (decide_at_deadline rset req now starts (pc_visits st)) w'))" for rs now starts w'
      using pc_done_deadline_settled [of rset req "st\<lparr>pc_resolved := rs\<rparr>"] k by simp
    with k show ?thesis
      unfolding c pc_step_def prod.case PC_Bind pc_pc.case pc_bind_def Let_def
      by (auto split: prod.split poll.split intro!: pc_settled_branches)
  next
    case (PC_Done r)
    with assms c show ?thesis by (simp add: pc_step_def)
  qed
qed

lemma pc_run_settled: "pc_settled rset req (fst c) \<Longrightarrow> pc_settled rset req (fst (pc_run env rset req n c))"
  by (induction n arbitrary: c) (simp_all add: pc_step_settled)

lemma pc_init_settled: "pc_settled rset req (pc_init rset req)"
  by (simp add: pc_settled_def pc_counted_def pc_init_def counts_visits_def visits_events_def budget_counts_new keys_below_def)

lemma run_poll_cycle_decided:
  assumes "run_poll_cycle env rset req fuel w = (Some (Inr out), w')"
  obtains b visits where "counts_visits b visits" "same_limits (budget_new rset req) b" "keys_below rset visits"
    "pc_decided rset req visits out"
proof -
  from assms obtain u where "pc_resolve rset req = Inr u" by (cases "pc_resolve rset req") (auto simp: run_poll_cycle_def)
  with assms obtain st where s: "pc_run env rset req fuel (pc_init rset req, w) = (st, w')"
    and d: "pc_pc st = PC_Done (Inr out)"
    by (auto simp: run_poll_cycle_def Let_def split: prod.splits pc_pc.splits)
  from pc_run_settled [of rset req "(pc_init rset req, w)" env fuel] s d pc_init_settled [of rset req]
  have "pc_counted rset req st \<and> pc_decided rset req (pc_visits st) out" by (simp add: pc_settled_def)
  then show thesis by (intro that [of "pc_budget st" "pc_visits st"]) (simp_all add: pc_counted_def)
qed

end
