(* ===== verification/Poll_Outcome_Contract.thy ===== *)
theory Poll_Outcome_Contract
  imports Poll_Cycle_Contract
begin

text \<open>
  The contract of a poll-cycle outcome: the limits its events fit, the coverage and the retention
  its kind stands for, and the rotation of the fairness cursor.
\<close>

section \<open>The events of an outcome are admitted events\<close>

lemma visit_held_Cons:
  "visit_held ((k, v) # m) i = (if i = k then visit_events v else visit_held m i)"
  by (simp add: visit_held_def bt_get_def)

lemma visit_held_mset:
  "distinct is \<Longrightarrow> distinct (map fst m) \<Longrightarrow>
   mset (concat (map (visit_held m) is)) \<subseteq># mset (visits_events m)"
proof (induction m arbitrary: "is")
  case Nil
  have "visit_held [] = (\<lambda>_. [])" by (rule ext) (simp add: visit_held_def)
  then show ?case by (induction "is") auto
next
  case (Cons p m)
  obtain k v where p: "p = (k, v)" by (cases p)
  from Cons.prems p have k: "k \<notin> fst ` set m" by simp
  then have none: "visit_held m k = []"
    by (simp add: visit_held_def bt_get_def map_of_eq_None_iff [THEN iffD2])
  have "mset (concat (map (visit_held (p # m)) js)) \<subseteq>#
      mset (concat (map (visit_held m) js)) + (if k \<in> set js then mset (visit_events v) else {#})"
    if "distinct js" for js
    using that none by (induction js) (auto simp: p visit_held_Cons subset_mset.add_mono ac_simps)
  from this [OF Cons.prems(1)] Cons.IH [OF Cons.prems(1)] Cons.prems p show ?case
    by (auto simp: visits_events_def ac_simps elim!: subset_mset.order_trans intro: subset_mset.add_mono split: if_splits)
qed

lemma visit_status_events [simp]:
  "snd (snd (snd (visit_status v))) = (case v of Some u \<Rightarrow> visit_events u | None \<Rightarrow> [])"
  by (cases v rule: visit_status.cases) auto

lemma build_row_simps [simp]:
  "row_events (build_row reg arm start v kind) = (if bears_events kind then (case v of Some u \<Rightarrow> visit_events u | None \<Rightarrow> []) else [])"
  "arm_registration_id (row_arm (build_row reg arm start v kind)) = reg_id reg"
  "arm_id (row_arm (build_row reg arm start v kind)) = arm"
  "arm_start_anchor (row_arm (build_row reg arm start v kind)) = start"
  "arm_required (row_arm (build_row reg arm start v kind)) = reg_required reg"
  "arm_stat (row_arm (build_row reg arm start v kind)) = fst (visit_status v)"
  "arm_degraded (row_arm (build_row reg arm start v kind)) = fst (snd (visit_status v))"
  "arm_event_count (row_arm (build_row reg arm start v kind)) =
     of_nat (length (case v of Some u \<Rightarrow> visit_events u | None \<Rightarrow> []))"
  by (auto simp: build_row_def Let_def visit_status_events [of v, symmetric] simp del: visit_status_events split: prod.splits)

lemma build_rows_events:
  "mset (concat (map row_events (build_rows req starts visits kind k ri regs)))
     \<subseteq># mset (concat (map (visit_held visits) [k..<k + length regs]))"
proof (induction regs arbitrary: k ri)
  case (Cons reg regs)
  obtain a ri' where a: "poll_arm_id req reg ri = (a, ri')" by fastforce
  have upt: "[k..<k + length (reg # regs)] = k # [Suc k..<Suc k + length regs]"
    by (simp add: upt_conv_Cons del: upt_Suc)
  have "mset (concat (map row_events (build_rows req starts visits kind k ri (reg # regs)))) \<subseteq>#
      mset (visit_held visits k) + mset (concat (map row_events (build_rows req starts visits kind (Suc k) ri' regs)))"
    by (auto simp: a visit_held_def split: option.split)
  also have "\<dots> \<subseteq># mset (visit_held visits k) + mset (concat (map (visit_held visits) [Suc k..<Suc k + length regs]))"
    using Cons.IH [of "Suc k" ri'] by (simp add: subset_mset.add_left_mono)
  finally show ?case by (simp only: upt list.map concat.simps mset_append)
qed simp

lemma pc_build_events:
  assumes "pc_build rset req now starts visits kind reason = Inr out" "distinct (map fst visits)"
  shows "mset (po_events out) \<subseteq># mset (visits_events visits)"
proof -
  let ?rows = "build_rows req starts visits kind 0 0 (rs_registrations rset)"
  have "mset (concat (map row_events ?rows)) \<subseteq># mset (visits_events visits)"
    using build_rows_events [of req starts visits kind 0 0 "rs_registrations rset"]
      visit_held_mset [OF _ assms(2), of "[0..<length (rs_registrations rset)]"]
    by (auto elim!: subset_mset.order_trans)
  with assms(1) show ?thesis by (auto simp: pc_build_def Let_def split: if_splits)
qed

lemma apply_posture_events: "mset (po_events (apply_posture rset req out)) \<subseteq># mset (po_events out)"
  by (simp add: apply_posture_def rebuild_reason_def Let_def)

lemma fill_visits_inv:
  "visit_events v = [] \<Longrightarrow> v \<noteq> V_Events [] \<Longrightarrow> keys_below rset visits \<Longrightarrow> set idxs \<subseteq> {..<arm_count rset} \<Longrightarrow>
   keys_below rset (fill_visits v idxs visits) \<and>
   mset (visits_events (fill_visits v idxs visits)) = mset (visits_events visits) \<and>
   (\<forall>i. bt_contains visits i \<or> i \<in> set idxs \<longrightarrow> bt_contains (fill_visits v idxs visits) i)"
proof (induction idxs arbitrary: visits)
  case (Cons i idxs)
  let ?v = "if bt_contains visits i then visits else bt_insert i v visits"
  have "keys_below rset ?v" "mset (visits_events ?v) = mset (visits_events visits)"
    using Cons.prems visits_events_insert [of visits i v] by (auto simp: keys_below_insert)
  with Cons.IH [of ?v] Cons.prems show ?case by auto
qed simp

lemma fill_visits_get:
  "bt_get (fill_visits v idxs visits) i =
     (case bt_get visits i of Some u \<Rightarrow> Some u | None \<Rightarrow> if i \<in> set idxs then Some v else None)"
  by (induction idxs arbitrary: visits) (auto simp: bt_contains_def split: option.split)

lemma decide_kind_build:
  "decide_kind rset req now starts visits =
     pc_build rset req now starts visits (fst (choose_kind req now (scan_cycle rset req visits)))
       (snd (choose_kind req now (scan_cycle rset req visits)))"
  by (simp add: decide_kind_def split: prod.split)

text \<open>Every outcome is built from visits that hold the admitted events.\<close>

lemma pc_decided_build:
  assumes d: "pc_decided rset req visits out" and k: "keys_below rset visits"
  obtains now starts visits' kind reason out' where
    "pc_build rset req now starts visits' kind reason = Inr out'" "out = apply_posture rset req out'"
    "keys_below rset visits'" "mset (visits_events visits') = mset (visits_events visits)"
    "(kind = Cancelled \<or> kind = Failed) \<and> reason \<noteq> None \<or>
     (kind, reason) = choose_kind req now (scan_cycle rset req visits') \<and> (\<forall>i < arm_count rset. bt_contains visits' i)"
proof -
  note built = that
  have by_kind: thesis
    if a: "pc_assemble rset req now starts v' = Inr out" and kv: "keys_below rset v'"
      and m: "mset (visits_events v') = mset (visits_events visits)" and all: "\<forall>i < arm_count rset. bt_contains v' i"
    for now starts v'
  proof -
    from a obtain out' where "decide_kind rset req now starts v' = Inr out'" "out = apply_posture rset req out'"
      by (auto simp: pc_assemble_def split: sum.splits)
    then show thesis using kv m all unfolding decide_kind_build
      by - (rule built, assumption, assumption, assumption, assumption, simp)
  qed
  have by_reason: thesis
    if f: "pc_finish rset req now starts visits (Some r) = Inr out" for now starts r
  proof -
    from f obtain kind out' where "pc_build rset req now starts visits kind (Some r) = Inr out'"
      "out = apply_posture rset req out'" "kind = Cancelled \<or> kind = Failed"
      by (auto simp: pc_finish_def Let_def split: sum.splits)
    then show thesis using k by - (rule built, assumption, assumption, assumption, simp_all)
  qed
  from d consider
      (asm) now starts where "pc_assemble rset req now starts visits = Inr out" "\<forall>i < arm_count rset. bt_contains visits i"
    | (fin) now starts where "pc_finish rset req now starts visits (Some ''consumer_cancelled'') = Inr out"
    | (due) now starts where "decide_at_deadline rset req now starts visits = Inr out"
    by (auto simp: pc_decided_def)
  then show thesis
  proof cases
    case asm
    then show thesis using k by (intro by_kind) simp_all
  next
    case fin
    then show thesis by (rule by_reason)
  next
    case due
    show thesis
    proof (cases "pc_required_binding_complete rset starts")
      case False
      with due have "pc_finish rset req now starts visits (Some ''required_bind_pending'') = Inr out"
        by (simp add: decide_at_deadline_def)
      then show thesis by (rule by_reason)
    next
      case True
      define v where "v = (if list_ex (\<lambda>(_, visit). visit_events visit \<noteq> []) visits then V_Deferred else V_Idle)"
      have v: "visit_events v = []" "v \<noteq> V_Events []" by (simp_all add: v_def)
      from due True have "pc_assemble rset req now starts (fill_visits v (fairness_order rset req) visits) = Inr out"
        by (simp add: decide_at_deadline_def Let_def v_def)
      from by_kind [OF this] fill_visits_inv [OF v(1,2) k, of "fairness_order rset req"] fairness_order_bij [of rset req]
      show thesis by simp
    qed
  qed
qed

section \<open>Limits\<close>

definition within_limits :: "registration_set \<Rightarrow> poll_cycle_request \<Rightarrow> wait_event list \<Rightarrow> bool" where
  "within_limits rset req evs \<longleftrightarrow>
     length evs \<le> unat (wb_max_events (rs_aggregate_limits rset)) \<and>
     length evs \<le> unat (bound_or_max (pr_bound req) pb_max_events) \<and>
     length evs \<le> unat (bound_or_max (pr_bound req) pb_max_payload_refs) \<and>
     (wb_max_bytes (rs_aggregate_limits rset) \<noteq> u64_max \<longrightarrow>
        weight_of evs \<le> unat (wb_max_bytes (rs_aggregate_limits rset))) \<and>
     (bound_or_max (pr_bound req) pb_max_bytes \<noteq> u64_max \<longrightarrow>
        weight_of evs \<le> unat (bound_or_max (pr_bound req) pb_max_bytes)) \<and>
     (\<forall>reg \<in> set (rs_registrations rset).
        length (of_reg (id_str (reg_id reg)) evs) \<le> unat (wb_max_events (reg_bounds reg)) \<and>
        (wb_max_bytes (reg_bounds reg) \<noteq> u64_max \<longrightarrow>
           weight_of (of_reg (id_str (reg_id reg)) evs) \<le> unat (wb_max_bytes (reg_bounds reg))))"

lemma subset_limits:
  assumes "mset evs \<subseteq># mset evs'"
  shows "length evs \<le> length evs'" "weight_of evs \<le> weight_of evs'"
    "length (of_reg rid evs) \<le> length (of_reg rid evs')" "weight_of (of_reg rid evs) \<le> weight_of (of_reg rid evs')"
proof -
  have weigh: "weight_of a \<le> weight_of b" if "mset a \<subseteq># mset b" for a b
  proof -
    from that obtain c where "mset b = mset a + c" by (auto simp: subset_mset.le_iff_add)
    moreover have "weight_of e = sum_mset (image_mset (\<lambda>ev. unat (event_surface_bytes ev)) (mset e))" for e
      unfolding weight_of_def by (metis mset_map sum_mset_sum_list)
    ultimately show ?thesis by simp
  qed
  have reg: "mset (of_reg rid evs) \<subseteq># mset (of_reg rid evs')"
    using assms by (simp add: of_reg_def multiset_filter_mono)
  from assms reg show "length evs \<le> length evs'" "length (of_reg rid evs) \<le> length (of_reg rid evs')"
    using size_mset_mono by force+
  from weigh [OF assms] weigh [OF reg] show "weight_of evs \<le> weight_of evs'"
    "weight_of (of_reg rid evs) \<le> weight_of (of_reg rid evs')" .
qed

lemma within_limits_subset:
  assumes "within_limits rset req evs'" "mset evs \<subseteq># mset evs'"
  shows "within_limits rset req evs"
  using assms(1) subset_limits [OF assms(2)] unfolding within_limits_def by (meson order_trans)

lemma collect_own:
  assumes "distinct (map (\<lambda>x. f x) xs)" "x \<in> set xs"
  shows "bt_get (bt_collect (map (\<lambda>x. (f x, g x)) xs)) (f x) = Some (g x)"
proof -
  have "distinct (map fst (rev (map (\<lambda>x. (f x, g x)) xs)))" using assms(1) by (simp add: comp_def rev_map [symmetric])
  then show ?thesis using assms(2) by (simp add: bt_get_collect map_of_is_SomeI)
qed

lemma distinct_reg_strings: "distinct_arms rset \<Longrightarrow> distinct (map (\<lambda>reg. id_str (reg_id reg)) (rs_registrations rset))"
  by (auto simp: distinct_arms_def distinct_map inj_on_def)

lemma budget_within_limits:
  assumes c: "budget_counts b evs" and l: "same_limits (budget_new rset req) b" and d: "distinct_arms rset"
  shows "within_limits rset req evs"
proof -
  note max = l [unfolded same_limits_def budget_new_def, simplified]
  note c = c [unfolded budget_counts_def]
  have bytes: "m \<noteq> u64_max \<longrightarrow> weight_of evs \<le> unat m" if "cb_max_bytes b \<le> m" for m :: u64
  proof
    assume m: "m \<noteq> u64_max"
    have "cb_max_bytes b \<noteq> u64_max"
      using that m unat_le_u64_max [of m] by (metis le_antisym unat_u64_max_iff unat_u64_max word_le_nat_alt)
    with c that show "weight_of evs \<le> unat m" by (meson order_trans word_le_nat_alt)
  qed
  have reg: "length (of_reg (id_str (reg_id reg)) evs) \<le> unat (wb_max_events (reg_bounds reg)) \<and>
      (wb_max_bytes (reg_bounds reg) \<noteq> u64_max \<longrightarrow>
         weight_of (of_reg (id_str (reg_id reg)) evs) \<le> unat (wb_max_bytes (reg_bounds reg)))"
    if r: "reg \<in> set (rs_registrations rset)" for reg
  proof -
    from max have e: "get_or u64_max (cb_reg_max_events b) (id_str (reg_id reg)) = wb_max_events (reg_bounds reg)"
      "get_or u64_max (cb_reg_max_bytes b) (id_str (reg_id reg)) = wb_max_bytes (reg_bounds reg)"
      using collect_own [OF distinct_reg_strings [OF d] r, of "\<lambda>reg. wb_max_events (reg_bounds reg)"]
        collect_own [OF distinct_reg_strings [OF d] r, of "\<lambda>reg. wb_max_bytes (reg_bounds reg)"]
      by (simp_all add: get_or_def)
    show ?thesis using c by (metis e)
  qed
  have "length evs \<le> unat (cb_max_events b)" "length evs \<le> unat (cb_max_payload_refs b)" using c by auto
  then show ?thesis
    using max reg bytes [of "wb_max_bytes (rs_aggregate_limits rset)"] bytes [of "bound_or_max (pr_bound req) pb_max_bytes"]
    by (auto simp: within_limits_def min_def word_le_nat_alt split: if_splits)
qed

theorem run_poll_cycle_limits:
  assumes r: "run_poll_cycle env rset req fuel w = (Some (Inr out), w')" and d: "distinct_arms rset"
  shows "within_limits rset req (po_events out)"
proof -
  from run_poll_cycle_decided [OF r] obtain b visits where b: "counts_visits b visits"
    "same_limits (budget_new rset req) b" "keys_below rset visits" "pc_decided rset req visits out" by metis
  from pc_decided_build [OF b(4,3)] obtain now starts visits' kind reason out' where
    o: "pc_build rset req now starts visits' kind reason = Inr out'" "out = apply_posture rset req out'"
      "keys_below rset visits'" "mset (visits_events visits') = mset (visits_events visits)" by metis
  have "mset (po_events out) \<subseteq># mset (po_events out')" using apply_posture_events o(2) by simp
  also have "\<dots> \<subseteq># mset (visits_events visits')"
    using pc_build_events [OF o(1)] o(3) by (simp add: keys_below_def bt_sorted_distinct)
  finally have "mset (po_events out) \<subseteq># mset (visits_events visits)" by (simp add: o(4))
  with budget_within_limits [OF b(1) [unfolded counts_visits_def] b(2) d] show ?thesis
    by (rule within_limits_subset)
qed

section \<open>What a scan of the visits sees\<close>

definition visit_dirty :: "arm_visit option \<Rightarrow> bool" where
  "visit_dirty v \<longleftrightarrow> (\<exists>r. v = Some (V_Outage r) \<or> v = Some (V_CursorUncertain r) \<or> v = Some (V_Degraded r))"

definition scan_ok :: "(nat \<Rightarrow> registration) \<Rightarrow> (nat \<Rightarrow> arm_visit option) \<Rightarrow> nat set \<Rightarrow> cycle_scan \<Rightarrow> bool" where
  "scan_ok reg v I s \<longleftrightarrow>
     (cs_dirty s \<longleftrightarrow> (\<exists>i \<in> I. reg_required (reg i) \<and> visit_dirty (v i))) \<and>
     (cs_deferred_required s \<longleftrightarrow> (\<exists>i \<in> I. reg_required (reg i) \<and> v i = Some V_Deferred)) \<and>
     (cs_overflow s \<longleftrightarrow> (\<exists>i \<in> I. v i = Some V_Overflow)) \<and>
     (cs_truncated s \<longleftrightarrow> (\<exists>i \<in> I. \<exists>e. v i = Some (V_Saturated e))) \<and>
     (cs_failed s = None \<longleftrightarrow> (\<forall>i \<in> I. \<forall>r. v i \<noteq> Some (V_Failed r))) \<and>
     (cs_events s = [] \<longleftrightarrow> (\<forall>i \<in> I. \<forall>u. v i = Some u \<longrightarrow> visit_events u = []))"

lemma scan_visit_ok:
  "scan_ok reg v I s \<Longrightarrow> scan_ok reg v (insert i I) (scan_visit (reg i) (v i) s)"
  by (cases "v i"; cases "the (v i)") (auto simp: scan_ok_def scan_visit_def visit_dirty_def)

lemma scan_fold_ok:
  "scan_ok reg v I s \<Longrightarrow> scan_ok reg v (I \<union> set is) (fold (\<lambda>i. scan_visit (reg i) (v i)) is s)"
proof (induction "is" arbitrary: I s)
  case (Cons i js)
  from Cons.IH [OF scan_visit_ok [OF Cons.prems, of i]] show ?case by simp
qed simp

lemma scan_cycle_ok:
  "scan_ok (\<lambda>i. rs_registrations rset ! i) (bt_get visits) {..<arm_count rset} (scan_cycle rset req visits)"
proof -
  have "scan_ok (\<lambda>i. rs_registrations rset ! i) (bt_get visits) ({} \<union> set (fairness_order rset req))
      (scan_cycle rset req visits)"
    unfolding scan_cycle_def by (rule scan_fold_ok) (simp add: scan_ok_def)
  with fairness_order_bij [of rset req] show ?thesis by simp
qed

lemma build_rows_mem:
  "row \<in> set (build_rows req starts visits kind k ri regs) \<Longrightarrow>
   \<exists>j < length regs. \<exists>a start. honest_start starts req (regs ! j) = Some start \<and>
     row = build_row (regs ! j) a start (bt_get visits (k + j)) kind"
proof (induction regs arbitrary: k ri)
  case (Cons reg regs)
  obtain a ri' where a: "poll_arm_id req reg ri = (a, ri')" by fastforce
  show ?case
  proof (cases "row \<in> set (build_rows req starts visits kind (k + 1) ri' regs)")
    case True
    from Cons.IH [OF this] show ?thesis by fastforce
  next
    case False
    with Cons.prems a obtain start where "honest_start starts req reg = Some start"
      "row = build_row reg a start (bt_get visits k) kind"
      by (auto split: option.splits)
    then show ?thesis by (intro exI [of _ 0]) auto
  qed
qed simp

section \<open>The contract\<close>

definition poll_echo :: "registration_set \<Rightarrow> poll_cycle_request \<Rightarrow> poll_cycle_outcome \<Rightarrow> bool" where
  "poll_echo rset req out \<longleftrightarrow>
     po_request_ref out = message_id req \<and> causation_id out = Some (message_id req) \<and>
     correlation_id out = correlation_id req \<and> po_waiter_id out = pr_waiter_id req \<and>
     po_logical_deadline out = pr_logical_deadline req \<and> created_at out = po_completed_at out \<and>
     po_bound out = pr_bound req \<and> po_fairness_cursor out = pr_fairness_cursor req \<and>
     po_next_fairness_cursor out = next_fairness_cursor rset req \<and> po_arms out \<noteq> []"

definition poll_rejected :: "poll_cycle_outcome \<Rightarrow> bool" where
  "poll_rejected out \<longleftrightarrow>
     po_events out = [] \<and> \<not> po_coverage_complete out \<and> po_reason_code out \<noteq> None \<and>
     (\<forall>arm \<in> set (po_arms out). arm_stat arm \<noteq> AS_Events) \<and>
     (\<forall>(k, ids) \<in> set (po_retained_events out). ids = [])"

text \<open>No required arm failed, overflowed or lost track of its source.\<close>

definition required_sound :: "poll_cycle_outcome \<Rightarrow> bool" where
  "required_sound out \<longleftrightarrow>
     (\<forall>arm \<in> set (po_arms out). arm_required arm \<longrightarrow>
        \<not> arm_degraded arm \<and> arm_stat arm \<notin> {AS_Outage, AS_CursorUncertain, AS_Observed})"

definition required_served :: "poll_cycle_outcome \<Rightarrow> bool" where
  "required_served out \<longleftrightarrow> required_sound out \<and>
     (\<forall>arm \<in> set (po_arms out). arm_required arm \<longrightarrow> arm_stat arm \<noteq> AS_Deferred)"

text \<open>Every required arm was visited and had nothing.\<close>

definition required_unchanged :: "poll_cycle_outcome \<Rightarrow> bool" where
  "required_unchanged out \<longleftrightarrow>
     (\<forall>arm \<in> set (po_arms out). arm_required arm \<longrightarrow> \<not> arm_degraded arm \<and> arm_stat arm = AS_NoChange)"

definition poll_outcome_ok :: "registration_set \<Rightarrow> poll_cycle_request \<Rightarrow> poll_cycle_outcome \<Rightarrow> bool" where
  "poll_outcome_ok rset req out \<longleftrightarrow>
     poll_echo rset req out \<and>
     (case po_outcome_kind out of
        Events \<Rightarrow> required_served out
      | Partial \<Rightarrow> \<not> po_coverage_complete out
      | CoverageDegraded \<Rightarrow> po_events out = [] \<and> \<not> po_coverage_complete out
      | NoChange \<Rightarrow> po_events out = [] \<and> required_unchanged out \<and>
           ts_less (po_completed_at out) (pr_logical_deadline req)
      | LogicalDeadman \<Rightarrow> po_events out = [] \<and> required_sound out \<and>
           ts_le (pr_logical_deadline req) (po_completed_at out)
      | Refused \<Rightarrow> poll_rejected out \<and> rs_authn_mode rset = AuthnModeRequired \<and>
           verification_receipt_ref req = None
      | ReauthenticationRequired \<Rightarrow> poll_rejected out \<and>
           (\<exists>reg \<in> set (rs_registrations rset). ts_less (reg_lease_expires_at reg) (po_completed_at out))
      | _ \<Rightarrow> poll_rejected out)"

lemma empty_event_map_ids:
  "(k, ids) \<in> set (empty_event_map_from_arms arms) \<Longrightarrow> ids = []"
proof -
  assume m: "(k, ids) \<in> set (empty_event_map_from_arms arms)"
  have "distinct (map fst (empty_event_map_from_arms arms))"
    by (simp add: empty_event_map_from_arms_def bt_sorted_distinct)
  with m have "bt_get (empty_event_map_from_arms arms) k = Some ids" by (simp add: bt_get_def)
  then show ?thesis
    by (auto simp: empty_event_map_from_arms_def bt_get_collect dest!: map_of_SomeD)
qed

lemma clear_arm_status [simp]: "arm_stat (clear_arm arm) \<noteq> AS_Events"
  by (auto simp: clear_arm_def)

lemma rebuild_reason_rejected: "poll_rejected (rebuild_reason out kind reason)"
  by (auto simp: poll_rejected_def rebuild_reason_def Let_def dest: empty_event_map_ids)

lemma rebuild_reason_simps [simp]:
  "po_outcome_kind (rebuild_reason out kind reason) = kind"
  "po_completed_at (rebuild_reason out kind reason) = po_completed_at out"
  "poll_echo rset req (rebuild_reason out kind reason) = poll_echo rset req out"
  by (simp_all add: rebuild_reason_def Let_def poll_echo_def)

lemma pc_build_facts:
  assumes "pc_build rset req now starts visits kind reason = Inr out"
  shows "poll_echo rset req out" "po_outcome_kind out = kind" "po_completed_at out = now"
    "po_reason_code out = map_option IdToken reason"
    "po_coverage_complete out = coverage_is_complete req (po_arms out) kind"
    "is_rejection kind \<Longrightarrow> reason \<noteq> None \<Longrightarrow> poll_rejected out"
    "\<not> bears_events kind \<Longrightarrow> po_events out = []"
proof -
  have events: "\<not> bears_events kind \<Longrightarrow>
      concat (map row_events (build_rows req starts visits kind k ri regs)) = []" for k ri regs
    by (auto dest!: build_rows_mem)
  have rej: "is_rejection kind \<Longrightarrow> \<not> coverage_is_complete req arms kind" for arms
    by (auto simp: is_rejection_def coverage_is_complete_def)
  from assms events rej show "poll_echo rset req out" "po_outcome_kind out = kind" "po_completed_at out = now"
    "po_reason_code out = map_option IdToken reason"
    "po_coverage_complete out = coverage_is_complete req (po_arms out) kind"
    "\<not> bears_events kind \<Longrightarrow> po_events out = []"
    by (auto simp: pc_build_def Let_def poll_echo_def split: if_splits)
  from assms rej show "is_rejection kind \<Longrightarrow> reason \<noteq> None \<Longrightarrow> poll_rejected out"
    by (auto simp: pc_build_def Let_def poll_rejected_def split: if_splits dest: empty_event_map_ids)
qed

lemma pc_build_arm:
  assumes "pc_build rset req now starts visits kind reason = Inr out" "\<not> is_rejection kind" "arm \<in> set (po_arms out)"
  obtains i where "i < arm_count rset" "arm_required arm = reg_required (rs_registrations rset ! i)"
    "arm_stat arm = fst (visit_status (bt_get visits i))" "arm_degraded arm = fst (snd (visit_status (bt_get visits i)))"
proof -
  from assms obtain row where "row \<in> set (build_rows req starts visits kind 0 0 (rs_registrations rset))" "arm = row_arm row"
    by (auto simp: pc_build_def Let_def split: if_splits)
  with build_rows_mem [of row req starts visits kind 0 0 "rs_registrations rset"] show thesis
    by (auto simp: arm_count_def intro: that)
qed

text \<open>The kinds a full scan can choose.\<close>

lemma choose_kind_cases:
  assumes "(kind, reason) = choose_kind req now s"
  obtains (failed) "kind = Failed" "reason \<noteq> None"
    | (partial) "kind = Partial"
    | (degraded) "kind = CoverageDegraded"
    | (events) "kind = Events" "\<not> cs_overflow s" "\<not> cs_dirty s" "cs_failed s = None" "\<not> cs_deferred_required s" "\<not> cs_truncated s"
    | (deadman) "kind = LogicalDeadman" "ts_le (pr_logical_deadline req) now" "\<not> cs_overflow s" "\<not> cs_dirty s" "cs_failed s = None"
    | (no_change) "kind = NoChange" "\<not> ts_le (pr_logical_deadline req) now" "\<not> cs_overflow s" "\<not> cs_dirty s" "cs_failed s = None"
        "\<not> cs_deferred_required s" "\<not> cs_truncated s" "cs_events s = []"
  using assms by (auto simp: choose_kind_def Let_def split: if_splits option.splits)

lemma visit_clean:
  assumes "v \<noteq> None" "\<not> visit_dirty v" "v \<noteq> Some V_Overflow" "\<And>r. v \<noteq> Some (V_Failed r)"
  shows "\<not> fst (snd (visit_status v)) \<and> fst (visit_status v) \<notin> {AS_Outage, AS_CursorUncertain, AS_Observed} \<and>
    (fst (visit_status v) = AS_Deferred \<longrightarrow> v = Some V_Deferred)"
  using assms by (cases v rule: visit_status.cases) (auto simp: visit_dirty_def)

lemma pc_build_sound:
  assumes b: "pc_build rset req now starts visits kind reason = Inr out" and nr: "\<not> is_rejection kind"
    and all: "\<forall>i < arm_count rset. bt_contains visits i"
    and s: "\<not> cs_overflow (scan_cycle rset req visits)" "\<not> cs_dirty (scan_cycle rset req visits)"
      "cs_failed (scan_cycle rset req visits) = None"
  shows "required_sound out \<and> (\<not> cs_deferred_required (scan_cycle rset req visits) \<longrightarrow> required_served out)"
proof -
  have arm: "\<not> arm_degraded arm \<and> arm_stat arm \<notin> {AS_Outage, AS_CursorUncertain, AS_Observed} \<and>
      (\<not> cs_deferred_required (scan_cycle rset req visits) \<longrightarrow> arm_stat arm \<noteq> AS_Deferred)"
    if "arm \<in> set (po_arms out)" "arm_required arm" for arm
  proof -
    from pc_build_arm [OF b nr that(1)] that(2) obtain i where i: "i < arm_count rset"
      "reg_required (rs_registrations rset ! i)" "arm_stat arm = fst (visit_status (bt_get visits i))"
      "arm_degraded arm = fst (snd (visit_status (bt_get visits i)))" by metis
    with scan_cycle_ok [of rset visits req] s all visit_clean [of "bt_get visits i"] show ?thesis
      by (auto simp: scan_ok_def bt_contains_def)
  qed
  then show ?thesis by (auto simp: required_sound_def required_served_def)
qed

lemma pc_build_unchanged:
  assumes b: "pc_build rset req now starts visits kind reason = Inr out" and nr: "\<not> is_rejection kind"
    and all: "\<forall>i < arm_count rset. bt_contains visits i" and filled: "V_Events [] \<notin> snd ` set visits"
    and s: "\<not> cs_overflow (scan_cycle rset req visits)" "\<not> cs_dirty (scan_cycle rset req visits)"
      "cs_failed (scan_cycle rset req visits) = None" "\<not> cs_deferred_required (scan_cycle rset req visits)"
      "\<not> cs_truncated (scan_cycle rset req visits)" "cs_events (scan_cycle rset req visits) = []"
  shows "required_unchanged out"
  unfolding required_unchanged_def
proof (intro ballI impI)
  fix arm assume a: "arm \<in> set (po_arms out)" "arm_required arm"
  from pc_build_arm [OF b nr a(1)] a(2) obtain i where i: "i < arm_count rset"
    "reg_required (rs_registrations rset ! i)" "arm_stat arm = fst (visit_status (bt_get visits i))"
    "arm_degraded arm = fst (snd (visit_status (bt_get visits i)))" by metis
  from all i(1) obtain v where v: "bt_get visits i = Some v" by (auto simp: bt_contains_def)
  then have "(i, v) \<in> set visits" by (simp add: bt_get_def map_of_SomeD)
  then have "v \<noteq> V_Events []" using filled by force
  with v i s scan_cycle_ok [of rset visits req] show "\<not> arm_degraded arm \<and> arm_stat arm = AS_NoChange"
    by (cases v) (force simp: scan_ok_def visit_dirty_def)+
qed

lemma pc_build_ok:
  assumes b: "pc_build rset req now starts visits kind reason = Inr out"
    and k: "(kind = Cancelled \<or> kind = Failed) \<and> reason \<noteq> None \<or>
      (kind, reason) = choose_kind req now (scan_cycle rset req visits) \<and> (\<forall>i < arm_count rset. bt_contains visits i)"
    and below: "keys_below rset visits"
  shows "poll_outcome_ok rset req out"
  using k
proof
  assume "(kind = Cancelled \<or> kind = Failed) \<and> reason \<noteq> None"
  with pc_build_facts [OF b] show ?thesis by (auto simp: poll_outcome_ok_def is_rejection_def)
next
  assume c: "(kind, reason) = choose_kind req now (scan_cycle rset req visits) \<and> (\<forall>i < arm_count rset. bt_contains visits i)"
  note f = pc_build_facts [OF b] and sound = pc_build_sound [OF b _ conjunct2 [OF c]]
  from conjunct1 [OF c] show ?thesis
  proof (cases rule: choose_kind_cases)
    case no_change
    with f pc_build_unchanged [OF b _ conjunct2 [OF c]] below show ?thesis
      by (auto simp: poll_outcome_ok_def is_rejection_def bears_events_def keys_below_def ts_le_def ts_less_def)
  qed (use f sound in \<open>auto simp: poll_outcome_ok_def is_rejection_def bears_events_def coverage_is_complete_def\<close>)
qed

lemma apply_posture_ok:
  assumes "poll_outcome_ok rset req out"
  shows "poll_outcome_ok rset req (apply_posture rset req out)"
  using assms rebuild_reason_rejected
  by (auto simp: apply_posture_def poll_outcome_ok_def list_ex_iff)

theorem run_poll_cycle_ok:
  assumes r: "run_poll_cycle env rset req fuel w = (Some (Inr out), w')"
  shows "poll_outcome_ok rset req out"
proof -
  from run_poll_cycle_decided [OF r] obtain b visits where
    b: "keys_below rset visits" "pc_decided rset req visits out" by metis
  from pc_decided_build [OF b(2,1)] obtain now starts visits' kind reason out' where
    o: "pc_build rset req now starts visits' kind reason = Inr out'" "out = apply_posture rset req out'"
      "(kind = Cancelled \<or> kind = Failed) \<and> reason \<noteq> None \<or>
       (kind, reason) = choose_kind req now (scan_cycle rset req visits') \<and> (\<forall>i < arm_count rset. bt_contains visits' i)"
      "keys_below rset visits'"
    by metis
  from apply_posture_ok [OF pc_build_ok [OF o(1,3,4)]] o(2) show ?thesis by simp
qed

section \<open>Retention\<close>

text \<open>
  The cursor retained for an arm moves only past events the outcome reports.
\<close>

definition poll_retention_ok :: "poll_cycle_outcome \<Rightarrow> bool" where
  "poll_retention_ok out \<longleftrightarrow>
     (\<forall>arm \<in> set (po_arms out).
        bt_get (po_retained_through out) (id_str (arm_registration_id arm)) =
          Some (if bears_events (po_outcome_kind out) \<and> arm_stat arm = AS_Events
                then arm_proposed_next_anchor arm else arm_start_anchor arm))"

lemma build_row_retained:
  "row_retained_cursor (build_row reg arm start v kind) =
     (if bears_events kind \<and> arm_stat (row_arm (build_row reg arm start v kind)) = AS_Events
      then arm_proposed_next_anchor (row_arm (build_row reg arm start v kind)) else start)"
  by (auto simp: build_row_def Let_def split: prod.splits)

lemma build_rows_ids:
  "distinct (map (\<lambda>reg. id_str (reg_id reg)) regs) \<Longrightarrow>
   distinct (map row_id (build_rows req starts visits kind k ri regs)) \<and>
   row_id ` set (build_rows req starts visits kind k ri regs) \<subseteq> (\<lambda>reg. id_str (reg_id reg)) ` set regs"
proof (induction regs arbitrary: k ri)
  case (Cons reg regs)
  obtain a ri' where a: "poll_arm_id req reg ri = (a, ri')" by fastforce
  from Cons.prems have ne: "id_str (reg_id reg) \<notin> (\<lambda>reg. id_str (reg_id reg)) ` set regs" by simp
  have id: "row_id (build_row reg x start v kind) = id_str (reg_id reg)" for x start v by (simp add: row_id_def)
  show ?case
  proof (cases "honest_start starts req reg")
    case None
    with Cons.IH [of "k + 1" ri'] Cons.prems show ?thesis by (auto simp: a)
  next
    case (Some start)
    from Cons.IH [of "k + 1" ri'] Cons.prems
    have "distinct (map row_id (build_rows req starts visits kind (k + 1) ri' regs))"
      "row_id ` set (build_rows req starts visits kind (k + 1) ri' regs) \<subseteq> (\<lambda>reg. id_str (reg_id reg)) ` set regs"
      by simp_all
    with ne Some show ?thesis by (simp add: a id) blast
  qed
qed simp

lemma clear_arm_simps [simp]:
  "arm_registration_id (clear_arm arm) = arm_registration_id arm" "arm_start_anchor (clear_arm arm) = arm_start_anchor arm"
  by (simp_all add: clear_arm_def)

lemma pc_build_retention:
  assumes b: "pc_build rset req now starts visits kind reason = Inr out" and d: "distinct_arms rset"
  shows "poll_retention_ok out"
proof -
  let ?rows = "build_rows req starts visits kind 0 0 (rs_registrations rset)"
  have ids: "distinct (map row_id ?rows)"
    using build_rows_ids [OF distinct_reg_strings [OF d], of req starts visits kind 0 0] by blast
  have row: "bt_get (bt_collect (map (\<lambda>row. (row_id row, row_retained_cursor row)) ?rows))
        (id_str (arm_registration_id (row_arm row))) =
      Some (if bears_events kind \<and> arm_stat (row_arm row) = AS_Events
            then arm_proposed_next_anchor (row_arm row) else arm_start_anchor (row_arm row))"
    if r: "row \<in> set ?rows" for row
  proof -
    from build_rows_mem [OF r] obtain j a start where
      "row = build_row (rs_registrations rset ! j) a start (bt_get visits (0 + j)) kind" by blast
    with build_row_retained have "row_retained_cursor row =
        (if bears_events kind \<and> arm_stat (row_arm row) = AS_Events
         then arm_proposed_next_anchor (row_arm row) else arm_start_anchor (row_arm row))" by simp
    with collect_own [OF ids r, of row_retained_cursor] show ?thesis by (simp add: row_id_def)
  qed
  from b have out: "po_arms out = (if is_rejection kind then map clear_arm (map row_arm ?rows) else map row_arm ?rows)"
    "po_retained_through out = bt_collect (map (\<lambda>row. (row_id row, row_retained_cursor row)) ?rows)"
    "po_outcome_kind out = kind"
    by (auto simp: pc_build_def Let_def split: if_splits)
  show ?thesis
    unfolding poll_retention_ok_def
  proof
    fix arm
    assume "arm \<in> set (po_arms out)"
    then obtain row where r: "row \<in> set ?rows"
      and arm: "arm = (if is_rejection kind then clear_arm (row_arm row) else row_arm row)"
      by (cases "is_rejection kind") (auto simp: out(1))
    have "is_rejection kind \<Longrightarrow> \<not> bears_events kind" by (auto simp: bears_events_def is_rejection_def)
    with row [OF r] show "bt_get (po_retained_through out) (id_str (arm_registration_id arm)) =
        Some (if bears_events (po_outcome_kind out) \<and> arm_stat arm = AS_Events
              then arm_proposed_next_anchor arm else arm_start_anchor arm)"
      by (cases "is_rejection kind") (simp_all only: out(2,3) arm if_True if_False clear_arm_simps simp_thms)
  qed
qed

theorem run_poll_cycle_retention:
  assumes r: "run_poll_cycle env rset req fuel w = (Some (Inr out), w')" and d: "distinct_arms rset"
    and k: "po_outcome_kind out \<noteq> Refused" "po_outcome_kind out \<noteq> ReauthenticationRequired"
  shows "poll_retention_ok out"
proof -
  from run_poll_cycle_decided [OF r] obtain b visits where
    b: "keys_below rset visits" "pc_decided rset req visits out" by metis
  from pc_decided_build [OF b(2,1)] obtain now starts visits' kind reason out' where
    o: "pc_build rset req now starts visits' kind reason = Inr out'" "out = apply_posture rset req out'" by metis
  from o(2) k have "out = out'" by (auto simp: apply_posture_def split: if_splits)
  with pc_build_retention [OF o(1) d] show ?thesis by simp
qed

section \<open>Fairness\<close>

text \<open>Arm ids that no cursor form confuses: distinct, and apart from registration ids.\<close>

definition fair_ids :: "registration_set \<Rightarrow> poll_cycle_request \<Rightarrow> bool" where
  "fair_ids rset req \<longleftrightarrow>
     (let arms = map id_str (arm_ids_from req (rs_registrations rset) 0);
          regs = map (\<lambda>reg. id_str (reg_id reg)) (rs_registrations rset)
      in distinct arms \<and> list_all (\<lambda>s. \<not> starts_with s ''fair:'') (arms @ regs) \<and>
         list_all (\<lambda>a. a \<notin> set regs \<and> a \<noteq> ''start'') arms)"

definition next_request :: "registration_set \<Rightarrow> poll_cycle_request \<Rightarrow> poll_cycle_request" where
  "next_request rset req = req\<lparr>pr_fairness_cursor := next_fairness_cursor rset req\<rparr>"

lemma arm_ids_length [simp]: "length (arm_ids_from req regs k) = length regs"
  by (induction regs arbitrary: k) (auto split: prod.split)

lemma poll_arm_id_cursor [simp]: "poll_arm_id (req\<lparr>pr_fairness_cursor := c\<rparr>) = poll_arm_id req"
  by (intro ext) (simp add: poll_arm_id_def)

lemma arm_ids_cursor [simp]: "arm_ids_from (req\<lparr>pr_fairness_cursor := c\<rparr>) regs k = arm_ids_from req regs k"
  by (induction regs arbitrary: k) (auto split: prod.split)

lemma fairness_search_at:
  assumes "j < length ps" "\<And>i. i < length ps \<Longrightarrow>
      (cursor = id_str (snd (ps ! i)) \<or> cursor = fair_str (id_str (snd (ps ! i))) \<or>
       cursor = id_str (reg_id (fst (ps ! i))) \<or> cursor = fair_str (id_str (reg_id (fst (ps ! i))))) \<longleftrightarrow> i = j"
  shows "fairness_search cursor ps k = k + j"
  using assms
proof (induction ps arbitrary: j k)
  case (Cons p ps)
  obtain reg a where p: "p = (reg, a)" by (cases p)
  show ?case
  proof (cases j)
    case 0
    with Cons.prems(2) [of 0] p show ?thesis by simp
  next
    case (Suc m)
    have "fairness_search cursor ps (Suc k) = Suc k + m"
      by (rule Cons.IH) (use Cons.prems Suc Cons.prems(2) [of "Suc i" for i] in auto)
    with Cons.prems(2) [of 0] Suc p show ?thesis by simp
  qed
qed simp

lemma fair_str_inj [simp]: "fair_str a = fair_str b \<longleftrightarrow> a = b"
  by (simp add: fair_str_def)

lemma fair_str_starts: "starts_with (fair_str a) ''fair:''"
  unfolding fair_str_def by (rule starts_with_append)

lemma fairness_start_lt:
  assumes "rs_registrations rset \<noteq> []"
  shows "fairness_start_index rset req < arm_count rset"
proof -
  have "fairness_search c ps k < k + length ps" if "ps \<noteq> []" for c ps k
  proof -
    have "fairness_search c ps k = 0 \<or> fairness_search c ps k < k + length ps"
      by (induction c ps k rule: fairness_search.induct) auto
    with that show ?thesis by auto
  qed
  from this [of "zip (rs_registrations rset) (arm_ids_from req (rs_registrations rset) 0)" _ 0] assms show ?thesis
    by (cases "rs_registrations rset") (auto simp: fairness_start_index_def Let_def arm_count_def split: prod.splits)
qed

lemma next_cursor_start:
  assumes f: "fair_ids rset req" and ne: "rs_registrations rset \<noteq> []"
  shows "fairness_start_index rset (next_request rset req) =
    (fairness_start_index rset req + 1) mod arm_count rset"
proof -
  let ?regs = "rs_registrations rset"
  let ?arms = "arm_ids_from req ?regs 0"
  let ?n = "arm_count rset"
  define j where "j = (fairness_start_index rset req + 1) mod ?n"
  have n: "length ?regs = ?n" by (simp add: arm_count_def)
  have "0 < ?n" using ne by (simp add: arm_count_def)
  then have j: "j < ?n" by (simp add: j_def)
  note f = f [unfolded fair_ids_def Let_def]
  have arm: "\<not> starts_with (id_str (?arms ! i)) ''fair:''" "\<not> starts_with (id_str (reg_id (?regs ! i))) ''fair:''"
    "id_str (?arms ! j) \<noteq> id_str (reg_id (?regs ! i))" "id_str (?arms ! j) \<noteq> ''start''"
    if "i < ?n" for i
  proof -
    have "?arms ! i \<in> set ?arms" "?arms ! j \<in> set ?arms" "?regs ! i \<in> set ?regs"
      using that j n by (simp_all add: nth_mem)
    with f show "\<not> starts_with (id_str (?arms ! i)) ''fair:''" "\<not> starts_with (id_str (reg_id (?regs ! i))) ''fair:''"
      "id_str (?arms ! j) \<noteq> id_str (reg_id (?regs ! i))" "id_str (?arms ! j) \<noteq> ''start''"
      by (simp_all only: list_all_iff set_append set_map Un_iff ball_Un ball_simps) (metis image_eqI)+
  qed
  have dist: "id_str (?arms ! j) = id_str (?arms ! i) \<longleftrightarrow> i = j" if "i < ?n" for i
    using f that n j nth_eq_iff_index_eq [of "map id_str ?arms" j i] by auto
  have cur: "id_str (pr_fairness_cursor (next_request rset req)) = fair_str (id_str (?arms ! j))"
    using ne arm(1) [OF j] by (simp add: next_request_def next_fairness_cursor_def Let_def j_def arm_count_def)
  have "fairness_search (fair_str (id_str (?arms ! j))) (zip ?regs ?arms) 0 = 0 + j"
  proof (rule fairness_search_at)
    show "j < length (zip ?regs ?arms)" using j n by simp
  next
    fix i assume "i < length (zip ?regs ?arms)"
    then have i: "i < ?n" by (simp add: n)
    have "fair_str (id_str (?arms ! j)) \<noteq> id_str (?arms ! i)" "fair_str (id_str (?arms ! j)) \<noteq> id_str (reg_id (?regs ! i))"
      using arm(1,2) [OF i] fair_str_starts [of "id_str (?arms ! j)"] by metis+
    with arm(3) [OF i] dist [OF i] i n
    show "(fair_str (id_str (?arms ! j)) = id_str (snd (zip ?regs ?arms ! i)) \<or>
        fair_str (id_str (?arms ! j)) = fair_str (id_str (snd (zip ?regs ?arms ! i))) \<or>
        fair_str (id_str (?arms ! j)) = id_str (reg_id (fst (zip ?regs ?arms ! i))) \<or>
        fair_str (id_str (?arms ! j)) = fair_str (id_str (reg_id (fst (zip ?regs ?arms ! i))))) \<longleftrightarrow> i = j"
      by simp
  qed
  moreover have "fair_str (id_str (?arms ! j)) \<noteq> ''fair:start''"
    using arm(4) [OF j] by (simp add: fair_str_def)
  moreover have "fairness_start_index rset r =
      (if id_str (pr_fairness_cursor r) = ''fair:start'' then 0
       else fairness_search (id_str (pr_fairness_cursor r)) (zip ?regs (arm_ids_from r ?regs 0)) 0)" for r
    by (simp add: fairness_start_index_def Let_def)
  moreover have "arm_ids_from (next_request rset req) ?regs 0 = ?arms" by (simp add: next_request_def)
  ultimately have "fairness_start_index rset (next_request rset req) = j"
    using cur by (simp del: One_nat_def)
  then show ?thesis by (simp add: j_def)
qed

lemma fair_ids_next: "fair_ids rset (next_request rset req) = fair_ids rset req"
  by (simp add: fair_ids_def next_request_def)

theorem fairness_rotates:
  assumes "fair_ids rset req" "rs_registrations rset \<noteq> []"
  shows "fairness_start_index rset ((next_request rset ^^ k) req) =
    (fairness_start_index rset req + k) mod arm_count rset"
proof (induction k)
  case 0
  show ?case using fairness_start_lt [OF assms(2), of req] by simp
next
  case (Suc k)
  have "fair_ids rset ((next_request rset ^^ k) req)"
    using assms(1) by (induction k) (simp_all add: fair_ids_next)
  from next_cursor_start [OF this assms(2)] Suc show ?case
    by (simp add: mod_Suc_eq)
qed

text \<open>Within as many cycles as there are registrations, each of them comes first once.\<close>

theorem fairness_serves_all:
  assumes "fair_ids rset req" "i < arm_count rset"
  shows "\<exists>k < arm_count rset. hd (fairness_order rset ((next_request rset ^^ k) req)) = i"
proof -
  let ?n = "arm_count rset" and ?s = "fairness_start_index rset req"
  have ne: "rs_registrations rset \<noteq> []" and n: "0 < ?n" using assms(2) by (auto simp: arm_count_def)
  have "bij_betw (\<lambda>k. (?s + k) mod ?n) {..<?n} {..<?n}" by (rule mod_add_bij [OF n])
  with assms(2) obtain k where k: "k < ?n" "(?s + k) mod ?n = i"
    by (auto simp: bij_betw_def image_iff dest!: equalityD2 [THEN subsetD])
  have "hd (fairness_order rset ((next_request rset ^^ k) req)) = i"
    using fairness_rotates [OF assms(1) ne, of k] k n mod_less [OF assms(2)]
    by (simp add: fairness_order_def arm_count_def Let_def hd_map upt_rec)
  with k(1) show ?thesis by blast
qed

end
