(* ===== verification/Testkit_Clock.thy ===== *)
theory Testkit_Clock
  imports Observer_Interface
begin

text \<open>
  The logical clock and the bind tracker of \<^verbatim>\<open>waitprims-testkit\<close> (\<^verbatim>\<open>clock.rs\<close>, \<^verbatim>\<open>bind.rs\<close>), the
  fixtures of \<^verbatim>\<open>case.rs\<close> and the receipts seam of \<^verbatim>\<open>seam.rs\<close>.
\<close>

section \<open>The logical clock\<close>

record sleeper =
  sl_id :: u64
  sl_deadline :: timestamp

record fake_clock =
  fc_now :: timestamp
  fc_sleepers :: "sleeper list"
  fc_next_id :: u64

definition fc_new :: "timestamp \<Rightarrow> fake_clock" where
  "fc_new now = \<lparr>fc_now = now, fc_sleepers = [], fc_next_id = 1\<rparr>"

definition fc_wake_ready :: "fake_clock \<Rightarrow> fake_clock" where
  "fc_wake_ready c = c\<lparr>fc_sleepers := filter (\<lambda>s. \<not> ts_le (sl_deadline s) (fc_now c)) (fc_sleepers c)\<rparr>"

definition fc_advance_to :: "timestamp \<Rightarrow> fake_clock \<Rightarrow> fake_clock" where
  "fc_advance_to deadline c =
     fc_wake_ready (if ts_less (fc_now c) deadline then c\<lparr>fc_now := deadline\<rparr> else c)"

definition fc_remove :: "u64 \<Rightarrow> fake_clock \<Rightarrow> fake_clock" where
  "fc_remove i c = c\<lparr>fc_sleepers := filter (\<lambda>s. sl_id s \<noteq> i) (fc_sleepers c)\<rparr>"

definition fc_earliest :: "fake_clock \<Rightarrow> timestamp option" where
  "fc_earliest c = min_by_key ts_instant (map sl_deadline (fc_sleepers c))"

definition fc_auto_advance_if_earliest :: "timestamp \<Rightarrow> fake_clock \<Rightarrow> fake_clock" where
  "fc_auto_advance_if_earliest mine c =
     (case fc_earliest c of
        None \<Rightarrow> c
      | Some d \<Rightarrow> if ts_eq d mine then fc_advance_to mine c else c)"

text \<open>One poll of \<open>sleep_to\<close>: done when due, otherwise a sleeper is registered.\<close>

definition fc_sleep_to :: "timestamp \<Rightarrow> fake_clock \<Rightarrow> unit poll \<times> fake_clock" where
  "fc_sleep_to deadline c =
     (if ts_le deadline (fc_now c) then (Ready (), c)
      else (Pending, c\<lparr>fc_sleepers := fc_sleepers c @ [\<lparr>sl_id = fc_next_id c, sl_deadline = deadline\<rparr>],
                       fc_next_id := fc_next_id c + 1\<rparr>))"

text \<open>
  The task is parked: every sleeper has yielded once and now runs
  \<open>auto_advance_if_earliest\<close>, which moves the clock to the earliest deadline. The sleepers then
  unregister; those still waiting register again when they are polled. \<open>auto\<close> is fixed when the
  clock is built; a manual clock stays where it is. (A sleeper polled later in the same round,
  next in line once the earliest has been woken, could move the clock again in that round; here
  it does so at the next park.)
\<close>

definition fc_park :: "bool \<Rightarrow> fake_clock \<Rightarrow> fake_clock" where
  "fc_park auto c =
     (let c = fc_wake_ready c;
          c = (if auto then (case fc_earliest c of
                               None \<Rightarrow> c
                             | Some d \<Rightarrow> fc_auto_advance_if_earliest d c)
               else c)
      in c\<lparr>fc_sleepers := []\<rparr>)"

definition fc_ok :: "fake_clock \<Rightarrow> bool" where
  "fc_ok c \<longleftrightarrow> (\<forall>s \<in> set (fc_sleepers c). ts_less (fc_now c) (sl_deadline s))"

lemma fc_ok_new: "fc_ok (fc_new now)"
  by (simp add: fc_ok_def fc_new_def)

lemma fc_ok_wake: "fc_ok (fc_wake_ready c)"
  by (auto simp: fc_ok_def fc_wake_ready_def)

lemma fc_ok_advance: "fc_ok (fc_advance_to d c)"
  by (simp add: fc_advance_to_def fc_ok_wake)

lemma fc_ok_sleep: "fc_ok c \<Longrightarrow> fc_ok (snd (fc_sleep_to d c))"
  by (auto simp: fc_ok_def fc_sleep_to_def)

lemma fc_ok_remove: "fc_ok c \<Longrightarrow> fc_ok (fc_remove i c)"
  by (auto simp: fc_ok_def fc_remove_def)

lemma fc_wake_ok: "fc_ok c \<Longrightarrow> fc_wake_ready c = c"
  by (cases c) (auto simp: fc_ok_def fc_wake_ready_def ts_order_defs filter_id_conv)

lemma fc_now_wake [simp]: "fc_now (fc_wake_ready c) = fc_now c"
  by (simp add: fc_wake_ready_def)

lemma fc_advance_mono: "ts_instant (fc_now c) \<le> ts_instant (fc_now (fc_advance_to d c))"
  by (simp add: fc_advance_to_def ts_less_def)

lemma fc_auto_mono: "ts_instant (fc_now c) \<le> ts_instant (fc_now (fc_auto_advance_if_earliest d c))"
  by (simp add: fc_auto_advance_if_earliest_def fc_advance_mono split: option.splits)

lemma fc_park_mono: "ts_instant (fc_now c) \<le> ts_instant (fc_now (fc_park auto c))"
  using fc_auto_mono [of "fc_wake_ready c"] by (simp add: fc_park_def Let_def split: option.splits)

text \<open>Parking on a sleep moves an automatic clock forward.\<close>

lemma fc_park_progress:
  assumes "fc_sleep_to d c = (Pending, c')"
  shows "ts_instant (fc_now c') < ts_instant (fc_now (fc_park True c'))"
proof -
  from assms have late: "ts_less (fc_now c) d" and c': "fc_now c' = fc_now c"
    "\<exists>s \<in> set (fc_sleepers c'). sl_deadline s = d"
    by (auto simp: fc_sleep_to_def ts_order_defs split: if_splits)
  let ?c = "fc_wake_ready c'"
  have "fc_sleepers ?c \<noteq> []"
    using late c' by (force simp: fc_wake_ready_def filter_empty_conv ts_order_defs)
  then obtain m where m: "fc_earliest ?c = Some m"
    by (cases "fc_earliest ?c") (auto simp: fc_earliest_def)
  then have "m \<in> set (map sl_deadline (fc_sleepers ?c))"
    unfolding fc_earliest_def by (blast dest: min_by_key_Some)
  then have "ts_less (fc_now c') m"
    by (auto simp: fc_wake_ready_def ts_order_defs)
  with m show ?thesis
    by (simp add: fc_park_def Let_def fc_auto_advance_if_earliest_def fc_advance_to_def ts_order_defs)
qed

section \<open>Tracked binds\<close>

type_synonym bset = "(string, unit) btree"

record tracker =
  tr_live :: bset
  tr_cancelled :: bset

definition tracker_new :: tracker where
  "tracker_new = \<lparr>tr_live = [], tr_cancelled = []\<rparr>"

definition tracker_acquire :: "string \<Rightarrow> tracker \<Rightarrow> tracker" where
  "tracker_acquire rid t = t\<lparr>tr_live := bt_insert rid () (tr_live t)\<rparr>"

definition tracker_cancel :: "string \<Rightarrow> tracker \<Rightarrow> tracker" where
  "tracker_cancel rid t =
     t\<lparr>tr_live := bt_remove rid (tr_live t), tr_cancelled := bt_insert rid () (tr_cancelled t)\<rparr>"

definition tracker_release :: "string \<Rightarrow> tracker \<Rightarrow> tracker" where
  "tracker_release rid t = t\<lparr>tr_live := bt_remove rid (tr_live t)\<rparr>"

definition live_count :: "tracker \<Rightarrow> nat" where
  "live_count t = length (tr_live t)"

definition cancelled_ids :: "tracker \<Rightarrow> string list" where
  "cancelled_ids t = bt_keys (tr_cancelled t)"

record tracked_bind =
  tb_registration_id :: id_token
  tb_resolved_start :: anchor

definition exclusive_head_anchor :: "id_token \<Rightarrow> anchor" where
  "exclusive_head_anchor rid =
     (let rest = (case strip_prefix ''reg:'' (id_str rid) of Some r \<Rightarrow> r | None \<Rightarrow> id_str rid);
          local = (if 58 < length rest then take 58 rest else rest)
      in \<lparr>anc_kind = ProviderOpaque, anc_value = IdToken (''anc:h-'' @ local)\<rparr>)"

definition resolve_start_at_bind :: "registration \<Rightarrow> anchor option \<Rightarrow> anchor" where
  "resolve_start_at_bind reg script_head =
     (case reg_start_anchor reg of
        Some start \<Rightarrow> start
      | None \<Rightarrow> (case script_head of Some a \<Rightarrow> a | None \<Rightarrow> exclusive_head_anchor (reg_id reg)))"

section \<open>Fixtures\<close>

definition ts_at :: "string \<Rightarrow> int \<Rightarrow> timestamp" where
  "ts_at raw secs = \<lparr>ts_raw = raw, ts_instant = secs * 1000000000\<rparr>"

definition ts_1600 :: timestamp where "ts_1600 = ts_at ''2026-08-15T16:00:00Z'' 1786809600"
definition ts_1601 :: timestamp where "ts_1601 = ts_at ''2026-08-15T16:01:00Z'' 1786809660"
definition ts_1620 :: timestamp where "ts_1620 = ts_at ''2026-08-15T16:20:00Z'' 1786810800"
definition ts_1700 :: timestamp where "ts_1700 = ts_at ''2026-08-15T17:00:00Z'' 1786813200"
definition ts_next_day :: timestamp where "ts_next_day = ts_at ''2026-08-16T00:00:00Z'' 1786838400"

definition cursor_0 :: anchor where
  "cursor_0 = \<lparr>anc_kind = ProviderOpaque, anc_value = IdToken ''anc:cursor-0''\<rparr>"

definition fixture_registration_set :: "registration list \<Rightarrow> registration_set" where
  "fixture_registration_set registrations =
     \<lparr>capabilities = [CapabilityToken ''contract: agent-wait/v0''],
      message_id = IdToken ''msg:aw-reg-1'', correlation_id = IdToken ''corr:aw-1'',
      created_at = ts_1600, hdr_actor_ref = ActorRef ''seat:consumer-a'', causation_id = None,
      grant_ref = None, verification_receipt_ref = None, policy_decision_ref = None,
      rs_principal_ref = ActorRef ''seat:consumer-a'', rs_waiter_id = IdToken ''waiter:seat-consumer-a'',
      rs_seat_ref = OpaqueRef ''seat:consumer-a'', rs_registration_revision = IdToken ''regrev-1'',
      rs_logical_deadline = ts_1700, rs_authn_mode = AuthnModeOptional,
      rs_aggregate_limits = \<lparr>wb_max_events = 100, wb_max_bytes = 1048576\<rparr>,
      rs_registration_digest = \<lparr>jd_canonicalization = Rfc8785, jd_algorithm = Sha256,
        jd_value = replicate 64 (CHR ''0'')\<rparr>,
      rs_registrations = registrations\<rparr>"

definition fixture_registration :: "string \<Rightarrow> string \<Rightarrow> string \<Rightarrow> registration" where
  "fixture_registration registration method subject =
     \<lparr>reg_id = IdToken registration, reg_method_id = IdToken method,
      reg_subject_kind = IdToken ''subject'', reg_subject_id = IdToken subject, reg_required = True,
      reg_source_instance_ref = OpaqueRef ''source:provider-a'', reg_predicate_ref = PredicateRef ''pred:match'',
      reg_capability_ref = OpaqueRef ''cap:wait'', reg_lease_expires_at = ts_next_day,
      reg_bounds = \<lparr>wb_max_events = 50, wb_max_bytes = 524288\<rparr>,
      reg_start_anchor = Some cursor_0, reg_baseline_policy = None, reg_priority = None\<rparr>"

definition fixture_registration_baseline :: "string \<Rightarrow> string \<Rightarrow> string \<Rightarrow> registration" where
  "fixture_registration_baseline registration method subject =
     (fixture_registration registration method subject)
       \<lparr>reg_start_anchor := None, reg_baseline_policy := Some Latest\<rparr>"

definition with_priority :: "registration \<Rightarrow> u8 \<Rightarrow> registration" where
  "with_priority reg priority = reg\<lparr>reg_priority := Some priority\<rparr>"

definition arm_id_for :: "registration \<Rightarrow> id_token" where
  "arm_id_for reg =
     IdToken (''arm:'' @ (case strip_prefix ''reg:'' (id_str (reg_id reg)) of
                           Some rest \<Rightarrow> rest | None \<Rightarrow> id_str (reg_id reg)))"

definition fixture_poll_cycle_request :: "registration_set \<Rightarrow> poll_cycle_request" where
  "fixture_poll_cycle_request rset =
     \<lparr>capabilities = [CapabilityToken ''contract: agent-wait/v0''],
      message_id = IdToken ''msg:aw-poll-req-1'', correlation_id = IdToken ''corr:aw-1'',
      created_at = ts_1601, hdr_actor_ref = ActorRef ''seat:consumer-a'',
      causation_id = Some (IdToken ''msg:aw-reg-1''),
      grant_ref = None, verification_receipt_ref = None, policy_decision_ref = None,
      pr_waiter_id = IdToken ''waiter:seat-consumer-a'',
      pr_registration_set_ref = IdToken ''msg:aw-reg-1'', pr_registration_revision = IdToken ''regrev-1'',
      pr_logical_deadline = ts_1700, pr_run_deadline = ts_1620,
      pr_required_arms = map arm_id_for (filter reg_required (rs_registrations rset)),
      pr_fairness_cursor = IdToken ''fair:start'', pr_acknowledged_anchors = [],
      pr_activation_ref = OpaqueRef ''act:cycle-1'', pr_cycle_id = IdToken ''cycle:1'', pr_bound = None\<rparr>"

definition ack_poll_outcome :: "poll_cycle_outcome \<Rightarrow> poll_cycle_ack" where
  "ack_poll_outcome out =
     \<lparr>capabilities = capabilities out, message_id = IdToken (id_str (message_id out) @ '':ack''),
      correlation_id = correlation_id out, created_at = po_completed_at out,
      hdr_actor_ref = hdr_actor_ref out, causation_id = Some (message_id out),
      grant_ref = grant_ref out, verification_receipt_ref = verification_receipt_ref out,
      policy_decision_ref = policy_decision_ref out,
      pa_waiter_id = po_waiter_id out, pa_outcome_ref = message_id out,
      pa_committed_anchors = po_retained_through out, pa_retained_events = po_retained_events out\<rparr>"

definition fixture_live_wait_request :: live_wait_request where
  "fixture_live_wait_request =
     \<lparr>capabilities = [CapabilityToken ''contract: agent-wait/v0''],
      message_id = IdToken ''msg:aw-live-req-1'', correlation_id = IdToken ''corr:aw-1'',
      created_at = ts_1601, hdr_actor_ref = ActorRef ''seat:consumer-a'',
      causation_id = Some (IdToken ''msg:aw-reg-1''),
      grant_ref = None, verification_receipt_ref = None, policy_decision_ref = None,
      lr_waiter_id = IdToken ''waiter:seat-consumer-a'',
      lr_registration_set_ref = IdToken ''msg:aw-reg-1'', lr_registration_revision = IdToken ''regrev-1'',
      lr_logical_deadline = ts_1700, lr_run_deadline = ts_1620\<rparr>"

definition fixture_wait_event :: "string \<Rightarrow> string \<Rightarrow> string \<Rightarrow> timestamp \<Rightarrow> wait_event" where
  "fixture_wait_event registration method event at =
     \<lparr>ev_event_id = IdToken event, ev_registration_id = IdToken registration,
      ev_source_instance_ref = OpaqueRef ''source:provider-a'', ev_method_id = IdToken method,
      ev_subject_kind = IdToken ''subject'', ev_subject_id = IdToken ''subject:1'',
      ev_occurred_at = at, ev_observed_at = at, ev_start_anchor = cursor_0,
      ev_proposed_next_anchor = \<lparr>anc_kind = ProviderOpaque, anc_value = IdToken ''anc:after-1''\<rparr>,
      ev_replay_status = Fresh, ev_correlation_id = IdToken ''corr:aw-1'', ev_causation_id = None,
      ev_payload = \<lparr>pl_payload_ref = OpaqueRef ''msg:payload-1'',
        pl_content_digest = \<lparr>cd_algorithm = Sha256, cd_value = replicate 64 (CHR ''c'')\<rparr>, pl_media_type = None\<rparr>,
      ev_delivery_ref = None, ev_activation_ref = None\<rparr>"

section \<open>The receipts seam\<close>

record scripted_receipts =
  sr_deliveries :: "delivery_evidence list"
  sr_activations :: "activation_evidence list"

definition sr_deliver :: "opaque_ref \<Rightarrow> scripted_receipts \<Rightarrow> delivery_evidence \<times> scripted_receipts" where
  "sr_deliver r s = (DeliveryEvidence r, s\<lparr>sr_deliveries := sr_deliveries s @ [DeliveryEvidence r]\<rparr>)"

definition sr_activate :: "opaque_ref \<Rightarrow> scripted_receipts \<Rightarrow> activation_evidence \<times> scripted_receipts" where
  "sr_activate r s = (ActivationEvidence r, s\<lparr>sr_activations := sr_activations s @ [ActivationEvidence r]\<rparr>)"

end
