(* ===== verification/Testkit_Observers.thy ===== *)
theory Testkit_Observers
  imports Testkit_Clock
begin

text \<open>
  The observers of \<^verbatim>\<open>waitprims-testkit\<close> (\<^verbatim>\<open>observer.rs\<close>) over the logical clock: one that replays
  a script, one that is always idle, and one that never runs dry. Each is given as an
  environment of the runners, and each is shown to keep custody of its events and to obey the
  laws of the clock.
\<close>

section \<open>The shared world\<close>

record tk_world =
  tk_clock :: fake_clock
  tk_cancel :: bool
  tk_tracker :: tracker

definition cancel_trigger :: "'a tk_world_scheme \<Rightarrow> 'a tk_world_scheme" where
  "cancel_trigger w = w\<lparr>tk_cancel := True\<rparr>"

definition tk_now :: "'a tk_world_scheme \<Rightarrow> timestamp \<times> 'a tk_world_scheme" where
  "tk_now w = (fc_now (tk_clock w), w)"

definition tk_sleep :: "'a tk_world_scheme \<Rightarrow> timestamp \<Rightarrow> unit poll \<times> 'a tk_world_scheme" where
  "tk_sleep w d = (let (p, c) = fc_sleep_to d (tk_clock w) in (p, w\<lparr>tk_clock := c\<rparr>))"

definition tk_is_cancelled :: "'a tk_world_scheme \<Rightarrow> bool \<times> 'a tk_world_scheme" where
  "tk_is_cancelled w = (tk_cancel w, w)"

definition tk_park :: "bool \<Rightarrow> 'a tk_world_scheme \<Rightarrow> 'a tk_world_scheme" where
  "tk_park auto w = w\<lparr>tk_clock := fc_park auto (tk_clock w)\<rparr>"

definition tk_acquire :: "registration \<Rightarrow> 'a tk_world_scheme \<Rightarrow> 'a tk_world_scheme" where
  "tk_acquire reg w = w\<lparr>tk_tracker := tracker_acquire (id_str (reg_id reg)) (tk_tracker w)\<rparr>"

definition tk_clk :: "'a tk_world_scheme \<Rightarrow> int" where
  "tk_clk w = ts_instant (fc_now (tk_clock w))"

definition tk_later :: "'a tk_world_scheme \<Rightarrow> 'a tk_world_scheme \<Rightarrow> bool" where
  "tk_later w w' \<longleftrightarrow> tk_clk w \<le> tk_clk w' \<and> (tk_cancel w \<longrightarrow> tk_cancel w')"

lemma tk_now_D: "tk_now w = (t, w') \<Longrightarrow> w' = w \<and> ts_instant t = tk_clk w"
  by (auto simp: tk_now_def tk_clk_def)

lemma tk_sleep_clk: "tk_sleep w d = (p, w') \<Longrightarrow> tk_clk w' = tk_clk w \<and> tk_cancel w' = tk_cancel w"
  by (auto simp: tk_sleep_def tk_clk_def fc_sleep_to_def split: if_splits prod.splits)

lemma tk_sleep_Ready: "tk_sleep w d = (Ready u, w') \<Longrightarrow> ts_instant d \<le> tk_clk w'"
  by (auto simp: tk_sleep_def tk_clk_def fc_sleep_to_def ts_le_def split: if_splits prod.splits)

lemma tk_sleep_Pending:
  assumes "tk_sleep w d = (Pending, w')"
  shows "tk_clk w < ts_instant d \<and> tk_clk w' < tk_clk (tk_park True w')"
proof -
  obtain p c where c: "fc_sleep_to d (tk_clock w) = (p, c)" by fastforce
  with assms have p: "p = Pending" "w' = w\<lparr>tk_clock := c\<rparr>" by (auto simp: tk_sleep_def)
  with fc_park_progress [of d "tk_clock w" c] c
  have "tk_clk w' < tk_clk (tk_park True w')" by (simp add: tk_clk_def tk_park_def)
  moreover from c p have "tk_clk w < ts_instant d"
    by (auto simp: tk_clk_def fc_sleep_to_def ts_le_def split: if_splits)
  ultimately show ?thesis by simp
qed

lemma tk_park_later: "tk_later w (tk_park auto w)"
  by (simp add: tk_later_def tk_clk_def tk_park_def fc_park_mono)

lemma tk_later_refl [simp]: "tk_later w w"
  by (simp add: tk_later_def)

lemma tk_later_update [simp]:
  "tk_later w (w\<lparr>tk_tracker := t\<rparr>)" "tk_later w (tk_acquire reg w)"
  by (simp_all add: tk_later_def tk_clk_def tk_acquire_def)

section \<open>The scripted observer\<close>

datatype arm_fault = F_Outage id_token | F_CursorUncertain id_token | F_Degraded id_token | F_Failed id_token

record script =
  sp_buffer_limit :: nat
  sp_events :: "wait_event list"

definition script_default :: script where
  "script_default = \<lparr>sp_buffer_limit = 8, sp_events = []\<rparr>"

record scripted_world = tk_world +
  so_buffer_limit :: nat
  so_events :: "(string, wait_event list) btree"
  so_overflowed :: bset
  so_faults :: "(string, arm_fault) btree"
  so_hang_binds :: bset
  so_bind_requested :: "(string, anchor option) btree"
  so_bind_resolved :: "(string, anchor) btree"

text \<open>Events are grouped by registration and sorted by time, then by id.\<close>

fun so_group :: "wait_event list \<Rightarrow> (string, wait_event list) btree \<Rightarrow> (string, wait_event list) btree" where
  "so_group [] m = m"
| "so_group (ev # evs) m =
     (let rid = id_str (ev_registration_id ev);
          have_events = (case bt_get m rid of Some q \<Rightarrow> q | None \<Rightarrow> [])
      in so_group evs (bt_insert rid (have_events @ [ev]) m))"

definition so_sort :: "wait_event list \<Rightarrow> wait_event list" where
  "so_sort evs = sort_key (\<lambda>ev. ts_instant (ev_observed_at ev)) (sort_key (\<lambda>ev. id_str (ev_event_id ev)) evs)"

definition scripted_new :: "script \<Rightarrow> timestamp \<Rightarrow> scripted_world" where
  "scripted_new sp now =
     \<lparr>tk_clock = fc_new now, tk_cancel = False, tk_tracker = tracker_new,
      so_buffer_limit = max (sp_buffer_limit sp) 1,
      so_events = map (\<lambda>(rid, evs). (rid, so_sort evs)) (so_group (sp_events sp) []),
      so_overflowed = [], so_faults = [], so_hang_binds = [],
      so_bind_requested = [], so_bind_resolved = []\<rparr>"

definition so_hang_bind :: "string \<Rightarrow> scripted_world \<Rightarrow> scripted_world" where
  "so_hang_bind rid w = w\<lparr>so_hang_binds := bt_insert rid () (so_hang_binds w)\<rparr>"

definition so_release_hang_bind :: "string \<Rightarrow> scripted_world \<Rightarrow> scripted_world" where
  "so_release_hang_bind rid w = w\<lparr>so_hang_binds := bt_remove rid (so_hang_binds w)\<rparr>"

definition so_set_fault :: "string \<Rightarrow> arm_fault \<Rightarrow> scripted_world \<Rightarrow> scripted_world" where
  "so_set_fault rid fault w = w\<lparr>so_faults := bt_insert rid fault (so_faults w)\<rparr>"

definition so_fault_observation :: "scripted_world \<Rightarrow> string \<Rightarrow> observation option" where
  "so_fault_observation w rid =
     map_option (\<lambda>fault. case fault of F_Outage r \<Rightarrow> Obs_Outage r
                   | F_CursorUncertain r \<Rightarrow> Obs_CursorUncertain r
                   | F_Degraded r \<Rightarrow> Obs_Degraded r
                   | F_Failed r \<Rightarrow> Obs_Failed r) (bt_get (so_faults w) rid)"

definition so_queued_event_ids :: "scripted_world \<Rightarrow> (string, string list) btree" where
  "so_queued_event_ids w = map (\<lambda>(rid, q). (rid, map (\<lambda>ev. id_str (ev_event_id ev)) q)) (so_events w)"

definition so_take_due :: "scripted_world \<Rightarrow> string \<Rightarrow> observation option \<times> scripted_world" where
  "so_take_due w rid =
     (case so_fault_observation w rid of
        Some fault \<Rightarrow> (Some fault, w)
      | None \<Rightarrow>
          if bt_contains (so_overflowed w) rid then (Some Obs_Overflow, w)
          else case bt_get (so_events w) rid of
                 None \<Rightarrow> (None, w)
               | Some queue \<Rightarrow>
                   (let due = length (filter (\<lambda>ev. ts_le (ev_observed_at ev) (fc_now (tk_clock w))) queue)
                    in if so_buffer_limit w < due
                       then (Some Obs_Overflow, w\<lparr>so_overflowed := bt_insert rid () (so_overflowed w)\<rparr>)
                       else if due = 0 then (None, w)
                       else case queue of
                              [] \<Rightarrow> (None, w)
                            | ev # rest \<Rightarrow>
                                (Some (Obs_Event ev), w\<lparr>so_events := bt_insert rid rest (so_events w)\<rparr>)))"

definition so_front :: "scripted_world \<Rightarrow> string \<Rightarrow> wait_event option" where
  "so_front w rid =
     (case bt_get (so_events w) rid of Some (ev # _) \<Rightarrow> Some ev | _ \<Rightarrow> None)"

definition so_next_ready_at :: "scripted_world \<Rightarrow> string \<Rightarrow> timestamp option" where
  "so_next_ready_at w rid = map_option ev_observed_at (so_front w rid)"

definition so_script_head :: "scripted_world \<Rightarrow> string \<Rightarrow> anchor option" where
  "so_script_head w rid = map_option ev_start_anchor (so_front w rid)"

definition so_bind :: "scripted_world \<Rightarrow> registration \<Rightarrow> (error + tracked_bind) poll \<times> scripted_world" where
  "so_bind w reg =
     (let rid = id_str (reg_id reg)
      in if bt_contains (so_hang_binds w) rid then (Pending, w)
         else let w = tk_acquire reg w;
                  resolved = resolve_start_at_bind reg (so_script_head w rid)
              in (Ready (Inr \<lparr>tb_registration_id = reg_id reg, tb_resolved_start = resolved\<rparr>),
                  w\<lparr>so_bind_requested := bt_insert rid (reg_start_anchor reg) (so_bind_requested w),
                    so_bind_resolved := bt_insert rid resolved (so_bind_resolved w)\<rparr>))"

text \<open>
  One poll of \<open>next\<close>. When nothing is due the future sleeps until the event at the front; that
  event lies in the future, so the loop does not come round within the poll.
\<close>

definition so_next :: "scripted_world \<Rightarrow> tracked_bind \<Rightarrow> (error + observation) poll \<times> scripted_world" where
  "so_next w b =
     (let rid = id_str (tb_registration_id b)
      in case so_take_due w rid of
           (Some obs, w) \<Rightarrow> (Ready (Inr obs), w)
         | (None, w) \<Rightarrow>
             (case so_next_ready_at w rid of
                Some when \<Rightarrow> (Pending, snd (tk_sleep w when))
              | None \<Rightarrow> (Pending, w)))"

definition so_poll_ready :: "scripted_world \<Rightarrow> tracked_bind \<Rightarrow> observation option \<times> scripted_world" where
  "so_poll_ready w b = so_take_due w (id_str (tb_registration_id b))"

definition so_restore_ready ::
  "scripted_world \<Rightarrow> tracked_bind \<Rightarrow> observation \<Rightarrow> (error + unit) \<times> scripted_world" where
  "so_restore_ready w b obs =
     (case obs of
        Obs_Event ev \<Rightarrow>
          (let rid = id_str (tb_registration_id b);
               queue = (case bt_get (so_events w) rid of Some q \<Rightarrow> q | None \<Rightarrow> [])
           in (Inr (), w\<lparr>so_events := bt_insert rid (ev # queue) (so_events w)\<rparr>))
      | _ \<Rightarrow> (Inr (), w))"

definition scripted_env :: "calendar \<Rightarrow> bool \<Rightarrow> (scripted_world, tracked_bind) env" where
  "scripted_env cal auto =
     \<lparr>env_bind = so_bind, env_next = so_next, env_poll_ready = so_poll_ready,
      env_restore_ready = so_restore_ready, env_registration_id = tb_registration_id,
      env_resolved_start = tb_resolved_start, env_now = tk_now, env_sleep_until = tk_sleep,
      env_is_cancelled = tk_is_cancelled, env_park = tk_park auto, env_calendar = cal\<rparr>"

definition so_queue :: "scripted_world \<Rightarrow> id_token \<Rightarrow> wait_event list" where
  "so_queue w r = (case bt_get (so_events w) (id_str r) of Some q \<Rightarrow> q | None \<Rightarrow> [])"

lemma so_queue_cong: "so_events w' = so_events w \<Longrightarrow> so_queue w' = so_queue w"
  by (rule ext) (simp add: so_queue_def)

lemma fault_not_event: "so_fault_observation w rid = Some obs \<Longrightarrow> \<not> observation_is_replayable obs"
  by (cases "bt_get (so_faults w) rid") (auto simp: so_fault_observation_def split: arm_fault.splits)

lemma so_take_due_cases:
  obtains
    (signal) obs w' where "so_take_due w rid = (Some obs, w')" "\<not> observation_is_replayable obs"
      "w' = w \<or> w' = w\<lparr>so_overflowed := bt_insert rid () (so_overflowed w)\<rparr>"
  | (quiet) "so_take_due w rid = (None, w)"
      "\<And>when. so_next_ready_at w rid = Some when \<Longrightarrow> ts_less (fc_now (tk_clock w)) when"
  | (event) ev rest where "bt_get (so_events w) rid = Some (ev # rest)"
      "so_take_due w rid = (Some (Obs_Event ev), w\<lparr>so_events := bt_insert rid rest (so_events w)\<rparr>)"
proof (cases "so_fault_observation w rid")
  case (Some obs)
  with fault_not_event [OF Some] show ?thesis by (intro signal [of obs w]) (simp_all add: so_take_due_def)
next
  case nofault: None
  show ?thesis
  proof (cases "bt_contains (so_overflowed w) rid")
    case True
    with nofault show ?thesis by (intro signal [of Obs_Overflow w]) (simp_all add: so_take_due_def)
  next
    case False
    show ?thesis
    proof (cases "bt_get (so_events w) rid")
      case None
      with nofault False show ?thesis
        by (intro quiet) (simp_all add: so_take_due_def so_next_ready_at_def so_front_def)
    next
      case (Some queue)
      let ?due = "length (filter (\<lambda>ev. ts_le (ev_observed_at ev) (fc_now (tk_clock w))) queue)"
      consider "so_buffer_limit w < ?due" | "\<not> so_buffer_limit w < ?due" "?due = 0"
        | ev rest where "\<not> so_buffer_limit w < ?due" "?due \<noteq> 0" "queue = ev # rest"
        by (cases queue) auto
      then show ?thesis
      proof cases
        case 1
        with nofault False Some show ?thesis 
          by (intro signal [of Obs_Overflow "w\<lparr>so_overflowed := bt_insert rid () (so_overflowed w)\<rparr>"])
            (simp_all add: so_take_due_def)
      next
        case 2
        with nofault False Some show ?thesis
          by (intro quiet)
            (auto simp: so_take_due_def so_next_ready_at_def so_front_def split: list.splits if_splits)
      next
        case 3
        with nofault False Some show ?thesis by (intro event [of ev rest]) (simp_all add: so_take_due_def Let_def)
      qed
    qed
  qed
qed

lemma so_take_due_event:
  assumes "so_take_due w (id_str r) = (Some (Obs_Event ev), w')"
  shows "took (so_queue w) r ev (so_queue w') \<and> so_queue w r \<noteq> []"
proof (cases rule: so_take_due_cases [of w "id_str r"])
  case (event ev1 rest)
  with assms have "so_queue w' = (so_queue w)(r := rest)" "ev1 = ev"
    by (auto simp: so_queue_def fun_eq_iff)
  with event(1) show ?thesis by (simp add: took_def so_queue_def)
qed (use assms in auto)

lemma so_take_due_other:
  assumes "so_take_due w rid = (q, w')" "\<And>ev. q \<noteq> Some (Obs_Event ev)"
  shows "so_events w' = so_events w"
  by (cases rule: so_take_due_cases [of w rid]) (use assms in auto)

lemma so_take_due_later:
  assumes "so_take_due w rid = (q, w')"
  shows "tk_later w w'"
  by (cases rule: so_take_due_cases [of w rid]) (use assms in \<open>auto simp: tk_later_def tk_clk_def\<close>)

text \<open>When nothing is due, the front of the queue lies in the future.\<close>

lemma so_take_due_None:
  assumes "so_take_due w rid = (None, w')"
  shows "w' = w \<and> (\<forall>when. so_next_ready_at w rid = Some when \<longrightarrow> ts_less (fc_now (tk_clock w)) when)"
  by (cases rule: so_take_due_cases [of w rid]) (use assms in auto)

lemma tk_sleep_events [simp]: "so_events (snd (tk_sleep w d)) = so_events w"
  by (auto simp: tk_sleep_def split: prod.splits)

lemma so_next_event: "so_next w b = (Ready (Inr obs), w') \<longleftrightarrow> so_poll_ready w b = (Some obs, w')"
proof -
  obtain q w1 where "so_take_due w (id_str (tb_registration_id b)) = (q, w1)" by fastforce
  then show ?thesis
    by (cases q) (auto simp: so_next_def so_poll_ready_def Let_def split: option.splits)
qed

lemma so_next_other:
  assumes "so_next w b = (r, w')" "\<And>ev. r \<noteq> Ready (Inr (Obs_Event ev))"
  shows "so_events w' = so_events w"
proof -
  obtain q w1 where q: "so_take_due w (id_str (tb_registration_id b)) = (q, w1)" by fastforce
  show ?thesis
  proof (cases q)
    case None
    with q so_take_due_None [of w "id_str (tb_registration_id b)" w1] assms show ?thesis
      by (auto simp: so_next_def Let_def split: option.splits)
  next
    case (Some obs)
    with q assms so_take_due_other [OF q] show ?thesis
      by (auto simp: so_next_def Let_def)
  qed
qed

lemma tk_sleep_later: "tk_sleep w d = (p, w') \<Longrightarrow> tk_later w w'"
  by (auto simp: tk_later_def dest: tk_sleep_clk)

lemma so_next_later:
  assumes "so_next w b = (r, w')"
  shows "tk_later w w'"
proof -
  obtain q w1 where q: "so_take_due w (id_str (tb_registration_id b)) = (q, w1)" by fastforce
  show ?thesis
  proof (cases q)
    case None
    with q so_take_due_None [of w "id_str (tb_registration_id b)" w1] assms show ?thesis
      by (auto simp: so_next_def Let_def intro!: tk_sleep_later [of w _ "fst (tk_sleep w d)" for d] prod.collapse [symmetric]
          split: option.splits)
  next
    case (Some obs)
    with q assms so_take_due_later [OF q] show ?thesis by (auto simp: so_next_def Let_def)
  qed
qed

lemma so_bind_later: "so_bind w reg = (r, w') \<Longrightarrow> tk_later w w' \<and> so_events w' = so_events w"
  by (auto simp: so_bind_def Let_def tk_later_def tk_clk_def tk_acquire_def split: if_splits)

lemma so_restore_later: "so_restore_ready w b obs = (r, w') \<Longrightarrow> tk_later w w'"
  by (cases obs) (auto simp: so_restore_ready_def Let_def tk_later_def tk_clk_def)

interpretation scripted: observer_restores "scripted_env cal auto" so_queue for cal auto
proof unfold_locales
  fix w b e w'
  assume "env_restore_ready (scripted_env cal auto) w b (Obs_Event e) = (Inr (), w')"
  then show "so_queue w' = (so_queue w)(env_registration_id (scripted_env cal auto) b :=
      e # so_queue w (env_registration_id (scripted_env cal auto) b))"
    by (intro ext) (auto simp: scripted_env_def so_restore_ready_def so_queue_def Let_def)
next
  fix w b w' nres
  assume "env_next (scripted_env cal auto) w b = (nres, w')" "\<And>e. nres \<noteq> Ready (Inr (Obs_Event e))"
  then show "so_queue w' = so_queue w"
    by (intro so_queue_cong) (auto simp: scripted_env_def intro: so_next_other)
next
  fix w b w' q
  assume "env_poll_ready (scripted_env cal auto) w b = (q, w')" "\<And>e. q \<noteq> Some (Obs_Event e)"
  then show "so_queue w' = so_queue w"
    by (intro so_queue_cong) (auto simp: scripted_env_def so_poll_ready_def intro: so_take_due_other)
next
  fix w b obs rres w'
  assume "env_restore_ready (scripted_env cal auto) w b obs = (rres, w')" "\<not> observation_is_replayable obs"
  then show "so_queue w' = so_queue w"
    by (cases obs) (auto simp: scripted_env_def so_restore_ready_def)
next
  fix w b e w'
  show "env_next (scripted_env cal auto) w b = (Ready (Inr (Obs_Event e)), w') \<Longrightarrow>
      took (so_queue w) (env_registration_id (scripted_env cal auto) b) e (so_queue w')"
    "env_poll_ready (scripted_env cal auto) w b = (Some (Obs_Event e), w') \<Longrightarrow>
      took (so_queue w) (env_registration_id (scripted_env cal auto) b) e (so_queue w')"
    by (auto simp: scripted_env_def so_next_event so_poll_ready_def dest: so_take_due_event)
next
  fix w reg r w'
  assume "env_bind (scripted_env cal auto) w reg = (r, w')"
  then show "so_queue w' = so_queue w"
    by (intro so_queue_cong) (simp add: scripted_env_def so_bind_later)
next
  fix w reg b w'
  assume "env_bind (scripted_env cal auto) w reg = (Ready (Inr b), w')"
  then show "env_registration_id (scripted_env cal auto) b = reg_id reg"
    by (auto simp: scripted_env_def so_bind_def Let_def split: if_splits)
next
  fix w b obs err w'
  show "env_restore_ready (scripted_env cal auto) w b obs = (Inl err, w') \<Longrightarrow> so_queue w' = so_queue w"
    "fst (env_restore_ready (scripted_env cal auto) w b obs) = Inr ()"
    by (cases obs; simp add: scripted_env_def so_restore_ready_def Let_def)+
next
  fix w t p w'
  assume "env_sleep_until (scripted_env cal auto) w t = (p, w')"
  then show "so_queue w' = so_queue w"
    by (intro so_queue_cong) (auto simp: scripted_env_def tk_sleep_def split: prod.splits)
qed (auto simp: scripted_env_def tk_now_def tk_is_cancelled_def tk_park_def intro!: so_queue_cong)

interpretation scripted_clock: clock_laws "scripted_env cal True" tk_clk tk_cancel tk_later for cal
proof unfold_locales
  fix w t p u w'
  show "env_sleep_until (scripted_env cal True) w t = (p, w') \<Longrightarrow> tk_later w w'"
    "env_sleep_until (scripted_env cal True) w t = (Ready u, w') \<Longrightarrow> ts_instant t \<le> tk_clk w'"
    "env_sleep_until (scripted_env cal True) w t = (Pending, w') \<Longrightarrow> tk_clk w < ts_instant t"
    "env_sleep_until (scripted_env cal True) w t = (Pending, w') \<Longrightarrow>
       tk_clk w' < tk_clk (env_park (scripted_env cal True) w')"
    by (auto simp: scripted_env_def dest: tk_sleep_later tk_sleep_Ready tk_sleep_Pending)
next
  fix w w' :: scripted_world
  show "tk_later w w' \<longleftrightarrow> tk_clk w \<le> tk_clk w' \<and> (tk_cancel w \<longrightarrow> tk_cancel w')"
    by (simp add: tk_later_def)
qed (auto simp: scripted_env_def so_poll_ready_def tk_is_cancelled_def tk_park_later
    dest: so_bind_later so_next_later so_take_due_later so_restore_later tk_now_D)

section \<open>The idle observer\<close>

definition idle_bind :: "tk_world \<Rightarrow> registration \<Rightarrow> (error + tracked_bind) poll \<times> tk_world" where
  "idle_bind w reg =
     (Ready (Inr \<lparr>tb_registration_id = reg_id reg, tb_resolved_start = resolve_start_at_bind reg None\<rparr>),
      tk_acquire reg w)"

definition idle_env :: "calendar \<Rightarrow> bool \<Rightarrow> (tk_world, tracked_bind) env" where
  "idle_env cal auto =
     \<lparr>env_bind = idle_bind, env_next = (\<lambda>w b. (Ready (Inr Obs_Idle), w)), env_poll_ready = (\<lambda>w b. (None, w)),
      env_restore_ready = (\<lambda>w b obs. (Inr (), w)), env_registration_id = tb_registration_id,
      env_resolved_start = tb_resolved_start, env_now = tk_now, env_sleep_until = tk_sleep,
      env_is_cancelled = tk_is_cancelled, env_park = tk_park auto, env_calendar = cal\<rparr>"

text \<open>
  Its \<open>restore_ready\<close> discards what it is given, so it keeps no custody; it never hands out an
  event either, which is why the runners can use it.
\<close>

lemma idle_no_event:
  "env_next (idle_env cal auto) w b = (r, w') \<Longrightarrow> r = Ready (Inr Obs_Idle)"
  "env_poll_ready (idle_env cal auto) w b = (q, w') \<Longrightarrow> q = None"
  by (auto simp: idle_env_def)

interpretation idle_clock: clock_laws "idle_env cal True" tk_clk tk_cancel tk_later for cal
proof unfold_locales
  fix w t p u w'
  show "env_sleep_until (idle_env cal True) w t = (p, w') \<Longrightarrow> tk_later w w'"
    "env_sleep_until (idle_env cal True) w t = (Ready u, w') \<Longrightarrow> ts_instant t \<le> tk_clk w'"
    "env_sleep_until (idle_env cal True) w t = (Pending, w') \<Longrightarrow> tk_clk w < ts_instant t"
    "env_sleep_until (idle_env cal True) w t = (Pending, w') \<Longrightarrow>
       tk_clk w' < tk_clk (env_park (idle_env cal True) w')"
    by (auto simp: idle_env_def dest: tk_sleep_later tk_sleep_Ready tk_sleep_Pending)
next
  fix w w' :: tk_world
  show "tk_later w w' \<longleftrightarrow> tk_clk w \<le> tk_clk w' \<and> (tk_cancel w \<longrightarrow> tk_cancel w')"
    by (simp add: tk_later_def)
qed (auto simp: idle_env_def idle_bind_def tk_is_cancelled_def tk_park_later dest: tk_now_D)

section \<open>The observer that never runs dry\<close>

record endless_world = tk_world +
  eo_seq :: u64
  eo_restored :: "(string, wait_event list) btree"

definition endless_new :: "timestamp \<Rightarrow> endless_world" where
  "endless_new now =
     \<lparr>tk_clock = fc_new now, tk_cancel = False, tk_tracker = tracker_new, eo_seq = 0, eo_restored = []\<rparr>"

definition eo_mint :: "endless_world \<Rightarrow> tracked_bind \<Rightarrow> wait_event \<times> endless_world" where
  "eo_mint w b =
     (let n = dec (unat (eo_seq w));
          ev = fixture_wait_event (id_str (tb_registration_id b)) ''method'' (''evt:endless-'' @ n) ts_1601
      in (ev\<lparr>ev_start_anchor := tb_resolved_start b,
             ev_proposed_next_anchor :=
               \<lparr>anc_kind = anc_kind (ev_proposed_next_anchor ev),
                anc_value = IdToken (''anc:after-endless-'' @ n)\<rparr>\<rparr>,
          w\<lparr>eo_seq := eo_seq w + 1\<rparr>))"

definition eo_take :: "endless_world \<Rightarrow> tracked_bind \<Rightarrow> wait_event \<times> endless_world" where
  "eo_take w b =
     (let rid = id_str (tb_registration_id b)
      in case bt_get (eo_restored w) rid of
           Some (ev # rest) \<Rightarrow> (ev, w\<lparr>eo_restored := bt_insert rid rest (eo_restored w)\<rparr>)
         | _ \<Rightarrow> eo_mint w b)"

definition eo_bind :: "endless_world \<Rightarrow> registration \<Rightarrow> (error + tracked_bind) poll \<times> endless_world" where
  "eo_bind w reg =
     (Ready (Inr \<lparr>tb_registration_id = reg_id reg, tb_resolved_start = resolve_start_at_bind reg None\<rparr>),
      tk_acquire reg w)"

definition eo_next :: "endless_world \<Rightarrow> tracked_bind \<Rightarrow> (error + observation) poll \<times> endless_world" where
  "eo_next w b = (let (ev, w) = eo_take w b in (Ready (Inr (Obs_Event ev)), w))"

definition eo_poll_ready :: "endless_world \<Rightarrow> tracked_bind \<Rightarrow> observation option \<times> endless_world" where
  "eo_poll_ready w b = (let (ev, w) = eo_take w b in (Some (Obs_Event ev), w))"

definition eo_restore_ready ::
  "endless_world \<Rightarrow> tracked_bind \<Rightarrow> observation \<Rightarrow> (error + unit) \<times> endless_world" where
  "eo_restore_ready w b obs =
     (case obs of
        Obs_Event ev \<Rightarrow>
          (let rid = id_str (tb_registration_id b);
               queue = (case bt_get (eo_restored w) rid of Some q \<Rightarrow> q | None \<Rightarrow> [])
           in (Inr (), w\<lparr>eo_restored := bt_insert rid (ev # queue) (eo_restored w)\<rparr>))
      | _ \<Rightarrow> (Inr (), w))"

definition endless_env :: "calendar \<Rightarrow> bool \<Rightarrow> (endless_world, tracked_bind) env" where
  "endless_env cal auto =
     \<lparr>env_bind = eo_bind, env_next = eo_next, env_poll_ready = eo_poll_ready,
      env_restore_ready = eo_restore_ready, env_registration_id = tb_registration_id,
      env_resolved_start = tb_resolved_start, env_now = tk_now, env_sleep_until = tk_sleep,
      env_is_cancelled = tk_is_cancelled, env_park = tk_park auto, env_calendar = cal\<rparr>"

definition eo_queue :: "endless_world \<Rightarrow> id_token \<Rightarrow> wait_event list" where
  "eo_queue w r = (case bt_get (eo_restored w) (id_str r) of Some q \<Rightarrow> q | None \<Rightarrow> [])"

lemma eo_queue_cong: "eo_restored w' = eo_restored w \<Longrightarrow> eo_queue w' = eo_queue w"
  by (rule ext) (simp add: eo_queue_def)

lemma eo_take_took:
  assumes "eo_take w b = (ev, w')"
  shows "took (eo_queue w) (tb_registration_id b) ev (eo_queue w') \<and> tk_later w w'"
proof -
  let ?r = "tb_registration_id b"
  consider rest where "bt_get (eo_restored w) (id_str ?r) = Some (ev # rest)"
      "w' = w\<lparr>eo_restored := bt_insert (id_str ?r) rest (eo_restored w)\<rparr>"
    | "eo_queue w ?r = []" "w' = w\<lparr>eo_seq := eo_seq w + 1\<rparr>"
    using assms by (auto simp: eo_take_def eo_mint_def eo_queue_def Let_def split: option.splits list.splits)
  then show ?thesis
  proof cases
    case (1 rest)
    then have "eo_queue w' = (eo_queue w)(?r := rest)" "eo_queue w ?r = ev # rest"
      by (auto simp: eo_queue_def fun_eq_iff)
    with 1 show ?thesis by (simp add: took_def tk_later_def tk_clk_def)
  next
    case 2
    then have "eo_queue w' = eo_queue w" by (intro eo_queue_cong) simp
    with 2 show ?thesis by (simp add: took_def tk_later_def tk_clk_def fun_upd_idem)
  qed
qed

lemma eo_next_took:
  "eo_next w b = (r, w') \<Longrightarrow> \<exists>ev. r = Ready (Inr (Obs_Event ev)) \<and>
     took (eo_queue w) (tb_registration_id b) ev (eo_queue w') \<and> tk_later w w'"
  using eo_take_took [of w b] by (auto simp: eo_next_def split: prod.splits)

lemma eo_poll_ready_took:
  "eo_poll_ready w b = (q, w') \<Longrightarrow> \<exists>ev. q = Some (Obs_Event ev) \<and>
     took (eo_queue w) (tb_registration_id b) ev (eo_queue w') \<and> tk_later w w'"
  using eo_take_took [of w b] by (auto simp: eo_poll_ready_def split: prod.splits)

interpretation endless: observer_restores "endless_env cal auto" eo_queue for cal auto
proof unfold_locales
  fix w b e w'
  assume "env_restore_ready (endless_env cal auto) w b (Obs_Event e) = (Inr (), w')"
  then show "eo_queue w' = (eo_queue w)(env_registration_id (endless_env cal auto) b :=
      e # eo_queue w (env_registration_id (endless_env cal auto) b))"
    by (intro ext) (auto simp: endless_env_def eo_restore_ready_def eo_queue_def Let_def)
next
  fix w b obs rres err w'
  show "env_restore_ready (endless_env cal auto) w b obs = (Inl err, w') \<Longrightarrow> eo_queue w' = eo_queue w"
    "fst (env_restore_ready (endless_env cal auto) w b obs) = Inr ()"
    "env_restore_ready (endless_env cal auto) w b obs = (rres, w') \<Longrightarrow> \<not> observation_is_replayable obs \<Longrightarrow>
       eo_queue w' = eo_queue w"
    by (cases obs; simp add: endless_env_def eo_restore_ready_def Let_def)+
next
  fix w t p w'
  assume "env_sleep_until (endless_env cal auto) w t = (p, w')"
  then show "eo_queue w' = eo_queue w"
    by (intro eo_queue_cong) (auto simp: endless_env_def tk_sleep_def split: prod.splits)
qed (auto simp: endless_env_def eo_bind_def tk_acquire_def tk_now_def tk_is_cancelled_def tk_park_def
    dest!: eo_next_took eo_poll_ready_took intro!: eo_queue_cong)

interpretation endless_clock: clock_laws "endless_env cal True" tk_clk tk_cancel tk_later for cal
proof unfold_locales
  fix w t p u w'
  show "env_sleep_until (endless_env cal True) w t = (p, w') \<Longrightarrow> tk_later w w'"
    "env_sleep_until (endless_env cal True) w t = (Ready u, w') \<Longrightarrow> ts_instant t \<le> tk_clk w'"
    "env_sleep_until (endless_env cal True) w t = (Pending, w') \<Longrightarrow> tk_clk w < ts_instant t"
    "env_sleep_until (endless_env cal True) w t = (Pending, w') \<Longrightarrow>
       tk_clk w' < tk_clk (env_park (endless_env cal True) w')"
    by (auto simp: endless_env_def dest: tk_sleep_later tk_sleep_Ready tk_sleep_Pending)
next
  fix w w' :: endless_world
  show "tk_later w w' \<longleftrightarrow> tk_clk w \<le> tk_clk w' \<and> (tk_cancel w \<longrightarrow> tk_cancel w')"
    by (simp add: tk_later_def)
next
  fix w w' :: endless_world and b obs s
  assume "env_restore_ready (endless_env cal True) w b obs = (s, w')"
  then show "tk_later w w'"
    by (cases obs) (auto simp: endless_env_def eo_restore_ready_def Let_def tk_later_def tk_clk_def)
qed (auto simp: endless_env_def eo_bind_def tk_is_cancelled_def tk_park_later
    dest: tk_now_D eo_next_took eo_poll_ready_took)

end
