(* ===== verification/Slot_Set.thy ===== *)
theory Slot_Set
  imports First_Match_Run Poll_Cycle
begin

text \<open>
  The slots of a held session (\<^verbatim>\<open>SlotSet\<close> in \<^verbatim>\<open>crates/waitprims-async/src/follow.rs\<close>), which the
  follow and the coalesce runners share: one bind future, one bind, one observation future and
  one harvested observation for each registration, polled until nothing moves.
\<close>

section \<open>State\<close>

text \<open>
  \<open>ss_bind_futs\<close> holds the registration of a bind future that has not resolved; \<open>ss_next_futs\<close>
  the bind of an observation future that has not resolved. A future has no state of its own
  beyond that: polling it polls the observer.
\<close>

record 'b slot_set =
  ss_regs :: "registration list"
  ss_binds :: "'b slots"
  ss_bind_futs :: "registration option list"
  ss_next_futs :: "'b slots"
  ss_harvested :: "observation option list"
  ss_fault :: "error option"

definition cell :: "'a option list \<Rightarrow> nat \<Rightarrow> 'a option" where
  "cell xs i = (if i < length xs then xs ! i else None)"

definition ss_new :: "registration list \<Rightarrow> 'b slot_set" where
  "ss_new regs =
     \<lparr>ss_regs = regs, ss_binds = map (\<lambda>_. None) regs, ss_bind_futs = map Some regs,
      ss_next_futs = map (\<lambda>_. None) regs, ss_harvested = map (\<lambda>_. None) regs, ss_fault = None\<rparr>"

definition ss_len :: "'b slot_set \<Rightarrow> nat" where
  "ss_len s = length (ss_regs s)"

definition ss_index_of :: "'b slot_set \<Rightarrow> string \<Rightarrow> nat option" where
  "ss_index_of s rid = position (\<lambda>reg. id_str (reg_id reg) = rid) (ss_regs s)"

section \<open>Polling\<close>

text \<open>Only bound slots are armed; on any other the code panics.\<close>

definition arm_next :: "nat \<Rightarrow> 'b slot_set \<Rightarrow> 'b slot_set" where
  "arm_next idx s =
     (case cell (ss_binds s) idx of
        Some b \<Rightarrow> s\<lparr>ss_next_futs := (ss_next_futs s)[idx := Some b]\<rparr>
      | None \<Rightarrow> s)"

definition note_fault :: "error \<Rightarrow> 'b slot_set \<Rightarrow> 'b slot_set" where
  "note_fault err s = (if ss_fault s = None then s\<lparr>ss_fault := Some err\<rparr> else s)"

definition poll_slot_bind ::
  "('w, 'b) env \<Rightarrow> nat \<Rightarrow> 'b slot_set \<Rightarrow> 'w \<Rightarrow> bool \<times> 'b slot_set \<times> 'w" where
  "poll_slot_bind env idx s w =
     (case cell (ss_bind_futs s) idx of
        None \<Rightarrow> (False, s, w)
      | Some reg \<Rightarrow>
          (case env_bind env w reg of
             (Ready (Inr b), w) \<Rightarrow>
               (True, arm_next idx (s\<lparr>ss_bind_futs := (ss_bind_futs s)[idx := None],
                                      ss_binds := (ss_binds s)[idx := Some b]\<rparr>), w)
           | (Ready (Inl err), w) \<Rightarrow>
               (False, note_fault err (s\<lparr>ss_bind_futs := (ss_bind_futs s)[idx := None]\<rparr>), w)
           | (Pending, w) \<Rightarrow> (False, s, w)))"

definition poll_slot_next ::
  "('w, 'b) env \<Rightarrow> nat \<Rightarrow> 'b slot_set \<Rightarrow> 'w \<Rightarrow> bool \<times> 'b slot_set \<times> 'w" where
  "poll_slot_next env idx s w =
     (case cell (ss_next_futs s) idx of
        None \<Rightarrow> (False, s, w)
      | Some b \<Rightarrow>
          (case env_next env w b of
             (Ready (Inr obs), w) \<Rightarrow>
               (True, s\<lparr>ss_next_futs := (ss_next_futs s)[idx := None],
                        ss_harvested := (ss_harvested s)[idx := Some obs]\<rparr>, w)
           | (Ready (Inl err), w) \<Rightarrow>
               (False, note_fault err (s\<lparr>ss_next_futs := (ss_next_futs s)[idx := None]\<rparr>), w)
           | (Pending, w) \<Rightarrow> (False, s, w)))"

definition poll_slot ::
  "('w, 'b) env \<Rightarrow> nat \<Rightarrow> 'b slot_set \<Rightarrow> 'w \<Rightarrow> bool \<times> 'b slot_set \<times> 'w" where
  "poll_slot env idx s w =
     (if cell (ss_harvested s) idx \<noteq> None then (False, s, w)
      else case poll_slot_bind env idx s w of
             (p, s, w) \<Rightarrow>
               (case poll_slot_next env idx s w of (q, s, w) \<Rightarrow> (p \<or> q, s, w)))"

fun poll_pass ::
  "('w, 'b) env \<Rightarrow> nat list \<Rightarrow> bool \<Rightarrow> 'b slot_set \<Rightarrow> 'w \<Rightarrow> bool \<times> 'b slot_set \<times> 'w" where
  "poll_pass env [] progressed s w = (progressed, s, w)"
| "poll_pass env (idx # idxs) progressed s w =
     (case poll_slot env idx s w of (p, s, w) \<Rightarrow> poll_pass env idxs (progressed \<or> p) s w)"

text \<open>Two units of work for a bind that may resolve, one for an observation.\<close>

definition ss_work :: "'b slot_set \<Rightarrow> nat" where
  "ss_work s = 2 * length (filter (\<lambda>f. f \<noteq> None) (ss_bind_futs s))
             + length (filter (\<lambda>f. f \<noteq> None) (ss_next_futs s))"

lemma occupied_update:
  "length (filter (\<lambda>f. f \<noteq> None) (xs[i := None])) =
     length (filter (\<lambda>f. f \<noteq> None) xs) - (if cell xs i \<noteq> None then 1 else 0)"
  "length (filter (\<lambda>f. f \<noteq> None) (xs[i := Some v])) \<le> length (filter (\<lambda>f. f \<noteq> None) xs) + 1"
  "cell xs i \<noteq> None \<Longrightarrow> 0 < length (filter (\<lambda>f. f \<noteq> None) xs)"
proof (induction xs arbitrary: i)
  case (Cons x xs)
  {
    case 1
    from Cons.IH(1) [of "i - 1"] Cons.IH(3) [of "i - 1"] show ?case
      by (cases i) (auto simp: cell_def split: if_splits)
  next
    case 2
    from Cons.IH(2) [of "i - 1"] show ?case by (cases i) auto
  next
    case 3
    with Cons.IH(3) [of "i - 1"] show ?case by (cases i) (auto simp: cell_def split: if_splits)
  }
qed (simp_all add: cell_def)

lemma arm_next_work: "ss_work (arm_next idx s) \<le> ss_work s + 1"
  using occupied_update(2) [of "ss_next_futs s" idx "the (cell (ss_binds s) idx)"]
  by (auto simp: arm_next_def ss_work_def split: option.split)

lemma note_fault_simps [simp]:
  "ss_work (note_fault err s) = ss_work s" "ss_regs (note_fault err s) = ss_regs s"
  "ss_binds (note_fault err s) = ss_binds s" "ss_bind_futs (note_fault err s) = ss_bind_futs s"
  "ss_next_futs (note_fault err s) = ss_next_futs s" "ss_harvested (note_fault err s) = ss_harvested s"
  by (simp_all add: note_fault_def ss_work_def)

lemma poll_slot_bind_work:
  assumes "poll_slot_bind env idx s w = (p, s', w')"
  shows "ss_work s' + (if p then 1 else 0) \<le> ss_work s"
proof (cases "cell (ss_bind_futs s) idx")
  case (Some reg)
  let ?n = "length (filter (\<lambda>f. f \<noteq> None) (ss_bind_futs s))"
  have n: "0 < ?n" using Some occupied_update(3) [of "ss_bind_futs s" idx] by simp
  have d: "length (filter (\<lambda>f. f \<noteq> None) ((ss_bind_futs s)[idx := None])) = ?n - 1"
    using Some occupied_update(1) [of "ss_bind_futs s" idx] by simp
  obtain r w1 where r: "env_bind env w reg = (r, w1)" by fastforce
  show ?thesis
  proof (cases "\<exists>b. r = Ready (Inr b)")
    case True
    then obtain b where b: "r = Ready (Inr b)" by blast
    let ?s = "s\<lparr>ss_bind_futs := (ss_bind_futs s)[idx := None], ss_binds := (ss_binds s)[idx := Some b]\<rparr>"
    from n obtain m where m: "?n = Suc m" by (metis gr0_conv_Suc)
    have "ss_work ?s + 2 \<le> ss_work s" using m d by (simp add: ss_work_def)
    with arm_next_work [of idx ?s] assms Some r b show ?thesis by (auto simp: poll_slot_bind_def)
  next
    case False
    have "ss_work (s\<lparr>ss_bind_futs := (ss_bind_futs s)[idx := None]\<rparr>) \<le> ss_work s"
      using d by (simp add: ss_work_def)
    with False assms Some r show ?thesis
      by (auto simp: poll_slot_bind_def split: poll.splits sum.splits)
  qed
qed (use assms in \<open>simp add: poll_slot_bind_def\<close>)

lemma poll_slot_next_work:
  assumes "poll_slot_next env idx s w = (p, s', w')"
  shows "ss_work s' + (if p then 1 else 0) \<le> ss_work s"
proof (cases "cell (ss_next_futs s) idx")
  case (Some b)
  have "ss_work (s\<lparr>ss_next_futs := (ss_next_futs s)[idx := None]\<rparr>) + 1 \<le> ss_work s"
    using Some occupied_update(1) [of "ss_next_futs s" idx] occupied_update(3) [of "ss_next_futs s" idx]
    by (simp add: ss_work_def)
  with assms Some show ?thesis
    by (auto simp: poll_slot_next_def ss_work_def split: prod.splits poll.splits sum.splits)
qed (use assms in \<open>simp add: poll_slot_next_def\<close>)

lemma poll_slot_work:
  assumes "poll_slot env idx s w = (p, s', w')"
  shows "ss_work s' + (if p then 1 else 0) \<le> ss_work s"
proof (cases "cell (ss_harvested s) idx")
  case None
  obtain p1 s1 w1 where b: "poll_slot_bind env idx s w = (p1, s1, w1)" by (metis prod_cases3)
  obtain p2 s2 w2 where n: "poll_slot_next env idx s1 w1 = (p2, s2, w2)" by (metis prod_cases3)
  from assms None b n poll_slot_bind_work [OF b] poll_slot_next_work [OF n] show ?thesis
    by (auto simp: poll_slot_def split: if_splits)
qed (use assms in \<open>simp add: poll_slot_def\<close>)

lemma poll_pass_work:
  "poll_pass env idxs p0 s w = (p, s', w') \<Longrightarrow> ss_work s' + (if p \<and> \<not> p0 then 1 else 0) \<le> ss_work s"
proof (induction idxs arbitrary: p0 s w)
  case (Cons idx idxs)
  obtain p1 s1 w1 where q: "poll_slot env idx s w = (p1, s1, w1)" by (metis prod_cases3)
  from Cons.IH [of "p0 \<or> p1" s1 w1] Cons.prems poll_slot_work [OF q] show ?case
    by (auto simp: q split: if_splits)
qed auto

text \<open>Passes over the slots go on while one of them moved.\<close>

function poll_available :: "('w, 'b) env \<Rightarrow> 'b slot_set \<Rightarrow> 'w \<Rightarrow> 'b slot_set \<times> 'w" where
  "poll_available env s w =
     (case poll_pass env [0..<ss_len s] False s w of
        (True, s, w) \<Rightarrow> poll_available env s w
      | (False, s, w) \<Rightarrow> (s, w))"
  by pat_completeness auto

termination
  by (relation "measure (\<lambda>(env, s, w). ss_work s)") (auto dest: poll_pass_work [OF sym])

declare poll_available.simps [simp del]

text \<open>An invariant of every slot is an invariant of the whole.\<close>

lemma poll_pass_keeps:
  assumes slot: "\<And>idx s w p s' w'. P s w \<Longrightarrow> idx \<in> set idxs \<Longrightarrow> poll_slot env idx s w = (p, s', w') \<Longrightarrow> P s' w'"
  shows "poll_pass env idxs p0 s w = (p, s', w') \<Longrightarrow> P s w \<Longrightarrow> P s' w'"
  using slot
proof (induction idxs arbitrary: p0 s w)
  case (Cons idx idxs)
  obtain p1 s1 w1 where q: "poll_slot env idx s w = (p1, s1, w1)" by (metis prod_cases3)
  have "P s1 w1" using Cons.prems(2,3) q by (meson list.set_intros(1))
  moreover have "poll_pass env idxs (p0 \<or> p1) s1 w1 = (p, s', w')" using Cons.prems(1) q by simp
  ultimately show ?case using Cons.IH [of "p0 \<or> p1" s1 w1] Cons.prems(3) by (meson list.set_intros(2))
qed simp

lemma poll_available_keeps:
  assumes slot: "\<And>idx s w p s' w'. P s w \<Longrightarrow> poll_slot env idx s w = (p, s', w') \<Longrightarrow> P s' w'"
  shows "poll_available env s w = (s', w') \<Longrightarrow> P s w \<Longrightarrow> P s' w'"
proof (induction "ss_work s" arbitrary: s w rule: less_induct)
  case less
  obtain p s1 w1 where q: "poll_pass env [0..<ss_len s] False s w = (p, s1, w1)" by (metis prod_cases3)
  have P1: "P s1 w1"
    by (rule poll_pass_keeps [where P = P, OF _ q less.prems(2)]) (rule slot)
  show ?case
  proof (cases p)
    case True
    with less.prems(1) q have "poll_available env s1 w1 = (s', w')" by (subst (asm) poll_available.simps) simp
    with less.hyps [of s1 w1] poll_pass_work [OF q] P1 True show ?thesis by simp
  next
    case False
    with less.prems(1) q P1 show ?thesis by (subst (asm) poll_available.simps) simp
  qed
qed

section \<open>Harvesting and decisions\<close>

definition harvest_slot ::
  "('w, 'b) env \<Rightarrow> nat \<Rightarrow> 'b slot_set \<Rightarrow> 'w \<Rightarrow> 'b slot_set \<times> 'w" where
  "harvest_slot env idx s w =
     (if cell (ss_harvested s) idx \<noteq> None then (s, w)
      else case cell (ss_binds s) idx of
             None \<Rightarrow> (s, w)
           | Some b \<Rightarrow>
               (case env_poll_ready env w b of
                  (None, w) \<Rightarrow> (s, w)
                | (Some obs, w) \<Rightarrow>
                    (s\<lparr>ss_next_futs := (ss_next_futs s)[idx := None],
                       ss_harvested := (ss_harvested s)[idx := Some obs]\<rparr>, w)))"

fun harvest_slots :: "('w, 'b) env \<Rightarrow> nat list \<Rightarrow> 'b slot_set \<Rightarrow> 'w \<Rightarrow> 'b slot_set \<times> 'w" where
  "harvest_slots env [] s w = (s, w)"
| "harvest_slots env (idx # idxs) s w =
     (case harvest_slot env idx s w of (s, w) \<Rightarrow> harvest_slots env idxs s w)"

definition harvest_poll_ready :: "('w, 'b) env \<Rightarrow> 'b slot_set \<Rightarrow> 'w \<Rightarrow> 'b slot_set \<times> 'w" where
  "harvest_poll_ready env s w = harvest_slots env [0..<ss_len s] s w"

definition event_of :: "observation option \<Rightarrow> wait_event option" where
  "event_of obs = (case obs of Some (Obs_Event ev) \<Rightarrow> Some ev | _ \<Rightarrow> None)"

definition take_events :: "'b slot_set \<Rightarrow> wait_event list \<times> 'b slot_set" where
  "take_events s =
     (filter_map event_of (ss_harvested s),
      s\<lparr>ss_harvested := map (\<lambda>obs. if event_of obs \<noteq> None then None else obs) (ss_harvested s)\<rparr>)"

datatype terminal_arm_kind = TA_Overflow | TA_Failed | TA_Outage | TA_CursorUncertain | TA_Degraded

datatype follow_end =
    FE_Cancel
  | FE_Deadline
  | FE_TerminalArm id_token terminal_arm_kind id_token

definition terminal_end :: "id_token \<Rightarrow> observation \<Rightarrow> follow_end option" where
  "terminal_end rid obs =
     (case obs of
        Obs_Overflow \<Rightarrow> Some (FE_TerminalArm rid TA_Overflow (IdToken ''buffer_overflow''))
      | Obs_Failed r \<Rightarrow> Some (FE_TerminalArm rid TA_Failed r)
      | Obs_Outage r \<Rightarrow> Some (FE_TerminalArm rid TA_Outage r)
      | Obs_CursorUncertain r \<Rightarrow> Some (FE_TerminalArm rid TA_CursorUncertain r)
      | Obs_Degraded r \<Rightarrow> Some (FE_TerminalArm rid TA_Degraded r)
      | Obs_Event _ \<Rightarrow> None
      | Obs_Idle \<Rightarrow> None)"

fun first_terminal_from :: "registration list \<Rightarrow> observation option list \<Rightarrow> follow_end option" where
  "first_terminal_from (reg # regs) (obs # hs) =
     (case Option.bind obs (terminal_end (reg_id reg)) of
        Some fin \<Rightarrow> Some fin
      | None \<Rightarrow> first_terminal_from regs hs)"
| "first_terminal_from _ _ = None"

definition first_terminal :: "registration_set \<Rightarrow> 'b slot_set \<Rightarrow> follow_end option" where
  "first_terminal rset s = first_terminal_from (rs_registrations rset) (ss_harvested s)"

definition pending_required :: "registration_set \<Rightarrow> 'b slot_set \<Rightarrow> registration option" where
  "pending_required rset s =
     find (\<lambda>reg. reg_required reg \<and>
             (case ss_index_of s (id_str (reg_id reg)) of
                None \<Rightarrow> True
              | Some idx \<Rightarrow> cell (ss_binds s) idx = None))
       (rs_registrations rset)"

text \<open>Every harvested observation leaves its slot; the events are handed back with their index.\<close>

definition drain_replayable :: "'b slot_set \<Rightarrow> (nat \<times> observation) list \<times> 'b slot_set" where
  "drain_replayable s =
     (filter_map (\<lambda>(idx, obs). case obs of
                     Some obs \<Rightarrow> if observation_is_replayable obs then Some (idx, obs) else None
                   | None \<Rightarrow> None) (enumerate 0 (ss_harvested s)),
      s\<lparr>ss_harvested := map (\<lambda>_. None) (ss_harvested s)\<rparr>)"

definition clear_nonreplayable :: "'b slot_set \<Rightarrow> 'b slot_set" where
  "clear_nonreplayable s =
     s\<lparr>ss_harvested := map (\<lambda>obs. case obs of
          Some obs \<Rightarrow> if observation_is_replayable obs then Some obs else None
        | None \<Rightarrow> None) (ss_harvested s)\<rparr>"

definition rearm_slot :: "nat \<Rightarrow> 'b slot_set \<Rightarrow> 'b slot_set" where
  "rearm_slot idx s =
     (if cell (ss_binds s) idx \<noteq> None \<and> cell (ss_next_futs s) idx = None \<and> cell (ss_harvested s) idx = None
      then arm_next idx s else s)"

definition rearm_idle :: "'b slot_set \<Rightarrow> 'b slot_set" where
  "rearm_idle s = fold rearm_slot [0..<ss_len s] (clear_nonreplayable s)"

definition any_idle_harvested :: "'b slot_set \<Rightarrow> bool" where
  "any_idle_harvested s = list_ex (\<lambda>obs. obs = Some Obs_Idle) (ss_harvested s)"

definition has_terminal_obs :: "'b slot_set \<Rightarrow> bool" where
  "has_terminal_obs s = list_ex (\<lambda>obs. obs \<noteq> None \<and> obs \<noteq> Some Obs_Idle) (ss_harvested s)"

datatype turn = Turn_Idle | Turn_Ready

text \<open>One poll of \<open>CollectTurn\<close>.\<close>

definition collect_turn ::
  "('w, 'b) env \<Rightarrow> 'b slot_set \<Rightarrow> 'w \<Rightarrow> (error + turn) poll \<times> 'b slot_set \<times> 'w" where
  "collect_turn env s w =
     (let (s, w) = poll_available env s w
      in case ss_fault s of
           Some err \<Rightarrow> (Ready (Inl err), s\<lparr>ss_fault := None\<rparr>, w)
         | None \<Rightarrow>
             (if has_terminal_obs s then (Ready (Inr Turn_Ready), s, w)
              else if any_idle_harvested s then (Ready (Inr Turn_Idle), s, w)
              else (Pending, s, w)))"

section \<open>Restoring\<close>

text \<open>Every observation is restored, whatever fails; the first error is returned.\<close>

fun restore_each ::
  "('w, 'b) env \<Rightarrow> 'b slots \<Rightarrow> (nat \<times> observation) list \<Rightarrow> error option \<Rightarrow> 'w \<Rightarrow> error option \<times> 'w" where
  "restore_each env binds [] first_err w = (first_err, w)"
| "restore_each env binds ((idx, obs) # ready) first_err w =
     (case cell binds idx of
        None \<Rightarrow> restore_each env binds ready first_err w
      | Some b \<Rightarrow>
          (case env_restore_ready env w b obs of
             (Inl err, w) \<Rightarrow>
               restore_each env binds ready (if first_err = None then Some err else first_err) w
           | (Inr _, w) \<Rightarrow> restore_each env binds ready first_err w))"

definition first_error :: "error option \<Rightarrow> error + unit" where
  "first_error e = (case e of Some err \<Rightarrow> Inl err | None \<Rightarrow> Inr ())"

definition restore_harvested ::
  "('w, 'b) env \<Rightarrow> 'b slot_set \<Rightarrow> 'w \<Rightarrow> (error + unit) \<times> 'b slot_set \<times> 'w" where
  "restore_harvested env s w =
     (let (ready, s) = drain_replayable s;
          (first_err, w) = restore_each env (ss_binds s) ready None w
      in (first_error first_err, s, w))"

text \<open>
  Harvested observations first, then the buffered events from the newest to the oldest, so that
  pushing each to the front leaves them in order. An event goes back through the slot of the
  registration it names.
\<close>

fun restore_pending ::
  "('w, 'b) env \<Rightarrow> 'b slot_set \<Rightarrow> wait_event list \<Rightarrow> error option \<Rightarrow> 'w \<Rightarrow> error option \<times> 'w" where
  "restore_pending env s [] first_err w = (first_err, w)"
| "restore_pending env s (ev # events) first_err w =
     (case Option.bind (ss_index_of s (id_str (ev_registration_id ev))) (cell (ss_binds s)) of
        None \<Rightarrow> restore_pending env s events first_err w
      | Some b \<Rightarrow>
          (case env_restore_ready env w b (Obs_Event ev) of
             (Inl err, w) \<Rightarrow>
               restore_pending env s events (if first_err = None then Some err else first_err) w
           | (Inr _, w) \<Rightarrow> restore_pending env s events first_err w))"

definition restore_custody ::
  "('w, 'b) env \<Rightarrow> 'b slot_set \<Rightarrow> wait_event list \<Rightarrow> 'w \<Rightarrow> (error + unit) \<times> 'b slot_set \<times> 'w" where
  "restore_custody env s pending w =
     (let (harvested, s) = drain_replayable s;
          (first_err, w) = restore_each env (ss_binds s) harvested None w;
          (first_err, w) = restore_pending env s (rev pending) first_err w
      in (first_error first_err, s, w))"

end
