(* ===== verification/Follow.thy ===== *)
theory Follow
  imports Slot_Set
begin

text \<open>
  The held-follow runner (\<^verbatim>\<open>crates/waitprims-async/src/follow.rs\<close>): it binds once, hands every
  harvested event to a sink, and holds the session until a terminal. The sink is a parameter, one
  poll of its future at a time; while it is pending the runner awaits nothing else.
\<close>

section \<open>Checks and deadlines\<close>

type_synonym 'w sink = "'w \<Rightarrow> wait_event list \<Rightarrow> (error + unit) poll \<times> 'w"

text \<open>\<open>resolve\<close> is the same check as that of the first-match runner.\<close>

definition fw_resolve :: "registration_set \<Rightarrow> live_wait_request \<Rightarrow> error + unit" where
  "fw_resolve rset req =
     (if id_str (lr_registration_set_ref req) \<noteq> id_str (message_id rset)
      then Inl (EValidation (ve_new ''/registration_set_ref'' ''mismatch''))
      else if id_str (lr_registration_revision req) \<noteq> id_str (rs_registration_revision rset)
      then Inl (EValidation (ve_new ''/registration_revision'' ''revision_mismatch''))
      else if id_str (lr_waiter_id req) \<noteq> id_str (rs_waiter_id rset)
      then Inl (EValidation (ve_new ''/waiter_id'' ''mismatch''))
      else Inr ())"

definition posture_err :: "registration_set \<Rightarrow> live_wait_request \<Rightarrow> timestamp \<Rightarrow> error option" where
  "posture_err rset req now =
     (if list_ex (\<lambda>reg. ts_le (reg_lease_expires_at reg) now) (rs_registrations rset)
      then Some (EValidation (ve_normative ''/registrations/lease_expires_at'' ''lease_expired'' LeaseReauth))
      else if rs_authn_mode rset = AuthnModeRequired \<and> verification_receipt_ref req = None
      then Some (EValidation (ve_normative ''/verification_receipt_ref'' ''required'' AuthnRequired))
      else None)"

definition fw_earliest_deadline :: "live_wait_request \<Rightarrow> timestamp" where
  "fw_earliest_deadline req =
     (if ts_less (lr_run_deadline req) (lr_logical_deadline req)
      then lr_run_deadline req else lr_logical_deadline req)"

definition earliest_lease :: "registration_set \<Rightarrow> timestamp option" where
  "earliest_lease rset = min_by_key ts_instant (map reg_lease_expires_at (rs_registrations rset))"

definition earliest_wake :: "registration_set \<Rightarrow> live_wait_request \<Rightarrow> timestamp" where
  "earliest_wake rset req =
     (let deadline = fw_earliest_deadline req
      in case earliest_lease rset of
           Some lease \<Rightarrow> if ts_less lease deadline then lease else deadline
         | None \<Rightarrow> deadline)"

definition at_deadline :: "live_wait_request \<Rightarrow> timestamp \<Rightarrow> bool" where
  "at_deadline req now \<longleftrightarrow> ts_le (lr_logical_deadline req) now \<or> ts_le (lr_run_deadline req) now"

definition deadline_end ::
  "registration_set \<Rightarrow> live_wait_request \<Rightarrow> timestamp \<Rightarrow> 'b slot_set \<Rightarrow> follow_end option" where
  "deadline_end rset req now s =
     (if \<not> at_deadline req now then None
      else case pending_required rset s of
             Some reg \<Rightarrow> Some (FE_TerminalArm (reg_id reg) TA_Failed (IdToken ''required_bind_pending''))
           | None \<Rightarrow>
               (case first_terminal rset s of
                  Some fin \<Rightarrow> Some fin
                | None \<Rightarrow> Some FE_Deadline))"

definition fw_backoff_ms :: "nat list" where
  "fw_backoff_ms = [50, 100, 200, 400, 800, 1000]"

definition fw_backoff_deadline ::
  "('w, 'b) env \<Rightarrow> registration_set \<Rightarrow> live_wait_request \<Rightarrow> u64 \<Rightarrow> 'w \<Rightarrow> timestamp \<times> 'w" where
  "fw_backoff_deadline env rset req step w =
     (let idx = min (unat step - 1) (length fw_backoff_ms - 1);
          delay = duration_from_millis (fw_backoff_ms ! idx);
          (now, w) = env_now env w;
          wake = saturating_add (env_calendar env) now delay;
          cap = earliest_wake rset req
      in (if ts_less wake cap then wake else cap, w))"

section \<open>State\<close>

datatype fw_pc =
    FW_Top
  | FW_Select timestamp
  | FW_Backoff timestamp
  | FW_Sink "wait_event list" "follow_end option" timestamp
  | FW_Done "error + follow_end"

text \<open>\<open>fw_sent\<close> records the bursts handed to the sink; the code does not read it.\<close>

record 'b fw_state =
  fw_pc :: fw_pc
  fw_slots :: "'b slot_set"
  fw_backoff_step :: u64
  fw_sent :: "wait_event list list"

definition fw_init :: "registration_set \<Rightarrow> 'b fw_state" where
  "fw_init rset =
     \<lparr>fw_pc = FW_Top, fw_slots = ss_new (rs_registrations rset), fw_backoff_step = 0, fw_sent = []\<rparr>"

definition fw_done :: "'b fw_state \<Rightarrow> error + follow_end \<Rightarrow> 'w \<Rightarrow> 'b fw_state \<times> 'w" where
  "fw_done st r w = (st\<lparr>fw_pc := FW_Done r\<rparr>, w)"

definition finish_cancel :: "('w, 'b) env \<Rightarrow> 'b fw_state \<Rightarrow> 'w \<Rightarrow> 'b fw_state \<times> 'w" where
  "finish_cancel env st w =
     (case restore_harvested env (fw_slots st) w of
        (Inl err, s, w) \<Rightarrow> fw_done (st\<lparr>fw_slots := s\<rparr>) (Inl err) w
      | (Inr _, s, w) \<Rightarrow> fw_done (st\<lparr>fw_slots := s\<rparr>) (Inr FE_Cancel) w)"

definition finish_err :: "('w, 'b) env \<Rightarrow> error \<Rightarrow> 'b fw_state \<Rightarrow> 'w \<Rightarrow> 'b fw_state \<times> 'w" where
  "finish_err env err st w =
     (case restore_harvested env (fw_slots st) w of
        (Inl err', s, w) \<Rightarrow> fw_done (st\<lparr>fw_slots := s\<rparr>) (Inl err') w
      | (Inr _, s, w) \<Rightarrow> fw_done (st\<lparr>fw_slots := s\<rparr>) (Inl err) w)"

section \<open>Turns\<close>

text \<open>The end of a turn, after the sink has taken the burst, if there was one.\<close>

definition fw_after_sink ::
  "registration_set \<Rightarrow> live_wait_request \<Rightarrow> follow_end option \<Rightarrow> timestamp \<Rightarrow> 'b fw_state \<Rightarrow> 'w \<Rightarrow>
   'b fw_state \<times> 'w" where
  "fw_after_sink rset req terminal now st w =
     (case terminal of
        Some fin \<Rightarrow> fw_done st (Inr fin) w
      | None \<Rightarrow>
          (case (if at_deadline req now then deadline_end rset req now (fw_slots st) else None) of
             Some fin \<Rightarrow> fw_done st (Inr fin) w
           | None \<Rightarrow> (st\<lparr>fw_slots := rearm_idle (fw_slots st), fw_pc := FW_Top\<rparr>, w)))"

definition decide_turn ::
  "('w, 'b) env \<Rightarrow> registration_set \<Rightarrow> live_wait_request \<Rightarrow> timestamp \<Rightarrow> 'b fw_state \<Rightarrow> 'w \<Rightarrow>
   'b fw_state \<times> 'w" where
  "decide_turn env rset req now st w =
     (case posture_err rset req now of
        Some err \<Rightarrow> finish_err env err st w
      | None \<Rightarrow>
          (case ss_fault (fw_slots st) of
             Some err \<Rightarrow> finish_err env err (st\<lparr>fw_slots := (fw_slots st)\<lparr>ss_fault := None\<rparr>\<rparr>) w
           | None \<Rightarrow>
               (let (cancelled, w) = env_is_cancelled env w
                in if cancelled then finish_cancel env st w
                   else
                     let (events, s) = take_events (fw_slots st);
                         terminal = first_terminal rset s;
                         st = st\<lparr>fw_slots := s\<rparr>
                     in if events \<noteq> []
                        then (st\<lparr>fw_pc := FW_Sink events terminal now, fw_sent := fw_sent st @ [events]\<rparr>, w)
                        else fw_after_sink rset req terminal now st w)))"

definition fw_poll_once :: "('w, 'b) env \<Rightarrow> 'b fw_state \<Rightarrow> 'w \<Rightarrow> 'b fw_state \<times> 'w" where
  "fw_poll_once env st w =
     (let (s, w) = poll_available env (fw_slots st) w in (st\<lparr>fw_slots := s\<rparr>, w))"

definition on_wake ::
  "('w, 'b) env \<Rightarrow> registration_set \<Rightarrow> live_wait_request \<Rightarrow> timestamp \<Rightarrow> 'b fw_state \<Rightarrow> 'w \<Rightarrow>
   'b fw_state \<times> 'w" where
  "on_wake env rset req now st w =
     (let st = st\<lparr>fw_slots := rearm_idle (fw_slots st)\<rparr>;
          (st, w) = fw_poll_once env st w;
          (s, w) = harvest_poll_ready env (fw_slots st) w
      in decide_turn env rset req now (st\<lparr>fw_slots := s\<rparr>) w)"

section \<open>The loop\<close>

definition fw_top ::
  "('w, 'b) env \<Rightarrow> registration_set \<Rightarrow> live_wait_request \<Rightarrow> 'b fw_state \<Rightarrow> 'w \<Rightarrow> 'b fw_state \<times> 'w" where
  "fw_top env rset req st w =
     (let (now, w) = env_now env w
      in case posture_err rset req now of
           Some err \<Rightarrow> finish_err env err st w
         | None \<Rightarrow>
             (let (cancelled, w) = env_is_cancelled env w
              in if cancelled then finish_cancel env st w
                 else (st\<lparr>fw_pc := FW_Select (earliest_wake rset req)\<rparr>, w)))"

text \<open>A turn that collected something.\<close>

definition fw_collected ::
  "('w, 'b) env \<Rightarrow> registration_set \<Rightarrow> live_wait_request \<Rightarrow> error + turn \<Rightarrow> 'b fw_state \<Rightarrow> 'w \<Rightarrow>
   'b fw_state \<times> 'w" where
  "fw_collected env rset req result st w =
     (case result of
        Inl err \<Rightarrow>
          (let (now, w) = env_now env w
           in case posture_err rset req now of
                Some posture \<Rightarrow> finish_err env posture st w
              | None \<Rightarrow> finish_err env err st w)
      | Inr Turn_Idle \<Rightarrow>
          (let st = st\<lparr>fw_backoff_step := sat_add (fw_backoff_step st) 1\<rparr>;
               (sleep_to, w) = fw_backoff_deadline env rset req (fw_backoff_step st) w
           in (st\<lparr>fw_pc := FW_Backoff sleep_to\<rparr>, w))
      | Inr Turn_Ready \<Rightarrow>
          (let (now, w) = env_now env w in decide_turn env rset req now st w))"

definition fw_select ::
  "('w, 'b) env \<Rightarrow> registration_set \<Rightarrow> live_wait_request \<Rightarrow> timestamp \<Rightarrow> 'b fw_state \<Rightarrow> 'w \<Rightarrow>
   'b fw_state \<times> 'w" where
  "fw_select env rset req wake st w =
     (case collect_turn env (fw_slots st) w of
        (Ready result, s, w) \<Rightarrow> fw_collected env rset req result (st\<lparr>fw_slots := s\<rparr>) w
      | (Pending, s, w) \<Rightarrow>
          (let st = st\<lparr>fw_slots := s\<rparr>
           in case poll_cancelled env w of
                (Ready _, w) \<Rightarrow>
                  (let (st, w) = fw_poll_once env st w;
                       (now, w) = env_now env w
                   in decide_turn env rset req now st w)
              | (Pending, w) \<Rightarrow>
                  (case env_sleep_until env w wake of
                     (Ready _, w) \<Rightarrow>
                       (let (now, w) = env_now env w in on_wake env rset req now st w)
                   | (Pending, w) \<Rightarrow> (st, env_park env w))))"

definition fw_sleep_backoff ::
  "('w, 'b) env \<Rightarrow> registration_set \<Rightarrow> live_wait_request \<Rightarrow> timestamp \<Rightarrow> 'b fw_state \<Rightarrow> 'w \<Rightarrow>
   'b fw_state \<times> 'w" where
  "fw_sleep_backoff env rset req sleep_to st w =
     (case poll_cancelled env w of
        (Ready _, w) \<Rightarrow> (let (now, w) = env_now env w in on_wake env rset req now st w)
      | (Pending, w) \<Rightarrow>
          (case env_sleep_until env w sleep_to of
             (Ready _, w) \<Rightarrow> (let (now, w) = env_now env w in on_wake env rset req now st w)
           | (Pending, w) \<Rightarrow> (st, env_park env w)))"

definition fw_sinking ::
  "('w, 'b) env \<Rightarrow> 'w sink \<Rightarrow> registration_set \<Rightarrow> live_wait_request \<Rightarrow> wait_event list \<Rightarrow>
   follow_end option \<Rightarrow> timestamp \<Rightarrow> 'b fw_state \<Rightarrow> 'w \<Rightarrow> 'b fw_state \<times> 'w" where
  "fw_sinking env snk rset req events terminal now st w =
     (case snk w events of
        (Pending, w) \<Rightarrow> (st, env_park env w)
      | (Ready (Inl err), w) \<Rightarrow> fw_done st (Inl err) w
      | (Ready (Inr _), w) \<Rightarrow> fw_after_sink rset req terminal now st w)"

definition fw_step ::
  "('w, 'b) env \<Rightarrow> 'w sink \<Rightarrow> registration_set \<Rightarrow> live_wait_request \<Rightarrow> 'b fw_state \<times> 'w \<Rightarrow>
   'b fw_state \<times> 'w" where
  "fw_step env snk rset req c =
     (case c of (st, w) \<Rightarrow>
        (case fw_pc st of
           FW_Top \<Rightarrow> fw_top env rset req st w
         | FW_Select wake \<Rightarrow> fw_select env rset req wake st w
         | FW_Backoff sleep_to \<Rightarrow> fw_sleep_backoff env rset req sleep_to st w
         | FW_Sink events terminal now \<Rightarrow> fw_sinking env snk rset req events terminal now st w
         | FW_Done r \<Rightarrow> (st, w)))"

fun fw_run ::
  "('w, 'b) env \<Rightarrow> 'w sink \<Rightarrow> registration_set \<Rightarrow> live_wait_request \<Rightarrow> nat \<Rightarrow> 'b fw_state \<times> 'w \<Rightarrow>
   'b fw_state \<times> 'w" where
  "fw_run env snk rset req 0 c = c"
| "fw_run env snk rset req (Suc n) c = fw_run env snk rset req n (fw_step env snk rset req c)"

text \<open>The checks before the session opens.\<close>

definition fw_admit :: "('w, 'b) env \<Rightarrow> registration_set \<Rightarrow> live_wait_request \<Rightarrow> 'w \<Rightarrow> (error + unit) \<times> 'w" where
  "fw_admit env rset req w =
     (case fw_resolve rset req of
        Inl err \<Rightarrow> (Inl err, w)
      | Inr _ \<Rightarrow>
          (if ts_less (lr_logical_deadline req) (lr_run_deadline req)
           then (Inl (EValidation (ve_normative ''/run_deadline'' ''must_be_at_or_before_logical_deadline''
                       DeadlineOrdering)), w)
           else let (now, w) = env_now env w
                in case posture_err rset req now of
                     Some err \<Rightarrow> (Inl err, w)
                   | None \<Rightarrow> (Inr (), w)))"

text \<open>The result, if the fuel reaches it, and the bursts handed to the sink.\<close>

definition run_follow ::
  "('w, 'b) env \<Rightarrow> 'w sink \<Rightarrow> registration_set \<Rightarrow> live_wait_request \<Rightarrow> nat \<Rightarrow> 'w \<Rightarrow>
   (error + follow_end) option \<times> wait_event list list \<times> 'w" where
  "run_follow env snk rset req fuel w =
     (case fw_admit env rset req w of
        (Inl err, w) \<Rightarrow> (Some (Inl err), [], w)
      | (Inr _, w) \<Rightarrow>
          (let (st, w) = fw_run env snk rset req fuel (fw_init rset, w)
           in (case fw_pc st of FW_Done r \<Rightarrow> Some r | _ \<Rightarrow> None, fw_sent st, w)))"

end
