(* ===== verification/Slot_Custody.thy ===== *)
theory Slot_Custody
  imports Slot_Set Poll_Cycle_Run
begin

text \<open>
  Custody in the slots of a held session. Events are followed by the registration they name, so
  an observer must mint them under the registration it was bound for.
\<close>

section \<open>Events by registration\<close>

definition by_tag :: "wait_event list \<Rightarrow> id_token \<Rightarrow> wait_event list" where
  "by_tag evs r = filter (\<lambda>e. ev_registration_id e = r) evs"

lemma by_tag_simps [simp]:
  "by_tag [] = (\<lambda>_. [])" "by_tag (xs @ ys) r = by_tag xs r @ by_tag ys r"
  "by_tag (e # xs) r = (if ev_registration_id e = r then e # by_tag xs r else by_tag xs r)"
  by (auto simp: by_tag_def fun_eq_iff)

definition tagged :: "(id_token \<Rightarrow> wait_event list) \<Rightarrow> bool" where
  "tagged F \<longleftrightarrow> (\<forall>r. \<forall>e \<in> set (F r). ev_registration_id e = r)"

lemma tagged_took: "tagged F \<Longrightarrow> took F r e F' \<Longrightarrow> tagged F'"
proof -
  have "set (tl xs) \<subseteq> set xs" for xs :: "wait_event list" by (cases xs) auto
  then show "tagged F \<Longrightarrow> took F r e F' \<Longrightarrow> tagged F'" by (fastforce simp: tagged_def took_def)
qed

lemma tagged_took_event: "tagged F \<Longrightarrow> took F r e F' \<Longrightarrow> (F r = [] \<Longrightarrow> ev_registration_id e = r) \<Longrightarrow> ev_registration_id e = r"
  by (cases "F r") (auto simp: tagged_def took_def)

lemma tagged_restore: "tagged F \<Longrightarrow> ev_registration_id e = r \<Longrightarrow> tagged (F(r := e # F r))"
  by (auto simp: tagged_def)

text \<open>An observer that mints an event under the registration it is bound for.\<close>

locale observer_tagged = observer_restores +
  assumes next_mints: "env_next env w b = (Ready (Inr (Obs_Event e)), w') \<Longrightarrow>
             front w (env_registration_id env b) = [] \<Longrightarrow> ev_registration_id e = env_registration_id env b"
    and poll_ready_mints: "env_poll_ready env w b = (Some (Obs_Event e), w') \<Longrightarrow>
             front w (env_registration_id env b) = [] \<Longrightarrow> ev_registration_id e = env_registration_id env b"

section \<open>The invariant of the slots\<close>

definition ss_ok :: "('w, 'b) env \<Rightarrow> registration_set \<Rightarrow> 'b slot_set \<Rightarrow> bool" where
  "ss_ok env rset s \<longleftrightarrow>
     ss_regs s = rs_registrations rset \<and>
     length (ss_harvested s) = arm_count rset \<and> length (ss_binds s) = arm_count rset \<and>
     length (ss_next_futs s) = arm_count rset \<and>
     (\<forall>i b. cell (ss_binds s) i = Some b \<longrightarrow> env_registration_id env b = arm_reg_id rset i) \<and>
     (\<forall>i b. cell (ss_next_futs s) i = Some b \<longrightarrow> cell (ss_binds s) i = Some b) \<and>
     (\<forall>i reg. cell (ss_bind_futs s) i = Some reg \<longrightarrow> i < arm_count rset \<and> reg_id reg = arm_reg_id rset i) \<and>
     (\<forall>i obs. cell (ss_harvested s) i = Some obs \<longrightarrow> cell (ss_binds s) i \<noteq> None) \<and>
     (\<forall>i e. cell (ss_harvested s) i = Some (Obs_Event e) \<longrightarrow> ev_registration_id e = arm_reg_id rset i)"

lemma cell_update: "cell (xs[i := x]) j = (if j = i \<and> i < length xs then x else cell xs j)"
  by (auto simp: cell_def)

lemma cell_map: "cell (map f xs) i = (if i < length xs then f (xs ! i) else None)"
  by (simp add: cell_def)

lemma cell_lt: "cell xs i = Some x \<Longrightarrow> i < length xs"
  by (simp add: cell_def split: if_splits)

abbreviation in_hand :: "registration_set \<Rightarrow> 'b slot_set \<Rightarrow> id_token \<Rightarrow> wait_event list" where
  "in_hand rset s \<equiv> held (arm_count rset) (arm_reg_id rset) (cell (ss_harvested s))"

text \<open>\<open>ss_keeps\<close>: what left the session, then what the slots hold, then what the providers hold.\<close>

definition ss_keeps ::
  "('w, 'b) env \<Rightarrow> ('w \<Rightarrow> id_token \<Rightarrow> wait_event list) \<Rightarrow> registration_set \<Rightarrow> (id_token \<Rightarrow> wait_event list) \<Rightarrow>
   (id_token \<Rightarrow> wait_event list) \<Rightarrow> 'b slot_set \<Rightarrow> 'w \<Rightarrow> bool" where
  "ss_keeps env front rset F0 T s w \<longleftrightarrow>
     ss_ok env rset s \<and> tagged (front w) \<and> conserved F0 (\<lambda>r. T r @ in_hand rset s r) (front w)"

lemma ss_ok_new: "ss_ok env rset (ss_new (rs_registrations rset))"
  by (auto simp: ss_ok_def ss_new_def cell_map arm_count_def arm_reg_id_def split: if_splits)

lemma note_fault_ok [simp]: "ss_ok env rset (note_fault err s) = ss_ok env rset s"
  by (simp add: ss_ok_def)

lemma fault_ok [simp]: "ss_ok env rset (s\<lparr>ss_fault := f\<rparr>) = ss_ok env rset s"
  by (simp add: ss_ok_def)

lemma arm_next_ok: "ss_ok env rset s \<Longrightarrow> ss_ok env rset (arm_next idx s)"
  by (auto simp: ss_ok_def arm_next_def cell_update split: option.split)

lemma arm_next_harvested [simp]: "ss_harvested (arm_next idx s) = ss_harvested s"
  by (simp add: arm_next_def split: option.split)

lemma drop_bind_fut_ok:
  "ss_ok env rset s \<Longrightarrow> ss_ok env rset (s\<lparr>ss_bind_futs := (ss_bind_futs s)[idx := None]\<rparr>)"
  by (auto simp: ss_ok_def cell_update split: if_splits)

lemma drop_next_fut_ok:
  "ss_ok env rset s \<Longrightarrow> ss_ok env rset (s\<lparr>ss_next_futs := (ss_next_futs s)[idx := None]\<rparr>)"
  by (auto simp: ss_ok_def cell_update split: if_splits)

lemma harvest_ok:
  assumes "ss_ok env rset s" "cell (ss_binds s) idx \<noteq> None"
    and "\<And>e. obs = Obs_Event e \<Longrightarrow> ev_registration_id e = arm_reg_id rset idx"
  shows "ss_ok env rset (s\<lparr>ss_next_futs := (ss_next_futs s)[idx := None],
    ss_harvested := (ss_harvested s)[idx := Some obs]\<rparr>)"
  using assms by (auto simp: ss_ok_def cell_update split: if_splits)

lemma take_events_ok: "ss_ok env rset s \<Longrightarrow> ss_ok env rset (snd (take_events s))"
  by (auto simp: ss_ok_def take_events_def cell_map cell_def split: if_splits)

lemma drain_ok: "ss_ok env rset s \<Longrightarrow> ss_ok env rset (snd (drain_replayable s))"
  by (auto simp: ss_ok_def drain_replayable_def cell_map)

lemma clear_ok: "ss_ok env rset s \<Longrightarrow> ss_ok env rset (clear_nonreplayable s)"
  by (auto simp: ss_ok_def clear_nonreplayable_def cell_map cell_def split: if_splits option.splits)

lemma rearm_ok: "ss_ok env rset s \<Longrightarrow> ss_ok env rset (rearm_idle s)"
proof -
  assume "ss_ok env rset s"
  then have "ss_ok env rset (clear_nonreplayable s)" by (rule clear_ok)
  then have "ss_ok env rset (fold rearm_slot is (clear_nonreplayable s))" for "is"
    by (induction "is" arbitrary: s rule: rev_induct) (auto simp: rearm_slot_def arm_next_ok)
  then show ?thesis by (simp add: rearm_idle_def)
qed

section \<open>What the slots hold\<close>

lemma held_harvest:
  assumes "distinct_arms rset" "idx < arm_count rset" "cell hs idx = None" "length hs = arm_count rset"
  shows "held (arm_count rset) (arm_reg_id rset) (cell (hs[idx := Some (Obs_Event e)])) =
    (held (arm_count rset) (arm_reg_id rset) (cell hs))
      (arm_reg_id rset idx := held (arm_count rset) (arm_reg_id rset) (cell hs) (arm_reg_id rset idx) @ [e])"
    "\<not> observation_is_replayable obs \<Longrightarrow>
     held (arm_count rset) (arm_reg_id rset) (cell (hs[idx := Some obs])) =
     held (arm_count rset) (arm_reg_id rset) (cell hs)"
proof -
  have c: "cell (hs[idx := x]) = (cell hs)(idx := x)" for x
    using assms(2,4) by (auto simp: cell_update fun_eq_iff)
  show "held (arm_count rset) (arm_reg_id rset) (cell (hs[idx := Some (Obs_Event e)])) =
    (held (arm_count rset) (arm_reg_id rset) (cell hs))
      (arm_reg_id rset idx := held (arm_count rset) (arm_reg_id rset) (cell hs) (arm_reg_id rset idx) @ [e])"
    unfolding c by (rule held_event [where m = "cell hs" and i = idx, OF arm_reg_id_inj [OF assms(1)] assms(2,3)])
  show "\<not> observation_is_replayable obs \<Longrightarrow>
     held (arm_count rset) (arm_reg_id rset) (cell (hs[idx := Some obs])) =
     held (arm_count rset) (arm_reg_id rset) (cell hs)"
    unfolding c by (rule held_signal) (use assms(3) in simp_all)
qed

lemma held_at_event_of:
  "held_at ids m r i = (case event_of (m i) of Some e \<Rightarrow> if ids i = r then Some e else None | None \<Rightarrow> None)"
  by (auto simp: held_at_def event_of_def split: option.split observation.split)

lemma in_hand_same: "(\<And>i. i < arm_count rset \<Longrightarrow> event_of (cell hs i) = event_of (cell hs' i)) \<Longrightarrow>
   held (arm_count rset) (arm_reg_id rset) (cell hs) = held (arm_count rset) (arm_reg_id rset) (cell hs')"
  by (rule ext) (auto simp: held_def held_at_event_of intro!: filter_map_cong)

lemma in_hand_clear [simp]: "in_hand rset (clear_nonreplayable s) = in_hand rset s"
  by (rule in_hand_same)
    (auto simp: clear_nonreplayable_def cell_map cell_def event_of_def split: option.splits observation.splits)

lemma rearm_slots_harvested: "ss_harvested (fold rearm_slot is s) = ss_harvested s"
  by (induction "is" arbitrary: s) (auto simp: rearm_slot_def)

lemma in_hand_rearm [simp]: "in_hand rset (rearm_idle s) = in_hand rset s"
  by (simp add: rearm_idle_def rearm_slots_harvested)

lemma in_hand_none: "(\<And>i. event_of (cell (ss_harvested s) i) = None) \<Longrightarrow> in_hand rset s = (\<lambda>_. [])"
proof (rule held_none)
  fix i e
  assume "\<And>i. event_of (cell (ss_harvested s) i) = None"
  from this [of i] show "cell (ss_harvested s) i \<noteq> Some (Obs_Event e)" by (auto simp: event_of_def)
qed

lemma in_hand_taken [simp]: "in_hand rset (snd (take_events s)) = (\<lambda>_. [])"
  by (rule in_hand_none) (auto simp: take_events_def cell_map cell_def event_of_def split: option.splits observation.splits)

lemma in_hand_drained [simp]: "in_hand rset (snd (drain_replayable s)) = (\<lambda>_. [])"
  by (rule in_hand_none) (auto simp: drain_replayable_def cell_map event_of_def)

lemma filter_map_map: "filter_map f (map g xs) = filter_map (\<lambda>x. f (g x)) xs"
  by (induction xs) (auto split: option.splits)

lemma by_tag_taken:
  assumes "ss_ok env rset s"
  shows "by_tag (fst (take_events s)) = in_hand rset s"
proof
  fix r
  let ?hs = "ss_harvested s"
  have n: "length ?hs = arm_count rset" using assms by (simp add: ss_ok_def)
  have "by_tag (filter_map (\<lambda>i. event_of (cell ?hs i)) is) r =
      filter_map (held_at (arm_reg_id rset) (cell ?hs) r) is" for "is"
    using assms by (induction "is")
      (auto simp: held_at_def event_of_def ss_ok_def split: option.splits observation.splits)
  moreover have "map (cell ?hs) [0..<arm_count rset] = ?hs"
    by (rule nth_equalityI) (simp_all add: n cell_def)
  then have "filter_map event_of ?hs = filter_map (\<lambda>i. event_of (cell ?hs i)) [0..<arm_count rset]"
    by (metis filter_map_map)
  ultimately show "by_tag (fst (take_events s)) r = in_hand rset s r"
    by (simp add: take_events_def held_def)
qed

section \<open>Custody of every operation\<close>

text \<open>The slots through which the events would go back are bound.\<close>

definition slots_bound :: "registration_set \<Rightarrow> 'b slot_set \<Rightarrow> wait_event list \<Rightarrow> bool" where
  "slots_bound rset s evs \<longleftrightarrow>
     (\<forall>e \<in> set evs. \<exists>i < arm_count rset. cell (ss_binds s) i \<noteq> None \<and> ev_registration_id e = arm_reg_id rset i)"

lemma conserved_add:
  "took F r e F' \<Longrightarrow> conserved F0 T F \<Longrightarrow> T' = T(r := T r @ [e]) \<Longrightarrow> conserved F0 T' F'"
  using conserved_took by metis

context observer_tagged
begin

lemma harvest_event_keeps:
  assumes k: "ss_keeps env front rset F0 T s w" and d: "distinct_arms rset"
    and i: "cell (ss_binds s) idx = Some b" "cell (ss_harvested s) idx = None"
    and t: "took (front w) (env_registration_id env b) e (front w')"
    and m: "front w (env_registration_id env b) = [] \<Longrightarrow> ev_registration_id e = env_registration_id env b"
  shows "ss_keeps env front rset F0 T (s\<lparr>ss_next_futs := (ss_next_futs s)[idx := None],
    ss_harvested := (ss_harvested s)[idx := Some (Obs_Event e)]\<rparr>) w'"
proof -
  note k = k [unfolded ss_keeps_def]
  have ok: "ss_ok env rset s" using k by simp
  have id: "env_registration_id env b = arm_reg_id rset idx" using ok i(1) by (simp add: ss_ok_def)
  have lt: "idx < arm_count rset" using ok cell_lt [OF i(1)] by (simp add: ss_ok_def)
  have len: "length (ss_harvested s) = arm_count rset" using ok by (simp add: ss_ok_def)
  have e: "ev_registration_id e = arm_reg_id rset idx"
    using tagged_took_event [OF _ t m] k id by simp
  note h = held_harvest(1) [OF d lt i(2) len, of e]
  have "conserved F0 (\<lambda>r. T r @ held (arm_count rset) (arm_reg_id rset)
      (cell ((ss_harvested s)[idx := Some (Obs_Event e)])) r) (front w')"
    by (rule conserved_add [OF t]) (use k h id in \<open>auto simp: fun_eq_iff\<close>)
  then show ?thesis
    using k tagged_took [OF _ t] harvest_ok [OF ok, of idx "Obs_Event e"] i(1) e
    by (auto simp: ss_keeps_def)
qed

lemma harvest_signal_keeps:
  assumes k: "ss_keeps env front rset F0 T s w" and d: "distinct_arms rset"
    and i: "cell (ss_binds s) idx = Some b" "cell (ss_harvested s) idx = None"
    and f: "front w' = front w" "\<not> observation_is_replayable obs"
  shows "ss_keeps env front rset F0 T (s\<lparr>ss_next_futs := (ss_next_futs s)[idx := None],
    ss_harvested := (ss_harvested s)[idx := Some obs]\<rparr>) w'"
proof -
  note k = k [unfolded ss_keeps_def]
  have ok: "ss_ok env rset s" using k by simp
  have lt: "idx < arm_count rset" using ok cell_lt [OF i(1)] by (simp add: ss_ok_def)
  have len: "length (ss_harvested s) = arm_count rset" using ok by (simp add: ss_ok_def)
  have "obs \<noteq> Obs_Event e" for e using f(2) by auto
  then show ?thesis
    using k held_harvest(2) [OF d lt i(2) len f(2)] f harvest_ok [OF ok, of idx obs] i(1)
    by (auto simp: ss_keeps_def)
qed

lemma harvested_keeps:
  assumes k: "ss_keeps env front rset F0 T s w" and d: "distinct_arms rset"
    and i: "cell (ss_binds s) idx = Some b" "cell (ss_harvested s) idx = None"
    and q: "env_next env w b = (Ready (Inr obs), w') \<or> env_poll_ready env w b = (Some obs, w')"
  shows "ss_keeps env front rset F0 T (s\<lparr>ss_next_futs := (ss_next_futs s)[idx := None],
    ss_harvested := (ss_harvested s)[idx := Some obs]\<rparr>) w'"
proof (cases "observation_is_replayable obs")
  case True
  then obtain e where e: "obs = Obs_Event e" by (rule replayable_cases)
  from q show ?thesis
  proof
    assume n: "env_next env w b = (Ready (Inr obs), w')"
    show ?thesis
      unfolding e by (rule harvest_event_keeps [OF k d i])
        (use next_event [of w b e w'] next_mints [of w b e w'] n in \<open>simp_all add: e\<close>)
  next
    assume n: "env_poll_ready env w b = (Some obs, w')"
    show ?thesis
      unfolding e by (rule harvest_event_keeps [OF k d i])
        (use poll_ready_event [of w b e w'] poll_ready_mints [of w b e w'] n in \<open>simp_all add: e\<close>)
  qed
next
  case False
  then have ne: "obs \<noteq> Obs_Event e" for e by auto
  have "front w' = front w"
    using q ne next_other [of w b "Ready (Inr obs)" w'] poll_ready_other [of w b "Some obs" w'] by blast
  from harvest_signal_keeps [OF k d i this False] show ?thesis .
qed

lemma poll_slot_bind_keeps:
  assumes k: "ss_keeps env front rset F0 T s w" and p: "poll_slot_bind env idx s w = (p, s', w')"
  shows "ss_keeps env front rset F0 T s' w' \<and> ss_harvested s' = ss_harvested s"
proof (cases "cell (ss_bind_futs s) idx")
  case (Some reg)
  obtain r w1 where r: "env_bind env w reg = (r, w1)" by fastforce
  have f: "front w1 = front w" using bind_front [OF r] .
  note k = k [unfolded ss_keeps_def]
  show ?thesis
  proof (cases "\<exists>b. r = Ready (Inr b)")
    case True
    then obtain b where b: "r = Ready (Inr b)" by blast
    let ?s = "s\<lparr>ss_bind_futs := (ss_bind_futs s)[idx := None], ss_binds := (ss_binds s)[idx := Some b]\<rparr>"
    have "env_registration_id env b = reg_id reg" using bind_id r b by simp
    moreover have "idx < arm_count rset" "reg_id reg = arm_reg_id rset idx" using k Some by (auto simp: ss_ok_def)
    moreover have "cell (ss_next_futs s) idx = Some b' \<Longrightarrow> cell (ss_binds s) idx = Some b'" for b'
      using k by (simp add: ss_ok_def)
    ultimately have "ss_ok env rset (arm_next idx ?s)"
      using k by (auto simp: ss_ok_def arm_next_def cell_update split: if_splits option.splits)
    with p Some r b k f show ?thesis by (auto simp: poll_slot_bind_def ss_keeps_def)
  next
    case False
    have "ss_ok env rset (s\<lparr>ss_bind_futs := (ss_bind_futs s)[idx := None]\<rparr>)" using k drop_bind_fut_ok by blast
    with False p Some r k f show ?thesis
      by (auto simp: poll_slot_bind_def ss_keeps_def split: poll.splits sum.splits)
  qed
qed (use assms in \<open>simp add: poll_slot_bind_def\<close>)

lemma poll_slot_next_keeps:
  assumes k: "ss_keeps env front rset F0 T s w" and d: "distinct_arms rset"
    and h: "cell (ss_harvested s) idx = None" and p: "poll_slot_next env idx s w = (p, s', w')"
  shows "ss_keeps env front rset F0 T s' w'"
proof (cases "cell (ss_next_futs s) idx")
  case (Some b)
  then have b: "cell (ss_binds s) idx = Some b" using k by (auto simp: ss_keeps_def ss_ok_def)
  obtain r w1 where r: "env_next env w b = (r, w1)" by fastforce
  show ?thesis
  proof (cases "\<exists>obs. r = Ready (Inr obs)")
    case True
    with harvested_keeps [OF k d b h] p Some r show ?thesis by (auto simp: poll_slot_next_def)
  next
    case False
    then have f: "front w1 = front w" using next_other [OF r] by blast
    have "ss_ok env rset (s\<lparr>ss_next_futs := (ss_next_futs s)[idx := None]\<rparr>)"
      using k drop_next_fut_ok by (auto simp: ss_keeps_def)
    with False p Some r k f show ?thesis
      by (auto simp: poll_slot_next_def ss_keeps_def split: poll.splits sum.splits)
  qed
qed (use assms in \<open>simp add: poll_slot_next_def\<close>)

lemma poll_available_custody:
  assumes d: "distinct_arms rset" and p: "poll_available env s w = (s', w')"
    and k: "ss_keeps env front rset F0 T s w"
  shows "ss_keeps env front rset F0 T s' w'"
proof (rule poll_available_keeps [where P = "ss_keeps env front rset F0 T", OF _ p k])
  fix idx s w p s' w'
  assume k: "ss_keeps env front rset F0 T s w" and q: "poll_slot env idx s w = (p, s', w')"
  show "ss_keeps env front rset F0 T s' w'"
  proof (cases "cell (ss_harvested s) idx")
    case None
    obtain p1 s1 w1 where b: "poll_slot_bind env idx s w = (p1, s1, w1)" by (metis prod_cases3)
    obtain p2 s2 w2 where n: "poll_slot_next env idx s1 w1 = (p2, s2, w2)" by (metis prod_cases3)
    from poll_slot_bind_keeps [OF k b] poll_slot_next_keeps [OF _ d _ n] None q b n show ?thesis
      by (simp add: poll_slot_def)
  qed (use k q in \<open>simp add: poll_slot_def\<close>)
qed

lemma harvest_slots_keeps:
  "harvest_slots env idxs s w = (s', w') \<Longrightarrow> distinct_arms rset \<Longrightarrow> ss_keeps env front rset F0 T s w \<Longrightarrow>
   ss_keeps env front rset F0 T s' w'"
proof (induction idxs arbitrary: s w)
  case (Cons idx idxs)
  obtain s1 w1 where h: "harvest_slot env idx s w = (s1, w1)" by fastforce
  have "ss_keeps env front rset F0 T s1 w1"
  proof (cases "cell (ss_harvested s) idx = None \<and> cell (ss_binds s) idx \<noteq> None")
    case True
    then obtain b where b: "cell (ss_binds s) idx = Some b" by blast
    obtain q w2 where q: "env_poll_ready env w b = (q, w2)" by fastforce
    show ?thesis
    proof (cases q)
      case None
      with h True b q poll_ready_other [OF q] Cons.prems(3) show ?thesis
        by (auto simp: harvest_slot_def ss_keeps_def)
    next
      case (Some obs)
      with h True b q harvested_keeps [OF Cons.prems(3,2) b, of obs w2] show ?thesis
        by (simp add: harvest_slot_def)
    qed
  next
    case False
    with h have "s1 = s" "w1 = w" by (auto simp: harvest_slot_def split: option.splits if_splits)
    with Cons.prems(3) show ?thesis by simp
  qed
  with Cons h show ?case by simp
qed simp

lemma harvest_poll_ready_custody:
  "harvest_poll_ready env s w = (s', w') \<Longrightarrow> distinct_arms rset \<Longrightarrow> ss_keeps env front rset F0 T s w \<Longrightarrow>
   ss_keeps env front rset F0 T s' w'"
  unfolding harvest_poll_ready_def by (rule harvest_slots_keeps)

lemma take_events_custody:
  "ss_keeps env front rset F0 T s w \<Longrightarrow>
   ss_keeps env front rset F0 (\<lambda>r. T r @ by_tag (fst (take_events s)) r) (snd (take_events s)) w"
  using by_tag_taken [of env rset s] by (auto simp: ss_keeps_def take_events_ok)

lemma rearm_custody: "ss_keeps env front rset F0 T s w \<Longrightarrow> ss_keeps env front rset F0 T (rearm_idle s) w"
  by (simp add: ss_keeps_def rearm_ok)

lemma fault_keeps [simp]: "ss_keeps env front rset F0 T (s\<lparr>ss_fault := f\<rparr>) w = ss_keeps env front rset F0 T s w"
  by (simp add: ss_keeps_def)

lemma collect_turn_custody:
  assumes "collect_turn env s w = (r, s', w')" "distinct_arms rset" "ss_keeps env front rset F0 T s w"
  shows "ss_keeps env front rset F0 T s' w'"
proof -
  obtain s1 w1 where p: "poll_available env s w = (s1, w1)" by fastforce
  from poll_available_custody [OF assms(2) p assms(3)] assms(1) p show ?thesis
    by (auto simp: collect_turn_def split: option.splits if_splits)
qed

lemma restore_each_custody:
  "restore_each env binds ready fe w = (fe', w') \<Longrightarrow> distinct_arms rset \<Longrightarrow> distinct (map fst ready) \<Longrightarrow>
   \<forall>(i, obs) \<in> set ready. i < arm_count rset \<and> (\<exists>b. cell binds i = Some b \<and> env_registration_id env b = arm_reg_id rset i) \<and>
     (\<exists>e. obs = Obs_Event e \<and> ev_registration_id e = arm_reg_id rset i) \<Longrightarrow> tagged (front w) \<Longrightarrow>
   conserved F0 (\<lambda>r. T r @ held (arm_count rset) (arm_reg_id rset) (map_of ready) r) (front w) \<Longrightarrow>
   fe' = fe \<and> tagged (front w') \<and> conserved F0 T (front w')"
proof (induction ready arbitrary: w)
  case (Cons p ready)
  obtain i obs where p: "p = (i, obs)" by (cases p)
  with Cons.prems(4) obtain b e where i: "i < arm_count rset" "cell binds i = Some b"
    "env_registration_id env b = arm_reg_id rset i" "obs = Obs_Event e" "ev_registration_id e = arm_reg_id rset i" by auto
  obtain r w1 where r: "env_restore_ready env w b obs = (r, w1)" by fastforce
  have none: "map_of ready i = None" using Cons.prems(3) p by (simp add: map_of_eq_None_iff)
  have f: "r = Inr ()" "front w1 = (front w)(arm_reg_id rset i := e # front w (arm_reg_id rset i))"
    using restore_event_ok [OF r [unfolded i(4)]] i(3) by auto
  have map: "map_of (p # ready) = (map_of ready)(i \<mapsto> Obs_Event e)" by (simp add: p i(4))
  have "(\<lambda>r. T r @ held (arm_count rset) (arm_reg_id rset) (map_of (p # ready)) r) =
      (\<lambda>r. T r @ held (arm_count rset) (arm_reg_id rset) (map_of ready) r)
        (arm_reg_id rset i := (T (arm_reg_id rset i) @ held (arm_count rset) (arm_reg_id rset) (map_of ready) (arm_reg_id rset i)) @ [e])"
    unfolding map held_event [where m = "map_of ready" and i = i, OF arm_reg_id_inj [OF Cons.prems(2)] i(1) none]
    by (auto simp: fun_eq_iff)
  note upd = this
  from Cons.prems(6) have "conserved F0 ((\<lambda>r. T r @ held (arm_count rset) (arm_reg_id rset) (map_of ready) r)
        (arm_reg_id rset i := (T (arm_reg_id rset i) @ held (arm_count rset) (arm_reg_id rset) (map_of ready) (arm_reg_id rset i)) @ [e]))
      (front w)"
    unfolding upd .
  from conserved_restore [OF this] f(2)
  have c: "conserved F0 (\<lambda>r. T r @ held (arm_count rset) (arm_reg_id rset) (map_of ready) r) (front w1)"
    by simp
  have t: "tagged (front w1)" using tagged_restore [OF Cons.prems(5), of e] i(5) f(2) by simp
  from Cons.IH [OF _ Cons.prems(2) _ _ t c] Cons.prems p i r f(1) show ?case by simp
qed simp

lemma drained_mem:
  assumes "ss_ok env rset s" "(i, obs) \<in> set (fst (drain_replayable s))"
  shows "i < arm_count rset \<and> (\<exists>b. cell (ss_binds s) i = Some b \<and> env_registration_id env b = arm_reg_id rset i) \<and>
     (\<exists>e. obs = Obs_Event e \<and> ev_registration_id e = arm_reg_id rset i)"
proof -
  from assms(2) have i: "i < length (ss_harvested s)" "ss_harvested s ! i = Some obs" "observation_is_replayable obs"
    by (auto simp: drain_replayable_def set_filter_map enumerate_nth split: option.splits if_splits)
  then have c: "cell (ss_harvested s) i = Some obs" by (simp add: cell_def)
  from i(3) obtain e where e: "obs = Obs_Event e" by (rule replayable_cases)
  from assms(1) c have "cell (ss_binds s) i \<noteq> None" by (auto simp: ss_ok_def)
  then obtain b where b: "cell (ss_binds s) i = Some b" by blast
  from assms(1) c i(1) e b show ?thesis by (auto simp: ss_ok_def)
qed

lemma drained_distinct: "distinct (map fst (fst (drain_replayable s)))"
proof -
  have "distinct (map fst (filter_map (\<lambda>(idx, obs). case obs of
      Some obs \<Rightarrow> if observation_is_replayable obs then Some (idx, obs) else None | None \<Rightarrow> None) xs))"
    if "distinct (map fst xs)" for xs :: "(nat \<times> observation option) list"
    using that by (induction xs) (force simp: set_filter_map split: option.splits if_splits)+
  then show ?thesis by (simp add: drain_replayable_def)
qed

lemma drained_held:
  assumes "ss_ok env rset s"
  shows "held (arm_count rset) (arm_reg_id rset) (map_of (fst (drain_replayable s))) = in_hand rset s"
proof (rule ext)
  fix r
  have "event_of (map_of (fst (drain_replayable s)) i) = event_of (cell (ss_harvested s) i)" if "i < arm_count rset" for i
  proof (cases "event_of (cell (ss_harvested s) i)")
    case (Some e)
    then have c: "cell (ss_harvested s) i = Some (Obs_Event e)" by (auto simp: event_of_def split: option.splits observation.splits)
    then have "(i, Obs_Event e) \<in> set (fst (drain_replayable s))"
      by (auto simp: drain_replayable_def set_filter_map enumerate_nth cell_def split: if_splits intro!: bexI [of _ "(i, Some (Obs_Event e))"])
    then have "map_of (fst (drain_replayable s)) i = Some (Obs_Event e)"
      by (rule map_of_is_SomeI [OF drained_distinct])
    with Some show ?thesis by (simp add: event_of_def)
  next
    case None
    have "map_of (fst (drain_replayable s)) i = None"
    proof (rule ccontr)
      assume "map_of (fst (drain_replayable s)) i \<noteq> None"
      then obtain obs where m: "(i, obs) \<in> set (fst (drain_replayable s))" by (auto dest: map_of_SomeD)
      then have "cell (ss_harvested s) i = Some obs"
        by (auto simp: drain_replayable_def set_filter_map enumerate_nth cell_def split: option.splits if_splits)
      with drained_mem [OF assms m] None show False by (auto simp: event_of_def)
    qed
    with None show ?thesis by (simp add: event_of_def)
  qed
  then show "held (arm_count rset) (arm_reg_id rset) (map_of (fst (drain_replayable s))) r = in_hand rset s r"
    by (auto simp: held_def held_at_event_of intro!: filter_map_cong)
qed

lemma drain_restore_custody:
  assumes r: "restore_each env (ss_binds s) (fst (drain_replayable s)) fe w = (fe', w')" and d: "distinct_arms rset"
    and k: "ss_keeps env front rset F0 T s w"
  shows "fe' = fe \<and> ss_keeps env front rset F0 T (snd (drain_replayable s)) w'"
proof -
  note k = k [unfolded ss_keeps_def]
  have ok: "ss_ok env rset s" using k by simp
  from restore_each_custody [OF r d drained_distinct _ _, of F0 T] k drained_mem [OF ok] drained_held [OF ok]
  have "fe' = fe \<and> tagged (front w') \<and> conserved F0 T (front w')" by auto
  with drain_ok [OF ok] show ?thesis by (simp add: ss_keeps_def)
qed

lemma restore_harvested_custody:
  assumes "restore_harvested env s w = (r, s', w')" "distinct_arms rset" "ss_keeps env front rset F0 T s w"
  shows "r = Inr () \<and> conserved F0 T (front w')"
proof -
  obtain fe w1 where r: "restore_each env (ss_binds s) (fst (drain_replayable s)) None w = (fe, w1)" by fastforce
  have "ss_binds (snd (drain_replayable s)) = ss_binds s" by (simp add: drain_replayable_def)
  with assms(1) r have "r = first_error fe" "w' = w1"
    by (auto simp: restore_harvested_def Let_def split: prod.splits)
  with drain_restore_custody [OF r assms(2,3)] show ?thesis by (simp add: first_error_def ss_keeps_def)
qed

lemma index_of_arm:
  assumes d: "distinct_arms rset" and s: "ss_regs s = rs_registrations rset" and i: "i < arm_count rset"
  shows "ss_index_of s (id_str (arm_reg_id rset i)) = Some i"
proof (cases "ss_index_of s (id_str (arm_reg_id rset i))")
  case None
  with s i show ?thesis
    by (auto simp: ss_index_of_def position_None arm_count_def arm_reg_id_def)
next
  case (Some j)
  with position_Some [of _ "ss_regs s" j] s have j: "j < arm_count rset" "id_str (arm_reg_id rset j) = id_str (arm_reg_id rset i)"
    by (auto simp: ss_index_of_def arm_count_def arm_reg_id_def)
  have "arm_reg_id rset j = arm_reg_id rset i"
    using j(2) by (cases "arm_reg_id rset j"; cases "arm_reg_id rset i") simp
  with arm_reg_id_inj [OF d] j(1) i have "j = i" by (auto dest: inj_onD)
  with Some show ?thesis by simp
qed

lemma restore_pending_custody:
  "restore_pending env s evs fe w = (fe', w') \<Longrightarrow> distinct_arms rset \<Longrightarrow> ss_ok env rset s \<Longrightarrow>
   slots_bound rset s evs \<Longrightarrow> tagged (front w) \<Longrightarrow>
   conserved F0 (\<lambda>r. T r @ by_tag (rev evs) r) (front w) \<Longrightarrow> fe' = fe \<and> conserved F0 T (front w')"
proof (induction evs arbitrary: w)
  case (Cons e evs)
  from Cons.prems(4) obtain i b where i: "i < arm_count rset" "cell (ss_binds s) i = Some b"
    "ev_registration_id e = arm_reg_id rset i" by (auto simp: slots_bound_def)
  have id: "env_registration_id env b = arm_reg_id rset i" using Cons.prems(3) i(2) by (simp add: ss_ok_def)
  have ix: "ss_index_of s (id_str (ev_registration_id e)) = Some i"
    unfolding i(3) by (rule index_of_arm [OF Cons.prems(2) _ i(1)]) (use Cons.prems(3) in \<open>simp add: ss_ok_def\<close>)
  obtain r w1 where r: "env_restore_ready env w b (Obs_Event e) = (r, w1)" by fastforce
  have f: "r = Inr ()" "front w1 = (front w)(arm_reg_id rset i := e # front w (arm_reg_id rset i))"
    using restore_event_ok [OF r] id by auto
  have upd: "(\<lambda>r. T r @ by_tag (rev (e # evs)) r) =
      (\<lambda>r. T r @ by_tag (rev evs) r)(arm_reg_id rset i := (T (arm_reg_id rset i) @ by_tag (rev evs) (arm_reg_id rset i)) @ [e])"
    using i(3) by (auto simp: fun_eq_iff)
  have c: "conserved F0 (\<lambda>r. T r @ by_tag (rev evs) r) (front w1)"
    unfolding f(2) by (rule conserved_restore) (use Cons.prems(6) in \<open>simp only: upd\<close>)
  have t: "tagged (front w1)" using tagged_restore [OF Cons.prems(5), of e] i(3) f(2) by simp
  have b: "slots_bound rset s evs" using Cons.prems(4) by (simp add: slots_bound_def)
  have "restore_pending env s evs fe w1 = (fe', w')" using Cons.prems(1) ix i(2) r f(1) by simp
  from Cons.IH [OF this Cons.prems(2,3) b t c] show ?case .
qed simp

text \<open>Everything not handed on goes back: what the slots hold, then the buffered events.\<close>

lemma restore_custody_custody:
  assumes r: "restore_custody env s pending w = (r, s', w')" and d: "distinct_arms rset"
    and b: "slots_bound rset s pending" and k: "ss_keeps env front rset F0 (\<lambda>r. T r @ by_tag pending r) s w"
  shows "r = Inr () \<and> conserved F0 T (front w')"
proof -
  let ?s = "snd (drain_replayable s)"
  obtain fe w1 where h: "restore_each env (ss_binds s) (fst (drain_replayable s)) None w = (fe, w1)" by fastforce
  have binds: "ss_binds ?s = ss_binds s" by (simp add: drain_replayable_def)
  from drain_restore_custody [OF h d k] have k1: "fe = None" "ss_keeps env front rset F0 (\<lambda>r. T r @ by_tag pending r) ?s w1"
    by auto
  obtain fe2 w2 where p: "restore_pending env ?s (rev pending) None w1 = (fe2, w2)" by fastforce
  have b1: "slots_bound rset ?s (rev pending)" using b binds by (simp add: slots_bound_def)
  have "fe2 = None \<and> conserved F0 T (front w2)"
    by (rule restore_pending_custody [OF p d _ b1]) (use k1(2) in \<open>simp_all add: ss_keeps_def\<close>)
  moreover have "r = first_error fe2" "w' = w2"
    using r h p k1(1) binds by (auto simp: restore_custody_def Let_def split: prod.splits)
  ultimately show ?thesis by (simp add: first_error_def)
qed

lemma taken_bound:
  assumes "ss_ok env rset s"
  shows "slots_bound rset s (fst (take_events s))"
  unfolding slots_bound_def
proof
  fix e
  assume "e \<in> set (fst (take_events s))"
  then obtain i where "i < length (ss_harvested s)" "event_of (ss_harvested s ! i) = Some e"
    by (auto simp: take_events_def set_filter_map in_set_conv_nth)
  then have "cell (ss_harvested s) i = Some (Obs_Event e)"
    by (auto simp: cell_def event_of_def split: option.splits observation.splits)
  with assms cell_lt [OF this] show "\<exists>i < arm_count rset. cell (ss_binds s) i \<noteq> None \<and> ev_registration_id e = arm_reg_id rset i"
    by (auto simp: ss_ok_def)
qed

end

end
