(* ===== verification/Follow_Run.thy ===== *)
theory Follow_Run
  imports Follow Slot_Custody
begin

text \<open>
  Custody in the held-follow runner: what the sink was handed is exactly what left the providers,
  in order, and everything else the session dequeued is back when it ends.
\<close>

locale held_session = observer_tagged +
  fixes snk :: "'a \<Rightarrow> wait_event list \<Rightarrow> (error + unit) poll \<times> 'a"
  assumes snk_front: "snk w evs = (r, w') \<Longrightarrow> front w' = front w"

definition sent_by_tag :: "'b fw_state \<Rightarrow> id_token \<Rightarrow> wait_event list" where
  "sent_by_tag st = by_tag (concat (fw_sent st))"

definition fw_inv ::
  "('w, 'b) env \<Rightarrow> ('w \<Rightarrow> id_token \<Rightarrow> wait_event list) \<Rightarrow> registration_set \<Rightarrow> (id_token \<Rightarrow> wait_event list) \<Rightarrow>
   'b fw_state \<times> 'w \<Rightarrow> bool" where
  "fw_inv env front rset F0 c \<longleftrightarrow>
     (case c of (st, w) \<Rightarrow>
        (case fw_pc st of
           FW_Done r \<Rightarrow> conserved F0 (sent_by_tag st) (front w)
         | FW_Sink _ _ _ \<Rightarrow> ss_keeps env front rset F0 (sent_by_tag st) (fw_slots st) w \<and>
             in_hand rset (fw_slots st) = (\<lambda>_. [])
         | _ \<Rightarrow> ss_keeps env front rset F0 (sent_by_tag st) (fw_slots st) w))"

lemma fw_inv_slots:
  "fw_inv env front rset F0 (st, w) \<Longrightarrow> \<not> (\<exists>r. fw_pc st = FW_Done r) \<Longrightarrow>
   ss_keeps env front rset F0 (sent_by_tag st) (fw_slots st) w"
  by (auto simp: fw_inv_def split: fw_pc.splits)

lemma by_tag_append: "by_tag (xs @ ys) = (\<lambda>r. by_tag xs r @ by_tag ys r)"
  by (rule ext) simp

context observer_tagged
begin

lemma ss_keeps_front:
  "ss_keeps env front rset F0 T s w \<Longrightarrow> front w' = front w \<Longrightarrow> ss_keeps env front rset F0 T s w'"
  by (simp add: ss_keeps_def)

lemma finish_inv:
  assumes d: "distinct_arms rset" and k: "ss_keeps env front rset F0 (sent_by_tag st) (fw_slots st) w"
  shows "fw_inv env front rset F0 (finish_cancel env st w)" "fw_inv env front rset F0 (finish_err env err st w)"
proof -
  obtain r s w1 where r: "restore_harvested env (fw_slots st) w = (r, s, w1)" by (metis prod_cases3)
  from restore_harvested_custody [OF r d k] r
  show "fw_inv env front rset F0 (finish_cancel env st w)" "fw_inv env front rset F0 (finish_err env err st w)"
    by (simp_all add: finish_cancel_def finish_err_def fw_done_def fw_inv_def sent_by_tag_def)
qed

lemma fw_after_sink_inv:
  assumes "ss_keeps env front rset F0 (sent_by_tag st) (fw_slots st) w" "in_hand rset (fw_slots st) = (\<lambda>_. [])"
  shows "fw_inv env front rset F0 (fw_after_sink rset req terminal now st w)"
proof -
  have "conserved F0 (sent_by_tag st) (front w)" using assms by (simp add: ss_keeps_def)
  then show ?thesis using rearm_custody [OF assms(1)]
    by (auto simp: fw_after_sink_def fw_done_def fw_inv_def sent_by_tag_def split: option.split)
qed

lemma decide_turn_inv:
  assumes d: "distinct_arms rset" and k: "ss_keeps env front rset F0 (sent_by_tag st) (fw_slots st) w"
  shows "fw_inv env front rset F0 (decide_turn env rset req now st w)"
proof (cases "posture_err rset req now")
  case (Some err)
  with finish_inv [OF d k] show ?thesis by (simp add: decide_turn_def)
next
  case None
  note posture = None
  show ?thesis
  proof (cases "ss_fault (fw_slots st)")
    case (Some err)
    let ?st = "st\<lparr>fw_slots := (fw_slots st)\<lparr>ss_fault := None\<rparr>\<rparr>"
    have "ss_keeps env front rset F0 (sent_by_tag ?st) (fw_slots ?st) w" using k by (simp add: sent_by_tag_def)
    from finish_inv(2) [OF d this] posture Some show ?thesis by (simp add: decide_turn_def)
  next
    case None
    obtain c w1 where c: "env_is_cancelled env w = (c, w1)" by fastforce
    have k1: "ss_keeps env front rset F0 (sent_by_tag st) (fw_slots st) w1"
      by (rule ss_keeps_front [OF k cancelled_front [OF c]])
    show ?thesis
    proof (cases c)
      case True
      with finish_inv(1) [OF d k1] posture None c show ?thesis by (simp add: decide_turn_def)
    next
      case False
      obtain events s where t: "take_events (fw_slots st) = (events, s)" by fastforce
      let ?st = "st\<lparr>fw_slots := s\<rparr>"
      from take_events_custody [OF k1] t
      have k2: "ss_keeps env front rset F0 (\<lambda>r. sent_by_tag st r @ by_tag events r) s w1" by simp
      have hand: "in_hand rset s = (\<lambda>_. [])" using in_hand_taken [of rset "fw_slots st"] t by simp
      show ?thesis
      proof (cases "events = []")
        case True
        with k2 have "ss_keeps env front rset F0 (sent_by_tag ?st) (fw_slots ?st) w1" by (simp add: sent_by_tag_def)
        from fw_after_sink_inv [OF this, of req] hand posture None c False t True show ?thesis
          by (simp add: decide_turn_def)
      next
        case ne: False
        with posture None c False t k2 hand show ?thesis
          by (simp add: decide_turn_def Let_def fw_inv_def sent_by_tag_def by_tag_append)
      qed
    qed
  qed
qed

lemma fw_poll_once_keeps:
  assumes "fw_poll_once env st w = (st', w')" "distinct_arms rset"
    and "ss_keeps env front rset F0 (sent_by_tag st) (fw_slots st) w"
  shows "ss_keeps env front rset F0 (sent_by_tag st') (fw_slots st') w'"
proof -
  obtain s w1 where "poll_available env (fw_slots st) w = (s, w1)" by fastforce
  with poll_available_custody [OF assms(2) this assms(3)] assms(1) show ?thesis
    by (auto simp: fw_poll_once_def sent_by_tag_def)
qed

lemma on_wake_inv:
  assumes d: "distinct_arms rset" and k: "ss_keeps env front rset F0 (sent_by_tag st) (fw_slots st) w"
  shows "fw_inv env front rset F0 (on_wake env rset req now st w)"
proof -
  let ?st = "st\<lparr>fw_slots := rearm_idle (fw_slots st)\<rparr>"
  obtain st1 w1 where p: "fw_poll_once env ?st w = (st1, w1)" by fastforce
  obtain s w2 where h: "harvest_poll_ready env (fw_slots st1) w1 = (s, w2)" by fastforce
  have "ss_keeps env front rset F0 (sent_by_tag ?st) (fw_slots ?st) w"
    using rearm_custody [OF k] by (simp add: sent_by_tag_def)
  from harvest_poll_ready_custody [OF h d fw_poll_once_keeps [OF p d this]]
  have "ss_keeps env front rset F0 (sent_by_tag (st1\<lparr>fw_slots := s\<rparr>)) (fw_slots (st1\<lparr>fw_slots := s\<rparr>)) w2"
    by (simp add: sent_by_tag_def)
  from decide_turn_inv [OF d this] p h show ?thesis by (simp add: on_wake_def)
qed

lemma fw_woken_inv:
  assumes "distinct_arms rset" "ss_keeps env front rset F0 (sent_by_tag st) (fw_slots st) w"
  shows "fw_inv env front rset F0 (let (now, w) = env_now env w in on_wake env rset req now st w)"
proof -
  obtain now w1 where t: "env_now env w = (now, w1)" by fastforce
  from on_wake_inv [OF assms(1) ss_keeps_front [OF assms(2) now_front [OF t]]] t show ?thesis by simp
qed

lemma fw_top_inv:
  assumes d: "distinct_arms rset" and k: "ss_keeps env front rset F0 (sent_by_tag st) (fw_slots st) w"
  shows "fw_inv env front rset F0 (fw_top env rset req st w)"
proof -
  obtain now w1 where t: "env_now env w = (now, w1)" by fastforce
  obtain c w2 where c: "env_is_cancelled env w1 = (c, w2)" by fastforce
  have k1: "ss_keeps env front rset F0 (sent_by_tag st) (fw_slots st) w1"
    by (rule ss_keeps_front [OF k now_front [OF t]])
  have k2: "ss_keeps env front rset F0 (sent_by_tag st) (fw_slots st) w2"
    by (rule ss_keeps_front [OF k1 cancelled_front [OF c]])
  from finish_inv [OF d k1] finish_inv [OF d k2] k2 t c show ?thesis
    by (auto simp: fw_top_def fw_inv_def sent_by_tag_def split: option.split)
qed

lemma fw_collected_inv:
  assumes d: "distinct_arms rset" and k: "ss_keeps env front rset F0 (sent_by_tag st) (fw_slots st) w"
  shows "fw_inv env front rset F0 (fw_collected env rset req result st w)"
proof -
  obtain now w1 where t: "env_now env w = (now, w1)" by fastforce
  have k1: "ss_keeps env front rset F0 (sent_by_tag st) (fw_slots st) w1"
    by (rule ss_keeps_front [OF k now_front [OF t]])
  show ?thesis
  proof (cases result)
    case (Inl err)
    with finish_inv [OF d k1] t show ?thesis by (auto simp: fw_collected_def split: option.split)
  next
    case (Inr turn)
    from decide_turn_inv [OF d k1] k1 t Inr show ?thesis
      by (cases turn) (simp_all add: fw_collected_def Let_def fw_backoff_deadline_def fw_inv_def sent_by_tag_def)
  qed
qed

lemma fw_select_inv:
  assumes d: "distinct_arms rset" and k: "ss_keeps env front rset F0 (sent_by_tag st) (fw_slots st) w"
    and pc: "fw_pc st = FW_Select wake"
  shows "fw_inv env front rset F0 (fw_select env rset req wake st w)"
proof -
  obtain r s w1 where q: "collect_turn env (fw_slots st) w = (r, s, w1)" by (metis prod_cases3)
  let ?st = "st\<lparr>fw_slots := s\<rparr>"
  have k1: "ss_keeps env front rset F0 (sent_by_tag ?st) (fw_slots ?st) w1"
    using collect_turn_custody [OF q d k] by (simp add: sent_by_tag_def)
  show ?thesis
  proof (cases r)
    case (Ready x)
    with fw_collected_inv [OF d k1] q show ?thesis by (simp add: fw_select_def)
  next
    case Pending
    obtain c w2 where c: "poll_cancelled env w1 = (c, w2)" by fastforce
    have k2: "ss_keeps env front rset F0 (sent_by_tag ?st) (fw_slots ?st) w2"
      by (rule ss_keeps_front [OF k1 poll_cancelled_front [OF c]])
    show ?thesis
    proof (cases c)
      case (Ready u)
      obtain st2 w3 where p: "fw_poll_once env ?st w2 = (st2, w3)" by fastforce
      obtain now w4 where t: "env_now env w3 = (now, w4)" by fastforce
      from decide_turn_inv [OF d ss_keeps_front [OF fw_poll_once_keeps [OF p d k2] now_front [OF t]]]
        q Pending c Ready p t show ?thesis by (simp add: fw_select_def)
    next
      case P2: Pending
      obtain z w3 where z: "env_sleep_until env w2 wake = (z, w3)" by fastforce
      have k3: "ss_keeps env front rset F0 (sent_by_tag ?st) (fw_slots ?st) w3"
        by (rule ss_keeps_front [OF k2 sleep_front [OF z]])
      from fw_woken_inv [OF d k3] ss_keeps_front [OF k3 park_front] q Pending c P2 z pc show ?thesis
        by (cases z) (simp_all add: fw_select_def fw_inv_def)
    qed
  qed
qed

lemma fw_backoff_inv:
  assumes d: "distinct_arms rset" and k: "ss_keeps env front rset F0 (sent_by_tag st) (fw_slots st) w"
    and pc: "fw_pc st = FW_Backoff t"
  shows "fw_inv env front rset F0 (fw_sleep_backoff env rset req t st w)"
proof -
  obtain c w1 where c: "poll_cancelled env w = (c, w1)" by fastforce
  have k1: "ss_keeps env front rset F0 (sent_by_tag st) (fw_slots st) w1"
    by (rule ss_keeps_front [OF k poll_cancelled_front [OF c]])
  obtain z w2 where z: "env_sleep_until env w1 t = (z, w2)" by fastforce
  have k2: "ss_keeps env front rset F0 (sent_by_tag st) (fw_slots st) w2"
    by (rule ss_keeps_front [OF k1 sleep_front [OF z]])
  from fw_woken_inv [OF d k1] fw_woken_inv [OF d k2] ss_keeps_front [OF k2 park_front] c z pc show ?thesis
    by (cases c; cases z) (simp_all add: fw_sleep_backoff_def fw_inv_def)
qed

end

context held_session
begin

lemma fw_sinking_inv:
  assumes k: "ss_keeps env front rset F0 (sent_by_tag st) (fw_slots st) w" "in_hand rset (fw_slots st) = (\<lambda>_. [])"
    and pc: "fw_pc st = FW_Sink events terminal now"
  shows "fw_inv env front rset F0 (fw_sinking env snk rset req events terminal now st w)"
proof -
  obtain r w1 where r: "snk w events = (r, w1)" by fastforce
  have f: "front w1 = front w" by (rule snk_front [OF r])
  note k1 = ss_keeps_front [OF k(1) f]
  show ?thesis
  proof (cases r)
    case Pending
    with r ss_keeps_front [OF k1 park_front] k(2) pc show ?thesis by (simp add: fw_sinking_def fw_inv_def)
  next
    case (Ready x)
    have "conserved F0 (sent_by_tag st) (front w1)" using k1 k(2) by (simp add: ss_keeps_def)
    with r Ready fw_after_sink_inv [OF k1 k(2)] show ?thesis
      by (cases x) (simp_all add: fw_sinking_def fw_done_def fw_inv_def sent_by_tag_def)
  qed
qed

lemma fw_step_inv:
  assumes d: "distinct_arms rset" and i: "fw_inv env front rset F0 c"
  shows "fw_inv env front rset F0 (fw_step env snk rset req c)"
proof -
  obtain st w where c: "c = (st, w)" by (cases c)
  show ?thesis
  proof (cases "fw_pc st")
    case FW_Top
    with i c fw_top_inv [OF d, of F0 st w] show ?thesis by (simp add: fw_step_def fw_inv_def)
  next
    case (FW_Select wake)
    with i c fw_select_inv [OF d, of F0 st w] show ?thesis by (simp add: fw_step_def fw_inv_def)
  next
    case (FW_Backoff t)
    with i c fw_backoff_inv [OF d, of F0 st w] show ?thesis by (simp add: fw_step_def fw_inv_def)
  next
    case (FW_Sink events terminal now)
    with i c fw_sinking_inv [of rset F0 st w events terminal now] show ?thesis by (simp add: fw_step_def fw_inv_def)
  next
    case (FW_Done r)
    with i c show ?thesis by (simp add: fw_step_def)
  qed
qed

lemma fw_run_inv:
  "distinct_arms rset \<Longrightarrow> fw_inv env front rset F0 c \<Longrightarrow> fw_inv env front rset F0 (fw_run env snk rset req n c)"
  by (induction n arbitrary: c) (simp_all add: fw_step_inv)

lemma fw_admit_front: "fw_admit env rset req w = (r, w') \<Longrightarrow> front w' = front w"
  by (auto simp: fw_admit_def Let_def split: sum.splits if_splits prod.splits option.splits dest: now_front)

lemma in_hand_new [simp]: "in_hand rset (ss_new regs) = (\<lambda>_. [])"
  by (rule in_hand_none) (auto simp: ss_new_def cell_map event_of_def)

lemma fw_init_inv: "tagged (front w) \<Longrightarrow> fw_inv env front rset (front w) (fw_init rset, w)"
  by (simp add: fw_inv_def fw_init_def ss_keeps_def ss_ok_new sent_by_tag_def conserved_start)

theorem run_follow_custody:
  assumes d: "distinct_arms rset" and t: "tagged (front w)"
    and r: "run_follow env snk rset req fuel w = (Some r, sent, w')"
  shows "conserved (front w) (by_tag (concat sent)) (front w')"
proof -
  obtain a w0 where a: "fw_admit env rset req w = (a, w0)" by fastforce
  have f: "front w0 = front w" by (rule fw_admit_front [OF a])
  show ?thesis
  proof (cases a)
    case (Inl err)
    with r a f show ?thesis by (auto simp: run_follow_def conserved_start)
  next
    case (Inr u)
    obtain st w1 where s: "fw_run env snk rset req fuel (fw_init rset, w0) = (st, w1)" by fastforce
    from fw_run_inv [OF d fw_init_inv [of w0 rset], of req fuel] t f s
    have "fw_inv env front rset (front w) (st, w1)" by simp
    with r a Inr s show ?thesis
      by (auto simp: run_follow_def fw_inv_def sent_by_tag_def split: fw_pc.splits)
  qed
qed

end

end
