(* ===== verification/Coalesce.thy ===== *)
theory Coalesce
  imports Follow
begin

text \<open>
  The coalescing session (\<^verbatim>\<open>crates/waitprims-async/src/coalesce.rs\<close>): quiet events are buffered
  and emitted at most once per interval, urgent ones at once, and the rest at the end.
\<close>

section \<open>Policy and buffer\<close>

record coalesce_policy =
  cp_min_emit_interval :: duration
  cp_urgent_at :: u8

definition coalesce_policy_new :: "duration \<Rightarrow> coalesce_policy" where
  "coalesce_policy_new interval = \<lparr>cp_min_emit_interval = interval, cp_urgent_at = priority_urgent\<rparr>"

record pending_buffer =
  pd_events :: "wait_event list"
  pd_total_events :: u64
  pd_total_bytes :: u64
  pd_per_events :: "(string, u64) btree"
  pd_per_bytes :: "(string, u64) btree"

definition pd_new :: pending_buffer where
  "pd_new = \<lparr>pd_events = [], pd_total_events = 0, pd_total_bytes = 0, pd_per_events = [], pd_per_bytes = []\<rparr>"

definition pd_is_empty :: "pending_buffer \<Rightarrow> bool" where
  "pd_is_empty p \<longleftrightarrow> pd_events p = []"

definition pd_take :: "pending_buffer \<Rightarrow> wait_event list \<times> pending_buffer" where
  "pd_take p =
     (pd_events p, p\<lparr>pd_events := [], pd_total_events := 0, pd_total_bytes := 0, pd_per_events := [], pd_per_bytes := []\<rparr>)"

definition registration_of :: "registration_set \<Rightarrow> id_token \<Rightarrow> registration option" where
  "registration_of rset i = find (\<lambda>reg. id_str (reg_id reg) = id_str i) (rs_registrations rset)"

text \<open>The buffer with the event, or the registration that has no room for it.\<close>

definition try_push :: "registration_set \<Rightarrow> wait_event \<Rightarrow> pending_buffer \<Rightarrow> id_token + pending_buffer" where
  "try_push rset ev p =
     (let rid = id_str (ev_registration_id ev);
          bytes = event_surface_bytes ev;
          next_events = sat_add (pd_total_events p) 1;
          next_bytes = sat_add (pd_total_bytes p) bytes
      in if wb_max_events (rs_aggregate_limits rset) < next_events \<or> wb_max_bytes (rs_aggregate_limits rset) < next_bytes
         then Inl (ev_registration_id ev)
         else case registration_of rset (ev_registration_id ev) of
                None \<Rightarrow> Inl (ev_registration_id ev)
              | Some reg \<Rightarrow>
                  (let per_e = sat_add (get_or 0 (pd_per_events p) rid) 1;
                       per_b = sat_add (get_or 0 (pd_per_bytes p) rid) bytes
                   in if wb_max_events (reg_bounds reg) < per_e \<or> wb_max_bytes (reg_bounds reg) < per_b
                      then Inl (ev_registration_id ev)
                      else Inr (p\<lparr>pd_total_events := next_events, pd_total_bytes := next_bytes,
                                  pd_per_events := bt_insert rid per_e (pd_per_events p),
                                  pd_per_bytes := bt_insert rid per_b (pd_per_bytes p),
                                  pd_events := pd_events p @ [ev]\<rparr>)))"

definition effective_priority :: "registration \<Rightarrow> u8" where
  "effective_priority reg = (case reg_priority reg of Some p \<Rightarrow> p | None \<Rightarrow> priority_normal)"

definition is_urgent :: "registration_set \<Rightarrow> wait_event \<Rightarrow> u8 \<Rightarrow> bool" where
  "is_urgent rset ev urgent_at =
     (case registration_of rset (ev_registration_id ev) of
        Some reg \<Rightarrow> urgent_at \<le> effective_priority reg
      | None \<Rightarrow> False)"

text \<open>Buffer every event; on overflow, everything not handed on and the registration at fault.\<close>

fun push_all ::
  "registration_set \<Rightarrow> wait_event list \<Rightarrow> pending_buffer \<Rightarrow> (wait_event list \<times> id_token) + pending_buffer" where
  "push_all rset [] p = Inr p"
| "push_all rset (ev # rest) p =
     (case try_push rset ev p of
        Inl rid \<Rightarrow> Inl (pd_events p @ [ev] @ rest, rid)
      | Inr p \<Rightarrow> push_all rset rest p)"

text \<open>Buffer the quiet events and collect the urgent ones; the first quiet one opens the interval.\<close>

fun push_quiet ::
  "registration_set \<Rightarrow> u8 \<Rightarrow> timestamp \<Rightarrow> wait_event list \<Rightarrow> wait_event list \<Rightarrow> pending_buffer \<Rightarrow> timestamp option \<Rightarrow>
   (wait_event list \<times> id_token) + (wait_event list \<times> pending_buffer \<times> timestamp option)" where
  "push_quiet rset urgent_at emit_at [] urgent p nxt = Inr (urgent, p, nxt)"
| "push_quiet rset urgent_at emit_at (ev # rest) urgent p nxt =
     (if is_urgent rset ev urgent_at then push_quiet rset urgent_at emit_at rest (urgent @ [ev]) p nxt
      else case try_push rset ev p of
             Inl rid \<Rightarrow> Inl (pd_events p @ [ev] @ urgent @ rest, rid)
           | Inr p \<Rightarrow>
               push_quiet rset urgent_at emit_at rest urgent p (if nxt = None then Some emit_at else nxt))"

definition interval_is_due :: "timestamp option \<Rightarrow> timestamp \<Rightarrow> bool" where
  "interval_is_due nxt now = (case nxt of Some at \<Rightarrow> ts_le at now | None \<Rightarrow> False)"

definition overflow_end :: "id_token \<Rightarrow> follow_end" where
  "overflow_end rid = FE_TerminalArm rid TA_Overflow (IdToken ''buffer_overflow'')"

section \<open>State\<close>

text \<open>What a turn does once the sink has accepted its burst.\<close>

datatype co_after =
    After_Final "follow_end option" timestamp bool
  | After_Quiet timestamp
  | After_Urgent

text \<open>\<open>CO_Sink\<close> also says whether the turn was taken at the head of the loop.\<close>

datatype co_pc =
    CO_Top
  | CO_Select timestamp "timestamp option"
  | CO_Backoff timestamp
  | CO_Sink "wait_event list" co_after bool
  | CO_Done "error + follow_end"

text \<open>\<open>co_log\<close> records the bursts handed to the sink and why; the code does not read it.\<close>

record 'b co_state =
  co_pc :: co_pc
  co_slots :: "'b slot_set"
  co_pending :: pending_buffer
  co_next_quiet :: "timestamp option"
  co_backoff_step :: u64
  co_log :: "(wait_event list \<times> co_after) list"

definition co_init :: "registration_set \<Rightarrow> 'b co_state" where
  "co_init rset =
     \<lparr>co_pc = CO_Top, co_slots = ss_new (rs_registrations rset), co_pending = pd_new,
      co_next_quiet = None, co_backoff_step = 0, co_log = []\<rparr>"

definition co_done :: "'b co_state \<Rightarrow> error + follow_end \<Rightarrow> 'w \<Rightarrow> 'b co_state \<times> 'w" where
  "co_done st r w = (st\<lparr>co_pc := CO_Done r\<rparr>, w)"

definition fail_closed :: "('w, 'b) env \<Rightarrow> error \<Rightarrow> 'b co_state \<Rightarrow> 'w \<Rightarrow> 'b co_state \<times> 'w" where
  "fail_closed env err st w =
     (let (unsunk, p) = pd_take (co_pending st)
      in case restore_custody env (co_slots st) unsunk w of
           (Inl err', s, w) \<Rightarrow> co_done (st\<lparr>co_slots := s, co_pending := p\<rparr>) (Inl err') w
         | (Inr _, s, w) \<Rightarrow> co_done (st\<lparr>co_slots := s, co_pending := p\<rparr>) (Inl err) w)"

text \<open>The buffer has been emptied into the events that were not handed on.\<close>

definition restore_then_overflow ::
  "('w, 'b) env \<Rightarrow> wait_event list \<Rightarrow> id_token \<Rightarrow> 'b co_state \<Rightarrow> 'w \<Rightarrow> 'b co_state \<times> 'w" where
  "restore_then_overflow env unsunk rid st w =
     (let p = snd (pd_take (co_pending st))
      in case restore_custody env (co_slots st) unsunk w of
           (Inl err, s, w) \<Rightarrow> co_done (st\<lparr>co_slots := s, co_pending := p\<rparr>) (Inl err) w
         | (Inr _, s, w) \<Rightarrow> co_done (st\<lparr>co_slots := s, co_pending := p\<rparr>) (Inr (overflow_end rid)) w)"

definition co_hand :: "wait_event list \<Rightarrow> co_after \<Rightarrow> bool \<Rightarrow> 'b co_state \<Rightarrow> 'b co_state" where
  "co_hand events after headed st =
     st\<lparr>co_pc := CO_Sink events after headed, co_log := co_log st @ [(events, after)]\<rparr>"

section \<open>Turns\<close>

text \<open>A turn that decided nothing: back to the head of the loop, or on to the wait from there.\<close>

definition co_wait :: "registration_set \<Rightarrow> live_wait_request \<Rightarrow> 'b co_state \<Rightarrow> 'b co_state" where
  "co_wait rset req st =
     st\<lparr>co_pc := CO_Select (earliest_wake rset req)
          (if pd_is_empty (co_pending st) then None else co_next_quiet st)\<rparr>"

definition co_undecided ::
  "registration_set \<Rightarrow> live_wait_request \<Rightarrow> bool \<Rightarrow> 'b co_state \<Rightarrow> 'w \<Rightarrow> 'b co_state \<times> 'w" where
  "co_undecided rset req headed st w =
     (let st = st\<lparr>co_slots := rearm_idle (co_slots st)\<rparr>
      in (if headed then co_wait rset req st else st\<lparr>co_pc := CO_Top\<rparr>, w))"

definition co_finish ::
  "registration_set \<Rightarrow> live_wait_request \<Rightarrow> follow_end option \<Rightarrow> timestamp \<Rightarrow> bool \<Rightarrow> 'b co_state \<Rightarrow> 'w \<Rightarrow>
   'b co_state \<times> 'w" where
  "co_finish rset req terminal now cancelled st w =
     (case terminal of
        Some fin \<Rightarrow> co_done st (Inr fin) w
      | None \<Rightarrow>
          (case (if at_deadline req now then deadline_end rset req now (co_slots st) else None) of
             Some fin \<Rightarrow> co_done st (Inr fin) w
           | None \<Rightarrow> co_done st (Inr (if cancelled then FE_Cancel else FE_Deadline)) w))"

definition final_flush ::
  "('w, 'b) env \<Rightarrow> registration_set \<Rightarrow> live_wait_request \<Rightarrow> timestamp \<Rightarrow> wait_event list \<Rightarrow>
   follow_end option \<Rightarrow> bool \<Rightarrow> bool \<Rightarrow> 'b co_state \<Rightarrow> 'w \<Rightarrow> 'b co_state \<times> 'w" where
  "final_flush env rset req now events terminal cancelled headed st w =
     (case push_all rset events (co_pending st) of
        Inl (unsunk, rid) \<Rightarrow> restore_then_overflow env unsunk rid st w
      | Inr p \<Rightarrow>
          (if pd_is_empty p then co_finish rset req terminal now cancelled (st\<lparr>co_pending := p\<rparr>) w
           else let (burst, p) = pd_take p
                in (co_hand burst (After_Final terminal now cancelled) headed (st\<lparr>co_pending := p\<rparr>), w)))"

definition emit_quiet ::
  "registration_set \<Rightarrow> live_wait_request \<Rightarrow> timestamp \<Rightarrow> bool \<Rightarrow> 'b co_state \<Rightarrow> 'w \<Rightarrow> 'b co_state \<times> 'w" where
  "emit_quiet rset req now headed st w =
     (if pd_is_empty (co_pending st) then co_undecided rset req headed st w
      else let (burst, p) = pd_take (co_pending st)
           in (co_hand burst (After_Quiet now) headed (st\<lparr>co_pending := p\<rparr>), w))"

definition apply_turn ::
  "('w, 'b) env \<Rightarrow> registration_set \<Rightarrow> live_wait_request \<Rightarrow> coalesce_policy \<Rightarrow> timestamp \<Rightarrow> wait_event list \<Rightarrow>
   bool \<Rightarrow> 'b co_state \<Rightarrow> 'w \<Rightarrow> 'b co_state \<times> 'w" where
  "apply_turn env rset req policy now events headed st w =
     (if events = []
      then (if interval_is_due (co_next_quiet st) now \<and> \<not> pd_is_empty (co_pending st)
            then emit_quiet rset req now headed st w else co_undecided rset req headed st w)
      else
        let emit_at = saturating_add (env_calendar env) now (cp_min_emit_interval policy);
            urgent = (\<lambda>ev. is_urgent rset ev (cp_urgent_at policy));
            nxt = (if co_next_quiet st = None \<and> list_ex (\<lambda>ev. \<not> urgent ev) events then Some emit_at else co_next_quiet st);
            st = st\<lparr>co_next_quiet := nxt\<rparr>;
            interval_due = interval_is_due nxt now;
            any_urgent = list_ex urgent events
        in if any_urgent \<and> interval_due
           then (case push_all rset events (co_pending st) of
                   Inl (unsunk, rid) \<Rightarrow> restore_then_overflow env unsunk rid st w
                 | Inr p \<Rightarrow> emit_quiet rset req now headed (st\<lparr>co_pending := p\<rparr>) w)
           else if any_urgent
           then (case push_quiet rset (cp_urgent_at policy) emit_at events [] (co_pending st) nxt of
                   Inl (unsunk, rid) \<Rightarrow> restore_then_overflow env unsunk rid st w
                 | Inr (burst, p, nxt) \<Rightarrow>
                     (let st = st\<lparr>co_pending := p, co_next_quiet := nxt\<rparr>
                      in if burst \<noteq> [] then (co_hand burst After_Urgent headed st, w)
                         else co_undecided rset req headed st w))
           else (case push_all rset events (co_pending st) of
                   Inl (unsunk, rid) \<Rightarrow> restore_then_overflow env unsunk rid st w
                 | Inr p \<Rightarrow>
                     (let nxt = (if nxt = None then Some emit_at else nxt);
                          st = st\<lparr>co_pending := p, co_next_quiet := nxt\<rparr>
                      in if interval_is_due nxt now then emit_quiet rset req now headed st w
                         else co_undecided rset req headed st w)))"

definition decide_coalesce ::
  "('w, 'b) env \<Rightarrow> registration_set \<Rightarrow> live_wait_request \<Rightarrow> coalesce_policy \<Rightarrow> timestamp \<Rightarrow> bool \<Rightarrow> bool \<Rightarrow>
   'b co_state \<Rightarrow> 'w \<Rightarrow> 'b co_state \<times> 'w" where
  "decide_coalesce env rset req policy now cancel_arm headed st w =
     (case posture_err rset req now of
        Some err \<Rightarrow> fail_closed env err st w
      | None \<Rightarrow>
          (case ss_fault (co_slots st) of
             Some err \<Rightarrow> fail_closed env err (st\<lparr>co_slots := (co_slots st)\<lparr>ss_fault := None\<rparr>\<rparr>) w
           | None \<Rightarrow>
               (let (events, s) = take_events (co_slots st);
                    st = st\<lparr>co_slots := s\<rparr>;
                    terminal = first_terminal rset s;
                    (cancelled, w) = (if cancel_arm then (True, w) else env_is_cancelled env w)
                in if terminal \<noteq> None \<or> cancelled \<or> at_deadline req now
                   then final_flush env rset req now events terminal cancelled headed st w
                   else apply_turn env rset req policy now events headed st w)))"

section \<open>The loop\<close>

definition co_poll_once :: "('w, 'b) env \<Rightarrow> 'b co_state \<Rightarrow> 'w \<Rightarrow> 'b co_state \<times> 'w" where
  "co_poll_once env st w =
     (let (s, w) = poll_available env (co_slots st) w;
          (s, w) = harvest_poll_ready env s w
      in (st\<lparr>co_slots := s\<rparr>, w))"

text \<open>A wake-up: idle slots are armed again, and the turn decides with the time it then reads.\<close>

definition co_wake ::
  "('w, 'b) env \<Rightarrow> registration_set \<Rightarrow> live_wait_request \<Rightarrow> coalesce_policy \<Rightarrow> 'b co_state \<Rightarrow> 'w \<Rightarrow>
   'b co_state \<times> 'w" where
  "co_wake env rset req policy st w =
     (let st = st\<lparr>co_slots := rearm_idle (co_slots st)\<rparr>;
          (st, w) = co_poll_once env st w;
          (now, w) = env_now env w
      in decide_coalesce env rset req policy now False False st w)"

definition co_top ::
  "('w, 'b) env \<Rightarrow> registration_set \<Rightarrow> live_wait_request \<Rightarrow> coalesce_policy \<Rightarrow> 'b co_state \<Rightarrow> 'w \<Rightarrow>
   'b co_state \<times> 'w" where
  "co_top env rset req policy st w =
     (let (now, w) = env_now env w
      in case posture_err rset req now of
           Some err \<Rightarrow> fail_closed env err st w
         | None \<Rightarrow>
             (let (now, w) = env_now env w;
                  (cancelled, w) = env_is_cancelled env w
              in if cancelled \<or> at_deadline req now
                    \<or> (\<not> pd_is_empty (co_pending st) \<and> interval_is_due (co_next_quiet st) now)
                 then let (st, w) = co_poll_once env st w;
                          (cancel_arm, w) = env_is_cancelled env w
                      in decide_coalesce env rset req policy now cancel_arm True st w
                 else (co_wait rset req st, w)))"

definition co_collected ::
  "('w, 'b) env \<Rightarrow> registration_set \<Rightarrow> live_wait_request \<Rightarrow> coalesce_policy \<Rightarrow> error + turn \<Rightarrow> 'b co_state \<Rightarrow> 'w \<Rightarrow>
   'b co_state \<times> 'w" where
  "co_collected env rset req policy result st w =
     (case result of
        Inl err \<Rightarrow>
          (let (now, w) = env_now env w
           in case posture_err rset req now of
                Some posture \<Rightarrow> fail_closed env posture st w
              | None \<Rightarrow> fail_closed env err st w)
      | Inr Turn_Idle \<Rightarrow>
          (let st = st\<lparr>co_backoff_step := sat_add (co_backoff_step st) 1\<rparr>;
               (sleep_to, w) = fw_backoff_deadline env rset req (co_backoff_step st) w;
               sleep_to = (if pd_is_empty (co_pending st) then sleep_to
                           else case co_next_quiet st of
                                  Some quiet \<Rightarrow> if ts_less quiet sleep_to then quiet else sleep_to
                                | None \<Rightarrow> sleep_to)
           in (st\<lparr>co_pc := CO_Backoff sleep_to\<rparr>, w))
      | Inr Turn_Ready \<Rightarrow>
          (let (now, w) = env_now env w in decide_coalesce env rset req policy now False False st w))"

definition co_select ::
  "('w, 'b) env \<Rightarrow> registration_set \<Rightarrow> live_wait_request \<Rightarrow> coalesce_policy \<Rightarrow> timestamp \<Rightarrow> timestamp option \<Rightarrow>
   'b co_state \<Rightarrow> 'w \<Rightarrow> 'b co_state \<times> 'w" where
  "co_select env rset req policy wake quiet_at st w =
     (case collect_turn env (co_slots st) w of
        (Ready result, s, w) \<Rightarrow> co_collected env rset req policy result (st\<lparr>co_slots := s\<rparr>) w
      | (Pending, s, w) \<Rightarrow>
          (let st = st\<lparr>co_slots := s\<rparr>
           in case poll_cancelled env w of
                (Ready _, w) \<Rightarrow>
                  (let (st, w) = co_poll_once env st w;
                       (now, w) = env_now env w
                   in decide_coalesce env rset req policy now True False st w)
              | (Pending, w) \<Rightarrow>
                  (case env_sleep_until env w wake of
                     (Ready _, w) \<Rightarrow> co_wake env rset req policy st w
                   | (Pending, w) \<Rightarrow>
                       (case (case quiet_at of Some at \<Rightarrow> env_sleep_until env w at | None \<Rightarrow> (Pending, w)) of
                          (Ready _, w) \<Rightarrow> co_wake env rset req policy st w
                        | (Pending, w) \<Rightarrow> (st, env_park env w)))))"

definition co_sleep_backoff ::
  "('w, 'b) env \<Rightarrow> registration_set \<Rightarrow> live_wait_request \<Rightarrow> coalesce_policy \<Rightarrow> timestamp \<Rightarrow> 'b co_state \<Rightarrow> 'w \<Rightarrow>
   'b co_state \<times> 'w" where
  "co_sleep_backoff env rset req policy sleep_to st w =
     (case poll_cancelled env w of
        (Ready _, w) \<Rightarrow> co_wake env rset req policy st w
      | (Pending, w) \<Rightarrow>
          (case env_sleep_until env w sleep_to of
             (Ready _, w) \<Rightarrow> co_wake env rset req policy st w
           | (Pending, w) \<Rightarrow> (st, env_park env w)))"

text \<open>
  The sink's answer. An error ends the session and drops the buffer, which the final and the
  quiet burst have emptied already.
\<close>

definition co_sinking ::
  "('w, 'b) env \<Rightarrow> 'w sink \<Rightarrow> registration_set \<Rightarrow> live_wait_request \<Rightarrow> coalesce_policy \<Rightarrow> wait_event list \<Rightarrow>
   co_after \<Rightarrow> bool \<Rightarrow> 'b co_state \<Rightarrow> 'w \<Rightarrow> 'b co_state \<times> 'w" where
  "co_sinking env snk rset req policy events after headed st w =
     (case snk w events of
        (Pending, w) \<Rightarrow> (st, env_park env w)
      | (Ready (Inl err), w) \<Rightarrow>
          co_done (st\<lparr>co_pending := (case after of After_Urgent \<Rightarrow> snd (pd_take (co_pending st)) | _ \<Rightarrow> co_pending st)\<rparr>)
            (Inl err) w
      | (Ready (Inr _), w) \<Rightarrow>
          (case after of
             After_Final terminal now cancelled \<Rightarrow> co_finish rset req terminal now cancelled st w
           | After_Quiet now \<Rightarrow>
               co_undecided rset req headed
                 (st\<lparr>co_next_quiet := Some (saturating_add (env_calendar env) now (cp_min_emit_interval policy))\<rparr>) w
           | After_Urgent \<Rightarrow> co_undecided rset req headed st w))"

definition co_step ::
  "('w, 'b) env \<Rightarrow> 'w sink \<Rightarrow> registration_set \<Rightarrow> live_wait_request \<Rightarrow> coalesce_policy \<Rightarrow> 'b co_state \<times> 'w \<Rightarrow>
   'b co_state \<times> 'w" where
  "co_step env snk rset req policy c =
     (case c of (st, w) \<Rightarrow>
        (case co_pc st of
           CO_Top \<Rightarrow> co_top env rset req policy st w
         | CO_Select wake quiet_at \<Rightarrow> co_select env rset req policy wake quiet_at st w
         | CO_Backoff sleep_to \<Rightarrow> co_sleep_backoff env rset req policy sleep_to st w
         | CO_Sink events after headed \<Rightarrow> co_sinking env snk rset req policy events after headed st w
         | CO_Done r \<Rightarrow> (st, w)))"

fun co_run ::
  "('w, 'b) env \<Rightarrow> 'w sink \<Rightarrow> registration_set \<Rightarrow> live_wait_request \<Rightarrow> coalesce_policy \<Rightarrow> nat \<Rightarrow> 'b co_state \<times> 'w \<Rightarrow>
   'b co_state \<times> 'w" where
  "co_run env snk rset req policy 0 c = c"
| "co_run env snk rset req policy (Suc n) c = co_run env snk rset req policy n (co_step env snk rset req policy c)"

definition run_coalesce ::
  "('w, 'b) env \<Rightarrow> 'w sink \<Rightarrow> registration_set \<Rightarrow> live_wait_request \<Rightarrow> coalesce_policy \<Rightarrow> nat \<Rightarrow> 'w \<Rightarrow>
   (error + follow_end) option \<times> (wait_event list \<times> co_after) list \<times> 'w" where
  "run_coalesce env snk rset req policy fuel w =
     (case fw_admit env rset req w of
        (Inl err, w) \<Rightarrow> (Some (Inl err), [], w)
      | (Inr _, w) \<Rightarrow>
          (let (st, w) = co_run env snk rset req policy fuel (co_init rset, w)
           in (case co_pc st of CO_Done r \<Rightarrow> Some r | _ \<Rightarrow> None, co_log st, w)))"

end
