(* ===== verification/Coalesce_Run.thy ===== *)
theory Coalesce_Run
  imports Coalesce Follow_Run
begin

text \<open>
  Custody in the coalescing runner: what the sink was handed, then what the buffer and the slots
  hold, then what the providers still hold, is what the providers held at the start.
\<close>

section \<open>Binds are kept\<close>

lemma slots_bound_grow:
  "slots_bound rset s evs \<Longrightarrow> (\<And>i. cell (ss_binds s) i \<noteq> None \<Longrightarrow> cell (ss_binds s') i \<noteq> None) \<Longrightarrow>
   slots_bound rset s' evs"
  unfolding slots_bound_def by blast

lemma slots_bound_simps [simp]:
  "slots_bound rset s []" "slots_bound rset s (xs @ ys) \<longleftrightarrow> slots_bound rset s xs \<and> slots_bound rset s ys"
  by (auto simp: slots_bound_def)

lemma slots_bound_same: "ss_binds s' = ss_binds s \<Longrightarrow> slots_bound rset s' evs = slots_bound rset s evs"
  by (simp add: slots_bound_def)

lemma arm_next_binds [simp]: "ss_binds (arm_next idx s) = ss_binds s"
  by (simp add: arm_next_def split: option.split)

lemma cell_set: "cell xs i \<noteq> None \<Longrightarrow> cell (xs[idx := Some b]) i \<noteq> None"
  by (simp add: cell_update)

lemma poll_slot_bound:
  assumes q: "poll_slot env idx s w = (p, s', w')" and b: "slots_bound rset s evs"
  shows "slots_bound rset s' evs"
proof -
  obtain p1 s1 w1 where bnd: "poll_slot_bind env idx s w = (p1, s1, w1)" by (metis prod_cases3)
  obtain p2 s2 w2 where nxt: "poll_slot_next env idx s1 w1 = (p2, s2, w2)" by (metis prod_cases3)
  have "slots_bound rset s1 evs" using bnd
    by (rule_tac slots_bound_grow [where s = s, OF b])
      (auto simp: poll_slot_bind_def cell_update split: option.splits prod.splits poll.splits sum.splits)
  moreover have "ss_binds s2 = ss_binds s1" using nxt
    by (auto simp: poll_slot_next_def split: option.splits prod.splits poll.splits sum.splits)
  ultimately show ?thesis using q b bnd nxt slots_bound_same [of s2 s1] by (auto simp: poll_slot_def split: if_splits)
qed

lemma poll_available_bound:
  assumes "poll_available env s w = (s', w')" "slots_bound rset s evs"
  shows "slots_bound rset s' evs"
  by (rule poll_available_keeps [where P = "\<lambda>s _. slots_bound rset s evs", OF _ assms]) (rule poll_slot_bound)

lemma harvest_slots_binds: "harvest_slots env idxs s w = (s', w') \<Longrightarrow> ss_binds s' = ss_binds s"
proof (induction idxs arbitrary: s w)
  case (Cons idx idxs)
  obtain s1 w1 where h: "harvest_slot env idx s w = (s1, w1)" by fastforce
  then have "ss_binds s1 = ss_binds s" by (auto simp: harvest_slot_def split: if_splits option.splits prod.splits)
  with Cons h show ?case by simp
qed simp

lemma rearm_binds [simp]:
  fixes s :: "'a slot_set"
  shows "ss_binds (rearm_idle s) = ss_binds s"
proof -
  have "ss_binds (fold rearm_slot is s) = ss_binds s" for "is" and s :: "'a slot_set"
    by (induction "is" arbitrary: s) (auto simp: rearm_slot_def)
  then show ?thesis by (simp add: rearm_idle_def clear_nonreplayable_def)
qed

lemma take_events_binds [simp]: "ss_binds (snd (take_events s)) = ss_binds s"
  by (simp add: take_events_def)

section \<open>The buffer\<close>

lemma pd_take_simps [simp]:
  "pd_take p = (pd_events p, p\<lparr>pd_events := [], pd_total_events := 0, pd_total_bytes := 0, pd_per_events := [], pd_per_bytes := []\<rparr>)"
  by (simp add: pd_take_def)

lemma try_push_events: "try_push rset ev p = Inr p' \<Longrightarrow> pd_events p' = pd_events p @ [ev]"
  by (auto simp: try_push_def Let_def split: if_splits option.splits)

lemma push_all_events:
  "push_all rset evs p = Inr p' \<Longrightarrow> pd_events p' = pd_events p @ evs"
  "push_all rset evs p = Inl (unsunk, rid) \<Longrightarrow> unsunk = pd_events p @ evs"
proof (induction evs arbitrary: p)
  case (Cons ev evs)
  {
    case 1
    with Cons.IH(1) show ?case by (auto dest!: try_push_events split: sum.splits)
  next
    case 2
    with Cons.IH(2) show ?case by (fastforce dest!: try_push_events split: sum.splits)
  }
qed simp_all

definition quiet_of :: "registration_set \<Rightarrow> u8 \<Rightarrow> wait_event list \<Rightarrow> wait_event list" where
  "quiet_of rset u evs = filter (\<lambda>e. \<not> is_urgent rset e u) evs"

definition urgent_of :: "registration_set \<Rightarrow> u8 \<Rightarrow> wait_event list \<Rightarrow> wait_event list" where
  "urgent_of rset u evs = filter (\<lambda>e. is_urgent rset e u) evs"

lemma push_quiet_events:
  "push_quiet rset u t evs urgent p nxt = Inr (burst, p', nxt') \<Longrightarrow>
     burst = urgent @ urgent_of rset u evs \<and> pd_events p' = pd_events p @ quiet_of rset u evs"
  "push_quiet rset u t evs urgent p nxt = Inl (unsunk, rid) \<Longrightarrow>
     \<exists>pre ev rest. evs = pre @ ev # rest \<and> \<not> is_urgent rset ev u \<and>
       unsunk = pd_events p @ quiet_of rset u pre @ [ev] @ urgent @ urgent_of rset u pre @ rest"
proof (induction evs arbitrary: urgent p nxt)
  case (Cons e evs)
  {
    case 1
    with Cons.IH(1) [of "urgent @ [e]" p nxt] Cons.IH(1) show ?case
      by (auto simp: urgent_of_def quiet_of_def dest!: try_push_events split: if_splits sum.splits)
  next
    case 2
    show ?case
    proof (cases "is_urgent rset e u")
      case True
      with 2 have "push_quiet rset u t evs (urgent @ [e]) p nxt = Inl (unsunk, rid)" by simp
      from Cons.IH(2) [OF this] obtain pre ev rest where "evs = pre @ ev # rest" "\<not> is_urgent rset ev u"
        "unsunk = pd_events p @ quiet_of rset u pre @ [ev] @ (urgent @ [e]) @ urgent_of rset u pre @ rest" by blast
      with True show ?thesis
        by (intro exI [of _ "e # pre"] exI [of _ ev] exI [of _ rest]) (simp add: quiet_of_def urgent_of_def)
    next
      case False
      show ?thesis
      proof (cases "try_push rset e p")
        case (Inl r)
        with False 2 show ?thesis
          by (intro exI [of _ "[]"] exI [of _ e] exI [of _ evs]) (simp add: quiet_of_def urgent_of_def)
      next
        case (Inr p1)
        with False 2 have "push_quiet rset u t evs urgent p1 (if nxt = None then Some t else nxt) = Inl (unsunk, rid)" by simp
        from Cons.IH(2) [OF this] obtain pre ev rest where "evs = pre @ ev # rest" "\<not> is_urgent rset ev u"
          "unsunk = pd_events p1 @ quiet_of rset u pre @ [ev] @ urgent @ urgent_of rset u pre @ rest" by blast
        with False try_push_events [OF Inr] show ?thesis
          by (intro exI [of _ "e # pre"] exI [of _ ev] exI [of _ rest]) (simp add: quiet_of_def urgent_of_def)
      qed
    qed
  }
qed (simp_all add: quiet_of_def urgent_of_def)

text \<open>Urgency depends on the registration alone.\<close>

lemma is_urgent_tag: "ev_registration_id e = ev_registration_id e' \<Longrightarrow> is_urgent rset e u = is_urgent rset e' u"
  by (simp add: is_urgent_def)

lemma by_tag_none: "(\<And>e. e \<in> set evs \<Longrightarrow> ev_registration_id e \<noteq> r) \<Longrightarrow> by_tag evs r = []"
  by (simp add: by_tag_def)

lemma tag_urgency:
  obtains "\<And>e. ev_registration_id e = r \<Longrightarrow> is_urgent rset e u"
  | "\<And>e. ev_registration_id e = r \<Longrightarrow> \<not> is_urgent rset e u"
  by (metis is_urgent_tag)

lemma by_tag_parts:
  "(\<And>e. ev_registration_id e = r \<Longrightarrow> is_urgent rset e u) \<Longrightarrow>
     by_tag (urgent_of rset u evs) r = by_tag evs r \<and> by_tag (quiet_of rset u evs) r = []"
  "(\<And>e. ev_registration_id e = r \<Longrightarrow> \<not> is_urgent rset e u) \<Longrightarrow>
     by_tag (quiet_of rset u evs) r = by_tag evs r \<and> by_tag (urgent_of rset u evs) r = []"
  by (induction evs) (auto simp: quiet_of_def urgent_of_def)

lemma by_tag_split:
  assumes "\<And>e. e \<in> set old \<Longrightarrow> \<not> is_urgent rset e u"
  shows "by_tag old r @ by_tag evs r = by_tag (urgent_of rset u evs) r @ by_tag (old @ quiet_of rset u evs) r"
proof (cases rule: tag_urgency [of r rset u])
  case 1
  have "by_tag old r = []" by (rule by_tag_none) (use assms 1 in blast)
  moreover have "by_tag (urgent_of rset u evs) r = by_tag evs r \<and> by_tag (quiet_of rset u evs) r = []"
    by (rule by_tag_parts(1)) (rule 1)
  ultimately show ?thesis by simp
next
  case 2
  have "by_tag (quiet_of rset u evs) r = by_tag evs r \<and> by_tag (urgent_of rset u evs) r = []"
    by (rule by_tag_parts(2)) (rule 2)
  then show ?thesis by simp
qed

lemma by_tag_quiet_first: "by_tag (quiet_of rset u evs) r @ by_tag (urgent_of rset u evs) r = by_tag evs r"
  using by_tag_parts [of r rset u evs] by (cases rule: tag_urgency [of r rset u]) auto

lemma by_tag_unsunk:
  assumes "\<not> is_urgent rset ev u"
  shows "by_tag (old @ quiet_of rset u pre @ [ev] @ urgent_of rset u pre @ rest) = by_tag (old @ pre @ ev # rest)"
proof
  fix r
  have swap: "by_tag [ev] r @ by_tag (urgent_of rset u pre) r = by_tag (urgent_of rset u pre) r @ by_tag [ev] r"
  proof (cases rule: tag_urgency [of r rset u])
    case 1
    with assms(1) have "by_tag [ev] r = []" by auto
    then show ?thesis by simp
  next
    case 2
    have "by_tag (urgent_of rset u pre) r = []"
      using by_tag_parts(2) [where r = r and rset = rset and u = u and evs = pre] 2 by blast
    then show ?thesis by simp
  qed
  have mix: "by_tag (quiet_of rset u pre) r @ by_tag (urgent_of rset u pre) r = by_tag pre r"
    using by_tag_quiet_first .
  have "by_tag (old @ quiet_of rset u pre @ [ev] @ urgent_of rset u pre @ rest) r =
      by_tag old r @ by_tag (quiet_of rset u pre) r @ (by_tag [ev] r @ by_tag (urgent_of rset u pre) r) @ by_tag rest r"
    by simp
  also have "\<dots> = by_tag old r @ (by_tag (quiet_of rset u pre) r @ by_tag (urgent_of rset u pre) r) @ by_tag [ev] r @ by_tag rest r"
    unfolding swap by simp
  finally show "by_tag (old @ quiet_of rset u pre @ [ev] @ urgent_of rset u pre @ rest) r = by_tag (old @ pre @ ev # rest) r"
    unfolding mix by simp
qed

section \<open>The invariant\<close>

definition co_sent :: "'b co_state \<Rightarrow> id_token \<Rightarrow> wait_event list" where
  "co_sent st = by_tag (concat (map fst (co_log st)))"

text \<open>Between turns the buffer holds quiet events only, and each could go back where it came from.\<close>

definition co_holds ::
  "('w, 'b) env \<Rightarrow> ('w \<Rightarrow> id_token \<Rightarrow> wait_event list) \<Rightarrow> registration_set \<Rightarrow> u8 \<Rightarrow> (id_token \<Rightarrow> wait_event list) \<Rightarrow>
   'b co_state \<Rightarrow> 'w \<Rightarrow> bool" where
  "co_holds env front rset u F0 st w \<longleftrightarrow>
     ss_keeps env front rset F0 (\<lambda>r. co_sent st r @ by_tag (pd_events (co_pending st)) r) (co_slots st) w \<and>
     slots_bound rset (co_slots st) (pd_events (co_pending st)) \<and>
     (\<forall>e \<in> set (pd_events (co_pending st)). \<not> is_urgent rset e u)"

text \<open>
  A session that ends has handed on everything it took, unless the sink failed on an urgent burst:
  then the buffered quiet events are dropped.
\<close>

definition co_custody ::
  "registration_set \<Rightarrow> u8 \<Rightarrow> (id_token \<Rightarrow> wait_event list) \<Rightarrow> (wait_event list \<times> co_after) list \<Rightarrow> error + follow_end \<Rightarrow>
   (id_token \<Rightarrow> wait_event list) \<Rightarrow> bool" where
  "co_custody rset u F0 log r F \<longleftrightarrow>
     (\<exists>dropped. conserved F0 (\<lambda>q. by_tag (concat (map fst log)) q @ by_tag dropped q) F \<and>
        (dropped = [] \<or>
           (\<exists>err. r = Inl err) \<and> log \<noteq> [] \<and> snd (last log) = After_Urgent \<and>
           (\<forall>e \<in> set dropped. \<not> is_urgent rset e u)))"

definition co_inv ::
  "('w, 'b) env \<Rightarrow> ('w \<Rightarrow> id_token \<Rightarrow> wait_event list) \<Rightarrow> registration_set \<Rightarrow> u8 \<Rightarrow> (id_token \<Rightarrow> wait_event list) \<Rightarrow>
   'b co_state \<times> 'w \<Rightarrow> bool" where
  "co_inv env front rset u F0 c \<longleftrightarrow>
     (case c of (st, w) \<Rightarrow>
        (case co_pc st of
           CO_Done r \<Rightarrow> co_custody rset u F0 (co_log st) r (front w)
         | CO_Sink evs after headed \<Rightarrow>
             co_holds env front rset u F0 st w \<and> in_hand rset (co_slots st) = (\<lambda>_. []) \<and>
             (after \<noteq> After_Urgent \<longrightarrow> pd_events (co_pending st) = []) \<and> co_log st \<noteq> [] \<and> snd (last (co_log st)) = after
         | _ \<Rightarrow> co_holds env front rset u F0 st w))"

lemma co_sent_simps [simp]:
  "co_sent (st\<lparr>co_pc := pc\<rparr>) = co_sent st" "co_sent (st\<lparr>co_slots := s\<rparr>) = co_sent st"
  "co_sent (st\<lparr>co_pending := p\<rparr>) = co_sent st" "co_sent (st\<lparr>co_next_quiet := n\<rparr>) = co_sent st"
  "co_sent (st\<lparr>co_backoff_step := k\<rparr>) = co_sent st"
  by (simp_all add: co_sent_def)

lemma co_holds_simps [simp]:
  "co_holds env front rset u F0 (st\<lparr>co_pc := pc\<rparr>) w = co_holds env front rset u F0 st w"
  "co_holds env front rset u F0 (st\<lparr>co_next_quiet := n\<rparr>) w = co_holds env front rset u F0 st w"
  "co_holds env front rset u F0 (st\<lparr>co_backoff_step := k\<rparr>) w = co_holds env front rset u F0 st w"
  by (simp_all add: co_holds_def)

lemma co_inv_waiting [simp]:
  "co_inv env front rset u F0 (st\<lparr>co_pc := CO_Top\<rparr>, w) = co_holds env front rset u F0 st w"
  "co_inv env front rset u F0 (st\<lparr>co_pc := CO_Select t q\<rparr>, w) = co_holds env front rset u F0 st w"
  "co_inv env front rset u F0 (st\<lparr>co_pc := CO_Backoff t\<rparr>, w) = co_holds env front rset u F0 st w"
  "co_inv env front rset u F0 (st\<lparr>co_pc := CO_Done r\<rparr>, w) = co_custody rset u F0 (co_log st) r (front w)"
  by (simp_all add: co_inv_def)

lemma co_inv_holds:
  "co_inv env front rset u F0 (st, w) \<Longrightarrow> \<not> (\<exists>r. co_pc st = CO_Done r) \<Longrightarrow> co_holds env front rset u F0 st w"
  by (auto simp: co_inv_def split: co_pc.splits)

lemma co_custody_all:
  "conserved F0 (co_sent st) F \<Longrightarrow> co_custody rset u F0 (co_log st) r F"
  unfolding co_custody_def co_sent_def by (rule exI [of _ "[]"]) simp

text \<open>After the turn has taken the harvested events and before it has placed them.\<close>

definition co_taken ::
  "('w, 'b) env \<Rightarrow> ('w \<Rightarrow> id_token \<Rightarrow> wait_event list) \<Rightarrow> registration_set \<Rightarrow> (id_token \<Rightarrow> wait_event list) \<Rightarrow>
   'b co_state \<Rightarrow> wait_event list \<Rightarrow> 'w \<Rightarrow> bool" where
  "co_taken env front rset F0 st evs w \<longleftrightarrow>
     ss_keeps env front rset F0 (\<lambda>r. co_sent st r @ by_tag (pd_events (co_pending st) @ evs) r) (co_slots st) w \<and>
     slots_bound rset (co_slots st) (pd_events (co_pending st) @ evs) \<and> in_hand rset (co_slots st) = (\<lambda>_. [])"

lemma co_taken_next [simp]:
  "co_taken env front rset F0 (st\<lparr>co_next_quiet := n\<rparr>) evs w = co_taken env front rset F0 st evs w"
  by (simp add: co_taken_def)

lemma co_taken_push:
  "co_taken env front rset F0 st evs w \<Longrightarrow> pd_events p = pd_events (co_pending st) @ evs \<Longrightarrow>
   co_taken env front rset F0 (st\<lparr>co_pending := p\<rparr>) [] w"
  by (simp add: co_taken_def)

lemma co_holds_drained:
  "co_holds env front rset u F0 st w \<Longrightarrow> in_hand rset (co_slots st) = (\<lambda>_. []) \<Longrightarrow> co_taken env front rset F0 st [] w"
  by (simp add: co_taken_def co_holds_def)

context observer_tagged
begin

lemma fail_closed_inv:
  assumes d: "distinct_arms rset" and k: "co_holds env front rset u F0 st w"
  shows "co_inv env front rset u F0 (fail_closed env err st w)"
proof -
  obtain r s w1 where r: "restore_custody env (co_slots st) (pd_events (co_pending st)) w = (r, s, w1)" by (metis prod_cases3)
  from k have "r = Inr () \<and> conserved F0 (co_sent st) (front w1)"
    using restore_custody_custody [OF r d, of F0 "co_sent st"] by (simp add: co_holds_def)
  with r show ?thesis
    by (simp add: fail_closed_def co_done_def co_custody_all)
qed

lemma restore_overflow_inv:
  assumes d: "distinct_arms rset" and k: "co_taken env front rset F0 st evs w"
    and e: "set unsunk = set (pd_events (co_pending st) @ evs)" "by_tag unsunk = by_tag (pd_events (co_pending st) @ evs)"
  shows "co_inv env front rset u F0 (restore_then_overflow env unsunk rid st w)"
proof -
  obtain r s w1 where r: "restore_custody env (co_slots st) unsunk w = (r, s, w1)" by (metis prod_cases3)
  have "slots_bound rset (co_slots st) unsunk" using k e(1) unfolding co_taken_def slots_bound_def by blast
  with k have "r = Inr () \<and> conserved F0 (co_sent st) (front w1)"
    using restore_custody_custody [OF r d, of F0 "co_sent st"] e(2) by (simp add: co_taken_def)
  with r show ?thesis
    by (simp add: restore_then_overflow_def co_done_def co_custody_all)
qed

lemma co_wait_inv [simp]:
  "co_inv env front rset u F0 (co_wait rset req st, w) = co_holds env front rset u F0 st w"
  by (simp add: co_wait_def)

lemma co_undecided_inv:
  "co_holds env front rset u F0 st w \<Longrightarrow> co_inv env front rset u F0 (co_undecided rset req headed st w)"
proof -
  assume "co_holds env front rset u F0 st w"
  then have "co_holds env front rset u F0 (st\<lparr>co_slots := rearm_idle (co_slots st)\<rparr>) w"
    using rearm_custody slots_bound_same [of "rearm_idle (co_slots st)" "co_slots st" rset]
    by (simp add: co_holds_def)
  then show ?thesis by (simp add: co_undecided_def Let_def)
qed

lemma co_taken_done:
  "co_taken env front rset F0 st [] w \<Longrightarrow> pd_events (co_pending st) = [] \<Longrightarrow> conserved F0 (co_sent st) (front w)"
  by (auto simp: co_taken_def ss_keeps_def)

lemma co_finish_inv:
  "co_taken env front rset F0 st [] w \<Longrightarrow> pd_events (co_pending st) = [] \<Longrightarrow>
   co_inv env front rset u F0 (co_finish rset req terminal now cancelled st w)"
  by (simp add: co_finish_def co_done_def co_custody_all co_taken_done split: option.split)

lemma co_hand_inv:
  "co_taken env front rset F0 st [] w \<Longrightarrow> after \<noteq> After_Urgent \<Longrightarrow> burst = pd_events (co_pending st) \<Longrightarrow>
   pd_events p = [] \<Longrightarrow> co_inv env front rset u F0 (co_hand burst after headed (st\<lparr>co_pending := p\<rparr>), w)"
  by (simp add: co_inv_def co_hand_def co_holds_def co_taken_def co_sent_def by_tag_append)

lemma co_hand_urgent_inv:
  assumes k: "co_taken env front rset F0 st evs w" and q: "\<And>e. e \<in> set (pd_events (co_pending st)) \<Longrightarrow> \<not> is_urgent rset e u"
    and p: "pd_events p = pd_events (co_pending st) @ quiet_of rset u evs"
  shows "co_inv env front rset u F0 (co_hand (urgent_of rset u evs) After_Urgent headed (st\<lparr>co_pending := p\<rparr>), w)"
proof -
  let ?st = "co_hand (urgent_of rset u evs) After_Urgent headed (st\<lparr>co_pending := p\<rparr>)"
  have t: "by_tag (pd_events (co_pending st) @ evs) = (\<lambda>r. by_tag (urgent_of rset u evs) r @ by_tag (pd_events p) r)"
    using by_tag_split [where old = "pd_events (co_pending st)" and evs = evs, OF q] by (auto simp only: p fun_eq_iff by_tag_append)
  have s: "co_sent ?st = (\<lambda>r. co_sent st r @ by_tag (urgent_of rset u evs) r)"
    by (simp add: co_sent_def co_hand_def by_tag_append)
  have f: "co_slots ?st = co_slots st" "co_pending ?st = p" "co_pc ?st = CO_Sink (urgent_of rset u evs) After_Urgent headed"
    "co_log ?st \<noteq> []" "snd (last (co_log ?st)) = After_Urgent" by (simp_all add: co_hand_def)
  have "ss_keeps env front rset F0 (\<lambda>r. co_sent ?st r @ by_tag (pd_events p) r) (co_slots st) w"
    using k unfolding co_taken_def t s by simp
  moreover have "slots_bound rset (co_slots st) (pd_events p)"
    using k unfolding co_taken_def p by (auto simp: slots_bound_def quiet_of_def)
  moreover have "\<forall>e \<in> set (pd_events p). \<not> is_urgent rset e u" using q by (auto simp: p quiet_of_def)
  ultimately have "co_holds env front rset u F0 ?st w" unfolding co_holds_def f by blast
  with f k show ?thesis by (simp add: co_inv_def co_taken_def)
qed

lemma emit_quiet_inv:
  assumes "co_taken env front rset F0 st [] w"
  shows "co_inv env front rset u F0 (emit_quiet rset req now headed st w)"
proof (cases "pd_events (co_pending st) = []")
  case True
  with assms have "co_holds env front rset u F0 st w" by (simp add: co_holds_def co_taken_def)
  with True co_undecided_inv show ?thesis by (simp add: emit_quiet_def pd_is_empty_def)
next
  case False
  with co_hand_inv [OF assms] show ?thesis by (simp add: emit_quiet_def pd_is_empty_def)
qed

lemma overflow_all_inv:
  assumes "distinct_arms rset" "co_taken env front rset F0 st evs w" "push_all rset evs (co_pending st) = Inl (unsunk, rid)"
  shows "co_inv env front rset u F0 (restore_then_overflow env unsunk rid st w)"
  by (rule restore_overflow_inv [OF assms(1,2)]) (simp_all add: push_all_events(2) [OF assms(3)])

lemma final_flush_inv:
  assumes d: "distinct_arms rset" and k: "co_taken env front rset F0 st evs w"
  shows "co_inv env front rset u F0 (final_flush env rset req now evs terminal cancelled headed st w)"
proof (cases "push_all rset evs (co_pending st)")
  case (Inl a)
  with overflow_all_inv [OF d k] show ?thesis by (cases a) (simp add: final_flush_def)
next
  case (Inr p)
  from co_taken_push [OF k push_all_events(1) [OF Inr]] have k1: "co_taken env front rset F0 (st\<lparr>co_pending := p\<rparr>) [] w" .
  from co_finish_inv [OF k1] co_hand_inv [OF k1] Inr show ?thesis by (simp add: final_flush_def pd_is_empty_def)
qed

lemma apply_turn_inv:
  assumes d: "distinct_arms rset" and k: "co_taken env front rset F0 st evs w"
    and q: "\<And>e. e \<in> set (pd_events (co_pending st)) \<Longrightarrow> \<not> is_urgent rset e (cp_urgent_at policy)"
  shows "co_inv env front rset (cp_urgent_at policy) F0 (apply_turn env rset req policy now evs headed st w)"
proof (cases "evs = []")
  case True
  with k q have "co_holds env front rset (cp_urgent_at policy) F0 st w" by (auto simp: co_taken_def co_holds_def)
  with True emit_quiet_inv k co_undecided_inv show ?thesis by (simp add: apply_turn_def)
next
  case ne: False
  let ?u = "cp_urgent_at policy"
  let ?emit = "saturating_add (env_calendar env) now (cp_min_emit_interval policy)"
  let ?nxt = "if co_next_quiet st = None \<and> list_ex (\<lambda>ev. \<not> is_urgent rset ev ?u) evs then Some ?emit else co_next_quiet st"
  let ?st = "st\<lparr>co_next_quiet := ?nxt\<rparr>"
  have k0: "co_taken env front rset F0 ?st evs w" using k by simp
  show ?thesis
  proof (cases "list_ex (\<lambda>ev. is_urgent rset ev ?u) evs")
    case urgent: True
    show ?thesis
    proof (cases "interval_is_due ?nxt now")
      case due: True
      show ?thesis
      proof (cases "push_all rset evs (co_pending st)")
        case (Inl a)
        with overflow_all_inv [OF d k0] ne urgent due show ?thesis
          by (cases a) (simp add: apply_turn_def Let_def del: if_not_P)
      next
        case (Inr p)
        from emit_quiet_inv [OF co_taken_push [OF k0, of p]] push_all_events(1) [OF Inr] Inr ne urgent due show ?thesis
          by (simp add: apply_turn_def Let_def)
      qed
    next
      case due: False
      show ?thesis
      proof (cases "push_quiet rset ?u ?emit evs [] (co_pending st) ?nxt")
        case (Inl a)
        obtain unsunk rid where a: "a = (unsunk, rid)" by (cases a)
        from push_quiet_events(2) [OF Inl [unfolded a]] obtain pre ev rest where
          e: "evs = pre @ ev # rest" "\<not> is_urgent rset ev ?u"
          "unsunk = pd_events (co_pending st) @ quiet_of rset ?u pre @ [ev] @ urgent_of rset ?u pre @ rest" by auto
        have "set (quiet_of rset ?u pre) \<union> set (urgent_of rset ?u pre) = set pre"
          by (auto simp: quiet_of_def urgent_of_def)
        then have "set unsunk = set (pd_events (co_pending ?st) @ evs)" by (auto simp: e)
        moreover have "by_tag unsunk = by_tag (pd_events (co_pending ?st) @ evs)"
          using by_tag_unsunk [OF e(2)] by (simp add: e(1,3))
        ultimately have "co_inv env front rset ?u F0 (restore_then_overflow env unsunk rid ?st w)"
          by (rule restore_overflow_inv [OF d k0])
        with Inl a ne urgent due show ?thesis by (simp add: apply_turn_def Let_def)
      next
        case (Inr a)
        obtain burst p n where a: "a = (burst, p, n)" by (metis prod_cases3)
        from push_quiet_events(1) [OF Inr [unfolded a]]
        have e: "burst = urgent_of rset ?u evs" "pd_events p = pd_events (co_pending st) @ quiet_of rset ?u evs" by simp_all
        have "burst \<noteq> []" using urgent by (simp add: e(1) urgent_of_def list_ex_iff filter_empty_conv)
        moreover have "co_inv env front rset ?u F0 (co_hand burst After_Urgent headed ((st\<lparr>co_next_quiet := n\<rparr>)\<lparr>co_pending := p\<rparr>), w)"
          unfolding e(1) by (rule co_hand_urgent_inv) (use k q e(2) in simp_all)
        moreover have "st\<lparr>co_next_quiet := n, co_pending := p\<rparr> = st\<lparr>co_pending := p, co_next_quiet := n\<rparr>" by simp
        ultimately show ?thesis using Inr a ne urgent due by (simp only: apply_turn_def Let_def) simp
      qed
    qed
  next
    case calm: False
    show ?thesis
    proof (cases "push_all rset evs (co_pending st)")
      case (Inl a)
      with overflow_all_inv [OF d k0] ne calm show ?thesis by (cases a) (simp add: apply_turn_def Let_def)
    next
      case (Inr p)
      note p = push_all_events(1) [OF Inr]
      have k1: "co_taken env front rset F0 (st\<lparr>co_pending := p, co_next_quiet := n\<rparr>) [] w" for n
        using co_taken_push [OF k p] by simp
      have "co_holds env front rset ?u F0 (st\<lparr>co_pending := p, co_next_quiet := n\<rparr>) w" for n
        using k1 [of n] q calm p by (auto simp: co_taken_def co_holds_def list_ex_iff)
      with emit_quiet_inv k1 co_undecided_inv Inr ne calm show ?thesis by (simp add: apply_turn_def Let_def)
    qed
  qed
qed

lemma co_holds_front:
  "co_holds env front rset u F0 st w \<Longrightarrow> front w' = front w \<Longrightarrow> co_holds env front rset u F0 st w'"
  by (simp add: co_holds_def ss_keeps_def)

lemma co_holds_taken:
  assumes "co_holds env front rset u F0 st w" "take_events (co_slots st) = (evs, s)"
  shows "co_taken env front rset F0 (st\<lparr>co_slots := s\<rparr>) evs w"
proof -
  have e: "evs = fst (take_events (co_slots st))" "s = snd (take_events (co_slots st))" using assms(2) by simp_all
  note k = assms(1) [unfolded co_holds_def]
  have "ss_keeps env front rset F0 (\<lambda>r. (co_sent st r @ by_tag (pd_events (co_pending st)) r) @ by_tag evs r) s w"
    unfolding e by (rule take_events_custody) (use k in blast)
  moreover have "slots_bound rset s (pd_events (co_pending st) @ evs)"
    using k taken_bound [of rset "co_slots st"] slots_bound_same [of s "co_slots st" rset]
    by (simp add: e ss_keeps_def)
  ultimately show ?thesis by (simp add: co_taken_def e)
qed

lemma decide_coalesce_inv:
  assumes d: "distinct_arms rset" and k: "co_holds env front rset (cp_urgent_at policy) F0 st w"
  shows "co_inv env front rset (cp_urgent_at policy) F0 (decide_coalesce env rset req policy now cancel_arm headed st w)"
proof (cases "posture_err rset req now")
  case (Some err)
  with fail_closed_inv [OF d k] show ?thesis by (simp add: decide_coalesce_def)
next
  case None
  note posture = None
  show ?thesis
  proof (cases "ss_fault (co_slots st)")
    case (Some err)
    let ?st = "st\<lparr>co_slots := (co_slots st)\<lparr>ss_fault := None\<rparr>\<rparr>"
    have "co_holds env front rset (cp_urgent_at policy) F0 ?st w"
      using k slots_bound_same [of "(co_slots st)\<lparr>ss_fault := None\<rparr>" "co_slots st" rset] by (simp add: co_holds_def)
    from fail_closed_inv [OF d this] posture Some show ?thesis by (simp add: decide_coalesce_def)
  next
    case None
    obtain evs s where t: "take_events (co_slots st) = (evs, s)" by fastforce
    obtain c w1 where c: "(if cancel_arm then (True, w) else env_is_cancelled env w) = (c, w1)" by fastforce
    have "front w1 = front w" using c cancelled_front by (auto split: if_splits)
    from co_holds_taken [OF co_holds_front [OF k this] t]
    have k1: "co_taken env front rset F0 (st\<lparr>co_slots := s\<rparr>) evs w1" .
    have q: "e \<in> set (pd_events (co_pending (st\<lparr>co_slots := s\<rparr>))) \<Longrightarrow> \<not> is_urgent rset e (cp_urgent_at policy)" for e
      using k by (simp add: co_holds_def)
    from final_flush_inv [OF d k1] apply_turn_inv [OF d k1 q] posture None t c show ?thesis
      by (simp add: decide_coalesce_def Let_def)
  qed
qed

lemma co_poll_once_holds:
  assumes d: "distinct_arms rset" and k: "co_holds env front rset u F0 st w" and p: "co_poll_once env st w = (st', w')"
  shows "co_holds env front rset u F0 st' w'"
proof -
  obtain s1 w1 where a: "poll_available env (co_slots st) w = (s1, w1)" by fastforce
  obtain s2 w2 where h: "harvest_poll_ready env s1 w1 = (s2, w2)" by fastforce
  note k = k [unfolded co_holds_def]
  have "ss_keeps env front rset F0 (\<lambda>r. co_sent st r @ by_tag (pd_events (co_pending st)) r) s2 w2"
    by (rule harvest_poll_ready_custody [OF h d poll_available_custody [OF d a]]) (use k in blast)
  moreover have "slots_bound rset s2 (pd_events (co_pending st))"
    using k poll_available_bound [OF a] slots_bound_same harvest_slots_binds [OF h [unfolded harvest_poll_ready_def]] by blast
  ultimately show ?thesis using k p a h by (auto simp: co_poll_once_def co_holds_def)
qed

lemma co_wake_inv:
  assumes d: "distinct_arms rset" and k: "co_holds env front rset (cp_urgent_at policy) F0 st w"
  shows "co_inv env front rset (cp_urgent_at policy) F0 (co_wake env rset req policy st w)"
proof -
  let ?st = "st\<lparr>co_slots := rearm_idle (co_slots st)\<rparr>"
  obtain st1 w1 where p: "co_poll_once env ?st w = (st1, w1)" by fastforce
  obtain now w2 where t: "env_now env w1 = (now, w2)" by fastforce
  have "co_holds env front rset (cp_urgent_at policy) F0 ?st w"
    using k rearm_custody slots_bound_same [of "rearm_idle (co_slots st)" "co_slots st" rset] by (simp add: co_holds_def)
  from decide_coalesce_inv [OF d co_holds_front [OF co_poll_once_holds [OF d this p] now_front [OF t]]] p t
  show ?thesis by (simp add: co_wake_def)
qed

lemma co_top_inv:
  assumes d: "distinct_arms rset" and k: "co_holds env front rset (cp_urgent_at policy) F0 st w"
  shows "co_inv env front rset (cp_urgent_at policy) F0 (co_top env rset req policy st w)"
proof -
  obtain now w1 where t: "env_now env w = (now, w1)" by fastforce
  obtain now2 w2 where t2: "env_now env w1 = (now2, w2)" by fastforce
  obtain c w3 where c: "env_is_cancelled env w2 = (c, w3)" by fastforce
  have k1: "co_holds env front rset (cp_urgent_at policy) F0 st w1" by (rule co_holds_front [OF k now_front [OF t]])
  have k3: "co_holds env front rset (cp_urgent_at policy) F0 st w3"
    by (rule co_holds_front [OF co_holds_front [OF k1 now_front [OF t2]] cancelled_front [OF c]])
  obtain st1 w4 where p: "co_poll_once env st w3 = (st1, w4)" by fastforce
  obtain x w5 where x: "env_is_cancelled env w4 = (x, w5)" by fastforce
  have k5: "co_holds env front rset (cp_urgent_at policy) F0 st1 w5"
    by (rule co_holds_front [OF co_poll_once_holds [OF d k3 p] cancelled_front [OF x]])
  from fail_closed_inv [OF d k1] decide_coalesce_inv [OF d k5] k3 t t2 c p x show ?thesis
    by (simp add: co_top_def split: option.split)
qed

lemma co_collected_inv:
  assumes d: "distinct_arms rset" and k: "co_holds env front rset (cp_urgent_at policy) F0 st w"
  shows "co_inv env front rset (cp_urgent_at policy) F0 (co_collected env rset req policy result st w)"
proof -
  obtain now w1 where t: "env_now env w = (now, w1)" by fastforce
  have k1: "co_holds env front rset (cp_urgent_at policy) F0 st w1" by (rule co_holds_front [OF k now_front [OF t]])
  show ?thesis
  proof (cases result)
    case (Inl err)
    with fail_closed_inv [OF d k1] t show ?thesis by (auto simp: co_collected_def split: option.split)
  next
    case (Inr turn)
    from decide_coalesce_inv [OF d k1] k1 t Inr show ?thesis
      by (cases turn) (simp_all add: co_collected_def Let_def fw_backoff_deadline_def)
  qed
qed

lemma co_select_inv:
  assumes d: "distinct_arms rset" and k: "co_holds env front rset (cp_urgent_at policy) F0 st w"
    and pc: "co_pc st = CO_Select wake quiet_at"
  shows "co_inv env front rset (cp_urgent_at policy) F0 (co_select env rset req policy wake quiet_at st w)"
proof -
  let ?u = "cp_urgent_at policy"
  obtain r s w1 where q: "collect_turn env (co_slots st) w = (r, s, w1)" by (metis prod_cases3)
  let ?st = "st\<lparr>co_slots := s\<rparr>"
  obtain s0 w0 where a: "poll_available env (co_slots st) w = (s0, w0)" by fastforce
  have "ss_binds s = ss_binds s0" using q a by (auto simp: collect_turn_def split: option.splits if_splits)
  with poll_available_bound [OF a] slots_bound_same
  have b: "slots_bound rset (co_slots st) (pd_events (co_pending st)) \<Longrightarrow> slots_bound rset s (pd_events (co_pending st))" by blast
  have k1: "co_holds env front rset ?u F0 ?st w1"
    using collect_turn_custody [OF q d] k b by (simp add: co_holds_def)
  show ?thesis
  proof (cases r)
    case (Ready x)
    with co_collected_inv [OF d k1] q show ?thesis by (simp add: co_select_def)
  next
    case Pending
    obtain c w2 where c: "poll_cancelled env w1 = (c, w2)" by fastforce
    have k2: "co_holds env front rset ?u F0 ?st w2" by (rule co_holds_front [OF k1 poll_cancelled_front [OF c]])
    show ?thesis
    proof (cases c)
      case (Ready v)
      obtain st2 w3 where p: "co_poll_once env ?st w2 = (st2, w3)" by fastforce
      obtain now w4 where t: "env_now env w3 = (now, w4)" by fastforce
      from decide_coalesce_inv [OF d co_holds_front [OF co_poll_once_holds [OF d k2 p] now_front [OF t]]]
        q Pending c Ready p t show ?thesis by (simp add: co_select_def)
    next
      case P2: Pending
      obtain z w3 where z: "env_sleep_until env w2 wake = (z, w3)" by fastforce
      have k3: "co_holds env front rset ?u F0 ?st w3" by (rule co_holds_front [OF k2 sleep_front [OF z]])
      obtain y w4 where y: "(case quiet_at of Some at \<Rightarrow> env_sleep_until env w3 at | None \<Rightarrow> (Pending, w3)) = (y, w4)" by fastforce
      have "front w4 = front w3" using y sleep_front by (auto split: option.splits)
      from co_holds_front [OF k3 this] have k4: "co_holds env front rset ?u F0 ?st w4" .
      have park: "co_inv env front rset ?u F0 (?st, env_park env w4)"
        using co_holds_front [OF k4 park_front] pc by (simp add: co_inv_def)
      from co_wake_inv [OF d k3] co_wake_inv [OF d k4] park q Pending c P2 z y show ?thesis
        by (cases z; cases y) (simp_all add: co_select_def)
    qed
  qed
qed

lemma co_backoff_inv:
  assumes d: "distinct_arms rset" and k: "co_holds env front rset (cp_urgent_at policy) F0 st w"
    and pc: "co_pc st = CO_Backoff t"
  shows "co_inv env front rset (cp_urgent_at policy) F0 (co_sleep_backoff env rset req policy t st w)"
proof -
  obtain c w1 where c: "poll_cancelled env w = (c, w1)" by fastforce
  have k1: "co_holds env front rset (cp_urgent_at policy) F0 st w1" by (rule co_holds_front [OF k poll_cancelled_front [OF c]])
  obtain z w2 where z: "env_sleep_until env w1 t = (z, w2)" by fastforce
  have k2: "co_holds env front rset (cp_urgent_at policy) F0 st w2" by (rule co_holds_front [OF k1 sleep_front [OF z]])
  from co_wake_inv [OF d k1] co_wake_inv [OF d k2] co_holds_front [OF k2 park_front] c z pc show ?thesis
    by (cases c; cases z) (simp_all add: co_sleep_backoff_def co_inv_def)
qed

end

context held_session
begin

lemma co_sinking_inv:
  assumes i: "co_inv env front rset u F0 (st, w)" and pc: "co_pc st = CO_Sink evs after headed"
  shows "co_inv env front rset u F0 (co_sinking env snk rset req policy evs after headed st w)"
proof -
  obtain r w1 where r: "snk w evs = (r, w1)" by fastforce
  have f: "front w1 = front w" by (rule snk_front [OF r])
  from i pc have k: "co_holds env front rset u F0 st w" "in_hand rset (co_slots st) = (\<lambda>_. [])"
    "after \<noteq> After_Urgent \<Longrightarrow> pd_events (co_pending st) = []" "co_log st \<noteq> []" "snd (last (co_log st)) = after"
    by (auto simp: co_inv_def)
  have k1: "co_holds env front rset u F0 st w1" by (rule co_holds_front [OF k(1) f])
  have t: "co_taken env front rset F0 st [] w1" by (rule co_holds_drained [OF k1 k(2)])
  show ?thesis
  proof (cases r)
    case Pending
    with r co_holds_front [OF k1 park_front] k pc show ?thesis by (simp add: co_sinking_def co_inv_def)
  next
    case (Ready x)
    show ?thesis
    proof (cases x)
      case (Inl err)
      have "conserved F0 (\<lambda>q. co_sent st q @ by_tag (pd_events (co_pending st)) q) (front w1)"
        using t by (auto simp: co_taken_def ss_keeps_def)
      then have "co_custody rset u F0 (co_log st) (Inl err) (front w1)"
        unfolding co_custody_def co_sent_def using k1 k
        by (intro exI [of _ "pd_events (co_pending st)"]) (auto simp: co_holds_def)
      with r Ready Inl show ?thesis by (simp add: co_sinking_def co_done_def)
    next
      case (Inr v)
      with r Ready co_finish_inv [OF t k(3)] co_undecided_inv k1 show ?thesis
        by (simp add: co_sinking_def split: co_after.split)
    qed
  qed
qed

lemma co_step_inv:
  assumes d: "distinct_arms rset" and i: "co_inv env front rset (cp_urgent_at policy) F0 c"
  shows "co_inv env front rset (cp_urgent_at policy) F0 (co_step env snk rset req policy c)"
proof -
  obtain st w where c: "c = (st, w)" by (cases c)
  note k = co_inv_holds [OF i [unfolded c]]
  show ?thesis
  proof (cases "co_pc st")
    case CO_Top
    with co_top_inv [OF d k] c show ?thesis by (simp add: co_step_def)
  next
    case (CO_Select wake quiet_at)
    with co_select_inv [OF d k CO_Select] c show ?thesis by (simp add: co_step_def)
  next
    case (CO_Backoff t)
    with co_backoff_inv [OF d k CO_Backoff] c show ?thesis by (simp add: co_step_def)
  next
    case (CO_Sink evs after headed)
    with co_sinking_inv [OF i [unfolded c] CO_Sink] c show ?thesis by (simp add: co_step_def)
  next
    case (CO_Done r)
    with i c show ?thesis by (simp add: co_step_def)
  qed
qed

lemma co_run_inv:
  "distinct_arms rset \<Longrightarrow> co_inv env front rset (cp_urgent_at policy) F0 c \<Longrightarrow>
   co_inv env front rset (cp_urgent_at policy) F0 (co_run env snk rset req policy n c)"
  by (induction n arbitrary: c) (simp_all add: co_step_inv)

lemma co_init_inv: "tagged (front w) \<Longrightarrow> co_inv env front rset u (front w) (co_init rset, w)"
  by (simp add: co_inv_def co_init_def co_holds_def pd_new_def ss_keeps_def ss_ok_new co_sent_def conserved_start)

theorem run_coalesce_custody:
  assumes d: "distinct_arms rset" and t: "tagged (front w)"
    and r: "run_coalesce env snk rset req policy fuel w = (Some r, log, w')"
  shows "co_custody rset (cp_urgent_at policy) (front w) log r (front w')"
proof -
  obtain a w0 where a: "fw_admit env rset req w = (a, w0)" by fastforce
  have f: "front w0 = front w" by (rule fw_admit_front [OF a])
  show ?thesis
  proof (cases a)
    case (Inl err)
    with r a f show ?thesis by (auto simp: run_coalesce_def co_custody_def conserved_start)
  next
    case (Inr u)
    obtain st w1 where s: "co_run env snk rset req policy fuel (co_init rset, w0) = (st, w1)" by fastforce
    from co_run_inv [OF d co_init_inv [of w0 rset], of policy req fuel] t f s
    have "co_inv env front rset (cp_urgent_at policy) (front w) (st, w1)" by simp
    with r a Inr s show ?thesis by (auto simp: run_coalesce_def co_inv_def split: co_pc.splits)
  qed
qed

end

end
