(* ===== verification/Coalesce_Contract.thy ===== *)
theory Coalesce_Contract
  imports Coalesce_Run
begin

text \<open>
  What a coalescing session may hand to its sink: bursts within the limits of the set, quiet
  bursts no closer than the interval, urgent events in the turn that took them.
\<close>

section \<open>The buffer counts what it holds\<close>

text \<open>A counter that has saturated has stopped counting, so a limit of \<open>u64::MAX\<close> is none.\<close>

definition capped :: "nat \<Rightarrow> u64 \<Rightarrow> bool" where
  "capped n m \<longleftrightarrow> m = u64_max \<or> n \<le> unat m"

definition set_limits :: "registration_set \<Rightarrow> wait_event list \<Rightarrow> bool" where
  "set_limits rset evs \<longleftrightarrow>
     capped (length evs) (wb_max_events (rs_aggregate_limits rset)) \<and>
     capped (weight_of evs) (wb_max_bytes (rs_aggregate_limits rset)) \<and>
     (\<forall>reg \<in> set (rs_registrations rset).
        capped (length (of_reg (id_str (reg_id reg)) evs)) (wb_max_events (reg_bounds reg)) \<and>
        capped (weight_of (of_reg (id_str (reg_id reg)) evs)) (wb_max_bytes (reg_bounds reg)))"

definition pd_counts :: "pending_buffer \<Rightarrow> bool" where
  "pd_counts p \<longleftrightarrow>
     unat (pd_total_events p) = min (length (pd_events p)) (2 ^ 64 - 1) \<and>
     unat (pd_total_bytes p) = min (weight_of (pd_events p)) (2 ^ 64 - 1) \<and>
     (\<forall>rid. unat (get_or 0 (pd_per_events p) rid) = min (length (of_reg rid (pd_events p))) (2 ^ 64 - 1)) \<and>
     (\<forall>rid. unat (get_or 0 (pd_per_bytes p) rid) = min (weight_of (of_reg rid (pd_events p))) (2 ^ 64 - 1))"

definition pd_ok :: "registration_set \<Rightarrow> pending_buffer \<Rightarrow> bool" where
  "pd_ok rset p \<longleftrightarrow> pd_counts p \<and> set_limits rset (pd_events p)"

lemma weight_of_simps [simp]:
  "weight_of [] = 0" "weight_of (xs @ ys) = weight_of xs + weight_of ys" "weight_of [e] = unat (event_surface_bytes e)"
  by (simp_all add: weight_of_def)

lemma of_reg_simps [simp]:
  "of_reg rid [] = []" "of_reg rid (xs @ ys) = of_reg rid xs @ of_reg rid ys"
  "of_reg rid [e] = (if id_str (ev_registration_id e) = rid then [e] else [])"
  by (simp_all add: of_reg_def)

lemma capped_0 [simp]: "capped 0 m"
  by (simp add: capped_def)

lemma pd_ok_empty: "pd_events p = [] \<Longrightarrow> pd_total_events p = 0 \<Longrightarrow> pd_total_bytes p = 0 \<Longrightarrow>
   pd_per_events p = [] \<Longrightarrow> pd_per_bytes p = [] \<Longrightarrow> pd_ok rset p"
  by (simp add: pd_ok_def pd_counts_def set_limits_def get_or_def)

lemma pd_ok_new [simp]: "pd_ok rset pd_new"
  by (rule pd_ok_empty) (simp_all add: pd_new_def)

lemma pd_ok_taken [simp]: "pd_ok rset (snd (pd_take p))"
  by (rule pd_ok_empty) simp_all

lemma sat_step:
  assumes "unat a = min n (2 ^ 64 - 1)" "\<not> m < sat_add a b" "k = n + unat b"
  shows "unat (sat_add a b) = min k (2 ^ 64 - 1) \<and> capped k m"
proof
  show s: "unat (sat_add a b) = min k (2 ^ 64 - 1)" using assms(1,3) by (simp add: unat_sat_add min_def)
  show "capped k m"
  proof (cases "k \<le> 2 ^ 64 - 1")
    case True
    with s assms(2) show ?thesis by (simp add: capped_def not_less word_le_nat_alt)
  next
    case False
    with s have "unat (sat_add a b) = unat u64_max" by (simp add: unat_u64_max)
    with assms(2) have "unat u64_max \<le> unat m" by (simp add: not_less word_le_nat_alt)
    with unat_le_u64_max [of m] have "m = u64_max" by (metis le_antisym unat_u64_max unat_u64_max_iff)
    then show ?thesis by (simp add: capped_def)
  qed
qed

lemma try_push_Inr:
  assumes "try_push rset ev p = Inr p'"
  obtains reg where "registration_of rset (ev_registration_id ev) = Some reg"
    "\<not> wb_max_events (rs_aggregate_limits rset) < sat_add (pd_total_events p) 1"
    "\<not> wb_max_bytes (rs_aggregate_limits rset) < sat_add (pd_total_bytes p) (event_surface_bytes ev)"
    "\<not> wb_max_events (reg_bounds reg) < sat_add (get_or 0 (pd_per_events p) (id_str (ev_registration_id ev))) 1"
    "\<not> wb_max_bytes (reg_bounds reg) < sat_add (get_or 0 (pd_per_bytes p) (id_str (ev_registration_id ev))) (event_surface_bytes ev)"
    "p' = p\<lparr>pd_total_events := sat_add (pd_total_events p) 1,
            pd_total_bytes := sat_add (pd_total_bytes p) (event_surface_bytes ev),
            pd_per_events := bt_insert (id_str (ev_registration_id ev))
              (sat_add (get_or 0 (pd_per_events p) (id_str (ev_registration_id ev))) 1) (pd_per_events p),
            pd_per_bytes := bt_insert (id_str (ev_registration_id ev))
              (sat_add (get_or 0 (pd_per_bytes p) (id_str (ev_registration_id ev))) (event_surface_bytes ev)) (pd_per_bytes p),
            pd_events := pd_events p @ [ev]\<rparr>"
  using assms by (auto simp: try_push_def Let_def split: if_splits option.splits)

lemma registration_of_own:
  assumes "distinct_arms rset" "reg \<in> set (rs_registrations rset)" "registration_of rset (reg_id reg) = Some reg'"
  shows "reg' = reg"
proof -
  from assms(3) have "reg' \<in> set (rs_registrations rset)" "id_str (reg_id reg') = id_str (reg_id reg)"
    unfolding registration_of_def by (auto simp: find_Some_iff)
  moreover from this have "reg_id reg' = reg_id reg" by (cases "reg_id reg'"; cases "reg_id reg") simp
  ultimately show ?thesis using assms(1,2) by (auto simp: distinct_arms_def distinct_map dest: inj_onD)
qed

lemma try_push_ok:
  assumes d: "distinct_arms rset" and k: "pd_ok rset p" and t: "try_push rset ev p = Inr p'"
  shows "pd_ok rset p'"
proof -
  let ?rid = "id_str (ev_registration_id ev)"
  note c = k [unfolded pd_ok_def pd_counts_def]
  obtain reg where r: "registration_of rset (ev_registration_id ev) = Some reg"
    and l: "\<not> wb_max_events (rs_aggregate_limits rset) < sat_add (pd_total_events p) 1"
    "\<not> wb_max_bytes (rs_aggregate_limits rset) < sat_add (pd_total_bytes p) (event_surface_bytes ev)"
    "\<not> wb_max_events (reg_bounds reg) < sat_add (get_or 0 (pd_per_events p) ?rid) 1"
    "\<not> wb_max_bytes (reg_bounds reg) < sat_add (get_or 0 (pd_per_bytes p) ?rid) (event_surface_bytes ev)"
    and p: "p' = p\<lparr>pd_total_events := sat_add (pd_total_events p) 1,
            pd_total_bytes := sat_add (pd_total_bytes p) (event_surface_bytes ev),
            pd_per_events := bt_insert ?rid (sat_add (get_or 0 (pd_per_events p) ?rid) 1) (pd_per_events p),
            pd_per_bytes := bt_insert ?rid (sat_add (get_or 0 (pd_per_bytes p) ?rid) (event_surface_bytes ev)) (pd_per_bytes p),
            pd_events := pd_events p @ [ev]\<rparr>"
    using t by (rule try_push_Inr)
  have n: "unat (sat_add (pd_total_events p) 1) = min (length (pd_events p @ [ev])) (2 ^ 64 - 1) \<and>
      capped (length (pd_events p @ [ev])) (wb_max_events (rs_aggregate_limits rset))"
    by (rule sat_step [OF _ l(1)]) (use c in auto)
  have b: "unat (sat_add (pd_total_bytes p) (event_surface_bytes ev)) = min (weight_of (pd_events p @ [ev])) (2 ^ 64 - 1) \<and>
      capped (weight_of (pd_events p @ [ev])) (wb_max_bytes (rs_aggregate_limits rset))"
    by (rule sat_step [OF _ l(2)]) (use c in auto)
  have rn: "unat (sat_add (get_or 0 (pd_per_events p) ?rid) 1) = min (length (of_reg ?rid (pd_events p @ [ev]))) (2 ^ 64 - 1) \<and>
      capped (length (of_reg ?rid (pd_events p @ [ev]))) (wb_max_events (reg_bounds reg))"
    by (rule sat_step [OF _ l(3)]) (use c in auto)
  have rb: "unat (sat_add (get_or 0 (pd_per_bytes p) ?rid) (event_surface_bytes ev)) =
        min (weight_of (of_reg ?rid (pd_events p @ [ev]))) (2 ^ 64 - 1) \<and>
      capped (weight_of (of_reg ?rid (pd_events p @ [ev]))) (wb_max_bytes (reg_bounds reg))"
    by (rule sat_step [OF _ l(4)]) (use c in auto)
  have counts: "pd_counts p'"
    unfolding pd_counts_def
  proof (intro conjI allI)
    fix rid
    show "unat (get_or 0 (pd_per_events p') rid) = min (length (of_reg rid (pd_events p'))) (2 ^ 64 - 1)"
      using c rn by (cases "rid = ?rid") (simp_all add: p)
    show "unat (get_or 0 (pd_per_bytes p') rid) = min (weight_of (of_reg rid (pd_events p'))) (2 ^ 64 - 1)"
      using c rb by (cases "rid = ?rid") (simp_all add: p)
  qed (use n b in \<open>simp_all add: p\<close>)
  have per: "capped (length (of_reg (id_str (reg_id q)) (pd_events p @ [ev]))) (wb_max_events (reg_bounds q)) \<and>
      capped (weight_of (of_reg (id_str (reg_id q)) (pd_events p @ [ev]))) (wb_max_bytes (reg_bounds q))"
    if q: "q \<in> set (rs_registrations rset)" for q
  proof (cases "id_str (reg_id q) = ?rid")
    case True
    then have "registration_of rset (reg_id q) = Some reg" using r by (simp add: registration_of_def)
    from registration_of_own [OF d q this] rn rb True show ?thesis by simp
  next
    case False
    with k q show ?thesis by (auto simp: pd_ok_def set_limits_def)
  qed
  from counts per n b show ?thesis by (simp add: pd_ok_def set_limits_def p)
qed

lemma push_all_ok:
  "distinct_arms rset \<Longrightarrow> pd_ok rset p \<Longrightarrow> push_all rset evs p = Inr p' \<Longrightarrow> pd_ok rset p'"
  by (induction evs arbitrary: p) (auto split: sum.splits dest: try_push_ok)

lemma push_quiet_ok:
  "distinct_arms rset \<Longrightarrow> pd_ok rset p \<Longrightarrow> push_quiet rset u t evs urgent p nxt = Inr (burst, p', nxt') \<Longrightarrow>
   pd_ok rset p'"
  by (induction evs arbitrary: urgent p nxt) (auto split: sum.splits if_splits dest: try_push_ok)

section \<open>Bursts within the limits\<close>

definition quiet_fits :: "registration_set \<Rightarrow> (wait_event list \<times> co_after) list \<Rightarrow> bool" where
  "quiet_fits rset log \<longleftrightarrow> (\<forall>(burst, after) \<in> set log. after \<noteq> After_Urgent \<longrightarrow> set_limits rset burst)"

definition co_fits :: "registration_set \<Rightarrow> 'b co_state \<Rightarrow> bool" where
  "co_fits rset st \<longleftrightarrow> pd_ok rset (co_pending st) \<and> quiet_fits rset (co_log st)"

lemma co_fits_simps [simp]:
  "co_fits rset (st\<lparr>co_pc := pc\<rparr>) = co_fits rset st" "co_fits rset (st\<lparr>co_slots := s\<rparr>) = co_fits rset st"
  "co_fits rset (st\<lparr>co_next_quiet := n\<rparr>) = co_fits rset st" "co_fits rset (st\<lparr>co_backoff_step := k\<rparr>) = co_fits rset st"
  by (simp_all add: co_fits_def)

lemma co_fits_pending:
  "co_fits rset st \<Longrightarrow> pd_ok rset p \<Longrightarrow> co_fits rset (st\<lparr>co_pending := p\<rparr>)"
  by (simp add: co_fits_def)

lemma co_fits_done: "co_fits rset st \<Longrightarrow> co_fits rset (fst (co_done st r w))"
  by (simp add: co_done_def)

text \<open>
  The restoring ends and the hand-over keep the limits; what follows a turn only moves the program
  counter, the slots and the interval.
\<close>

lemma fail_closed_fits: "co_fits rset st \<Longrightarrow> co_fits rset (fst (fail_closed env err st w))"
  by (auto simp: fail_closed_def co_done_def Let_def intro!: co_fits_pending pd_ok_empty split: prod.split sum.split)

lemma restore_overflow_fits: "co_fits rset st \<Longrightarrow> co_fits rset (fst (restore_then_overflow env unsunk rid st w))"
  by (auto simp: restore_then_overflow_def co_done_def Let_def intro!: co_fits_pending pd_ok_empty split: prod.split sum.split)

lemma co_undecided_fits: "co_fits rset st \<Longrightarrow> co_fits rset (fst (co_undecided rset' req headed st w))"
  by (simp add: co_undecided_def co_wait_def Let_def)

lemma co_finish_fits: "co_fits rset st \<Longrightarrow> co_fits rset (fst (co_finish rset' req terminal now cancelled st w))"
  by (simp add: co_finish_def co_done_def split: option.split)

lemma co_hand_fits:
  "co_fits rset st \<Longrightarrow> pd_ok rset p \<Longrightarrow> after \<noteq> After_Urgent \<longrightarrow> set_limits rset burst \<Longrightarrow>
   co_fits rset (co_hand burst after headed (st\<lparr>co_pending := p\<rparr>))"
  by (auto simp: co_hand_def co_fits_def quiet_fits_def)

lemma emit_quiet_fits: "co_fits rset st \<Longrightarrow> co_fits rset (fst (emit_quiet rset' req now headed st w))"
  using co_hand_fits [of rset st "snd (pd_take (co_pending st))"] pd_ok_taken [of rset "co_pending st"]
  by (auto simp: emit_quiet_def co_undecided_fits co_fits_def [of rset st] pd_ok_def [of rset "co_pending st"])

lemma final_flush_fits:
  assumes d: "distinct_arms rset" and f: "co_fits rset st"
  shows "co_fits rset (fst (final_flush env rset req now evs terminal cancelled headed st w))"
proof (cases "push_all rset evs (co_pending st)")
  case (Inl a)
  with restore_overflow_fits [OF f] show ?thesis by (cases a) (simp add: final_flush_def)
next
  case (Inr p)
  have p: "pd_ok rset p" using push_all_ok [OF d _ Inr] f by (simp add: co_fits_def)
  then have "set_limits rset (pd_events p)" by (simp add: pd_ok_def)
  with co_finish_fits [OF co_fits_pending [OF f p], where w = w] co_hand_fits [OF f pd_ok_taken [of rset p]] Inr show ?thesis
    by (simp add: final_flush_def)
qed

lemma apply_turn_fits:
  assumes d: "distinct_arms rset" and f: "co_fits rset st"
  shows "co_fits rset (fst (apply_turn env rset req policy now evs headed st w))"
proof -
  let ?u = "cp_urgent_at policy"
  let ?emit = "saturating_add (env_calendar env) now (cp_min_emit_interval policy)"
  have all: "co_fits rset (st\<lparr>co_next_quiet := n, co_pending := p\<rparr>)" "co_fits rset (st\<lparr>co_pending := p, co_next_quiet := n\<rparr>)"
    if "push_all rset evs (co_pending st) = Inr p" for n p
    using push_all_ok [OF d _ that] f by (simp_all add: co_fits_def)
  have urgent: "co_fits rset (co_hand burst After_Urgent headed (st\<lparr>co_pending := p, co_next_quiet := n'\<rparr>))"
    "co_fits rset (st\<lparr>co_pending := p, co_next_quiet := n'\<rparr>)"
    if "push_quiet rset ?u ?emit evs [] (co_pending st) n = Inr (burst, p, n')" for n burst p n'
    using push_quiet_ok [OF d _ that] f by (simp_all add: co_fits_def co_hand_def quiet_fits_def)
  show ?thesis
    using f all urgent
    by (auto simp: apply_turn_def Let_def emit_quiet_fits co_undecided_fits restore_overflow_fits split: sum.split)
qed

section \<open>Steps\<close>

text \<open>
  A property of the state alone that waiting, the slots and the back-off step do not touch is an
  invariant if the turns, the closed failure and the sink's answer keep it.
\<close>

definition co_waits :: "'b co_state \<Rightarrow> bool" where
  "co_waits st \<longleftrightarrow> (case co_pc st of CO_Sink _ _ _ \<Rightarrow> False | CO_Done _ \<Rightarrow> False | _ \<Rightarrow> True)"

lemma co_waits_simps [simp]:
  "co_waits (st\<lparr>co_slots := s\<rparr>) = co_waits st" "co_waits (st\<lparr>co_backoff_step := k\<rparr>) = co_waits st"
  "co_waits (st\<lparr>co_next_quiet := n\<rparr>) = co_waits st" "co_waits (st\<lparr>co_pending := p\<rparr>) = co_waits st"
  "co_waits (st\<lparr>co_pc := CO_Top\<rparr>)" "co_waits (st\<lparr>co_pc := CO_Select t q\<rparr>)" "co_waits (st\<lparr>co_pc := CO_Backoff t\<rparr>)"
  by (simp_all add: co_waits_def)

lemma co_poll_once_slots: "co_poll_once env st w = (st', w') \<Longrightarrow> \<exists>s. st' = st\<lparr>co_slots := s\<rparr>"
  by (auto simp: co_poll_once_def split: prod.splits)

lemma co_step_keeps:
  assumes slots: "\<And>st s. Q (st\<lparr>co_slots := s\<rparr>) = Q st" and backoff: "\<And>st k. Q (st\<lparr>co_backoff_step := k\<rparr>) = Q st"
    and waits: "\<And>st t q. Q st \<Longrightarrow> co_waits st \<Longrightarrow> Q (st\<lparr>co_pc := CO_Select t q\<rparr>) \<and> Q (st\<lparr>co_pc := CO_Backoff t\<rparr>)"
    and failed: "\<And>st err w. Q st \<Longrightarrow> co_waits st \<Longrightarrow> Q (fst (fail_closed env err st w))"
    and turn: "\<And>st now cancel_arm headed w. Q st \<Longrightarrow> co_waits st \<Longrightarrow>
      Q (fst (decide_coalesce env rset req policy now cancel_arm headed st w))"
    and sunk: "\<And>st evs after headed w. Q st \<Longrightarrow> co_pc st = CO_Sink evs after headed \<Longrightarrow>
      Q (fst (co_sinking env snk rset req policy evs after headed st w))"
    and Q: "Q (fst c)"
  shows "Q (fst (co_step env snk rset req policy c))"
proof -
  obtain st w where c: "c = (st, w)" by (cases c)
  have Q: "Q st" using Q c by simp
  have polled: "Q (fst (case co_poll_once env st w of (st, w) \<Rightarrow> decide_coalesce env rset req policy (now w) (x w) headed st (y w)))"
    if "Q st" "co_waits st" for st now x headed y and w
  proof -
    obtain st' w' where p: "co_poll_once env st w = (st', w')" by fastforce
    then obtain s where s: "st' = st\<lparr>co_slots := s\<rparr>" by (blast dest: co_poll_once_slots)
    have "Q st'" "co_waits st'" using that slots by (simp_all add: s)
    from turn [OF this] p show ?thesis by simp
  qed
  have woken: "Q (fst (co_wake env rset req policy st w))" if "Q st" "co_waits st" for st w
    using polled [of "st\<lparr>co_slots := rearm_idle (co_slots st)\<rparr>" "\<lambda>w. fst (env_now env w)" "\<lambda>_. False" False "\<lambda>w. snd (env_now env w)" w]
      that slots by (simp add: co_wake_def Let_def case_prod_beta)
  show ?thesis
  proof (cases "co_pc st")
    case CO_Top
    then have w: "co_waits st" by (simp add: co_waits_def)
    obtain now w1 where t: "env_now env w = (now, w1)" by fastforce
    obtain now2 w2 where t2: "env_now env w1 = (now2, w2)" by fastforce
    obtain x w3 where x: "env_is_cancelled env w2 = (x, w3)" by fastforce
    from polled [OF Q w, of "\<lambda>_. now2" "\<lambda>w. fst (env_is_cancelled env w)" True "\<lambda>w. snd (env_is_cancelled env w)" w3]
      failed [OF Q w] waits [OF Q w] c CO_Top t t2 x show ?thesis
      by (simp add: co_step_def co_top_def co_wait_def Let_def case_prod_beta split: option.split)
  next
    case (CO_Select wake quiet_at)
    then have w: "co_waits st" by (simp add: co_waits_def)
    obtain r s w1 where r: "collect_turn env (co_slots st) w = (r, s, w1)" by (metis prod_cases3)
    let ?st = "st\<lparr>co_slots := s\<rparr>"
    have Q1: "Q ?st" and w1: "co_waits ?st" using Q w slots by simp_all
    show ?thesis
    proof (cases r)
      case (Ready x)
      have b: "Q (?st\<lparr>co_backoff_step := k\<rparr>)" "co_waits (?st\<lparr>co_backoff_step := k\<rparr>)" for k
        using Q1 w1 backoff by simp_all
      have "Q (fst (co_collected env rset req policy x ?st w1))"
        using failed [OF Q1 w1] turn [OF Q1 w1] waits [OF b]
        by (auto simp: co_collected_def Let_def case_prod_beta split: sum.split turn.split option.split)
      with c CO_Select r Ready show ?thesis by (simp add: co_step_def co_select_def)
    next
      case Pending
      with c CO_Select r polled [OF Q1 w1, of "\<lambda>w. fst (env_now env w)" "\<lambda>_. True" False "\<lambda>w. snd (env_now env w)"]
        woken [OF Q1 w1] Q1 show ?thesis
        by (simp add: co_step_def co_select_def Let_def case_prod_beta split: poll.split prod.split)
    qed
  next
    case (CO_Backoff t)
    then have w: "co_waits st" by (simp add: co_waits_def)
    with c CO_Backoff woken [OF Q w] Q show ?thesis
      by (simp add: co_step_def co_sleep_backoff_def split: poll.split prod.split)
  next
    case (CO_Sink evs after headed)
    with c sunk [OF Q CO_Sink] show ?thesis by (simp add: co_step_def)
  next
    case (CO_Done r)
    with c Q show ?thesis by (simp add: co_step_def)
  qed
qed

lemma co_run_keeps:
  assumes "\<And>c. Q (fst c) \<Longrightarrow> Q (fst (co_step env snk rset req policy c))"
  shows "Q (fst c) \<Longrightarrow> Q (fst (co_run env snk rset req policy n c))"
  by (induction n arbitrary: c) (simp_all add: assms)

lemma decide_coalesce_fits:
  assumes d: "distinct_arms rset" and f: "co_fits rset st"
  shows "co_fits rset (fst (decide_coalesce env rset req policy now cancel_arm headed st w))"
  using f by (simp add: decide_coalesce_def Let_def case_prod_beta fail_closed_fits final_flush_fits [OF d]
      apply_turn_fits [OF d] split: option.split)

lemma co_sinking_fits:
  "co_fits rset st \<Longrightarrow> co_fits rset (fst (co_sinking env snk rset req policy evs after headed st w))"
  by (auto simp: co_sinking_def co_done_def co_finish_fits co_undecided_fits intro!: co_fits_pending pd_ok_empty
      split: poll.split prod.split sum.split co_after.split)

theorem run_coalesce_fits:
  assumes d: "distinct_arms rset" and r: "run_coalesce env snk rset req policy fuel w = (r, log, w')"
  shows "quiet_fits rset log"
proof (cases "fst (fw_admit env rset req w)")
  case (Inl err)
  with r show ?thesis by (auto simp: run_coalesce_def quiet_fits_def split: prod.splits)
next
  case (Inr u)
  obtain w0 where a: "fw_admit env rset req w = (Inr u, w0)" using Inr by (metis prod.collapse)
  obtain st w1 where s: "co_run env snk rset req policy fuel (co_init rset, w0) = (st, w1)" by fastforce
  have step: "co_fits rset (fst c) \<Longrightarrow> co_fits rset (fst (co_step env snk rset req policy c))" for c :: "'b co_state \<times> 'a"
    by (rule co_step_keeps [where Q = "co_fits rset"])
      (simp_all add: fail_closed_fits decide_coalesce_fits [OF d] co_sinking_fits)
  have "co_fits rset (fst (co_run env snk rset req policy fuel (co_init rset, w0)))"
    by (rule co_run_keeps [where Q = "co_fits rset", OF step]) (simp_all add: co_init_def co_fits_def quiet_fits_def)
  with r a s show ?thesis by (auto simp: run_coalesce_def co_fits_def)
qed

section \<open>Quiet bursts are spaced\<close>

definition quiet_time :: "wait_event list \<times> co_after \<Rightarrow> timestamp option" where
  "quiet_time e = (case snd e of After_Quiet t \<Rightarrow> Some t | _ \<Rightarrow> None)"

definition quiet_times :: "(wait_event list \<times> co_after) list \<Rightarrow> timestamp list" where
  "quiet_times log = filter_map quiet_time log"

fun spaced :: "calendar \<Rightarrow> duration \<Rightarrow> timestamp list \<Rightarrow> bool" where
  "spaced cal d (t # u # ts) = (ts_le (saturating_add cal t d) u \<and> spaced cal d (u # ts))"
| "spaced cal d ts = True"

lemma spaced_snoc:
  "spaced cal d ts \<Longrightarrow> (ts \<noteq> [] \<Longrightarrow> ts_le (saturating_add cal (last ts) d) u) \<Longrightarrow> spaced cal d (ts @ [u])"
  by (induction cal d ts rule: spaced.induct) (auto split: if_splits)

lemma quiet_times_snoc [simp]:
  "quiet_times [] = []" "quiet_times (log @ [(b, After_Quiet t)]) = quiet_times log @ [t]"
  "quiet_times (log @ [(b, After_Urgent)]) = quiet_times log" "quiet_times (log @ [(b, After_Final fin t c)]) = quiet_times log"
proof -
  have "filter_map f (xs @ [y]) = filter_map f xs @ (case f y of Some z \<Rightarrow> [z] | None \<Rightarrow> [])"
    for f and xs :: "(wait_event list \<times> co_after) list" and y
    by (induction xs) (auto split: option.split)
  then show "quiet_times [] = []" "quiet_times (log @ [(b, After_Quiet t)]) = quiet_times log @ [t]"
    "quiet_times (log @ [(b, After_Urgent)]) = quiet_times log" "quiet_times (log @ [(b, After_Final fin t c)]) = quiet_times log"
    by (simp_all add: quiet_times_def quiet_time_def)
qed

text \<open>The time before which no quiet burst may follow the last one.\<close>

definition next_due :: "calendar \<Rightarrow> duration \<Rightarrow> 'b co_state \<Rightarrow> timestamp option" where
  "next_due cal d st =
     (case co_pc st of CO_Sink _ (After_Quiet t) _ \<Rightarrow> Some (saturating_add cal t d) | _ \<Rightarrow> co_next_quiet st)"

definition co_paced :: "calendar \<Rightarrow> duration \<Rightarrow> 'b co_state \<Rightarrow> bool" where
  "co_paced cal d st \<longleftrightarrow>
     spaced cal d (quiet_times (co_log st)) \<and>
     ((\<exists>r. co_pc st = CO_Done r) \<or> quiet_times (co_log st) = [] \<or>
        next_due cal d st = Some (saturating_add cal (last (quiet_times (co_log st))) d))"

text \<open>The same without the program counter, between two bursts.\<close>

definition paced :: "calendar \<Rightarrow> duration \<Rightarrow> timestamp option \<Rightarrow> (wait_event list \<times> co_after) list \<Rightarrow> bool" where
  "paced cal d nxt log \<longleftrightarrow>
     spaced cal d (quiet_times log) \<and>
     (quiet_times log = [] \<or> nxt = Some (saturating_add cal (last (quiet_times log)) d))"

lemma next_due_simps [simp]:
  "next_due cal d (st\<lparr>co_slots := s\<rparr>) = next_due cal d st" "next_due cal d (st\<lparr>co_backoff_step := k\<rparr>) = next_due cal d st"
  by (simp_all add: next_due_def split: co_pc.split co_after.split)

lemma co_paced_pc [simp]:
  "co_paced cal d (st\<lparr>co_pc := CO_Top\<rparr>) = paced cal d (co_next_quiet st) (co_log st)"
  "co_paced cal d (st\<lparr>co_pc := CO_Select t q\<rparr>) = paced cal d (co_next_quiet st) (co_log st)"
  "co_paced cal d (st\<lparr>co_pc := CO_Backoff t\<rparr>) = paced cal d (co_next_quiet st) (co_log st)"
  "co_paced cal d (st\<lparr>co_pc := CO_Done r\<rparr>) = spaced cal d (quiet_times (co_log st))"
  "co_paced cal d (st\<lparr>co_slots := s\<rparr>) = co_paced cal d st" "co_paced cal d (st\<lparr>co_backoff_step := k\<rparr>) = co_paced cal d st"
  by (simp_all add: co_paced_def paced_def) (simp_all add: next_due_def)

lemma co_paced_waits: "co_waits st \<Longrightarrow> co_paced cal d st = paced cal d (co_next_quiet st) (co_log st)"
  by (cases "co_pc st") (auto simp: co_waits_def co_paced_def paced_def next_due_def)

lemma paced_spaced: "paced cal d nxt log \<Longrightarrow> spaced cal d (quiet_times log)"
  by (simp add: paced_def)

lemma co_undecided_paced:
  "paced cal d (co_next_quiet st) (co_log st) \<Longrightarrow> co_paced cal d (fst (co_undecided rset req headed st w))"
  by (simp add: co_undecided_def co_wait_def Let_def)

lemma co_hand_paced:
  assumes "paced cal d (co_next_quiet st) (co_log st)" and "\<And>t. after = After_Quiet t \<Longrightarrow> interval_is_due (co_next_quiet st) t"
  shows "co_paced cal d (co_hand burst after headed st)"
proof (cases after)
  case (After_Quiet t)
  have "spaced cal d (quiet_times (co_log st) @ [t])"
    by (rule spaced_snoc) (use assms After_Quiet in \<open>auto simp: paced_def interval_is_due_def\<close>)
  with After_Quiet show ?thesis by (simp add: co_hand_def co_paced_def next_due_def)
qed (use assms in \<open>simp_all add: co_hand_def co_paced_def next_due_def paced_def\<close>)

lemma emit_quiet_paced:
  "paced cal d (co_next_quiet st) (co_log st) \<Longrightarrow> interval_is_due (co_next_quiet st) now \<Longrightarrow>
   co_paced cal d (fst (emit_quiet rset req now headed st w))"
  by (auto simp: emit_quiet_def intro!: co_undecided_paced co_hand_paced)

lemma restore_overflow_paced:
  "spaced cal d (quiet_times (co_log st)) \<Longrightarrow> co_paced cal d (fst (restore_then_overflow env unsunk rid st w))"
  by (auto simp: restore_then_overflow_def co_done_def Let_def split: prod.split sum.split)

lemma fail_closed_paced:
  "spaced cal d (quiet_times (co_log st)) \<Longrightarrow> co_paced cal d (fst (fail_closed env err st w))"
  by (auto simp: fail_closed_def co_done_def Let_def split: prod.split sum.split)

lemma co_finish_paced:
  "spaced cal d (quiet_times (co_log st)) \<Longrightarrow> co_paced cal d (fst (co_finish rset req terminal now cancelled st w))"
  by (simp add: co_finish_def co_done_def split: option.split)

lemma final_flush_paced:
  "paced cal d (co_next_quiet st) (co_log st) \<Longrightarrow>
   co_paced cal d (fst (final_flush env rset req now evs terminal cancelled headed st w))"
  by (auto simp: final_flush_def paced_spaced intro!: restore_overflow_paced co_finish_paced co_hand_paced split: sum.split)

lemma push_quiet_next:
  "push_quiet rset u t evs urgent p nxt = Inr (burst, p', nxt') \<Longrightarrow> nxt = Some x \<Longrightarrow> nxt' = Some x"
  by (induction evs arbitrary: urgent p nxt) (auto split: sum.splits if_splits)

lemma paced_open: "paced cal d nxt log \<Longrightarrow> (\<And>x. nxt = Some x \<Longrightarrow> nxt' = Some x) \<Longrightarrow> paced cal d nxt' log"
  by (auto simp: paced_def)

lemma apply_turn_paced:
  assumes p: "paced (env_calendar env) d (co_next_quiet st) (co_log st)"
  shows "co_paced (env_calendar env) d (fst (apply_turn env rset req policy now evs headed st w))"
proof (cases "evs = []")
  case True
  with p show ?thesis by (auto simp: apply_turn_def intro!: emit_quiet_paced co_undecided_paced)
next
  case ne: False
  let ?u = "cp_urgent_at policy"
  let ?emit = "saturating_add (env_calendar env) now (cp_min_emit_interval policy)"
  let ?nxt = "if co_next_quiet st = None \<and> list_ex (\<lambda>ev. \<not> is_urgent rset ev ?u) evs then Some ?emit else co_next_quiet st"
  let ?st = "st\<lparr>co_next_quiet := ?nxt\<rparr>"
  have p0: "paced (env_calendar env) d ?nxt (co_log st)" by (rule paced_open [OF p]) simp
  have over: "co_paced (env_calendar env) d (fst (restore_then_overflow env unsunk rid ?st w))" for unsunk rid
    by (rule restore_overflow_paced) (use paced_spaced [OF p] in simp)
  consider (flush) "list_ex (\<lambda>ev. is_urgent rset ev ?u) evs" "interval_is_due ?nxt now"
    | (urgent) "list_ex (\<lambda>ev. is_urgent rset ev ?u) evs" "\<not> interval_is_due ?nxt now"
    | (calm) "\<not> list_ex (\<lambda>ev. is_urgent rset ev ?u) evs" by blast
  then show ?thesis
  proof cases
    case flush
    have "co_paced (env_calendar env) d (fst (emit_quiet rset req now headed (?st\<lparr>co_pending := q\<rparr>) w))" for q
      by (rule emit_quiet_paced) (use p0 flush(2) in simp_all)
    with ne flush over show ?thesis
      by (auto simp only: apply_turn_def Let_def if_True if_False conj_absorb simp_thms split: sum.split prod.split)
  next
    case urgent
    show ?thesis
    proof (cases "push_quiet rset ?u ?emit evs [] (co_pending st) ?nxt")
      case (Inl a)
      with ne urgent over show ?thesis
        by (cases a) (simp only: apply_turn_def Let_def, simp)
    next
      case (Inr a)
      obtain burst q n where a: "a = (burst, q, n)" by (metis prod_cases3)
      have pn: "paced (env_calendar env) d n (co_log st)"
        by (rule paced_open [OF p0]) (rule push_quiet_next [OF Inr [unfolded a]])
      have "co_paced (env_calendar env) d (co_hand burst After_Urgent headed (st\<lparr>co_pending := q, co_next_quiet := n\<rparr>))"
        by (rule co_hand_paced) (use pn in simp_all)
      moreover have "co_paced (env_calendar env) d (fst (co_undecided rset req headed (st\<lparr>co_pending := q, co_next_quiet := n\<rparr>) w))"
        by (rule co_undecided_paced) (use pn in simp)
      ultimately show ?thesis using ne urgent Inr a by (simp only: apply_turn_def Let_def) simp
    qed
  next
    case calm
    then have "list_ex (\<lambda>ev. \<not> is_urgent rset ev ?u) evs" using ne by (cases evs) simp_all
    with p0 have pn: "paced (env_calendar env) d (Some (case co_next_quiet st of Some t \<Rightarrow> t | None \<Rightarrow> ?emit)) (co_log st)"
      by (auto split: if_splits option.split)
    let ?n = "Some (case co_next_quiet st of Some t \<Rightarrow> t | None \<Rightarrow> ?emit)"
    have u: "co_paced (env_calendar env) d (fst (co_undecided rset req headed (st\<lparr>co_pending := q, co_next_quiet := ?n\<rparr>) w))" for q
      by (rule co_undecided_paced) (use pn in simp)
    have e: "co_paced (env_calendar env) d (fst (emit_quiet rset req now headed (st\<lparr>co_pending := q, co_next_quiet := ?n\<rparr>) w))"
      if "interval_is_due ?n now" for q
      by (rule emit_quiet_paced) (use pn that in simp_all)
    have o: "co_paced (env_calendar env) d (fst (restore_then_overflow env unsunk rid (st\<lparr>co_next_quiet := ?n\<rparr>) w))" for unsunk rid
      by (rule restore_overflow_paced) (use paced_spaced [OF p] in simp)
    from ne calm u e o \<open>list_ex (\<lambda>ev. \<not> is_urgent rset ev ?u) evs\<close> show ?thesis
      by (cases "co_next_quiet st"; cases "push_all rset evs (co_pending st)") (auto simp: apply_turn_def Let_def)
  qed
qed

lemma decide_coalesce_paced:
  assumes "co_paced (env_calendar env) d st" "co_waits st"
  shows "co_paced (env_calendar env) d (fst (decide_coalesce env rset req policy now cancel_arm headed st w))"
  using assms by (simp add: decide_coalesce_def Let_def case_prod_beta co_paced_waits paced_spaced fail_closed_paced
      final_flush_paced apply_turn_paced split: option.split)

lemma co_sinking_paced:
  assumes "co_paced (env_calendar env) (cp_min_emit_interval policy) st" "co_pc st = CO_Sink evs after headed"
  shows "co_paced (env_calendar env) (cp_min_emit_interval policy) (fst (co_sinking env snk rset req policy evs after headed st w))"
proof -
  have sp: "spaced (env_calendar env) (cp_min_emit_interval policy) (quiet_times (co_log st))"
    using assms(1) by (simp add: co_paced_def)
  have "paced (env_calendar env) (cp_min_emit_interval policy)
      (case after of After_Quiet now \<Rightarrow> Some (saturating_add (env_calendar env) now (cp_min_emit_interval policy))
        | _ \<Rightarrow> co_next_quiet st) (co_log st)"
    using assms by (cases after) (auto simp: co_paced_def paced_def next_due_def)
  with assms sp show ?thesis
    by (cases after) (auto simp: co_sinking_def co_done_def intro!: co_undecided_paced co_finish_paced split: poll.split prod.split sum.split)
qed

theorem run_coalesce_spaced:
  assumes r: "run_coalesce env snk rset req policy fuel w = (r, log, w')"
  shows "spaced (env_calendar env) (cp_min_emit_interval policy) (quiet_times log)"
proof (cases "fst (fw_admit env rset req w)")
  case (Inl err)
  with r show ?thesis by (auto simp: run_coalesce_def split: prod.splits)
next
  case (Inr u)
  let ?Q = "co_paced (env_calendar env) (cp_min_emit_interval policy)"
  obtain w0 where a: "fw_admit env rset req w = (Inr u, w0)" using Inr by (metis prod.collapse)
  obtain st w1 where s: "co_run env snk rset req policy fuel (co_init rset, w0) = (st, w1)" by fastforce
  have step: "?Q (fst c) \<Longrightarrow> ?Q (fst (co_step env snk rset req policy c))" for c :: "'b co_state \<times> 'a"
    by (rule co_step_keeps [where Q = ?Q])
      (simp_all add: co_paced_waits fail_closed_paced paced_spaced decide_coalesce_paced co_sinking_paced)
  have "?Q (fst (co_run env snk rset req policy fuel (co_init rset, w0)))"
    by (rule co_run_keeps [where Q = ?Q, OF step]) (simp_all add: co_init_def co_paced_def)
  with r a s show ?thesis by (auto simp: run_coalesce_def co_paced_def)
qed

section \<open>The buffer refuses exactly what does not fit\<close>

lemma sat_over:
  assumes "unat a = min n (2 ^ 64 - 1)" "m < sat_add a b" "k = n + unat b"
  shows "\<not> capped k m"
proof -
  have "unat m < unat (sat_add a b)" using assms(2) by (simp add: word_less_nat_alt)
  then have "unat m < k" "unat m < unat u64_max"
    using assms(1,3) unat_le_u64_max [of "sat_add a b"] by (auto simp: unat_sat_add unat_u64_max)
  then show ?thesis by (auto simp: capped_def)
qed

lemma registration_of_mem:
  "registration_of rset i = Some reg \<Longrightarrow> reg \<in> set (rs_registrations rset) \<and> id_str (reg_id reg) = id_str i"
  by (auto simp: registration_of_def find_Some_iff)

lemma try_push_Inl:
  assumes k: "pd_counts p" and t: "try_push rset ev p = Inl rid"
  shows "rid = ev_registration_id ev"
    "registration_of rset (ev_registration_id ev) = None \<or> \<not> set_limits rset (pd_events p @ [ev])"
proof -
  show "rid = ev_registration_id ev"
    using t by (auto simp: try_push_def Let_def split: if_splits option.splits)
  let ?rid = "id_str (ev_registration_id ev)"
  note c = k [unfolded pd_counts_def]
  show "registration_of rset (ev_registration_id ev) = None \<or> \<not> set_limits rset (pd_events p @ [ev])"
  proof (cases "wb_max_events (rs_aggregate_limits rset) < sat_add (pd_total_events p) 1 \<or>
      wb_max_bytes (rs_aggregate_limits rset) < sat_add (pd_total_bytes p) (event_surface_bytes ev)")
    case True
    then have "\<not> capped (length (pd_events p @ [ev])) (wb_max_events (rs_aggregate_limits rset)) \<or>
        \<not> capped (weight_of (pd_events p @ [ev])) (wb_max_bytes (rs_aggregate_limits rset))"
      using c sat_over [of "pd_total_events p" "length (pd_events p)" "wb_max_events (rs_aggregate_limits rset)" 1]
        sat_over [of "pd_total_bytes p" "weight_of (pd_events p)" "wb_max_bytes (rs_aggregate_limits rset)" "event_surface_bytes ev"]
      by auto
    then show ?thesis by (auto simp: set_limits_def)
  next
    case False
    show ?thesis
    proof (cases "registration_of rset (ev_registration_id ev)")
      case (Some reg)
      from False Some t have o: "wb_max_events (reg_bounds reg) < sat_add (get_or 0 (pd_per_events p) ?rid) 1 \<or>
          wb_max_bytes (reg_bounds reg) < sat_add (get_or 0 (pd_per_bytes p) ?rid) (event_surface_bytes ev)"
        by (auto simp: try_push_def Let_def split: if_splits)
      have "\<not> capped (length (of_reg ?rid (pd_events p @ [ev]))) (wb_max_events (reg_bounds reg)) \<or>
          \<not> capped (weight_of (of_reg ?rid (pd_events p @ [ev]))) (wb_max_bytes (reg_bounds reg))"
        using o c sat_over [of "get_or 0 (pd_per_events p) ?rid" "length (of_reg ?rid (pd_events p))" "wb_max_events (reg_bounds reg)" 1]
          sat_over [of "get_or 0 (pd_per_bytes p) ?rid" "weight_of (of_reg ?rid (pd_events p))" "wb_max_bytes (reg_bounds reg)" "event_surface_bytes ev"]
        by auto
      with registration_of_mem [OF Some] show ?thesis unfolding set_limits_def by metis
    qed simp
  qed
qed

theorem try_push_iff:
  assumes "distinct_arms rset" "pd_ok rset p"
  shows "(\<exists>p'. try_push rset ev p = Inr p') \<longleftrightarrow>
     registration_of rset (ev_registration_id ev) \<noteq> None \<and> set_limits rset (pd_events p @ [ev])"
proof (cases "try_push rset ev p")
  case (Inl rid)
  with try_push_Inl(2) [of p rset ev rid] assms(2) show ?thesis by (auto simp: pd_ok_def)
next
  case (Inr p')
  from try_push_ok [OF assms Inr] try_push_events [OF Inr] have "set_limits rset (pd_events p @ [ev])" by (simp add: pd_ok_def)
  moreover have "registration_of rset (ev_registration_id ev) \<noteq> None" using Inr by (rule try_push_Inr) simp
  ultimately show ?thesis using Inr by simp
qed

section \<open>Urgent events do not wait\<close>

definition flushed :: "wait_event \<Rightarrow> 'b co_state \<Rightarrow> bool" where
  "flushed e st \<longleftrightarrow>
     (case co_pc st of
        CO_Sink burst _ _ \<Rightarrow> e \<in> set burst
      | CO_Done (Inr fin) \<Rightarrow> (\<exists>rid. fin = overflow_end rid)
      | CO_Done (Inl _) \<Rightarrow> True
      | _ \<Rightarrow> False)"

lemma restore_overflow_flushed: "flushed e (fst (restore_then_overflow env unsunk rid st w))"
  by (auto simp: restore_then_overflow_def co_done_def flushed_def Let_def split: prod.split sum.split)

lemma co_hand_flushed: "e \<in> set burst \<Longrightarrow> flushed e (co_hand burst after headed st)"
  by (simp add: flushed_def co_hand_def)

lemma emit_quiet_flushed:
  "e \<in> set (pd_events (co_pending st)) \<Longrightarrow> flushed e (fst (emit_quiet rset req now headed st w))"
  by (auto simp: emit_quiet_def pd_is_empty_def co_hand_flushed)

lemma final_flush_flushed:
  assumes "e \<in> set evs"
  shows "flushed e (fst (final_flush env rset req now evs terminal cancelled headed st w))"
proof (cases "push_all rset evs (co_pending st)")
  case (Inl a)
  then show ?thesis by (cases a) (simp add: final_flush_def restore_overflow_flushed)
next
  case (Inr p)
  with push_all_events(1) [OF Inr] assms have "e \<in> set (pd_events p)" by simp
  with Inr show ?thesis by (auto simp: final_flush_def pd_is_empty_def co_hand_flushed)
qed

lemma apply_turn_flushed:
  assumes e: "e \<in> set evs" "is_urgent rset e (cp_urgent_at policy)"
  shows "flushed e (fst (apply_turn env rset req policy now evs headed st w))"
proof -
  let ?u = "cp_urgent_at policy"
  let ?emit = "saturating_add (env_calendar env) now (cp_min_emit_interval policy)"
  let ?nxt = "if co_next_quiet st = None \<and> list_ex (\<lambda>ev. \<not> is_urgent rset ev ?u) evs then Some ?emit else co_next_quiet st"
  have any: "evs \<noteq> []" "list_ex (\<lambda>ev. is_urgent rset ev ?u) evs" using e by (auto simp: list_ex_iff)
  show ?thesis
  proof (cases "interval_is_due ?nxt now")
    case True
    show ?thesis
    proof (cases "push_all rset evs (co_pending st)")
      case (Inl a)
      with any True show ?thesis by (cases a) (simp add: apply_turn_def Let_def restore_overflow_flushed)
    next
      case (Inr p)
      with push_all_events(1) [OF Inr] e any True show ?thesis
        by (simp add: apply_turn_def Let_def emit_quiet_flushed)
    qed
  next
    case False
    show ?thesis
    proof (cases "push_quiet rset ?u ?emit evs [] (co_pending st) ?nxt")
      case (Inl a)
      with any False show ?thesis by (cases a) (simp add: apply_turn_def Let_def restore_overflow_flushed)
    next
      case (Inr a)
      obtain burst p n where a: "a = (burst, p, n)" by (metis prod_cases3)
      from push_quiet_events(1) [OF Inr [unfolded a]] e have b: "e \<in> set burst" by (simp add: urgent_of_def)
      then have "burst \<noteq> []" by auto
      with b any False Inr a show ?thesis by (simp add: apply_turn_def Let_def co_hand_flushed)
    qed
  qed
qed

theorem decide_coalesce_flushes:
  assumes "posture_err rset req now = None" "ss_fault (co_slots st) = None"
    and "e \<in> set (fst (take_events (co_slots st)))" "is_urgent rset e (cp_urgent_at policy)"
  shows "flushed e (fst (decide_coalesce env rset req policy now cancel_arm headed st w))"
  using assms by (simp add: decide_coalesce_def Let_def case_prod_beta final_flush_flushed apply_turn_flushed)

end
