(* ===== verification/Follow_End.thy ===== *)
theory Follow_End
  imports Follow_Run
begin

text \<open>
  Why a held-follow session ends: the token was cancelled, a deadline has passed with every
  required registration bound, or an arm failed closed.
\<close>

lemma restore_each_world:
  assumes keep: "\<And>w b obs r w'. env_restore_ready env w b obs = (r, w') \<Longrightarrow> P w \<Longrightarrow> P w'"
  shows "restore_each env binds ready fe w = (fe', w') \<Longrightarrow> P w \<Longrightarrow> P w'"
proof (induction ready arbitrary: fe w)
  case (Cons p ready)
  obtain i obs where p: "p = (i, obs)" by (cases p)
  show ?case
  proof (cases "cell binds i")
    case None
    with Cons.prems Cons.IH p show ?thesis by simp
  next
    case (Some b)
    obtain r w1 where r: "env_restore_ready env w b obs = (r, w1)" by fastforce
    from keep [OF r Cons.prems(2)] Cons.IH Cons.prems(1) p Some r show ?thesis by (cases r) simp_all
  qed
qed simp

lemma poll_slot_world:
  assumes b: "\<And>w reg r w'. env_bind env w reg = (r, w') \<Longrightarrow> P w \<Longrightarrow> P w'"
    and n: "\<And>w b r w'. env_next env w b = (r, w') \<Longrightarrow> P w \<Longrightarrow> P w'"
    and q: "poll_slot env idx s w = (p, s', w')" and w: "P w"
  shows "P w'"
proof -
  obtain p1 s1 w1 where bnd: "poll_slot_bind env idx s w = (p1, s1, w1)" by (metis prod_cases3)
  obtain p2 s2 w2 where nxt: "poll_slot_next env idx s1 w1 = (p2, s2, w2)" by (metis prod_cases3)
  have "P w1" using bnd w b
    by (fastforce simp: poll_slot_bind_def split: option.splits prod.splits poll.splits sum.splits)
  moreover from this have "P w2" using nxt n
    by (fastforce simp: poll_slot_next_def split: option.splits prod.splits poll.splits sum.splits)
  ultimately show ?thesis using q w bnd nxt by (auto simp: poll_slot_def split: if_splits)
qed

lemma harvest_slots_world:
  assumes keep: "\<And>w b q w'. env_poll_ready env w b = (q, w') \<Longrightarrow> P w \<Longrightarrow> P w'"
  shows "harvest_slots env idxs s w = (s', w') \<Longrightarrow> P w \<Longrightarrow> P w'"
proof (induction idxs arbitrary: s w)
  case (Cons idx idxs)
  obtain s1 w1 where h: "harvest_slot env idx s w = (s1, w1)" by fastforce
  have "P w1" using h Cons.prems(2) keep
    by (fastforce simp: harvest_slot_def split: if_splits option.splits prod.splits)
  with Cons h show ?case by simp
qed simp

definition fw_due :: "('w \<Rightarrow> int) \<Rightarrow> live_wait_request \<Rightarrow> 'w \<Rightarrow> bool" where
  "fw_due clk req w \<longleftrightarrow> ts_instant (fw_earliest_deadline req) \<le> clk w"

definition fw_end_ok ::
  "('w \<Rightarrow> int) \<Rightarrow> ('w \<Rightarrow> bool) \<Rightarrow> registration_set \<Rightarrow> live_wait_request \<Rightarrow> 'b slot_set \<Rightarrow> follow_end \<Rightarrow> 'w \<Rightarrow> bool" where
  "fw_end_ok clk cxl rset req s fin w \<longleftrightarrow>
     (case fin of
        FE_Cancel \<Rightarrow> cxl w
      | FE_Deadline \<Rightarrow> fw_due clk req w \<and> pending_required rset s = None \<and> first_terminal rset s = None
      | FE_TerminalArm rid kind reason \<Rightarrow>
          first_terminal rset s = Some fin \<or>
          fw_due clk req w \<and> kind = TA_Failed \<and> reason = IdToken ''required_bind_pending'' \<and>
            (\<exists>reg. pending_required rset s = Some reg \<and> reg_id reg = rid))"

definition fw_ends ::
  "('w \<Rightarrow> int) \<Rightarrow> ('w \<Rightarrow> bool) \<Rightarrow> registration_set \<Rightarrow> live_wait_request \<Rightarrow> 'b fw_state \<times> 'w \<Rightarrow> bool" where
  "fw_ends clk cxl rset req c \<longleftrightarrow>
     (case c of (st, w) \<Rightarrow>
        (case fw_pc st of
           FW_Done (Inr fin) \<Rightarrow> fw_end_ok clk cxl rset req (fw_slots st) fin w
         | FW_Sink events terminal now \<Rightarrow>
             terminal = first_terminal rset (fw_slots st) \<and> ts_instant now \<le> clk w
         | _ \<Rightarrow> True))"

lemma fw_ends_waiting [simp]:
  "fw_ends clk cxl rset req (st\<lparr>fw_pc := FW_Select t\<rparr>, w)" "fw_ends clk cxl rset req (st\<lparr>fw_pc := FW_Backoff t\<rparr>, w)"
  "fw_ends clk cxl rset req (st\<lparr>fw_pc := FW_Top\<rparr>, w)"
  by (simp_all add: fw_ends_def)

lemma terminal_end_arm: "terminal_end rid obs = Some fin \<Longrightarrow> \<exists>kind reason. fin = FE_TerminalArm rid kind reason"
  by (auto simp: terminal_end_def split: observation.splits)

lemma first_terminal_from_arm:
  "first_terminal_from regs hs = Some fin \<Longrightarrow> \<exists>rid kind reason. fin = FE_TerminalArm rid kind reason"
proof (induction regs hs rule: first_terminal_from.induct)
  case (1 reg regs obs hs)
  show ?case
  proof (cases "Option.bind obs (terminal_end (reg_id reg))")
    case None
    with 1 show ?thesis by simp
  next
    case (Some f)
    with 1(2) have "f = fin" by simp
    with Some terminal_end_arm show ?thesis by (cases obs) (auto dest: terminal_end_arm)
  qed
qed simp_all

lemma first_terminal_arm:
  "first_terminal rset s = Some fin \<Longrightarrow> \<exists>rid kind reason. fin = FE_TerminalArm rid kind reason"
  unfolding first_terminal_def by (rule first_terminal_from_arm)

locale session_clock = clock_laws +
  fixes snk :: "'a \<Rightarrow> wait_event list \<Rightarrow> (error + unit) poll \<times> 'a"
  assumes snk_later: "snk w evs = (r, w') \<Longrightarrow> later w w'"

context clock_laws
begin

lemma at_deadline_due: "at_deadline req now \<Longrightarrow> ts_instant now \<le> clk w \<Longrightarrow> fw_due clk req w"
  by (auto simp: at_deadline_def fw_due_def fw_earliest_deadline_def ts_le_def ts_less_def)

lemma poll_available_later: "poll_available env s w = (s', w') \<Longrightarrow> later w w'"
  by (rule poll_available_keeps [where P = "\<lambda>_ x. later w x"])
    (auto intro: poll_slot_world [where P = "later w"] later_trans dest: bind_later next_later)

lemma harvest_later: "harvest_poll_ready env s w = (s', w') \<Longrightarrow> later w w'"
  unfolding harvest_poll_ready_def
  by (rule harvest_slots_world [where P = "later w"]) (auto intro: later_trans dest: poll_ready_later)

lemma restore_harvested_later:
  assumes "restore_harvested env s w = (r, s', w')"
  shows "later w w'"
proof -
  obtain fe w1 where r: "restore_each env (ss_binds s) (fst (drain_replayable s)) None w = (fe, w1)" by fastforce
  have "later w w1"
    by (rule restore_each_world [where P = "later w", OF _ r]) (auto intro: later_trans dest: restore_later)
  with assms r show ?thesis
    by (auto simp: restore_harvested_def drain_replayable_def Let_def split: prod.splits)
qed

lemma finish_ends:
  "cxl w \<Longrightarrow> fw_ends clk cxl rset req (finish_cancel env st w)"
  "fw_ends clk cxl rset req (finish_err env err st w)"
proof -
  obtain r s w1 where r: "restore_harvested env (fw_slots st) w = (r, s, w1)" by (metis prod_cases3)
  from restore_harvested_later [OF r] have "cxl w \<Longrightarrow> cxl w1" by (simp add: later_iff)
  with r show "cxl w \<Longrightarrow> fw_ends clk cxl rset req (finish_cancel env st w)"
    "fw_ends clk cxl rset req (finish_err env err st w)"
    by (auto simp: finish_cancel_def finish_err_def fw_done_def fw_ends_def fw_end_ok_def split: sum.split)
qed

lemma fw_after_sink_ends:
  assumes "terminal = first_terminal rset (fw_slots st)" "ts_instant now \<le> clk w"
  shows "fw_ends clk cxl rset req (fw_after_sink rset req terminal now st w)"
proof (cases terminal)
  case (Some fin)
  with assms(1) have t: "first_terminal rset (fw_slots st) = Some fin" by simp
  from first_terminal_arm [OF this] have "fw_end_ok clk cxl rset req (fw_slots st) fin w"
    using t by (auto simp: fw_end_ok_def)
  with Some show ?thesis by (simp add: fw_after_sink_def fw_done_def fw_ends_def)
next
  case None
  with assms at_deadline_due [OF _ assms(2), of req] show ?thesis
    by (auto simp: fw_after_sink_def fw_done_def fw_ends_def fw_end_ok_def deadline_end_def split: option.splits)
qed

lemma decide_turn_ends:
  assumes "ts_instant now \<le> clk w"
  shows "fw_ends clk cxl rset req (decide_turn env rset req now st w)"
proof -
  obtain c w1 where c: "env_is_cancelled env w = (c, w1)" by fastforce
  have l: "ts_instant now \<le> clk w1" using cancelled_later [OF c] assms by (simp add: later_iff)
  have x: "c \<Longrightarrow> cxl w1" using cancelled_flag [OF c] by simp
  obtain events s where t: "take_events (fw_slots st) = (events, s)" by fastforce
  let ?fin = "first_terminal rset s"
  have burst: "fw_ends clk cxl rset req
      (st\<lparr>fw_slots := s, fw_pc := FW_Sink events ?fin now, fw_sent := fw_sent st @ [events]\<rparr>, w1)"
    using l by (simp add: fw_ends_def)
  have quiet: "fw_ends clk cxl rset req (fw_after_sink rset req ?fin now (st\<lparr>fw_slots := s\<rparr>) w1)"
    by (rule fw_after_sink_ends) (use l in simp_all)
  show ?thesis
    using finish_ends(1) [OF x, of rset req st] finish_ends(2) burst quiet c t
    by (simp add: decide_turn_def Let_def split: option.split)
qed

lemma on_wake_ends:
  assumes "ts_instant now \<le> clk w"
  shows "fw_ends clk cxl rset req (on_wake env rset req now st w)"
proof -
  obtain s1 w1 where p: "poll_available env (rearm_idle (fw_slots st)) w = (s1, w1)" by fastforce
  obtain s w2 where h: "harvest_poll_ready env s1 w1 = (s, w2)" by fastforce
  have "ts_instant now \<le> clk w2"
    using poll_available_later [OF p] harvest_later [OF h] assms by (simp add: later_iff)
  from decide_turn_ends [OF this] p h show ?thesis by (simp add: on_wake_def fw_poll_once_def)
qed

lemma now_due: "env_now env w = (t, w') \<Longrightarrow> ts_instant t \<le> clk w'"
  using now_bounds by blast

lemma fw_step_ends:
  assumes snk: "\<And>w evs r w'. snk w evs = (r, w') \<Longrightarrow> later w w'" and e: "fw_ends clk cxl rset req c"
  shows "fw_ends clk cxl rset req (fw_step env snk rset req c)"
proof -
  obtain st w where c: "c = (st, w)" by (cases c)
  have woken: "fw_ends clk cxl rset req (let (now, w) = env_now env w in on_wake env rset req now st w)" for st w
    using on_wake_ends now_due by (auto split: prod.split)
  show ?thesis
  proof (cases "fw_pc st")
    case FW_Top
    obtain now w1 where t: "env_now env w = (now, w1)" by fastforce
    obtain x w2 where x: "env_is_cancelled env w1 = (x, w2)" by fastforce
    have "x \<Longrightarrow> cxl w2" using cancelled_flag [OF x] by simp
    with finish_ends(1) [of w2 rset req st] finish_ends(2) c FW_Top t x show ?thesis
      by (simp add: fw_step_def fw_top_def split: option.split)
  next
    case (FW_Select wake)
    obtain r s w1 where q: "collect_turn env (fw_slots st) w = (r, s, w1)" by (metis prod_cases3)
    let ?st = "st\<lparr>fw_slots := s\<rparr>"
    show ?thesis
    proof (cases r)
      case (Ready x)
      obtain now w2 where t: "env_now env w1 = (now, w2)" by fastforce
      have "fw_ends clk cxl rset req (fw_collected env rset req x ?st w1)"
        using finish_ends(2) decide_turn_ends [OF now_due [OF t]] t
        by (simp add: fw_collected_def fw_backoff_deadline_def Let_def split: sum.split turn.split option.split)
      with c FW_Select q Ready show ?thesis by (simp add: fw_step_def fw_select_def)
    next
      case Pending
      obtain x w2 where x: "poll_cancelled env w1 = (x, w2)" by fastforce
      obtain st2 w3 where p: "fw_poll_once env ?st w2 = (st2, w3)" by fastforce
      obtain now w4 where t: "env_now env w3 = (now, w4)" by fastforce
      obtain z w5 where z: "env_sleep_until env w2 wake = (z, w5)" by fastforce
      have park: "fw_ends clk cxl rset req (?st, env_park env w5)" using FW_Select by (simp add: fw_ends_def)
      from decide_turn_ends [OF now_due [OF t]] woken park c FW_Select q Pending x p t z show ?thesis
        by (cases x; cases z) (simp_all add: fw_step_def fw_select_def)
    qed
  next
    case (FW_Backoff t)
    obtain x w1 where x: "poll_cancelled env w = (x, w1)" by fastforce
    obtain z w2 where z: "env_sleep_until env w1 t = (z, w2)" by fastforce
    have park: "fw_ends clk cxl rset req (st, env_park env w2)" using FW_Backoff by (simp add: fw_ends_def)
    from woken park c FW_Backoff x z show ?thesis
      by (cases x; cases z) (simp_all add: fw_step_def fw_sleep_backoff_def)
  next
    case (FW_Sink events terminal now)
    obtain r w1 where r: "snk w events = (r, w1)" by fastforce
    have l: "ts_instant now \<le> clk w1" "ts_instant now \<le> clk (env_park env w1)"
      using e c FW_Sink snk [OF r] park_later [of w1] by (auto simp: fw_ends_def later_iff)
    have park: "fw_ends clk cxl rset req (st, env_park env w1)"
      using e c FW_Sink l(2) by (simp add: fw_ends_def)
    show ?thesis
    proof (cases r)
      case Pending
      with park c FW_Sink r show ?thesis by (simp add: fw_step_def fw_sinking_def)
    next
      case (Ready y)
      with fw_after_sink_ends [of terminal rset st now w1 req] e c FW_Sink r l show ?thesis
        by (cases y) (auto simp: fw_step_def fw_sinking_def fw_done_def fw_ends_def)
    qed
  next
    case (FW_Done r)
    with e c show ?thesis by (simp add: fw_step_def)
  qed
qed

end

context session_clock
begin

theorem fw_run_ends:
  "fw_ends clk cxl rset req c \<Longrightarrow> fw_ends clk cxl rset req (fw_run env snk rset req n c)"
  by (induction n arbitrary: c) (simp_all add: fw_step_ends [OF snk_later])

end

end
