(* ===== verification/Coalesce_End.thy ===== *)
theory Coalesce_End
  imports Coalesce_Contract Follow_End
begin

text \<open>
  Why a coalescing session ends: as a held-follow session does, or because the buffer has no room
  for an event, which then goes back with everything else that was not handed on.
\<close>

definition co_end_ok ::
  "('w \<Rightarrow> int) \<Rightarrow> ('w \<Rightarrow> bool) \<Rightarrow> registration_set \<Rightarrow> live_wait_request \<Rightarrow> 'b slot_set \<Rightarrow> follow_end \<Rightarrow> 'w \<Rightarrow> bool" where
  "co_end_ok clk cxl rset req s fin w \<longleftrightarrow>
     fw_end_ok clk cxl rset req s fin w \<or> (\<exists>rid. fin = overflow_end rid)"

definition co_ends ::
  "('w \<Rightarrow> int) \<Rightarrow> ('w \<Rightarrow> bool) \<Rightarrow> registration_set \<Rightarrow> live_wait_request \<Rightarrow> 'b co_state \<times> 'w \<Rightarrow> bool" where
  "co_ends clk cxl rset req c \<longleftrightarrow>
     (case c of (st, w) \<Rightarrow>
        (case co_pc st of
           CO_Done (Inr fin) \<Rightarrow> co_end_ok clk cxl rset req (co_slots st) fin w
         | CO_Sink evs (After_Final terminal now cancelled) headed \<Rightarrow>
             terminal = first_terminal rset (co_slots st) \<and> ts_instant now \<le> clk w \<and> (cancelled \<longrightarrow> cxl w) \<and>
             (terminal \<noteq> None \<or> cancelled \<or> at_deadline req now)
         | _ \<Rightarrow> True))"

lemma co_ends_waits: "co_waits st \<Longrightarrow> co_ends clk cxl rset req (st, w)"
  by (simp add: co_ends_def co_waits_def split: co_pc.splits)

lemma co_undecided_waits: "co_waits (fst (co_undecided rset req headed st w))"
  by (simp add: co_undecided_def co_wait_def Let_def)

lemma co_undecided_ends: "co_ends clk cxl rset req (co_undecided rset req headed st w)"
  using co_ends_waits [OF co_undecided_waits] by (metis prod.collapse)

lemma restore_overflow_ends: "co_ends clk cxl rset req (restore_then_overflow env unsunk rid st w)"
  by (auto simp: restore_then_overflow_def co_done_def co_ends_def co_end_ok_def Let_def split: prod.split sum.split)

lemma fail_closed_ends: "co_ends clk cxl rset req (fail_closed env err st w)"
  by (auto simp: fail_closed_def co_done_def co_ends_def Let_def split: prod.split sum.split)

lemma co_hand_ends [simp]:
  "co_ends clk cxl rset req (co_hand burst (After_Quiet t) headed st, w)"
  "co_ends clk cxl rset req (co_hand burst After_Urgent headed st, w)"
  by (simp_all add: co_hand_def co_ends_def)

lemma emit_quiet_ends: "co_ends clk cxl rset req (emit_quiet rset req now headed st w)"
  by (simp add: emit_quiet_def co_undecided_ends)

lemma apply_turn_ends: "co_ends clk cxl rset req (apply_turn env rset req policy now evs headed st w)"
  by (auto simp: apply_turn_def Let_def emit_quiet_ends co_undecided_ends restore_overflow_ends split: sum.split)

context clock_laws
begin

lemma co_finish_ends:
  assumes "terminal = first_terminal rset (co_slots st)" "ts_instant now \<le> clk w" "cancelled \<longrightarrow> cxl w"
    and "terminal \<noteq> None \<or> cancelled \<or> at_deadline req now"
  shows "co_ends clk cxl rset req (co_finish rset req terminal now cancelled st w)"
proof (cases terminal)
  case (Some fin)
  with assms(1) have t: "first_terminal rset (co_slots st) = Some fin" by simp
  from first_terminal_arm [OF this] have "fw_end_ok clk cxl rset req (co_slots st) fin w"
    using t by (auto simp: fw_end_ok_def)
  with Some show ?thesis by (simp add: co_finish_def co_done_def co_ends_def co_end_ok_def)
next
  case None
  with assms at_deadline_due [OF _ assms(2), of req] show ?thesis
    by (auto simp: co_finish_def co_done_def co_ends_def co_end_ok_def fw_end_ok_def deadline_end_def split: option.splits)
qed

lemma final_flush_ends:
  assumes "terminal = first_terminal rset (co_slots st)" "ts_instant now \<le> clk w" "cancelled \<longrightarrow> cxl w"
    and "terminal \<noteq> None \<or> cancelled \<or> at_deadline req now"
  shows "co_ends clk cxl rset req (final_flush env rset req now evs terminal cancelled headed st w)"
proof (cases "push_all rset evs (co_pending st)")
  case (Inl a)
  then show ?thesis by (cases a) (simp add: final_flush_def restore_overflow_ends)
next
  case (Inr p)
  have "co_ends clk cxl rset req (co_finish rset req terminal now cancelled (st\<lparr>co_pending := p\<rparr>) w)"
    by (rule co_finish_ends) (use assms in simp_all)
  with assms Inr show ?thesis by (simp add: final_flush_def co_hand_def co_ends_def)
qed

lemma decide_coalesce_ends:
  assumes "ts_instant now \<le> clk w" "cancel_arm \<longrightarrow> cxl w"
  shows "co_ends clk cxl rset req (decide_coalesce env rset req policy now cancel_arm headed st w)"
proof -
  obtain c w1 where c: "(if cancel_arm then (True, w) else env_is_cancelled env w) = (c, w1)" by fastforce
  have w1: "ts_instant now \<le> clk w1 \<and> (c \<longrightarrow> cxl w1)"
  proof (cases cancel_arm)
    case True
    with c assms show ?thesis by auto
  next
    case False
    with c have "env_is_cancelled env w = (c, w1)" by simp
    from cancelled_later [OF this] cancelled_flag [OF this] assms show ?thesis by (auto simp: later_iff)
  qed
  obtain evs s where t: "take_events (co_slots st) = (evs, s)" by fastforce
  let ?f = "final_flush env rset req now evs (first_terminal rset s) c headed (st\<lparr>co_slots := s\<rparr>) w1"
  have "first_terminal rset s \<noteq> None \<or> c \<or> at_deadline req now \<Longrightarrow> co_ends clk cxl rset req ?f"
    by (rule final_flush_ends) (use w1 in simp_all)
  with c t show ?thesis
    by (cases cancel_arm) (simp_all add: decide_coalesce_def Let_def fail_closed_ends apply_turn_ends split: option.split)
qed

lemma co_poll_once_later: "co_poll_once env st w = (st', w') \<Longrightarrow> later w w'"
  by (auto simp: co_poll_once_def split: prod.splits intro: later_trans dest: poll_available_later harvest_later)

lemma co_wake_ends: "co_ends clk cxl rset req (co_wake env rset req policy st w)"
proof -
  obtain st1 w1 where p: "co_poll_once env (st\<lparr>co_slots := rearm_idle (co_slots st)\<rparr>) w = (st1, w1)" by fastforce
  obtain now w2 where t: "env_now env w1 = (now, w2)" by fastforce
  from decide_coalesce_ends [OF now_due [OF t], of False] p t show ?thesis by (simp add: co_wake_def)
qed

lemma co_top_ends: "co_ends clk cxl rset req (co_top env rset req policy st w)"
proof -
  obtain now0 w0 where t0: "env_now env w = (now0, w0)" by fastforce
  obtain now w1 where t: "env_now env w0 = (now, w1)" by fastforce
  obtain c w2 where c: "env_is_cancelled env w1 = (c, w2)" by fastforce
  obtain st1 w3 where p: "co_poll_once env st w2 = (st1, w3)" by fastforce
  obtain x w4 where x: "env_is_cancelled env w3 = (x, w4)" by fastforce
  have "ts_instant now \<le> clk w4" "x \<longrightarrow> cxl w4"
    using now_due [OF t] cancelled_later [OF c] co_poll_once_later [OF p] cancelled_later [OF x] cancelled_flag [OF x]
    by (auto simp: later_iff)
  from decide_coalesce_ends [OF this] t0 t c p x show ?thesis
    by (simp add: co_top_def co_wait_def co_ends_waits fail_closed_ends split: option.split)
qed

lemma co_select_ends:
  assumes pc: "co_pc st = CO_Select wake quiet_at"
  shows "co_ends clk cxl rset req (co_select env rset req policy wake quiet_at st w)"
proof -
  obtain r s w1 where q: "collect_turn env (co_slots st) w = (r, s, w1)" by (metis prod_cases3)
  let ?st = "st\<lparr>co_slots := s\<rparr>"
  have park: "co_ends clk cxl rset req (?st, v)" for v
    by (rule co_ends_waits) (simp add: co_waits_def pc)
  show ?thesis
  proof (cases r)
    case (Ready x)
    obtain now w2 where t: "env_now env w1 = (now, w2)" by fastforce
    have "co_ends clk cxl rset req (co_collected env rset req policy x ?st w1)"
      using decide_coalesce_ends [OF now_due [OF t], of False] t
      by (auto simp: co_collected_def Let_def case_prod_beta co_ends_waits fail_closed_ends split: sum.split turn.split option.split)
    with q Ready show ?thesis by (simp add: co_select_def)
  next
    case Pending
    obtain x w2 where x: "poll_cancelled env w1 = (x, w2)" by fastforce
    obtain st2 w3 where p: "co_poll_once env ?st w2 = (st2, w3)" by fastforce
    obtain now w4 where t: "env_now env w3 = (now, w4)" by fastforce
    have "x = Ready u \<Longrightarrow> cxl w2" for u using x cancelled_flag by (auto simp: poll_cancelled_def split: prod.splits if_splits)
    then have "x = Ready u \<Longrightarrow> cxl w4" for u
      using co_poll_once_later [OF p] now_later [OF t] by (auto simp: later_iff)
    with decide_coalesce_ends [OF now_due [OF t], of True] q Pending x p t co_wake_ends park show ?thesis
      by (cases x) (auto simp: co_select_def Let_def split: prod.split poll.split)
  qed
qed

lemma co_step_ends:
  assumes snk: "\<And>w evs r w'. snk w evs = (r, w') \<Longrightarrow> later w w'" and e: "co_ends clk cxl rset req c"
  shows "co_ends clk cxl rset req (co_step env snk rset req policy c)"
proof -
  obtain st w where c: "c = (st, w)" by (cases c)
  show ?thesis
  proof (cases "co_pc st")
    case (CO_Sink evs after headed)
    obtain r w1 where r: "snk w evs = (r, w1)" by fastforce
    have l: "clk w \<le> clk w1" "cxl w \<Longrightarrow> cxl w1" "clk w1 \<le> clk (env_park env w1)" "cxl w1 \<Longrightarrow> cxl (env_park env w1)"
      using snk [OF r] park_later [of w1] by (auto simp: later_iff)
    have park: "co_ends clk cxl rset req (st, env_park env w1)"
      using e l unfolding c co_ends_def by (simp add: CO_Sink split: co_after.splits)
    have fin: "co_ends clk cxl rset req (co_finish rset req terminal now cancelled st w1)"
      if "after = After_Final terminal now cancelled" for terminal now cancelled
      by (rule co_finish_ends) (use e that l in \<open>auto simp: c co_ends_def CO_Sink\<close>)
    show ?thesis
    proof (cases r)
      case Pending
      with park c CO_Sink r show ?thesis by (simp add: co_step_def co_sinking_def)
    next
      case (Ready y)
      show ?thesis
      proof (cases y)
        case (Inl err)
        with c CO_Sink r Ready show ?thesis by (simp add: co_step_def co_sinking_def co_done_def co_ends_def)
      next
        case (Inr u)
        with c CO_Sink r Ready fin show ?thesis
          by (simp add: co_step_def co_sinking_def co_undecided_ends split: co_after.split)
      qed
    qed
  qed (use c e co_top_ends co_select_ends co_wake_ends in
      \<open>auto simp: co_step_def co_sleep_backoff_def co_ends_waits co_waits_def split: prod.split poll.split\<close>)
qed

end

context session_clock
begin

theorem co_run_ends:
  "co_ends clk cxl rset req c \<Longrightarrow> co_ends clk cxl rset req (co_run env snk rset req policy n c)"
  by (induction n arbitrary: c) (simp_all add: co_step_ends [OF snk_later])

end

end
