(* ===== verification/Testkit_Sessions.thy ===== *)
theory Testkit_Sessions
  imports Testkit_Observers Follow_Run Coalesce_End
begin

text \<open>
  Held sessions on the test kit: its observers mint and keep events under the registration they
  are bound for, and a sink that accepts every burst touches neither the observer nor the clock.
\<close>

definition accept_sink :: "'w \<Rightarrow> wait_event list \<Rightarrow> (error + unit) poll \<times> 'w" where
  "accept_sink w evs = (Ready (Inr ()), w)"

definition refuse_sink :: "error \<Rightarrow> 'w \<Rightarrow> wait_event list \<Rightarrow> (error + unit) poll \<times> 'w" where
  "refuse_sink err w evs = (Ready (Inl err), w)"

lemma eo_take_tag:
  assumes "eo_take w b = (ev, w')" "eo_queue w (tb_registration_id b) = []"
  shows "ev_registration_id ev = tb_registration_id b"
proof -
  have "eo_take w b = eo_mint w b"
    using assms(2) by (auto simp: eo_take_def eo_queue_def Let_def split: option.splits list.splits)
  with assms(1) show ?thesis
    by (cases "tb_registration_id b") (auto simp: eo_mint_def Let_def fixture_wait_event_def)
qed

interpretation scripted_tagged: observer_tagged "scripted_env cal auto" so_queue for cal auto
proof unfold_locales
  fix w b e w'
  assume "so_queue w (env_registration_id (scripted_env cal auto) b) = []"
  moreover assume "env_next (scripted_env cal auto) w b = (Ready (Inr (Obs_Event e)), w')"
  ultimately show "ev_registration_id e = env_registration_id (scripted_env cal auto) b"
    by (auto simp: scripted_env_def so_next_event so_poll_ready_def dest: so_take_due_event)
next
  fix w b e w'
  assume "so_queue w (env_registration_id (scripted_env cal auto) b) = []"
  moreover assume "env_poll_ready (scripted_env cal auto) w b = (Some (Obs_Event e), w')"
  ultimately show "ev_registration_id e = env_registration_id (scripted_env cal auto) b"
    by (auto simp: scripted_env_def so_poll_ready_def dest: so_take_due_event)
qed

interpretation endless_tagged: observer_tagged "endless_env cal auto" eo_queue for cal auto
proof unfold_locales
  fix w b e w'
  assume q: "eo_queue w (env_registration_id (endless_env cal auto) b) = []"
  {
    assume "env_next (endless_env cal auto) w b = (Ready (Inr (Obs_Event e)), w')"
    then have "eo_take w b = (e, w')" by (auto simp: endless_env_def eo_next_def split: prod.splits)
    from eo_take_tag [OF this] q show "ev_registration_id e = env_registration_id (endless_env cal auto) b"
      by (simp add: endless_env_def)
  next
    assume "env_poll_ready (endless_env cal auto) w b = (Some (Obs_Event e), w')"
    then have "eo_take w b = (e, w')" by (auto simp: endless_env_def eo_poll_ready_def split: prod.splits)
    from eo_take_tag [OF this] q show "ev_registration_id e = env_registration_id (endless_env cal auto) b"
      by (simp add: endless_env_def)
  }
qed

interpretation scripted_session: held_session "scripted_env cal auto" so_queue accept_sink for cal auto
  by unfold_locales (simp add: accept_sink_def)

interpretation endless_session: held_session "endless_env cal auto" eo_queue accept_sink for cal auto
  by unfold_locales (simp add: accept_sink_def)

interpretation scripted_refused: held_session "scripted_env cal auto" so_queue "refuse_sink err" for cal auto err
  by unfold_locales (simp add: refuse_sink_def)

interpretation scripted_timed: session_clock "scripted_env cal True" tk_clk tk_cancel tk_later accept_sink for cal
  by unfold_locales (simp add: accept_sink_def scripted_clock.later_iff)

interpretation endless_timed: session_clock "endless_env cal True" tk_clk tk_cancel tk_later accept_sink for cal
  by unfold_locales (simp add: accept_sink_def endless_clock.later_iff)

text \<open>The queues of a scripted observer built from a script hold events under their own registration.\<close>

lemma so_group_tagged:
  "\<forall>(rid, q) \<in> set m. \<forall>e \<in> set q. id_str (ev_registration_id e) = rid \<Longrightarrow>
   \<forall>(rid, q) \<in> set (so_group evs m). \<forall>e \<in> set q. id_str (ev_registration_id e) = rid"
proof (induction evs m rule: so_group.induct)
  case (2 ev evs m)
  let ?rid = "id_str (ev_registration_id ev)"
  let ?q = "case bt_get m ?rid of Some q \<Rightarrow> q | None \<Rightarrow> []"
  have sub: "set (bt_insert k v m) \<subseteq> insert (k, v) (set m)" for k and v :: "wait_event list"
    by (induction k v m rule: bt_insert.induct) auto
  have "\<forall>e \<in> set ?q. id_str (ev_registration_id e) = ?rid"
  proof (cases "bt_get m ?rid")
    case (Some q)
    then have "(?rid, q) \<in> set m" unfolding bt_get_def by (rule map_of_SomeD)
    with 2(2) Some show ?thesis by fastforce
  qed simp
  then have "case (?rid, ?q @ [ev]) of (rid, q) \<Rightarrow> \<forall>e \<in> set q. id_str (ev_registration_id e) = rid" by simp
  with sub [of ?rid "?q @ [ev]"] 2(2)
  have "\<forall>(rid, q) \<in> set (bt_insert ?rid (?q @ [ev]) m). \<forall>e \<in> set q. id_str (ev_registration_id e) = rid"
    by (metis (no_types, lifting) insert_iff subsetD)
  then show ?case unfolding so_group.simps Let_def by (rule 2(1) [OF refl refl])
qed simp

lemma scripted_new_queue: "set (so_queue (scripted_new sp now) r) =
   (case map_of (so_group (sp_events sp) []) (id_str r) of Some q \<Rightarrow> set q | None \<Rightarrow> {})"
proof -
  have "map_of (map (\<lambda>(rid, evs). (rid, so_sort evs)) m) rid = map_option so_sort (map_of m rid)" for m rid
    by (induction m) auto
  then have "bt_get (so_events (scripted_new sp now)) (id_str r) = map_option so_sort (map_of (so_group (sp_events sp) []) (id_str r))"
    by (simp only: scripted_new_def bt_get_def scripted_world.simps)
  then show ?thesis by (cases "map_of (so_group (sp_events sp) []) (id_str r)") (simp_all add: so_queue_def so_sort_def)
qed

lemma scripted_new_tagged: "tagged (so_queue (scripted_new sp now))"
  unfolding tagged_def
proof (intro allI ballI)
  fix r e
  assume "e \<in> set (so_queue (scripted_new sp now) r)"
  then obtain q where "map_of (so_group (sp_events sp) []) (id_str r) = Some q" "e \<in> set q"
    by (auto simp: scripted_new_queue split: option.splits)
  with so_group_tagged [of "[]" "sp_events sp"] map_of_SomeD
  have "id_str (ev_registration_id e) = id_str r" by fastforce
  then show "ev_registration_id e = r" by (cases r; cases "ev_registration_id e") simp
qed

end
