(* ===== verification/Gregorian.thy ===== *)
theory Gregorian
  imports Timestamps
begin

text \<open>
  A proleptic Gregorian calendar, an instance of the parameter that stands for the \<^verbatim>\<open>time\<close> crate.
  The examples compute with it; no theorem depends on it.
\<close>

definition greg_of_days :: "int \<Rightarrow> int \<times> nat \<times> nat" where
  "greg_of_days days =
     (let z = days + 719468;
          era = z div 146097;
          doe = z mod 146097;
          yoe = (doe - doe div 1460 + doe div 36524 - doe div 146096) div 365;
          doy = doe - (365 * yoe + yoe div 4 - yoe div 100);
          mp = (5 * doy + 2) div 153;
          d = doy - (153 * mp + 2) div 5 + 1;
          m = (if mp < 10 then mp + 3 else mp - 9);
          y = yoe + era * 400 + (if m \<le> 2 then 1 else 0)
      in (y, nat m, nat d))"

definition greg_to_days :: "int \<Rightarrow> nat \<Rightarrow> nat \<Rightarrow> int option" where
  "greg_to_days year month day =
     (let m = int month;
          y = (if m \<le> 2 then year - 1 else year);
          era = y div 400;
          yoe = y mod 400;
          mp = (m + 9) mod 12;
          doy = (153 * mp + 2) div 5 + int day - 1;
          doe = yoe * 365 + yoe div 4 - yoe div 100 + doy;
          days = era * 146097 + doe - 719468
      in if greg_of_days days = (year, month, day) then Some days else None)"

definition gregorian :: calendar where
  "gregorian = \<lparr>cal_of_days = greg_of_days, cal_to_days = greg_to_days,
     cal_min = -377705116800000000000, cal_max = 253402300799999999999\<rparr>"

lemma gregorian_fields [simp]:
  "cal_min gregorian = -377705116800000000000" "cal_max gregorian = 253402300799999999999"
  by (simp_all add: gregorian_def)

end
