(* ===== verification/Examples.thy ===== *)
theory Examples
  imports Testkit_Sessions Gregorian
begin

text \<open>
  Concrete inputs for the examples of the properties: two required registrations, a script with
  one event for each, and the logical clock at 16:01.
\<close>

definition ts_1602 :: timestamp where "ts_1602 = ts_at ''2026-08-15T16:02:00Z'' 1786809720"

definition ex_set :: registration_set where
  "ex_set = fixture_registration_set
     [fixture_registration ''reg:a'' ''m'' ''s1'', fixture_registration ''reg:b'' ''m'' ''s2'']"

definition ex_event_a :: wait_event where "ex_event_a = fixture_wait_event ''reg:a'' ''m'' ''evt:a'' ts_1602"
definition ex_event_b :: wait_event where "ex_event_b = fixture_wait_event ''reg:b'' ''m'' ''evt:b'' ts_1602"

definition ex_world :: scripted_world where
  "ex_world = scripted_new \<lparr>sp_buffer_limit = 8, sp_events = [ex_event_b, ex_event_a]\<rparr> ts_1601"

abbreviation ex_env :: "(scripted_world, tracked_bind) env" where
  "ex_env \<equiv> scripted_env gregorian True"

definition ex_poll_request :: poll_cycle_request where
  "ex_poll_request = fixture_poll_cycle_request ex_set"

text \<open>The same registrations with leases that have run out by the time the events are due.\<close>

definition ex_lapsed_set :: registration_set where
  "ex_lapsed_set = ex_set\<lparr>rs_registrations := map (reg_lease_expires_at_update (\<lambda>_. ts_1601)) (rs_registrations ex_set)\<rparr>"

text \<open>A held session over the same registrations, the first of them urgent.\<close>

definition ex_policy :: coalesce_policy where
  "ex_policy = coalesce_policy_new (duration_from_millis 5000)"

definition ex_urgent_set :: registration_set where
  "ex_urgent_set = fixture_registration_set
     [with_priority (fixture_registration ''reg:a'' ''m'' ''s1'') 100, fixture_registration ''reg:b'' ''m'' ''s2'']"

text \<open>A turn of that session that has harvested both events.\<close>

definition ex_turn :: "tracked_bind co_state" where
  "ex_turn = (co_init ex_urgent_set)\<lparr>co_slots := (ss_new (rs_registrations ex_urgent_set))
     \<lparr>ss_harvested := [Some (Obs_Event ex_event_a), Some (Obs_Event ex_event_b)]\<rparr>\<rparr>"

end
