(* ===== verification/Rfc3339.thy ===== *)
theory Rfc3339
  imports Wire_Types "HOL-Library.Monad_Syntax"
begin

text \<open>
  The RFC3339 profile (\<open>parse_instant\<close> of \<^verbatim>\<open>crates/waitprims-core/src/rfc3339.rs\<close>). Text is the
  list of its UTF-8 bytes. Calendar dates and the range of instants are those of the \<^verbatim>\<open>time\<close>
  crate, the parameter \<open>calendar\<close>.
\<close>

section \<open>Bytes\<close>

definition byte :: "char \<Rightarrow> nat" where
  "byte c = of_char c"

definition is_digit :: "char \<Rightarrow> bool" where
  "is_digit c \<longleftrightarrow> 48 \<le> byte c \<and> byte c \<le> 57"

definition slice :: "nat \<Rightarrow> nat \<Rightarrow> string \<Rightarrow> string" where
  "slice i j xs = take (j - i) (drop i xs)"

definition digits_value :: "string \<Rightarrow> nat" where
  "digits_value ds = foldl (\<lambda>v b. v * 10 + (byte b - 48)) 0 ds"

definition parse_n_digits :: "string \<Rightarrow> nat \<Rightarrow> nat option" where
  "parse_n_digits ds n =
     (if length ds \<noteq> n \<or> \<not> list_all is_digit ds then None else Some (digits_value ds))"

definition expect :: "string \<Rightarrow> nat \<Rightarrow> char \<Rightarrow> unit option" where
  "expect bytes idx want = (if idx < length bytes \<and> bytes ! idx = want then Some () else None)"

definition ensure :: "bool \<Rightarrow> unit option" where
  "ensure b = (if b then Some () else None)"

text \<open>
  \<open>str::trim\<close> removes Unicode white space: the ASCII controls and space, then the UTF-8 encodings
  of U+0085, U+00A0, U+1680, U+2000 to U+200A, U+2028, U+2029, U+202F, U+205F and U+3000. It
  changes the text when one of them stands at either end.
\<close>

definition white_space :: "string list" where
  "white_space =
     map (map char_of)
       ([[9], [10], [11], [12], [13], [32], [194, 133], [194, 160], [225, 154, 128]] @
        map (\<lambda>n. [226, 128, n]) ([128, 129, 130, 131, 132, 133, 134, 135, 136, 137, 138] @ [168, 169, 175]) @
        [[226, 129, 159], [227, 128, 128 :: nat]])"

definition trim_changes :: "string \<Rightarrow> bool" where
  "trim_changes s \<longleftrightarrow> list_ex (\<lambda>ws. take (length ws) s = ws \<or> drop (length s - length ws) s = ws) white_space"

section \<open>The parser\<close>

text \<open>
  \<open>to_offset\<close> panics when the instant leaves the range of the \<^verbatim>\<open>time\<close> crate, and nothing else in
  the parser does.
\<close>

datatype parsed = P_Err | P_Panic | P_Ok int

text \<open>The fraction: its nanoseconds, padded and truncated to six digits, and where it ends.\<close>

definition fraction_digits :: "string \<Rightarrow> nat \<Rightarrow> string" where
  "fraction_digits bytes start = takeWhile is_digit (drop start bytes)"

definition fraction_nanos :: "string \<Rightarrow> nat" where
  "fraction_nanos ds = digits_value (take 6 (ds @ replicate (6 - length ds) (CHR ''0''))) * 1000"

definition parse_fraction :: "string \<Rightarrow> nat \<Rightarrow> (nat \<times> nat) option" where
  "parse_fraction bytes idx =
     (if idx < length bytes \<and> bytes ! idx = CHR ''.''
      then let start = idx + 1;
               ds = fraction_digits bytes start
           in if ds = [] then None
              else Some (fraction_nanos ds, start + length ds)
      else Some (0, idx))"

text \<open>
  The zone, in minutes east of UTC. \<open>UtcOffset::from_hms\<close> accepts every value that passes the checks.
\<close>

definition parse_zone :: "string \<Rightarrow> nat \<Rightarrow> int option" where
  "parse_zone bytes idx =
     (if length bytes \<le> idx then None
      else if bytes ! idx = CHR ''Z'' \<or> bytes ! idx = CHR ''z''
      then (if idx + 1 \<noteq> length bytes then None else Some 0)
      else if bytes ! idx = CHR ''+'' \<or> bytes ! idx = CHR ''-''
      then let sign = (if bytes ! idx = CHR ''+'' then 1 else - 1);
               idx = idx + 1
           in if idx + 5 \<noteq> length bytes then None
              else do {
                off_h \<leftarrow> parse_n_digits (slice idx (idx + 2) bytes) 2;
                _ \<leftarrow> ensure (bytes ! (idx + 2) = CHR '':'');
                off_m \<leftarrow> parse_n_digits (slice (idx + 3) (idx + 5) bytes) 2;
                _ \<leftarrow> ensure (off_h \<le> 23 \<and> off_m \<le> 59);
                Some (sign * (int off_h * 60 + int off_m))
              }
      else None)"

text \<open>Date, time of day in seconds, nanoseconds and zone, as far as the text alone decides.\<close>

definition parse_fields :: "string \<Rightarrow> (nat \<times> nat \<times> nat \<times> nat \<times> nat \<times> int) option" where
  "parse_fields bytes = do {
     year \<leftarrow> parse_n_digits (slice 0 4 bytes) 4;
     _ \<leftarrow> expect bytes 4 (CHR ''-'');
     month \<leftarrow> parse_n_digits (slice 5 7 bytes) 2;
     _ \<leftarrow> expect bytes 7 (CHR ''-'');
     day \<leftarrow> parse_n_digits (slice 8 10 bytes) 2;
     _ \<leftarrow> ensure (bytes ! 10 = CHR ''T'' \<or> bytes ! 10 = CHR ''t'');
     hour \<leftarrow> parse_n_digits (slice 11 13 bytes) 2;
     _ \<leftarrow> expect bytes 13 (CHR '':'');
     minute \<leftarrow> parse_n_digits (slice 14 16 bytes) 2;
     _ \<leftarrow> expect bytes 16 (CHR '':'');
     second \<leftarrow> parse_n_digits (slice 17 19 bytes) 2;
     _ \<leftarrow> ensure (hour \<le> 23 \<and> minute \<le> 59);
     _ \<leftarrow> ensure (second < 60);
     (nanos, idx) \<leftarrow> parse_fraction bytes 19;
     zone \<leftarrow> parse_zone bytes idx;
     Some (year, month, day, hour * 3600 + minute * 60 + second, nanos, zone)
   }"

text \<open>The instant of a local date and time; \<open>Month::try_from\<close> and \<open>Date::from_calendar_date\<close> may refuse.\<close>

definition instant_of :: "calendar \<Rightarrow> nat \<times> nat \<times> nat \<times> nat \<times> nat \<times> int \<Rightarrow> parsed" where
  "instant_of cal f =
     (case f of (year, month, day, secs, nanos, zone) \<Rightarrow>
        (if month < 1 \<or> 12 < month then P_Err
         else case cal_to_days cal (int year) month day of
                None \<Rightarrow> P_Err
              | Some days \<Rightarrow>
                  (let utc = days * nanos_per_day + (int secs - zone * 60) * nanos_per_sec + int nanos
                   in if zone = 0 \<or> cal_min cal \<le> utc \<and> utc \<le> cal_max cal then P_Ok utc else P_Panic)))"

definition parse_instant :: "calendar \<Rightarrow> string \<Rightarrow> parsed" where
  "parse_instant cal text =
     (if text = [] \<or> trim_changes text then P_Err
      else if length text < 20 then P_Err
      else case parse_fields text of
             None \<Rightarrow> P_Err
           | Some f \<Rightarrow> instant_of cal f)"

text \<open>\<open>Timestamp::parse\<close> and \<open>compare\<close>; \<open>None\<close> is a panic.\<close>

definition ts_parse :: "calendar \<Rightarrow> string \<Rightarrow> (validation_error + timestamp) option" where
  "ts_parse cal text =
     (case parse_instant cal text of
        P_Err \<Rightarrow> Some (Inl (ve_normative ''/timestamp'' ''rfc3339_profile'' UnparseableTimestamp))
      | P_Ok i \<Rightarrow> Some (Inr \<lparr>ts_raw = text, ts_instant = i\<rparr>)
      | P_Panic \<Rightarrow> None)"

definition rfc3339_compare :: "calendar \<Rightarrow> string \<Rightarrow> string \<Rightarrow> (validation_error + int) option" where
  "rfc3339_compare cal left right =
     (case ts_parse cal left of
        None \<Rightarrow> None
      | Some (Inl err) \<Rightarrow> Some (Inl err)
      | Some (Inr l) \<Rightarrow>
          (case ts_parse cal right of
             None \<Rightarrow> None
           | Some (Inl err) \<Rightarrow> Some (Inl err)
           | Some (Inr r) \<Rightarrow> Some (Inr (ts_compare l r))))"

end
