(* ===== verification/Json.thy ===== *)
theory Json
  imports Rfc3339
begin

text \<open>
  JSON values as \<^verbatim>\<open>serde_json\<close> holds them: objects are ordered maps without duplicate names,
  integers and binary64 floats are kept apart. Strings are the lists of their UTF-8 bytes.
  The binary64 arithmetic of Rust's standard library (\<open>f64::from_str\<close> and the casts between
  integers and \<open>f64\<close>) is written out on exact fractions.
\<close>

section \<open>Binary64\<close>

text \<open>\<open>F_Finite neg m e\<close> is \<open>m * 2 ^ e\<close>, negated when \<open>neg\<close>, with \<open>m < 2 ^ 53\<close>.\<close>

datatype f64 = F_Finite bool nat int | F_Infinite bool

fun bit_length :: "nat \<Rightarrow> nat" where
  "bit_length n = (if n = 0 then 0 else Suc (bit_length (n div 2)))"

declare bit_length.simps [simp del]

text \<open>Division rounded to nearest, ties to even.\<close>

definition div_even :: "nat \<Rightarrow> nat \<Rightarrow> nat" where
  "div_even a b =
     (let q = a div b; r = a mod b
      in if b < 2 * r \<or> b = 2 * r \<and> odd q then q + 1 else q)"

text \<open>The binary64 nearest to \<open>num / den\<close>, infinite when it is too large.\<close>

definition f_round :: "bool \<Rightarrow> nat \<Rightarrow> nat \<Rightarrow> f64" where
  "f_round neg num den =
     (if num = 0 then F_Finite neg 0 (- 1074)
      else
        let e0 = int (bit_length num) - int (bit_length den);
            lg = (if num * 2 ^ nat (- e0) < den * 2 ^ nat e0 then e0 - 1 else e0);
            e = max (lg - 52) (- 1074);
            m = div_even (num * 2 ^ nat (- e)) (den * 2 ^ nat e);
            (m, e) = (if m = 2 ^ 53 then (2 ^ 52, e + 1) else (m, e))
        in if 971 < e then F_Infinite neg else F_Finite neg m e)"

definition f_is_finite :: "f64 \<Rightarrow> bool" where
  "f_is_finite f = (case f of F_Finite _ _ _ \<Rightarrow> True | F_Infinite _ \<Rightarrow> False)"

definition f_is_zero :: "f64 \<Rightarrow> bool" where
  "f_is_zero f = (case f of F_Finite _ m _ \<Rightarrow> m = 0 | F_Infinite _ \<Rightarrow> False)"

text \<open>\<open>i as f64\<close>, and \<open>f as i128\<close> and the like, which truncate and then saturate at the bounds.\<close>

definition f_of_int :: "int \<Rightarrow> f64" where
  "f_of_int i = f_round (i < 0) (nat \<bar>i\<bar>) 1"

definition f_as_int :: "int \<Rightarrow> int \<Rightarrow> f64 \<Rightarrow> int" where
  "f_as_int lo hi f =
     (case f of
        F_Finite neg m e \<Rightarrow>
          (let t = (if 0 \<le> e then int m * 2 ^ nat e else int m div 2 ^ nat (- e))
           in max lo (min hi (if neg then - t else t)))
      | F_Infinite neg \<Rightarrow> if neg then lo else hi)"

definition i64_min :: int where "i64_min = - (2 ^ 63)"
definition i64_max :: int where "i64_max = 2 ^ 63 - 1"
definition i128_min :: int where "i128_min = - (2 ^ 127)"
definition i128_max :: int where "i128_max = 2 ^ 127 - 1"

section \<open>Values\<close>

datatype json_number = N_Pos u64 | N_Neg int | N_Float f64

datatype json =
    JNull
  | JBool bool
  | JNumber json_number
  | JString string
  | JArray "json list"
  | JObject "(string \<times> json) list"

text \<open>\<open>Number::from(i64)\<close> and the readings of a number.\<close>

definition n_from_i64 :: "int \<Rightarrow> json_number" where
  "n_from_i64 i = (if i < 0 then N_Neg i else N_Pos (word_of_int i))"

definition n_as_i64 :: "json_number \<Rightarrow> int option" where
  "n_as_i64 n =
     (case n of N_Pos u \<Rightarrow> if uint u \<le> i64_max then Some (uint u) else None
      | N_Neg i \<Rightarrow> Some i | N_Float _ \<Rightarrow> None)"

definition n_as_u64 :: "json_number \<Rightarrow> u64 option" where
  "n_as_u64 n = (case n of N_Pos u \<Rightarrow> Some u | _ \<Rightarrow> None)"

definition n_as_f64 :: "json_number \<Rightarrow> f64" where
  "n_as_f64 n = (case n of N_Pos u \<Rightarrow> f_of_int (uint u) | N_Neg i \<Rightarrow> f_of_int i | N_Float f \<Rightarrow> f)"

text \<open>\<open>Value::get\<close> with a name, \<open>as_str\<close>, \<open>as_array\<close>, \<open>as_object\<close>, \<open>as_bool\<close>, \<open>as_u64\<close>.\<close>

definition j_get :: "string \<Rightarrow> json \<Rightarrow> json option" where
  "j_get name v = (case v of JObject m \<Rightarrow> bt_get m name | _ \<Rightarrow> None)"

definition j_str :: "json \<Rightarrow> string option" where
  "j_str v = (case v of JString s \<Rightarrow> Some s | _ \<Rightarrow> None)"

definition j_array :: "json \<Rightarrow> json list option" where
  "j_array v = (case v of JArray vs \<Rightarrow> Some vs | _ \<Rightarrow> None)"

definition j_object :: "json \<Rightarrow> (string, json) btree option" where
  "j_object v = (case v of JObject m \<Rightarrow> Some m | _ \<Rightarrow> None)"

definition j_bool :: "json \<Rightarrow> bool option" where
  "j_bool v = (case v of JBool b \<Rightarrow> Some b | _ \<Rightarrow> None)"

definition j_u64 :: "json \<Rightarrow> u64 option" where
  "j_u64 v = (case v of JNumber n \<Rightarrow> n_as_u64 n | _ \<Rightarrow> None)"

text \<open>\<open>document.get(name).and_then(f)\<close>.\<close>

abbreviation j_get_as :: "(json \<Rightarrow> 'a option) \<Rightarrow> string \<Rightarrow> json \<Rightarrow> 'a option" where
  "j_get_as f name v \<equiv> Option.bind (j_get name v) f"

text \<open>The values the strict parser returns: every object sorted by name, so without duplicates.\<close>

fun json_wf :: "json \<Rightarrow> bool" where
  "json_wf (JArray vs) = list_all json_wf vs"
| "json_wf (JObject m) = (bt_sorted m \<and> list_all (\<lambda>(_, v). json_wf v) m)"
| "json_wf _ = True"

end
