(* ===== verification/Wire_Json.thy ===== *)
theory Wire_Json
  imports Json
begin

text \<open>
  The JSON of the messages, as \<^verbatim>\<open>serde\<close> serializes the types of
  \<^verbatim>\<open>crates/waitprims-core/src/types.rs\<close>: \<open>message_type\<close> is the tag, newtypes are
  transparent, enumerations are their wire names, an absent option is no member. The members
  stand in an object in the order of their names.
\<close>

definition object :: "(string \<times> json) list \<Rightarrow> json" where
  "object ms = JObject (bt_collect ms)"

definition optional :: "string \<Rightarrow> json option \<Rightarrow> (string \<times> json) list" where
  "optional name v = (case v of None \<Rightarrow> [] | Some j \<Rightarrow> [(name, j)])"

definition id_json :: "id_token \<Rightarrow> json" where "id_json i = JString (id_str i)"
definition opaque_json :: "opaque_ref \<Rightarrow> json" where "opaque_json r = JString (opaque_str r)"
definition ts_json :: "timestamp \<Rightarrow> json" where "ts_json t = JString (ts_raw t)"
definition u64_json :: "u64 \<Rightarrow> json" where "u64_json n = JNumber (N_Pos n)"

fun arm_status_str :: "arm_status \<Rightarrow> string" where
  "arm_status_str AS_NoChange = ''no_change''"
| "arm_status_str AS_Events = ''events''"
| "arm_status_str AS_Observed = ''observed''"
| "arm_status_str AS_Outage = ''outage''"
| "arm_status_str AS_CursorUncertain = ''cursor_uncertain''"
| "arm_status_str AS_Deferred = ''deferred''"

fun authn_mode_str :: "authn_mode \<Rightarrow> string" where
  "authn_mode_str AuthnModeRequired = ''required''"
| "authn_mode_str AuthnModeOptional = ''optional''"
| "authn_mode_str AuthnModeDisabled = ''disabled''"

fun baseline_policy_str :: "baseline_policy \<Rightarrow> string" where
  "baseline_policy_str Latest = ''latest''"
| "baseline_policy_str Earliest = ''earliest''"
| "baseline_policy_str ProviderDefined = ''provider_defined''"

fun replay_status_str :: "replay_status \<Rightarrow> string" where
  "replay_status_str Fresh = ''fresh''"
| "replay_status_str Replay = ''replay''"

definition anchor_json :: "anchor \<Rightarrow> json" where
  "anchor_json a = object [(''kind'', JString ''provider_opaque''), (''value'', id_json (anc_value a))]"

definition payload_json :: "payload_ref \<Rightarrow> json" where
  "payload_json p = object
     ([(''payload_ref'', opaque_json (pl_payload_ref p)),
       (''content_digest'', object [(''algorithm'', JString ''sha256''), (''value'', JString (cd_value (pl_content_digest p)))])]
      @ optional ''media_type'' (map_option JString (pl_media_type p)))"

definition wait_bound_json :: "wait_bound \<Rightarrow> json" where
  "wait_bound_json b = object [(''max_events'', u64_json (wb_max_events b)), (''max_bytes'', u64_json (wb_max_bytes b))]"

definition poll_bound_json :: "poll_bound \<Rightarrow> json" where
  "poll_bound_json b = object
     (optional ''max_events'' (map_option u64_json (pb_max_events b)) @
      optional ''max_payload_refs'' (map_option u64_json (pb_max_payload_refs b)) @
      optional ''max_bytes'' (map_option u64_json (pb_max_bytes b)))"

definition event_json :: "wait_event \<Rightarrow> json" where
  "event_json e = object
     ([(''event_id'', id_json (ev_event_id e)), (''registration_id'', id_json (ev_registration_id e)),
       (''source_instance_ref'', opaque_json (ev_source_instance_ref e)), (''method_id'', id_json (ev_method_id e)),
       (''subject_kind'', id_json (ev_subject_kind e)), (''subject_id'', id_json (ev_subject_id e)),
       (''occurred_at'', ts_json (ev_occurred_at e)), (''observed_at'', ts_json (ev_observed_at e)),
       (''start_anchor'', anchor_json (ev_start_anchor e)),
       (''proposed_next_anchor'', anchor_json (ev_proposed_next_anchor e)),
       (''replay_status'', JString (replay_status_str (ev_replay_status e))),
       (''correlation_id'', id_json (ev_correlation_id e)), (''payload'', payload_json (ev_payload e))]
      @ optional ''causation_id'' (map_option id_json (ev_causation_id e))
      @ optional ''delivery_ref'' (map_option opaque_json (ev_delivery_ref e))
      @ optional ''activation_ref'' (map_option opaque_json (ev_activation_ref e)))"

definition arm_json :: "coverage_arm \<Rightarrow> json" where
  "arm_json a = object
     ([(''arm_id'', id_json (arm_id a)), (''registration_id'', id_json (arm_registration_id a)),
       (''required'', JBool (arm_required a)), (''status'', JString (arm_status_str (arm_stat a))),
       (''degraded'', JBool (arm_degraded a)), (''start_anchor'', anchor_json (arm_start_anchor a)),
       (''proposed_next_anchor'', anchor_json (arm_proposed_next_anchor a)),
       (''event_count'', u64_json (arm_event_count a)), (''byte_count'', u64_json (arm_byte_count a))]
      @ optional ''reason_code'' (map_option id_json (arm_reason_code a)))"

definition registration_json :: "registration \<Rightarrow> json" where
  "registration_json r = object
     ([(''registration_id'', id_json (reg_id r)), (''method_id'', id_json (reg_method_id r)),
       (''subject_kind'', id_json (reg_subject_kind r)), (''subject_id'', id_json (reg_subject_id r)),
       (''required'', JBool (reg_required r)), (''source_instance_ref'', opaque_json (reg_source_instance_ref r)),
       (''predicate_ref'', JString (pred_str (reg_predicate_ref r))), (''capability_ref'', opaque_json (reg_capability_ref r)),
       (''lease_expires_at'', ts_json (reg_lease_expires_at r)), (''bounds'', wait_bound_json (reg_bounds r))]
      @ optional ''start_anchor'' (map_option anchor_json (reg_start_anchor r))
      @ optional ''baseline_policy'' (map_option (\<lambda>p. JString (baseline_policy_str p)) (reg_baseline_policy r))
      @ optional ''priority'' (map_option (\<lambda>p. u64_json (ucast p)) (reg_priority r)))"

definition anchors_json :: "(string, anchor) btree \<Rightarrow> json" where
  "anchors_json m = JObject (map (\<lambda>(key, a). (key, anchor_json a)) m)"

definition event_ids_json :: "(string, id_token list) btree \<Rightarrow> json" where
  "event_ids_json m = JObject (map (\<lambda>(key, ids). (key, JArray (map id_json ids))) m)"

definition header_fields :: "message_type \<Rightarrow> 'a wait_header_scheme \<Rightarrow> (string \<times> json) list" where
  "header_fields kind h =
     [(''message_type'', JString (message_type_str kind)),
      (''capabilities'', JArray (map (\<lambda>c. JString (cap_str c)) (capabilities h))),
      (''message_id'', id_json (message_id h)), (''correlation_id'', id_json (correlation_id h)),
      (''created_at'', ts_json (created_at h)), (''actor_ref'', JString (actor_str (hdr_actor_ref h)))]
     @ optional ''causation_id'' (map_option id_json (causation_id h))
     @ optional ''grant_ref'' (map_option opaque_json (grant_ref h))
     @ optional ''verification_receipt_ref'' (map_option opaque_json (verification_receipt_ref h))
     @ optional ''policy_decision_ref'' (map_option opaque_json (policy_decision_ref h))"

definition registration_set_json :: "registration_set \<Rightarrow> json" where
  "registration_set_json s = object
     (header_fields MT_RegistrationSet s @
      [(''principal_ref'', JString (actor_str (rs_principal_ref s))), (''waiter_id'', id_json (rs_waiter_id s)),
       (''seat_ref'', opaque_json (rs_seat_ref s)), (''registration_revision'', id_json (rs_registration_revision s)),
       (''logical_deadline'', ts_json (rs_logical_deadline s)),
       (''authn_mode'', JString (authn_mode_str (rs_authn_mode s))),
       (''aggregate_limits'', wait_bound_json (rs_aggregate_limits s)),
       (''registration_digest'', object
          [(''canonicalization'', JString ''rfc8785''), (''algorithm'', JString ''sha256''),
           (''value'', JString (jd_value (rs_registration_digest s)))]),
       (''registrations'', JArray (map registration_json (rs_registrations s)))])"

definition live_wait_request_json :: "live_wait_request \<Rightarrow> json" where
  "live_wait_request_json r = object
     (header_fields MT_LiveWaitRequest r @
      [(''waiter_id'', id_json (lr_waiter_id r)), (''registration_set_ref'', id_json (lr_registration_set_ref r)),
       (''registration_revision'', id_json (lr_registration_revision r)),
       (''logical_deadline'', ts_json (lr_logical_deadline r)), (''run_deadline'', ts_json (lr_run_deadline r))])"

definition live_wait_outcome_json :: "live_wait_outcome \<Rightarrow> json" where
  "live_wait_outcome_json r = object
     (header_fields MT_LiveWaitOutcome r @
      [(''waiter_id'', id_json (lo_waiter_id r)), (''request_ref'', id_json (lo_request_ref r)),
       (''completed_at'', ts_json (lo_completed_at r)),
       (''outcome_kind'', JString (outcome_kind_str (lo_outcome_kind r)))]
      @ optional ''logical_deadline'' (map_option ts_json (lo_logical_deadline r))
      @ optional ''events'' (map_option (\<lambda>es. JArray (map event_json es)) (lo_events r))
      @ optional ''proposed_next_anchor'' (map_option anchor_json (lo_proposed_next_anchor r))
      @ optional ''coverage_complete'' (map_option JBool (lo_coverage_complete r))
      @ optional ''arms'' (map_option (\<lambda>arms. JArray (map arm_json arms)) (lo_arms r))
      @ optional ''reason_code'' (map_option id_json (lo_reason_code r)))"

definition poll_cycle_request_json :: "poll_cycle_request \<Rightarrow> json" where
  "poll_cycle_request_json r = object
     (header_fields MT_PollCycleRequest r @
      [(''waiter_id'', id_json (pr_waiter_id r)), (''registration_set_ref'', id_json (pr_registration_set_ref r)),
       (''registration_revision'', id_json (pr_registration_revision r)),
       (''logical_deadline'', ts_json (pr_logical_deadline r)), (''run_deadline'', ts_json (pr_run_deadline r)),
       (''required_arms'', JArray (map id_json (pr_required_arms r))),
       (''fairness_cursor'', id_json (pr_fairness_cursor r)),
       (''acknowledged_anchors'', anchors_json (pr_acknowledged_anchors r)),
       (''activation_ref'', opaque_json (pr_activation_ref r)), (''cycle_id'', id_json (pr_cycle_id r))]
      @ optional ''bound'' (map_option poll_bound_json (pr_bound r)))"

definition poll_cycle_outcome_json :: "poll_cycle_outcome \<Rightarrow> json" where
  "poll_cycle_outcome_json r = object
     (header_fields MT_PollCycleOutcome r @
      [(''waiter_id'', id_json (po_waiter_id r)), (''request_ref'', id_json (po_request_ref r)),
       (''completed_at'', ts_json (po_completed_at r)), (''logical_deadline'', ts_json (po_logical_deadline r)),
       (''outcome_kind'', JString (outcome_kind_str (po_outcome_kind r))),
       (''events'', JArray (map event_json (po_events r))), (''coverage_complete'', JBool (po_coverage_complete r)),
       (''arms'', JArray (map arm_json (po_arms r))), (''retained_through'', anchors_json (po_retained_through r)),
       (''retained_events'', event_ids_json (po_retained_events r)),
       (''proposed_next_anchors'', anchors_json (po_proposed_next_anchors r)),
       (''fairness_cursor'', id_json (po_fairness_cursor r)), (''next_fairness_cursor'', id_json (po_next_fairness_cursor r))]
      @ optional ''acknowledged_anchors'' (map_option anchors_json (po_acknowledged_anchors r))
      @ optional ''bound'' (map_option poll_bound_json (po_bound r))
      @ optional ''reason_code'' (map_option id_json (po_reason_code r)))"

definition poll_cycle_ack_json :: "poll_cycle_ack \<Rightarrow> json" where
  "poll_cycle_ack_json r = object
     (header_fields MT_PollCycleAck r @
      [(''waiter_id'', id_json (pa_waiter_id r)), (''outcome_ref'', id_json (pa_outcome_ref r)),
       (''committed_anchors'', anchors_json (pa_committed_anchors r)),
       (''retained_events'', event_ids_json (pa_retained_events r))])"

fun message_json :: "agent_wait_message \<Rightarrow> json" where
  "message_json (RegistrationSet s) = registration_set_json s"
| "message_json (LiveWaitRequest r) = live_wait_request_json r"
| "message_json (LiveWaitOutcome r) = live_wait_outcome_json r"
| "message_json (PollCycleRequest r) = poll_cycle_request_json r"
| "message_json (PollCycleOutcome r) = poll_cycle_outcome_json r"
| "message_json (PollCycleAck r) = poll_cycle_ack_json r"

end
