(* ===== verification/Contract.thy ===== *)
theory Contract
  imports Json
begin

text \<open>
  Resolution of the vendored contract and selection of one message schema
  (\<^verbatim>\<open>crates/waitprims-core/src/contract.rs\<close>). JSON text and the manifest are read by
  \<^verbatim>\<open>serde_json\<close> and files by \<^verbatim>\<open>std::fs\<close>: the fields of \<open>json_reader\<close> and the argument
  \<open>read_file\<close>. A \<open>BTreeSet\<close> of names is an ordered map to \<open>unit\<close>.
\<close>

section \<open>Manifest\<close>

record manifest =
  mf_capability :: string
  mf_entry_schema :: string

record resolved_contract =
  rc_capability :: string
  rc_entry_schema_name :: string
  rc_entry_schema :: json

record json_reader =
  jr_value :: "string \<Rightarrow> json option"
  jr_manifest :: "string \<Rightarrow> manifest option"

definition capability :: string where
  "capability = ''contract: agent-wait/v0''"

definition ok_or :: "'e \<Rightarrow> 'a option \<Rightarrow> 'e + 'a" where
  "ok_or err x = (case x of None \<Rightarrow> Inl err | Some v \<Rightarrow> Inr v)"

definition parse_manifest :: "json_reader \<Rightarrow> string \<Rightarrow> error + manifest" where
  "parse_manifest rd raw = ok_or (EContract ''contract.json'' ''malformed'') (jr_manifest rd raw)"

definition parse_schema :: "json_reader \<Rightarrow> string \<Rightarrow> error + json" where
  "parse_schema rd raw = ok_or (EContract ''entry_schema'' ''malformed'') (jr_value rd raw)"

definition verify_capability :: "manifest \<Rightarrow> string \<Rightarrow> error + unit" where
  "verify_capability mf cap =
     (if mf_capability mf \<noteq> cap \<or> cap \<noteq> capability then Inl (EContract ''capability'' ''mismatch'')
      else if mf_entry_schema mf = [] then Inl (EContract ''entry_schema'' ''missing_or_unreadable'')
      else Inr ())"

definition resolve_bundled :: "json_reader \<Rightarrow> string \<Rightarrow> string \<Rightarrow> string \<Rightarrow> error + resolved_contract" where
  "resolve_bundled rd bundled_contract bundled_schema cap =
     (case parse_manifest rd bundled_contract of
        Inl err \<Rightarrow> Inl err
      | Inr mf \<Rightarrow>
          (case verify_capability mf cap of
             Inl err \<Rightarrow> Inl err
           | Inr _ \<Rightarrow>
               (case parse_schema rd bundled_schema of
                  Inl err \<Rightarrow> Inl err
                | Inr schema \<Rightarrow>
                    Inr \<lparr>rc_capability = mf_capability mf, rc_entry_schema_name = mf_entry_schema mf,
                         rc_entry_schema = schema\<rparr>)))"

text \<open>
  Paths are Unix paths: \<open>is_absolute\<close> is a leading slash, and joining a relative name appends it.
\<close>

fun split_path :: "string \<Rightarrow> string list" where
  "split_path [] = [[]]"
| "split_path (c # s) =
     (if c = CHR ''/'' \<or> c = CHR 0x5C then [] # split_path s
      else case split_path s of [] \<Rightarrow> [[c]] | p # ps \<Rightarrow> (c # p) # ps)"

definition entry_schema_escapes :: "string \<Rightarrow> bool" where
  "entry_schema_escapes name \<longleftrightarrow>
     name = [] \<or> CHR 0x00 \<in> set name \<or> take 1 name = ''/'' \<or> ''..'' \<in> set (split_path name)"

definition join_path :: "string \<Rightarrow> string \<Rightarrow> string" where
  "join_path dir name = (if dir = [] \<or> last dir = CHR ''/'' then dir @ name else dir @ ''/'' @ name)"

definition resolve_from_dir ::
  "json_reader \<Rightarrow> (string \<Rightarrow> string option) \<Rightarrow> string \<Rightarrow> string \<Rightarrow> error + resolved_contract" where
  "resolve_from_dir rd read_file dir cap =
     (case read_file (join_path dir ''contract.json'') of
        None \<Rightarrow> Inl (EContract ''contract.json'' ''missing_or_unreadable'')
      | Some raw \<Rightarrow>
          (case parse_manifest rd raw of
             Inl err \<Rightarrow> Inl err
           | Inr mf \<Rightarrow>
               (case verify_capability mf cap of
                  Inl err \<Rightarrow> Inl err
                | Inr _ \<Rightarrow>
                    (if entry_schema_escapes (mf_entry_schema mf)
                     then Inl (EContract ''entry_schema'' ''missing_or_unreadable'')
                     else case read_file (join_path dir (mf_entry_schema mf)) of
                            None \<Rightarrow> Inl (EContract ''entry_schema'' ''missing_or_unreadable'')
                          | Some schema_raw \<Rightarrow>
                              (case parse_schema rd schema_raw of
                                 Inl err \<Rightarrow> Inl err
                               | Inr schema \<Rightarrow>
                                   Inr \<lparr>rc_capability = mf_capability mf, rc_entry_schema_name = mf_entry_schema mf,
                                        rc_entry_schema = schema\<rparr>)))))"

section \<open>Selection of one message schema\<close>

type_synonym names = "(string, unit) btree"

fun def_name_for :: "message_type \<Rightarrow> string" where
  "def_name_for MT_RegistrationSet = ''registrationSet''"
| "def_name_for MT_LiveWaitRequest = ''liveWaitRequest''"
| "def_name_for MT_LiveWaitOutcome = ''liveWaitOutcome''"
| "def_name_for MT_PollCycleRequest = ''pollCycleRequest''"
| "def_name_for MT_PollCycleOutcome = ''pollCycleOutcome''"
| "def_name_for MT_PollCycleAck = ''pollCycleAck''"

text \<open>The name a reference \<open>#/$defs/name\<close> points to.\<close>

definition def_ref :: "string \<Rightarrow> string option" where
  "def_ref reference =
     (if take 8 reference = ''#/$defs/'' \<and> drop 8 reference \<noteq> [] \<and> CHR ''/'' \<notin> set (drop 8 reference)
      then Some (drop 8 reference) else None)"

definition own_ref :: "json \<Rightarrow> string option" where
  "own_ref v = Option.bind (j_get_as j_str ''$ref'' v) def_ref"

definition add_name :: "string option \<Rightarrow> names \<Rightarrow> names" where
  "add_name r out = (case r of None \<Rightarrow> out | Some name \<Rightarrow> bt_insert name () out)"

fun collect_def_refs :: "json \<Rightarrow> names \<Rightarrow> names" where
  "collect_def_refs (JObject m) out =
     fold (\<lambda>(_, child). collect_def_refs child) m (add_name (own_ref (JObject m)) out)"
| "collect_def_refs (JArray items) out = fold collect_def_refs items out"
| "collect_def_refs _ out = out"

definition refs_of :: "json \<Rightarrow> string set" where
  "refs_of v = fst ` set (collect_def_refs v [])"

text \<open>One turn of the worklist: the names not seen yet are needed and pushed.\<close>

fun push_new :: "string list \<Rightarrow> names \<Rightarrow> string list \<Rightarrow> names \<times> string list" where
  "push_new [] needed stack = (needed, stack)"
| "push_new (name # extra) needed stack =
     (if bt_contains needed name then push_new extra needed stack
      else push_new extra (bt_insert name () needed) (stack @ [name]))"

definition all_refs :: "(string, json) btree \<Rightarrow> string set" where
  "all_refs defs = (\<Union>v \<in> snd ` set defs. refs_of v)"

lemma fst_push_new: "fst ` set (fst (push_new extra needed stack)) = set extra \<union> fst ` set needed"
  by (induction extra needed stack rule: push_new.induct) (auto simp: bt_contains_iff)

lemma length_push_new:
  "length (snd (push_new extra needed stack)) =
     length stack + card (set extra - fst ` set needed)"
proof (induction extra needed stack rule: push_new.induct)
  case (2 name extra needed stack)
  show ?case
  proof (cases "name \<in> fst ` set needed")
    case True
    then have "set (name # extra) - fst ` set needed = set extra - fst ` set needed" by auto
    with 2(1) True show ?thesis by (simp add: bt_contains_iff)
  next
    case False
    then have "set (name # extra) - fst ` set needed = insert name (set extra - fst ` set (bt_insert name () needed))" by auto
    moreover have "name \<notin> set extra - fst ` set (bt_insert name () needed)" by simp
    ultimately show ?thesis using 2(2) False by (simp add: bt_contains_iff)
  qed
qed simp

lemma finite_refs [simp]: "finite (refs_of v)" "finite (all_refs defs)"
  by (simp_all add: refs_of_def all_refs_def)

lemma refs_of_def_sub: "bt_get defs name = Some v \<Longrightarrow> refs_of v \<subseteq> all_refs defs"
  by (force simp: all_refs_def bt_get_def dest: map_of_SomeD)

function close_refs :: "(string, json) btree \<Rightarrow> names \<Rightarrow> string list \<Rightarrow> validation_error + names" where
  "close_refs defs needed stack =
     (if stack = [] then Inr needed
      else case bt_get defs (last stack) of
             None \<Rightarrow> Inl (ve_new ''/$defs'' ''missing_kind'')
           | Some node \<Rightarrow>
               (case push_new (bt_keys (collect_def_refs node [])) needed (butlast stack) of
                  (needed, stack) \<Rightarrow> close_refs defs needed stack))"
  by pat_completeness auto

termination
proof (relation "measure (\<lambda>(defs, needed, stack). card (all_refs defs - fst ` set needed) + length stack)", goal_cases)
  case (2 defs needed stack node needed' stack')
  let ?extra = "bt_keys (collect_def_refs node [])"
  have e: "set ?extra = refs_of node" by (simp add: bt_keys_def refs_of_def)
  have p: "needed' = fst (push_new ?extra needed (butlast stack))" "stack' = snd (push_new ?extra needed (butlast stack))"
    using 2(3) by (metis fst_conv, metis snd_conv)
  let ?left = "all_refs defs - fst ` set needed"
  have sub: "refs_of node - fst ` set needed \<subseteq> ?left" using refs_of_def_sub [OF 2(2)] by blast
  have "all_refs defs - fst ` set needed' = ?left - (refs_of node - fst ` set needed)"
    by (auto simp: p fst_push_new e)
  then have "card (all_refs defs - fst ` set needed') = card ?left - card (refs_of node - fst ` set needed)"
    using sub by (simp add: card_Diff_subset)
  moreover have "card (refs_of node - fst ` set needed) \<le> card ?left" using sub by (simp add: card_mono)
  moreover have "length stack' = length stack - 1 + card (refs_of node - fst ` set needed)"
    by (simp add: p length_push_new e)
  ultimately show ?case using 2(1) by (cases stack) simp_all
qed simp

declare close_refs.simps [simp del]

definition pick_defs :: "(string, json) btree \<Rightarrow> string list \<Rightarrow> validation_error + (string, json) btree" where
  "pick_defs defs needed =
     (if list_all (bt_contains defs) needed
      then Inr (bt_collect (map (\<lambda>name. (name, the (bt_get defs name))) needed))
      else Inl (ve_new ''/$defs'' ''missing_kind''))"

definition select_message_schema :: "json \<Rightarrow> message_type \<Rightarrow> error + json" where
  "select_message_schema entry kind =
     (case j_get_as j_object ''$defs'' entry of
        None \<Rightarrow> Inl (EValidation (ve_new ''/$defs'' ''missing''))
      | Some defs \<Rightarrow>
          (case bt_get defs (def_name_for kind) of
             None \<Rightarrow> Inl (EValidation (ve_new ''/$defs'' ''missing_kind''))
           | Some def \<Rightarrow>
               (case j_object def of
                  None \<Rightarrow> Inl (EValidation (ve_new ''/$defs'' ''missing_kind''))
                | Some def_obj \<Rightarrow>
                    (let needed = collect_def_refs def []
                     in case close_refs defs needed (bt_keys needed) of
                          Inl err \<Rightarrow> Inl (EValidation err)
                        | Inr needed \<Rightarrow>
                            (case pick_defs defs (bt_keys needed) of
                               Inl err \<Rightarrow> Inl (EValidation err)
                             | Inr selected \<Rightarrow>
                                 (let out = (case j_get ''$schema'' entry of
                                               None \<Rightarrow> [] | Some schema \<Rightarrow> bt_insert ''$schema'' schema []);
                                      out = bt_from_list (filter (\<lambda>(key, _). key \<noteq> ''$id'') def_obj) out
                                  in Inr (JObject (bt_insert ''$defs'' (JObject selected) out))))))))"

definition bundled_entry_schema :: "json_reader \<Rightarrow> string \<Rightarrow> string \<Rightarrow> error + json" where
  "bundled_entry_schema rd bundled_contract bundled_schema =
     (case resolve_bundled rd bundled_contract bundled_schema capability of
        Inl err \<Rightarrow> Inl err
      | Inr rc \<Rightarrow> Inr (rc_entry_schema rc))"

definition bundled_message_schema :: "json_reader \<Rightarrow> string \<Rightarrow> string \<Rightarrow> message_type \<Rightarrow> error + json" where
  "bundled_message_schema rd bundled_contract bundled_schema kind =
     (case bundled_entry_schema rd bundled_contract bundled_schema of
        Inl err \<Rightarrow> Inl err
      | Inr entry \<Rightarrow> select_message_schema entry kind)"

end
