(* ===== verification/Jcs.thy ===== *)
theory Jcs
  imports Json
begin

text \<open>
  RFC 8785 canonicalization (\<^verbatim>\<open>crates/waitprims-core/src/jcs.rs\<close>): the strict parser and the
  encoder. The parser's position is the suffix of the input still to be read. The shortest
  decimal text of a float is \<open>ryu_js\<close>'s, the parameter \<open>fmt\<close> of the encoder.
\<close>

section \<open>Scanning\<close>

definition quote :: char where "quote = CHR 0x22"
definition backslash :: char where "backslash = CHR 0x5C"

definition is_ws :: "char \<Rightarrow> bool" where
  "is_ws c \<longleftrightarrow> c = CHR '' '' \<or> c = CHR 0x09 \<or> c = CHR 0x0A \<or> c = CHR 0x0D"

definition skip_ws :: "string \<Rightarrow> string" where
  "skip_ws s = dropWhile is_ws s"

lemma skip_ws_length: "length (skip_ws s) \<le> length s"
  by (simp add: skip_ws_def length_dropWhile_le)

lemma skip_ws_Cons: "skip_ws s = c # r \<Longrightarrow> length r < length s"
  using skip_ws_length [of s] by simp

type_synonym 'a parse = "jcs_error + 'a \<times> string"

definition parse_literal :: "string \<Rightarrow> json \<Rightarrow> string \<Rightarrow> json parse" where
  "parse_literal token v s =
     (if take (length token) s \<noteq> token then Inl InvalidJson else Inr (v, drop (length token) s))"

section \<open>Strings\<close>

definition hex_value :: "char \<Rightarrow> nat option" where
  "hex_value c =
     (if is_digit c then Some (byte c - 48)
      else if 97 \<le> byte c \<and> byte c \<le> 102 then Some (byte c - 97 + 10)
      else if 65 \<le> byte c \<and> byte c \<le> 70 then Some (byte c - 65 + 10)
      else None)"

definition read_hex4 :: "string \<Rightarrow> nat parse" where
  "read_hex4 s =
     (case s of
        a # b # c # d # rest \<Rightarrow>
          (case (hex_value a, hex_value b, hex_value c, hex_value d) of
             (Some a, Some b, Some c, Some d) \<Rightarrow> Inr (((a * 16 + b) * 16 + c) * 16 + d, rest)
           | _ \<Rightarrow> Inl InvalidJson)
      | _ \<Rightarrow> Inl InvalidJson)"

text \<open>\<open>String::push\<close> of a scalar value: its UTF-8 encoding.\<close>

definition utf8_encode :: "nat \<Rightarrow> string" where
  "utf8_encode cp = map char_of
     (if cp < 128 then [cp]
      else if cp < 2048 then [192 + cp div 64, 128 + cp mod 64]
      else if cp < 65536 then [224 + cp div 4096, 128 + cp div 64 mod 64, 128 + cp mod 64]
      else [240 + cp div 262144, 128 + cp div 4096 mod 64, 128 + cp div 64 mod 64, 128 + cp mod 64])"

definition is_high :: "nat \<Rightarrow> bool" where "is_high u \<longleftrightarrow> 0xd800 \<le> u \<and> u \<le> 0xdbff"
definition is_low :: "nat \<Rightarrow> bool" where "is_low u \<longleftrightarrow> 0xdc00 \<le> u \<and> u \<le> 0xdfff"

definition parse_unicode_escape :: "string \<Rightarrow> nat parse" where
  "parse_unicode_escape s =
     (case read_hex4 s of
        Inl err \<Rightarrow> Inl err
      | Inr (unit, s) \<Rightarrow>
          (if is_high unit
           then (case s of
                   b # u # rest \<Rightarrow>
                     (if b \<noteq> backslash \<or> u \<noteq> CHR ''u'' then Inl LoneSurrogate
                      else case read_hex4 rest of
                             Inl err \<Rightarrow> Inl err
                           | Inr (low, s) \<Rightarrow>
                               (if \<not> is_low low then Inl LoneSurrogate
                                else Inr (0x10000 + ((unit - 0xd800) * 1024 + (low - 0xdc00)), s)))
                 | _ \<Rightarrow> Inl LoneSurrogate)
           else if is_low unit then Inl LoneSurrogate
           else Inr (unit, s)))"

definition simple_escape :: "char \<Rightarrow> char option" where
  "simple_escape c =
     (if c = quote \<or> c = backslash \<or> c = CHR ''/'' then Some c
      else if c = CHR ''b'' then Some (CHR 0x08)
      else if c = CHR ''f'' then Some (CHR 0x0C)
      else if c = CHR ''n'' then Some (CHR 0x0A)
      else if c = CHR ''r'' then Some (CHR 0x0D)
      else if c = CHR ''t'' then Some (CHR 0x09)
      else None)"

lemma read_hex4_length: "read_hex4 s = Inr (n, r) \<Longrightarrow> length r < length s"
  by (auto simp: read_hex4_def split: list.splits option.splits)

lemma parse_unicode_escape_length: "parse_unicode_escape s = Inr (n, r) \<Longrightarrow> length r < length s"
  by (auto simp: parse_unicode_escape_def split: sum.splits list.splits if_splits dest!: read_hex4_length)

text \<open>
  After the opening quote. A scalar above ASCII is copied whole by the code and byte by byte
  here, which is the same: its bytes are neither quotes, backslashes nor controls.
\<close>

function parse_chars :: "string \<Rightarrow> string \<Rightarrow> string parse" where
  "parse_chars s out =
     (case s of
        [] \<Rightarrow> Inl InvalidJson
      | b # s \<Rightarrow>
          (if b = quote then Inr (out, s)
           else if b = backslash
           then (case s of
                   [] \<Rightarrow> Inl InvalidJson
                 | esc # s \<Rightarrow>
                     (if esc = CHR ''u''
                      then (case parse_unicode_escape s of
                              Inl err \<Rightarrow> Inl err
                            | Inr (cp, s) \<Rightarrow> parse_chars s (out @ utf8_encode cp))
                      else case simple_escape esc of
                             None \<Rightarrow> Inl InvalidJson
                           | Some c \<Rightarrow> parse_chars s (out @ [c])))
           else if byte b < 32 then Inl InvalidJson
           else parse_chars s (out @ [b])))"
  by pat_completeness auto

termination
  by (relation "measure (\<lambda>(s, _). length s)")
    (auto dest!: parse_unicode_escape_length intro: less_SucI)

declare parse_chars.simps [simp del]

definition parse_string :: "string \<Rightarrow> string parse" where
  "parse_string s = parse_chars (tl s) []"

section \<open>Numbers\<close>

text \<open>The token of a number: sign, integer digits, fraction digits and exponent, if present.\<close>

record number_token =
  nt_neg :: bool
  nt_int :: string
  nt_frac :: "string option"
  nt_exp :: "(bool \<times> string) option"

definition scan_digits :: "string \<Rightarrow> string \<times> string" where
  "scan_digits s = (takeWhile is_digit s, dropWhile is_digit s)"

definition scan_int :: "string \<Rightarrow> string parse" where
  "scan_int s =
     (case scan_digits s of
        ([], _) \<Rightarrow> Inl InvalidJson
      | (d # ds, rest) \<Rightarrow> if d = CHR ''0'' \<and> ds \<noteq> [] then Inl InvalidJson else Inr (d # ds, rest))"

definition scan_frac :: "string \<Rightarrow> string option parse" where
  "scan_frac s =
     (case s of
        c # s' \<Rightarrow>
          (if c \<noteq> CHR ''.'' then Inr (None, s)
           else case scan_digits s' of
                  ([], _) \<Rightarrow> Inl InvalidJson
                | (ds, rest) \<Rightarrow> Inr (Some ds, rest))
      | [] \<Rightarrow> Inr (None, s))"

definition scan_exp :: "string \<Rightarrow> (bool \<times> string) option parse" where
  "scan_exp s =
     (case s of
        c # s' \<Rightarrow>
          (if c \<noteq> CHR ''e'' \<and> c \<noteq> CHR ''E'' then Inr (None, s)
           else let (neg, s'') = (case s' of
                                    d # r \<Rightarrow> if d = CHR ''+'' then (False, r) else if d = CHR ''-'' then (True, r) else (False, s')
                                  | [] \<Rightarrow> (False, s'))
                in case scan_digits s'' of
                     ([], _) \<Rightarrow> Inl InvalidJson
                   | (ds, rest) \<Rightarrow> Inr (Some (neg, ds), rest))
      | [] \<Rightarrow> Inr (None, s))"

definition scan_number :: "string \<Rightarrow> number_token parse" where
  "scan_number s =
     (let (neg, s) = (case s of c # r \<Rightarrow> if c = CHR ''-'' then (True, r) else (False, s) | [] \<Rightarrow> (False, s))
      in case scan_int s of
           Inl err \<Rightarrow> Inl err
         | Inr (ds, s) \<Rightarrow>
             (case scan_frac s of
                Inl err \<Rightarrow> Inl err
              | Inr (frac, s) \<Rightarrow>
                  (case scan_exp s of
                     Inl err \<Rightarrow> Inl err
                   | Inr (ex, s) \<Rightarrow> Inr (\<lparr>nt_neg = neg, nt_int = ds, nt_frac = frac, nt_exp = ex\<rparr>, s))))"

text \<open>\<open>str::parse::<f64>\<close>: the binary64 nearest to the decimal.\<close>

definition token_f64 :: "number_token \<Rightarrow> f64" where
  "token_f64 t =
     (let frac = (case nt_frac t of Some ds \<Rightarrow> ds | None \<Rightarrow> []);
          d = digits_value (nt_int t @ frac);
          k = (case nt_exp t of None \<Rightarrow> 0 | Some (neg, ds) \<Rightarrow> (if neg then - 1 else 1) * int (digits_value ds))
              - int (length frac)
      in if 0 \<le> k then f_round (nt_neg t) (d * 10 ^ nat k) 1 else f_round (nt_neg t) d (10 ^ nat (- k)))"

definition ijson_int :: "int \<Rightarrow> jcs_error + json_number" where
  "ijson_int v =
     (let as_float = f_of_int v
      in if \<not> f_is_finite as_float \<or> f_as_int i128_min i128_max as_float \<noteq> v then Inl IntegerOutsideIjson
         else if i64_min \<le> v \<and> v \<le> i64_max then Inr (n_from_i64 v)
         else Inr (N_Float as_float))"

definition token_int :: "number_token \<Rightarrow> int" where
  "token_int t = (if nt_neg t then - int (digits_value (nt_int t)) else int (digits_value (nt_int t)))"

definition parse_number :: "string \<Rightarrow> json parse" where
  "parse_number s =
     (case scan_number s of
        Inl err \<Rightarrow> Inl err
      | Inr (t, rest) \<Rightarrow>
          (if nt_frac t = None \<and> nt_exp t = None
           then (let v = token_int t
                 in if v < i128_min \<or> i128_max < v then Inl IntegerOutsideIjson
                    else case ijson_int v of
                           Inl err \<Rightarrow> Inl err
                         | Inr n \<Rightarrow> Inr (JNumber n, rest))
           else let f = token_f64 t
                in if \<not> f_is_finite f then Inl NonFiniteNumber else Inr (JNumber (N_Float f), rest)))"

section \<open>Values\<close>

text \<open>
  The code recurses without a bound. The tests on the length of what is left make the recursion
  well-founded; a value takes at least one byte, so they never fail (\<open>parse_value_length\<close>).
\<close>

function (sequential)
  parse_value :: "string \<Rightarrow> json parse" and
  parse_items :: "string \<Rightarrow> json list \<Rightarrow> json list parse" and
  parse_members :: "string \<Rightarrow> (string, json) btree \<Rightarrow> (string, json) btree parse"
where
  "parse_value s0 =
     (case skip_ws s0 of
        [] \<Rightarrow> Inl InvalidJson
      | b # s \<Rightarrow>
          (if b = CHR ''n'' then parse_literal ''null'' JNull (b # s)
           else if b = CHR ''t'' then parse_literal ''true'' (JBool True) (b # s)
           else if b = CHR ''f'' then parse_literal ''false'' (JBool False) (b # s)
           else if b = quote
           then (case parse_string (b # s) of Inl err \<Rightarrow> Inl err | Inr (str, r) \<Rightarrow> Inr (JString str, r))
           else if b = CHR ''[''
           then (case skip_ws s of
                   c # r \<Rightarrow>
                     (if c = CHR '']'' then Inr (JArray [], r)
                      else case parse_items (c # r) [] of Inl err \<Rightarrow> Inl err | Inr (vs, r) \<Rightarrow> Inr (JArray vs, r))
                 | [] \<Rightarrow> Inl InvalidJson)
           else if b = CHR ''{''
           then (case skip_ws s of
                   c # r \<Rightarrow>
                     (if c = CHR ''}'' then Inr (JObject [], r)
                      else case parse_members (c # r) [] of Inl err \<Rightarrow> Inl err | Inr (m, r) \<Rightarrow> Inr (JObject m, r))
                 | [] \<Rightarrow> Inl InvalidJson)
           else if b = CHR ''-'' \<or> is_digit b then parse_number (b # s)
           else Inl InvalidJson))"
| "parse_items s items =
     (case parse_value s of
        Inl err \<Rightarrow> Inl err
      | Inr (v, r) \<Rightarrow>
          (case skip_ws r of
             c # r \<Rightarrow>
               (if c = CHR '','' \<and> length r < length s then parse_items r (items @ [v])
                else if c = CHR '']'' then Inr (items @ [v], r)
                else Inl InvalidJson)
           | [] \<Rightarrow> Inl InvalidJson))"
| "parse_members s m =
     (case skip_ws s of
        [] \<Rightarrow> Inl InvalidJson
      | q # s1 \<Rightarrow>
          (if q \<noteq> quote then Inl InvalidJson
           else case parse_string (q # s1) of
                  Inl err \<Rightarrow> Inl err
                | Inr (key, r) \<Rightarrow>
                    (if bt_contains m key then Inl DuplicateKey
                     else case skip_ws r of
                            c # r \<Rightarrow>
                              (if c \<noteq> CHR '':'' \<or> \<not> length r < length s then Inl InvalidJson
                               else case parse_value r of
                                      Inl err \<Rightarrow> Inl err
                                    | Inr (v, r) \<Rightarrow>
                                        (case skip_ws r of
                                           c # r \<Rightarrow>
                                             (if c = CHR '','' \<and> length r < length s
                                              then parse_members r (bt_insert key v m)
                                              else if c = CHR ''}'' then Inr (bt_insert key v m, r)
                                              else Inl InvalidJson)
                                         | [] \<Rightarrow> Inl InvalidJson))
                          | [] \<Rightarrow> Inl InvalidJson)))"
  by pat_completeness auto

termination
proof (relation "measure (\<lambda>x. case x of Inl s \<Rightarrow> 2 * length s
    | Inr (Inl (s, _)) \<Rightarrow> Suc (2 * length s) | Inr (Inr (s, _)) \<Rightarrow> Suc (2 * length s))", goal_cases)
qed (auto dest!: skip_ws_Cons)

declare parse_value.simps [simp del] parse_items.simps [simp del] parse_members.simps [simp del]

definition parse_strict :: "string \<Rightarrow> jcs_error + json" where
  "parse_strict raw =
     (case parse_value raw of
        Inl err \<Rightarrow> Inl err
      | Inr (v, r) \<Rightarrow> if skip_ws r = [] then Inr v else Inl InvalidJson)"

section \<open>Encoding\<close>

text \<open>\<open>encode_utf16\<close> of a UTF-8 string, for the order of member names.\<close>

fun utf8_scalars :: "string \<Rightarrow> nat list" where
  "utf8_scalars [] = []"
| "utf8_scalars (a # s) =
     (let cont = (\<lambda>v i. v * 64 + (byte (s ! i) - 128))
      in if byte a < 128 then byte a # utf8_scalars s
         else if byte a < 224 then cont (byte a - 192) 0 # utf8_scalars (drop 1 s)
         else if byte a < 240 then cont (cont (byte a - 224) 0) 1 # utf8_scalars (drop 2 s)
         else cont (cont (cont (byte a - 240) 0) 1) 2 # utf8_scalars (drop 3 s))"

definition utf16_units :: "string \<Rightarrow> nat list" where
  "utf16_units s =
     concat (map (\<lambda>cp. if cp < 0x10000 then [cp]
                       else [0xd800 + (cp - 0x10000) div 1024, 0xdc00 + (cp - 0x10000) mod 1024]) (utf8_scalars s))"

definition hex_digit :: "nat \<Rightarrow> char" where
  "hex_digit n = (if n < 10 then char_of (48 + n) else char_of (87 + n))"

text \<open>A string holds no surrogates, so the encoder's test for them has no counterpart.\<close>

definition encode_char :: "char \<Rightarrow> string" where
  "encode_char c =
     (if c = quote then [backslash, quote]
      else if c = backslash then [backslash, backslash]
      else if c = CHR 0x08 then [backslash, CHR ''b'']
      else if c = CHR 0x0C then [backslash, CHR ''f'']
      else if c = CHR 0x0A then [backslash, CHR ''n'']
      else if c = CHR 0x0D then [backslash, CHR ''r'']
      else if c = CHR 0x09 then [backslash, CHR ''t'']
      else if byte c < 32 then backslash # ''u00'' @ [hex_digit (byte c div 16), hex_digit (byte c mod 16)]
      else [c])"

definition encode_string :: "string \<Rightarrow> string" where
  "encode_string s = quote # concat (map encode_char s) @ [quote]"

definition encode_f64 :: "(f64 \<Rightarrow> string) \<Rightarrow> f64 \<Rightarrow> jcs_error + string" where
  "encode_f64 fmt f =
     (if \<not> f_is_finite f then Inl NonFiniteNumber
      else if f_is_zero f then Inr ''0''
      else Inr (fmt f))"

definition encode_number :: "(f64 \<Rightarrow> string) \<Rightarrow> json_number \<Rightarrow> jcs_error + string" where
  "encode_number fmt n =
     (case n_as_i64 n of
        Some i \<Rightarrow>
          (if f_as_int i64_min i64_max (f_of_int i) \<noteq> i then Inl IntegerOutsideIjson
           else encode_f64 fmt (f_of_int i))
      | None \<Rightarrow>
          (case n_as_u64 n of
             Some u \<Rightarrow>
               (if f_as_int 0 (2 ^ 64 - 1) (f_of_int (uint u)) \<noteq> uint u then Inl IntegerOutsideIjson
                else encode_f64 fmt (f_of_int (uint u)))
           | None \<Rightarrow> encode_f64 fmt (n_as_f64 n)))"

text \<open>Texts separated by commas, or the first error.\<close>

fun join_results :: "(jcs_error + string) list \<Rightarrow> jcs_error + string" where
  "join_results [] = Inr []"
| "join_results [r] = r"
| "join_results (r # rs) =
     (case r of
        Inl err \<Rightarrow> Inl err
      | Inr s \<Rightarrow> (case join_results rs of Inl err \<Rightarrow> Inl err | Inr t \<Rightarrow> Inr (s @ '','' @ t)))"

definition map_result :: "(string \<Rightarrow> string) \<Rightarrow> jcs_error + string \<Rightarrow> jcs_error + string" where
  "map_result f r = (case r of Inl err \<Rightarrow> Inl err | Inr s \<Rightarrow> Inr (f s))"

definition utf16_order :: "(string \<times> 'a) list \<Rightarrow> (string \<times> 'a) list" where
  "utf16_order m = sort_key (\<lambda>(key, _). utf16_units key) m"

fun encode :: "(f64 \<Rightarrow> string) \<Rightarrow> json \<Rightarrow> jcs_error + string" where
  "encode fmt JNull = Inr ''null''"
| "encode fmt (JBool b) = Inr (if b then ''true'' else ''false'')"
| "encode fmt (JString s) = Inr (encode_string s)"
| "encode fmt (JNumber n) = encode_number fmt n"
| "encode fmt (JArray vs) = map_result (\<lambda>t. ''['' @ t @ '']'') (join_results (map (encode fmt) vs))"
| "encode fmt (JObject m) =
     map_result (\<lambda>t. ''{'' @ t @ ''}'')
       (join_results (map snd (utf16_order
          (map (\<lambda>(key, v). (key, map_result (\<lambda>t. encode_string key @ '':'' @ t) (encode fmt v))) m))))"

definition canonicalize_json :: "(f64 \<Rightarrow> string) \<Rightarrow> string \<Rightarrow> jcs_error + string" where
  "canonicalize_json fmt raw = (case parse_strict raw of Inl err \<Rightarrow> Inl err | Inr v \<Rightarrow> encode fmt v)"

end
