(* ===== verification/Validate.thy ===== *)
theory Validate
  imports Contract Jcs Rfc3339
begin

text \<open>
  Digest and admission of documents (\<^verbatim>\<open>digest.rs\<close> and \<^verbatim>\<open>validate.rs\<close> of
  \<^verbatim>\<open>crates/waitprims-core/src\<close>). SHA-256, the compiled JSON Schema, the typed decoding that
  \<^verbatim>\<open>serde\<close> derives, the float formatter and the calendar are the fields of \<open>admission\<close>. A check
  returns \<open>None\<close> where the code panics (an offset that leaves the calendar).
\<close>

record admission =
  ad_calendar :: calendar
  ad_fmt :: "f64 \<Rightarrow> string"
  ad_sha256 :: "string \<Rightarrow> string"
  ad_is_valid :: "(json \<Rightarrow> bool) option"
  ad_first_error :: "json \<Rightarrow> (string \<times> string) option"
  ad_decode :: "json \<Rightarrow> agent_wait_message option"

section \<open>Checks\<close>

type_synonym 'a checked = "(error + 'a) option"

abbreviation ok :: "'a \<Rightarrow> 'a checked" where "ok x \<equiv> Some (Inr x)"
abbreviation rejects :: "validation_error \<Rightarrow> 'a checked" where "rejects e \<equiv> Some (Inl (EValidation e))"

definition and_then :: "'a checked \<Rightarrow> ('a \<Rightarrow> 'b checked) \<Rightarrow> 'b checked" where
  "and_then m f = (case m of None \<Rightarrow> None | Some (Inl err) \<Rightarrow> Some (Inl err) | Some (Inr x) \<Rightarrow> f x)"

fun for_each :: "('a \<Rightarrow> unit checked) \<Rightarrow> 'a list \<Rightarrow> unit checked" where
  "for_each f [] = ok ()"
| "for_each f (x # xs) = and_then (f x) (\<lambda>_. for_each f xs)"

definition reject_if :: "bool \<Rightarrow> validation_error \<Rightarrow> unit checked" where
  "reject_if b err = (if b then rejects err else ok ())"

definition compare_texts :: "admission \<Rightarrow> string \<Rightarrow> string \<Rightarrow> int checked" where
  "compare_texts ad left right =
     map_option (\<lambda>r. case r of Inl err \<Rightarrow> Inl (EValidation err) | Inr c \<Rightarrow> Inr c)
       (rfc3339_compare (ad_calendar ad) left right)"

section \<open>Reading documents\<close>

text \<open>\<open>PartialEq\<close> of \<open>Value\<close>: the two zeros of binary64 are equal.\<close>

definition norm_f64 :: "f64 \<Rightarrow> f64" where
  "norm_f64 f = (case f of F_Finite neg m e \<Rightarrow> (if m = 0 then F_Finite False 0 e else f) | F_Infinite _ \<Rightarrow> f)"

fun norm_value :: "json \<Rightarrow> json" where
  "norm_value (JNumber n) = JNumber (case n of N_Float f \<Rightarrow> N_Float (norm_f64 f) | _ \<Rightarrow> n)"
| "norm_value (JArray vs) = JArray (map norm_value vs)"
| "norm_value (JObject m) = JObject (map (\<lambda>(key, v). (key, norm_value v)) m)"
| "norm_value v = v"

definition value_eq :: "json option \<Rightarrow> json option \<Rightarrow> bool" where
  "value_eq a b \<longleftrightarrow> map_option norm_value a = map_option norm_value b"

definition get_str :: "string \<Rightarrow> json \<Rightarrow> string option" where
  "get_str name v = j_get_as j_str name v"

definition get_list :: "string \<Rightarrow> json \<Rightarrow> json list" where
  "get_list name v = (case j_get_as j_array name v of None \<Rightarrow> [] | Some vs \<Rightarrow> vs)"

definition str_or_empty :: "string \<Rightarrow> json \<Rightarrow> string" where
  "str_or_empty name v = (case get_str name v of None \<Rightarrow> [] | Some s \<Rightarrow> s)"

definition is_true :: "string \<Rightarrow> json \<Rightarrow> bool" where
  "is_true name v \<longleftrightarrow> j_get name v = Some (JBool True)"

definition is_false :: "string \<Rightarrow> json \<Rightarrow> bool" where
  "is_false name v \<longleftrightarrow> j_get name v = Some (JBool False)"

definition is_kind :: "string \<Rightarrow> json \<Rightarrow> bool" where
  "is_kind kind v \<longleftrightarrow> get_str ''message_type'' v = Some kind"

definition string_field :: "json \<Rightarrow> string \<Rightarrow> string \<Rightarrow> string checked" where
  "string_field document path name =
     (case get_str name document of None \<Rightarrow> rejects (ve_new path ''required'') | Some s \<Rightarrow> ok s)"

definition object_map :: "json option \<Rightarrow> (string, json) btree" where
  "object_map v = (case Option.bind v j_object of None \<Rightarrow> [] | Some m \<Rightarrow> m)"

definition string_list_map :: "json option \<Rightarrow> (string, string list) btree" where
  "string_list_map v =
     map (\<lambda>(key, v). (key, List.map_filter j_str (case j_array v of None \<Rightarrow> [] | Some items \<Rightarrow> items))) (object_map v)"

definition event_ids :: "json \<Rightarrow> string list" where
  "event_ids document = List.map_filter (get_str ''event_id'') (get_list ''events'' document)"

definition arm_status_of :: "json \<Rightarrow> string \<Rightarrow> string option" where
  "arm_status_of document aid =
     Option.bind (find (\<lambda>arm. get_str ''arm_id'' arm = Some aid) (get_list ''arms'' document)) (get_str ''status'')"

section \<open>Digest\<close>

definition hex_byte :: "char \<Rightarrow> string" where
  "hex_byte c = [hex_digit (byte c div 16), hex_digit (byte c mod 16)]"

definition sha256_hex :: "admission \<Rightarrow> string \<Rightarrow> string" where
  "sha256_hex ad bytes = concat (map hex_byte (ad_sha256 ad bytes))"

definition digest_unique_registrations :: "admission \<Rightarrow> json \<Rightarrow> jcs_error + string" where
  "digest_unique_registrations ad registrations =
     (case j_array registrations of
        None \<Rightarrow> Inl Unsupported
      | Some _ \<Rightarrow>
          (case encode (ad_fmt ad) registrations of
             Inl err \<Rightarrow> Inl err
           | Inr canonical \<Rightarrow> Inr (sha256_hex ad canonical)))"

definition registration_digest :: "admission \<Rightarrow> string \<Rightarrow> jcs_error + string" where
  "registration_digest ad raw =
     (case parse_strict raw of Inl err \<Rightarrow> Inl err | Inr v \<Rightarrow> digest_unique_registrations ad v)"

definition verify_registration_digest :: "admission \<Rightarrow> json \<Rightarrow> string \<Rightarrow> unit checked" where
  "verify_registration_digest ad registrations claimed =
     (case digest_unique_registrations ad registrations of
        Inl _ \<Rightarrow> rejects (ve_normative ''/registration_digest'' ''rfc8785_sha256'' RegistrationDigestMismatch)
      | Inr got \<Rightarrow>
          reject_if (got \<noteq> claimed)
            (ve_normative ''/registration_digest/value'' ''digest_mismatch'' RegistrationDigestMismatch))"

section \<open>One message\<close>

definition admitted_message_types :: "string list" where
  "admitted_message_types =
     [''registration_set'', ''live_wait_request'', ''live_wait_outcome'', ''poll_cycle_request'',
      ''poll_cycle_outcome'', ''poll_cycle_ack'']"

definition reject_undeclared_kind :: "json \<Rightarrow> unit checked" where
  "reject_undeclared_kind document =
     (case get_str ''message_type'' document of
        None \<Rightarrow> rejects (ve_new ''/message_type'' ''required'')
      | Some message_type \<Rightarrow>
          (if message_type \<in> set admitted_message_types then ok ()
           else rejects (ve_new ''/message_type'' ''undeclared_message_type'')))"

fun has_infix :: "string \<Rightarrow> string \<Rightarrow> bool" where
  "has_infix needle [] = (needle = [])"
| "has_infix needle (c # s) = (take (length needle) (c # s) = needle \<or> has_infix needle s)"

definition schema_keywords :: "string list" where
  "schema_keywords =
     [''oneOf'', ''additionalProperties'', ''required'', ''const'', ''enum'', ''minItems'', ''maxItems'',
      ''uniqueItems'', ''contains'', ''pattern'', ''minLength'', ''type'']"

definition schema_constraint :: "string \<Rightarrow> string" where
  "schema_constraint schema_path =
     (case find (\<lambda>keyword. has_infix keyword schema_path) schema_keywords of
        None \<Rightarrow> ''schema'' | Some keyword \<Rightarrow> keyword)"

definition schema_validate :: "admission \<Rightarrow> json \<Rightarrow> unit checked" where
  "schema_validate ad document =
     (case ad_is_valid ad of
        None \<Rightarrow> Some (Inl (EContract ''entry_schema'' ''compile''))
      | Some valid \<Rightarrow>
          (if valid document then ok ()
           else case ad_first_error ad document of
                  Some (rendered, schema_path) \<Rightarrow>
                    rejects (ve_new
                      (if rendered = [] then ''/'' else if take 1 rendered = ''/'' then rendered else CHR ''/'' # rendered)
                      (schema_constraint schema_path))
                | None \<Rightarrow> rejects (ve_new ''/'' ''schema'')))"

text \<open>What \<open>outcome_normative\<close> counts over the required arms.\<close>

definition required_arms_of :: "json \<Rightarrow> json list" where
  "required_arms_of document = filter (is_true ''required'') (get_list ''arms'' document)"

definition arm_dirty :: "json \<Rightarrow> bool" where
  "arm_dirty arm \<longleftrightarrow>
     str_or_empty ''status'' arm = ''outage'' \<or> str_or_empty ''status'' arm = ''cursor_uncertain'' \<or> is_true ''degraded'' arm"

definition arm_no_change :: "json \<Rightarrow> bool" where
  "arm_no_change arm \<longleftrightarrow> get_str ''status'' arm = Some ''no_change'' \<and> is_false ''degraded'' arm"

definition arm_complete :: "json \<Rightarrow> bool" where
  "arm_complete arm \<longleftrightarrow>
     is_false ''degraded'' arm \<and> str_or_empty ''status'' arm \<noteq> ''outage'' \<and> str_or_empty ''status'' arm \<noteq> ''cursor_uncertain''"

definition all_required :: "(json \<Rightarrow> bool) \<Rightarrow> json \<Rightarrow> bool" where
  "all_required p document \<longleftrightarrow>
     required_arms_of document \<noteq> [] \<and> length (required_arms_of document) = length (filter p (required_arms_of document))"

text \<open>The clause of a clean kind: its deadline, then its invariants.\<close>

definition clean_kind ::
  "admission \<Rightarrow> json \<Rightarrow> string \<Rightarrow> (json \<Rightarrow> bool) \<Rightarrow> (int \<Rightarrow> bool) \<Rightarrow> string \<Rightarrow> normative_reason \<Rightarrow> unit checked" where
  "clean_kind ad document completed arm_ok late constraint reason =
     (case get_str ''logical_deadline'' document of
        None \<Rightarrow> rejects (ve_normative ''/logical_deadline'' ''required'' reason)
      | Some logical \<Rightarrow>
          and_then (compare_texts ad completed logical) (\<lambda>rel.
            reject_if (length (get_list ''events'' document) \<noteq> 0 \<or> \<not> is_true ''coverage_complete'' document
                \<or> \<not> all_required arm_ok document \<or> late rel)
              (ve_normative ''/outcome_kind'' constraint reason)))"

definition outcome_normative :: "admission \<Rightarrow> json \<Rightarrow> unit checked" where
  "outcome_normative ad document =
     and_then (string_field document ''/completed_at'' ''completed_at'') (\<lambda>completed.
       let kind = str_or_empty ''outcome_kind'' document
       in and_then (reject_if (length (filter arm_dirty (required_arms_of document)) > 0
              \<and> (kind = ''no_change'' \<or> kind = ''logical_deadman''))
            (ve_normative ''/outcome_kind'' ''required_arm_not_clean'' OutageNotClean)) (\<lambda>_.
          and_then (if kind = ''no_change''
                    then clean_kind ad document completed arm_no_change (\<lambda>rel. 0 \<le> rel) ''no_change_invariants'' NoChangeInvariants
                    else ok ()) (\<lambda>_.
            if kind = ''logical_deadman''
            then clean_kind ad document completed arm_complete (\<lambda>rel. rel < 0) ''deadman_invariants'' DeadmanInvariants
            else ok ())))"

definition deadline_order :: "admission \<Rightarrow> json \<Rightarrow> unit checked" where
  "deadline_order ad document =
     and_then (string_field document ''/run_deadline'' ''run_deadline'') (\<lambda>run.
     and_then (string_field document ''/logical_deadline'' ''logical_deadline'') (\<lambda>logical.
     and_then (compare_texts ad run logical) (\<lambda>rel.
       reject_if (0 < rel) (ve_normative ''/run_deadline'' ''must_be_at_or_before_logical_deadline'' DeadlineOrdering))))"

definition digest_matches :: "admission \<Rightarrow> json \<Rightarrow> unit checked" where
  "digest_matches ad document =
     (case Option.bind (j_get ''registration_digest'' document) (get_str ''value'') of
        None \<Rightarrow> rejects (ve_new ''/registration_digest/value'' ''required'')
      | Some claimed \<Rightarrow>
          (case j_get ''registrations'' document of
             None \<Rightarrow> rejects (ve_new ''/registrations'' ''required'')
           | Some registrations \<Rightarrow> verify_registration_digest ad registrations claimed))"

definition per_message_normative :: "admission \<Rightarrow> json \<Rightarrow> unit checked" where
  "per_message_normative ad document =
     (let message_type = str_or_empty ''message_type'' document
      in and_then (if message_type = ''live_wait_request'' \<or> message_type = ''poll_cycle_request''
                   then deadline_order ad document
                   else if message_type = ''registration_set'' then digest_matches ad document
                   else ok ()) (\<lambda>_.
           if message_type = ''poll_cycle_outcome'' \<or> message_type = ''live_wait_outcome''
           then outcome_normative ad document else ok ()))"

end
