(* ===== verification/Validate_Set.thy ===== *)
theory Validate_Set
  imports Validate
begin

text \<open>
  The rules over a set of documents and the admission path itself (\<open>set_rules\<close>,
  \<open>validate_documents\<close>, \<open>validate_raw_documents\<close> and \<open>validate_message\<close> of
  \<^verbatim>\<open>crates/waitprims-core/src/validate.rs\<close>). A \<open>BTreeSet\<close> is an ordered map to \<open>unit\<close>.
\<close>

definition bt_set :: "string list \<Rightarrow> (string, unit) btree" where
  "bt_set xs = bt_collect (map (\<lambda>x. (x, ())) xs)"

section \<open>Coverage\<close>

definition requested_arms :: "json list \<Rightarrow> string list" where
  "requested_arms documents =
     concat (map (\<lambda>d. List.map_filter j_str (get_list ''required_arms'' d)) (filter (is_kind ''poll_cycle_request'') documents))"

definition coverage_cardinality :: "json list \<Rightarrow> unit checked" where
  "coverage_cardinality documents =
     (if requested_arms documents = [] then ok ()
      else for_each (\<lambda>document.
             if \<not> is_kind ''poll_cycle_outcome'' document \<or> \<not> is_true ''coverage_complete'' document then ok ()
             else let have = bt_set (List.map_filter (get_str ''arm_id'') (get_list ''arms'' document))
                  in reject_if (list_ex (\<lambda>arm. \<not> bt_contains have arm) (bt_keys (bt_set (requested_arms documents))))
                       (ve_normative ''/arms'' ''missing_required_arm'' CoverageCardinality)) documents)"

section \<open>Acknowledgments\<close>

definition anchor_stolen :: "(string, json) btree \<Rightarrow> string \<Rightarrow> json \<Rightarrow> bool" where
  "anchor_stolen retained rid anchor \<longleftrightarrow>
     \<not> value_eq (bt_get retained rid) (Some anchor) \<and>
     list_ex (\<lambda>(other_rid, other). other_rid \<noteq> rid \<and> value_eq (Some other) (Some anchor)) retained"

definition event_stolen :: "(string, string list) btree \<Rightarrow> string \<Rightarrow> string \<Rightarrow> bool" where
  "event_stolen out_events rid event_id \<longleftrightarrow>
     list_ex (\<lambda>(other_rid, other_events). other_rid \<noteq> rid \<and> event_id \<in> set other_events) out_events"

definition ack_of :: "json \<Rightarrow> json \<Rightarrow> unit checked" where
  "ack_of ack outcome =
     (let committed = object_map (j_get ''committed_anchors'' ack);
          retained_through = object_map (j_get ''retained_through'' outcome);
          ack_events = string_list_map (j_get ''retained_events'' ack);
          out_events = string_list_map (j_get ''retained_events'' outcome);
          cursor_mismatch = list_ex (\<lambda>(rid, anchor). \<not> value_eq (bt_get retained_through rid) (Some anchor)) committed;
          event_mismatch = list_ex (\<lambda>(rid, events).
            let allowed = (case bt_get out_events rid of None \<Rightarrow> [] | Some es \<Rightarrow> es)
            in list_ex (\<lambda>event_id. event_id \<notin> set allowed) events) ack_events
      in and_then (for_each (\<lambda>(rid, anchor).
             reject_if (anchor_stolen retained_through rid anchor)
               (ve_normative ''/committed_anchors'' ''cross_registration'' CrossArmCommit)) committed) (\<lambda>_.
         and_then (for_each (\<lambda>(rid, events). for_each (\<lambda>event_id.
             reject_if (event_stolen out_events rid event_id)
               (ve_normative ''/retained_events'' ''cross_registration'' CrossArmCommit)) events) ack_events) (\<lambda>_.
           reject_if (cursor_mismatch \<or> event_mismatch)
             (ve_normative ''/committed_anchors'' ''past_unretained'' AckPastUnretained))))"

definition ack_rules :: "json list \<Rightarrow> unit checked" where
  "ack_rules documents =
     (let acks = filter (is_kind ''poll_cycle_ack'') documents;
          outs = filter (is_kind ''poll_cycle_outcome'') documents
      in if acks = [] \<or> outs = [] then ok ()
         else for_each (\<lambda>ack.
                case find (\<lambda>out. get_str ''message_id'' out = get_str ''outcome_ref'' ack) outs of
                  None \<Rightarrow> ok ()
                | Some outcome \<Rightarrow> ack_of ack outcome) acks)"

section \<open>Fairness and retention across cycles\<close>

text \<open>\<open>sort_by_key\<close> on the text of \<open>created_at\<close>.\<close>

definition by_created_at :: "json list \<Rightarrow> json list" where
  "by_created_at outs = sort_key (str_or_empty ''created_at'') outs"

definition group_by_waiter :: "json list \<Rightarrow> (string, json list) btree" where
  "group_by_waiter outs =
     fold (\<lambda>out groups.
       let waiter = str_or_empty ''waiter_id'' out
       in bt_insert waiter ((case bt_get groups waiter of None \<Rightarrow> [] | Some ds \<Rightarrow> ds) @ [out]) groups) outs []"

definition other_has_events :: "string \<Rightarrow> json \<Rightarrow> bool" where
  "other_has_events aid out \<longleftrightarrow>
     list_ex (\<lambda>arm. is_true ''required'' arm \<and> get_str ''arm_id'' arm \<noteq> Some aid \<and> get_str ''status'' arm = Some ''events'')
       (get_list ''arms'' out)"

definition starved :: "json list \<Rightarrow> string \<Rightarrow> bool" where
  "starved ordered aid \<longleftrightarrow>
     list_all (\<lambda>out. arm_status_of out aid = Some ''deferred'') ordered \<and>
     list_ex (other_has_events aid) ordered \<and>
     length (bt_set (List.map_filter (get_str ''next_fairness_cursor'') ordered)) = 1"

definition fairness_of :: "json list \<Rightarrow> unit checked" where
  "fairness_of outcomes =
     (if length outcomes < 2 then ok ()
      else let ordered = by_created_at outcomes;
               arms = bt_set (concat (map (\<lambda>out. List.map_filter (get_str ''arm_id'') (required_arms_of out)) ordered))
           in for_each (\<lambda>aid.
                reject_if (starved ordered aid) (ve_normative ''/next_fairness_cursor'' ''starvation'' FairnessStarvation))
                (bt_keys arms))"

definition fairness_starvation :: "json list \<Rightarrow> unit checked" where
  "fairness_starvation documents =
     for_each (\<lambda>(_, outcomes). fairness_of outcomes)
       (group_by_waiter (filter (is_kind ''poll_cycle_outcome'') documents))"

definition silent_cursor_advance :: "json list \<Rightarrow> unit checked" where
  "silent_cursor_advance documents =
     (let outcomes = filter (is_kind ''poll_cycle_outcome'') documents
      in if list_ex (is_kind ''poll_cycle_ack'') documents \<or> length outcomes < 2 then ok ()
         else let outcomes = by_created_at outcomes;
                  first = hd outcomes;
                  last = outcomes ! (length outcomes - 1);
                  first_ids = event_ids first;
                  last_ids = event_ids last
              in if first_ids = [] then ok ()
                 else let lost = list_ex (\<lambda>eid. eid \<notin> set last_ids) first_ids;
                          first_anchors = object_map (j_get ''proposed_next_anchors'' first);
                          last_anchors = object_map (j_get ''proposed_next_anchors'' last);
                          advanced = list_ex (\<lambda>(rid, anchor).
                            \<not> value_eq (Option.bind (bt_get last_anchors rid) (j_get ''value'')) (j_get ''value'' anchor)) first_anchors
                      in reject_if (lost \<and> advanced)
                           (ve_normative ''/proposed_next_anchors'' ''silent_advance'' SilentCursorAdvance))"

section \<open>Requests and outcomes against their registration set\<close>

definition is_request :: "json \<Rightarrow> bool" where
  "is_request d \<longleftrightarrow> is_kind ''poll_cycle_request'' d \<or> is_kind ''live_wait_request'' d"

definition is_outcome :: "json \<Rightarrow> bool" where
  "is_outcome d \<longleftrightarrow> is_kind ''poll_cycle_outcome'' d \<or> is_kind ''live_wait_outcome'' d"

definition revision_cross :: "json list \<Rightarrow> unit checked" where
  "revision_cross documents =
     (let sets = filter (is_kind ''registration_set'') documents;
          reqs = filter is_request documents
      in if sets = [] \<or> reqs = [] then ok ()
         else let rev = get_str ''registration_revision'' (last sets)
              in reject_if (list_ex (\<lambda>r. get_str ''registration_revision'' r \<noteq> rev) reqs)
                   (ve_normative ''/registration_revision'' ''revision_mismatch'' RevisionCross))"

definition clean_outcome :: "json \<Rightarrow> bool" where
  "clean_outcome d \<longleftrightarrow> get_str ''outcome_kind'' d \<in> Some ` {''events'', ''no_change'', ''logical_deadman'', ''partial''}"

definition authn_of :: "json list \<Rightarrow> json list \<Rightarrow> json \<Rightarrow> unit checked" where
  "authn_of reqs outs rset =
     (if get_str ''authn_mode'' rset \<noteq> Some ''required'' then ok ()
      else let missing_receipt = (reqs = [] \<or> list_ex (\<lambda>r. get_str ''verification_receipt_ref'' r = None) reqs)
           in reject_if (missing_receipt \<and> list_ex clean_outcome outs)
                (ve_normative ''/verification_receipt_ref'' ''required'' AuthnRequired))"

definition lease_of :: "admission \<Rightarrow> json list \<Rightarrow> json \<Rightarrow> unit checked" where
  "lease_of ad outs registration =
     (case get_str ''lease_expires_at'' registration of
        None \<Rightarrow> rejects (ve_new ''/registrations/lease_expires_at'' ''required'')
      | Some lease \<Rightarrow>
          for_each (\<lambda>out.
            and_then (string_field out ''/completed_at'' ''completed_at'') (\<lambda>completed.
            and_then (compare_texts ad lease completed) (\<lambda>rel.
              reject_if (rel < 0 \<and> str_or_empty ''outcome_kind'' out \<noteq> ''reauthentication_required'')
                (ve_normative ''/completed_at'' ''lease_expired'' LeaseReauth)))) outs)"

definition u64_or_max :: "string \<Rightarrow> json option \<Rightarrow> u64" where
  "u64_or_max name v = (case Option.bind (Option.bind v (j_get name)) j_u64 of None \<Rightarrow> u64_max | Some n \<Rightarrow> n)"

definition limits_of :: "json \<Rightarrow> json \<Rightarrow> unit checked" where
  "limits_of rset out =
     (let kind = str_or_empty ''outcome_kind'' out
      in if kind = ''partial'' \<or> kind = ''coverage_degraded'' then ok ()
         else let events = get_list ''events'' out
              in and_then (for_each (\<lambda>registration.
                     let rid = str_or_empty ''registration_id'' registration;
                         max_events = u64_or_max ''max_events'' (j_get ''bounds'' registration)
                     in reject_if (unat max_events < length (filter (\<lambda>e. get_str ''registration_id'' e = Some rid) events))
                          (ve_normative ''/events'' ''registration_max_events'' RegistrationBound))
                     (get_list ''registrations'' rset)) (\<lambda>_.
                   reject_if (unat (u64_or_max ''max_events'' (j_get ''aggregate_limits'' rset)) < length events)
                     (ve_normative ''/events'' ''aggregate_max_events'' AggregateBound)))"

definition authn_lease_bounds :: "admission \<Rightarrow> json list \<Rightarrow> unit checked" where
  "authn_lease_bounds ad documents =
     (let sets = filter (is_kind ''registration_set'') documents;
          outs = filter is_outcome documents;
          reqs = filter is_request documents
      in if sets = [] \<or> outs = [] then ok ()
         else and_then (for_each (authn_of reqs outs) sets) (\<lambda>_.
              and_then (for_each (\<lambda>rset. for_each (lease_of ad outs) (get_list ''registrations'' rset)) sets) (\<lambda>_.
                for_each (\<lambda>rset. for_each (limits_of rset) outs) sets)))"

definition set_rules :: "admission \<Rightarrow> json list \<Rightarrow> unit checked" where
  "set_rules ad documents =
     and_then (coverage_cardinality documents) (\<lambda>_.
     and_then (ack_rules documents) (\<lambda>_.
     and_then (fairness_starvation documents) (\<lambda>_.
     and_then (silent_cursor_advance documents) (\<lambda>_.
     and_then (revision_cross documents) (\<lambda>_. authn_lease_bounds ad documents)))))"

section \<open>Admission\<close>

definition validate_document :: "admission \<Rightarrow> json \<Rightarrow> agent_wait_message checked" where
  "validate_document ad document =
     and_then (reject_undeclared_kind document) (\<lambda>_.
     and_then (schema_validate ad document) (\<lambda>_.
     and_then (per_message_normative ad document) (\<lambda>_.
       case ad_decode ad document of
         None \<Rightarrow> rejects (ve_new ''/'' ''typed_decode'')
       | Some message \<Rightarrow> ok message)))"

fun validate_each :: "admission \<Rightarrow> json list \<Rightarrow> agent_wait_message list checked" where
  "validate_each ad [] = ok []"
| "validate_each ad (document # documents) =
     and_then (validate_document ad document) (\<lambda>message.
       and_then (validate_each ad documents) (\<lambda>messages. ok (message # messages)))"

definition validate_documents :: "admission \<Rightarrow> json list \<Rightarrow> agent_wait_message list checked" where
  "validate_documents ad documents =
     (if documents = [] then rejects (ve_new ''/'' ''empty_target'')
      else and_then (validate_each ad documents) (\<lambda>typed.
             and_then (set_rules ad documents) (\<lambda>_. ok typed)))"

fun parse_all :: "string list \<Rightarrow> error + json list" where
  "parse_all [] = Inr []"
| "parse_all (raw # raws) =
     (case parse_strict raw of
        Inl err \<Rightarrow> Inl (EJcs err)
      | Inr v \<Rightarrow> (case parse_all raws of Inl err \<Rightarrow> Inl err | Inr vs \<Rightarrow> Inr (v # vs)))"

definition validate_raw_documents :: "admission \<Rightarrow> string list \<Rightarrow> agent_wait_message list checked" where
  "validate_raw_documents ad raws =
     (case parse_all raws of Inl err \<Rightarrow> Some (Inl err) | Inr documents \<Rightarrow> validate_documents ad documents)"

definition validate_message :: "admission \<Rightarrow> string \<Rightarrow> agent_wait_message checked" where
  "validate_message ad raw =
     and_then (validate_raw_documents ad [raw]) (\<lambda>messages.
       case messages of [] \<Rightarrow> rejects (ve_new ''/'' ''empty_document'') | m # _ \<Rightarrow> ok m)"

end
