(* ===== verification/Validate_Rules.thy ===== *)
theory Validate_Rules
  imports Validate_Set
begin

text \<open>
  What an admitted set of documents satisfies. The collection \<open>admits\<close> inverts a check that
  accepts into the conditions it tested; \<open>rejected\<close> inverts one that refuses into its error.
\<close>

named_theorems admits
named_theorems rejected

section \<open>Inversion of checks\<close>

lemma and_then_ok [admits]: "and_then m f = ok y \<longleftrightarrow> (\<exists>x. m = ok x \<and> f x = ok y)"
  by (auto simp: and_then_def split: option.splits sum.splits)

lemma and_then_err [rejected]:
  "and_then m f = Some (Inl err) \<longleftrightarrow> m = Some (Inl err) \<or> (\<exists>x. m = ok x \<and> f x = Some (Inl err))"
  by (auto simp: and_then_def split: option.splits sum.splits)

lemma for_each_ok [admits]: "for_each f xs = ok () \<longleftrightarrow> (\<forall>x \<in> set xs. f x = ok ())"
  by (induction xs) (auto simp: and_then_ok)

lemma for_each_err [rejected]: "for_each f xs = Some (Inl err) \<Longrightarrow> \<exists>x \<in> set xs. f x = Some (Inl err)"
  by (induction xs) (auto simp: and_then_err)

lemma reject_if_ok [admits]: "reject_if b err = ok () \<longleftrightarrow> \<not> b"
  by (simp add: reject_if_def)

lemma reject_if_err [rejected]: "reject_if b e = Some (Inl err) \<longleftrightarrow> b \<and> err = EValidation e"
  by (auto simp: reject_if_def)

lemma string_field_ok [admits]: "string_field d path name = ok s \<longleftrightarrow> get_str name d = Some s"
  by (simp add: string_field_def split: option.split)

lemma string_field_err [rejected]:
  "string_field d path name = Some (Inl err) \<longleftrightarrow> get_str name d = None \<and> err = EValidation (ve_new path ''required'')"
  by (auto simp: string_field_def split: option.split)

lemma compare_texts_ok:
  "compare_texts ad l r = ok c \<longleftrightarrow>
     (\<exists>i j. parse_instant (ad_calendar ad) l = P_Ok i \<and> parse_instant (ad_calendar ad) r = P_Ok j \<and>
        c = (if i < j then - 1 else if i = j then 0 else 1))"
  by (auto simp: compare_texts_def rfc3339_compare_def ts_parse_def ts_compare_def split: parsed.splits)

definition timestamp_error :: validation_error where
  "timestamp_error = ve_normative ''/timestamp'' ''rfc3339_profile'' UnparseableTimestamp"

lemma compare_texts_err [rejected]: "compare_texts ad l r = Some (Inl err) \<Longrightarrow> err = EValidation timestamp_error"
  by (auto simp: compare_texts_def rfc3339_compare_def ts_parse_def timestamp_error_def split: parsed.splits)

lemma validate_each_ok:
  "validate_each ad ds = ok ms \<longleftrightarrow> list_all2 (\<lambda>d m. validate_document ad d = ok m) ds ms"
  by (induction ds arbitrary: ms) (auto simp: and_then_ok list_all2_Cons1)

lemma parse_all_ok: "parse_all raws = Inr ds \<longleftrightarrow> list_all2 (\<lambda>raw d. parse_strict raw = Inr d) raws ds"
proof (induction raws arbitrary: ds)
  case (Cons raw raws)
  show ?case
    by (auto simp: list_all2_Cons1 Cons.IH [symmetric] split: sum.split)
qed auto

lemma parse_all_err: "parse_all raws = Inl err \<Longrightarrow> \<exists>e. err = EJcs e"
  by (induction raws) (auto split: sum.splits)

lemma validate_raw_documents_ok:
  "validate_raw_documents ad raws = ok ms \<longleftrightarrow>
     (\<exists>ds. ds \<noteq> [] \<and> list_all2 (\<lambda>raw d. parse_strict raw = Inr d) raws ds \<and>
        list_all2 (\<lambda>d m. validate_document ad d = ok m) ds ms \<and> set_rules ad ds = ok ())"
  by (auto simp: validate_raw_documents_def validate_documents_def admits validate_each_ok parse_all_ok [symmetric] split: sum.splits)

section \<open>One document\<close>

lemma is_kind_unique: "is_kind a d \<Longrightarrow> is_kind b d \<longleftrightarrow> a = b"
  by (auto simp: is_kind_def)

lemma set_rules_one: "set_rules ad [d] = ok ()"
  by (auto simp: set_rules_def admits coverage_cardinality_def requested_arms_def ack_rules_def fairness_starvation_def
      group_by_waiter_def fairness_of_def silent_cursor_advance_def revision_cross_def authn_lease_bounds_def
      is_outcome_def is_request_def Let_def is_kind_def)

lemma clean_kind_ok:
  "clean_kind ad d completed arm_ok late constraint reason = ok () \<longleftrightarrow>
     (\<exists>logical c. get_str ''logical_deadline'' d = Some logical \<and> compare_texts ad completed logical = ok c \<and> \<not> late c \<and>
        get_list ''events'' d = [] \<and> is_true ''coverage_complete'' d \<and> required_arms_of d \<noteq> [] \<and>
        (\<forall>arm \<in> set (required_arms_of d). arm_ok arm))"
proof -
  have "length xs = length (filter p xs) \<longleftrightarrow> (\<forall>x \<in> set xs. p x)" for p and xs :: "json list"
    by (metis filter_True length_filter_less less_irrefl)
  then show ?thesis
    by (cases "get_str ''logical_deadline'' d") (auto simp: clean_kind_def all_required_def admits)
qed

lemma outcome_normative_ok:
  "outcome_normative ad d = ok () \<longleftrightarrow>
     (\<exists>completed. get_str ''completed_at'' d = Some completed \<and>
        (str_or_empty ''outcome_kind'' d \<in> {''no_change'', ''logical_deadman''} \<longrightarrow> (\<forall>arm \<in> set (required_arms_of d). \<not> arm_dirty arm)) \<and>
        (str_or_empty ''outcome_kind'' d = ''no_change'' \<longrightarrow>
           clean_kind ad d completed arm_no_change (\<lambda>rel. 0 \<le> rel) ''no_change_invariants'' NoChangeInvariants = ok ()) \<and>
        (str_or_empty ''outcome_kind'' d = ''logical_deadman'' \<longrightarrow>
           clean_kind ad d completed arm_complete (\<lambda>rel. rel < 0) ''deadman_invariants'' DeadmanInvariants = ok ()))"
proof -
  have "length (filter p xs) > 0 \<longleftrightarrow> (\<exists>x \<in> set xs. p x)" for p and xs :: "json list"
    by (auto simp: filter_empty_conv)
  then show ?thesis
    by (auto simp: outcome_normative_def Let_def admits)
qed

lemma validate_document_ok:
  "validate_document ad d = ok m \<longleftrightarrow>
     reject_undeclared_kind d = ok () \<and> schema_validate ad d = ok () \<and> per_message_normative ad d = ok () \<and> ad_decode ad d = Some m"
  by (auto simp: validate_document_def admits split: option.splits)

lemma per_message_outcome: "per_message_normative ad d = ok () \<Longrightarrow> is_outcome d \<Longrightarrow> outcome_normative ad d = ok ()"
  by (auto simp: per_message_normative_def is_outcome_def is_kind_def str_or_empty_def Let_def admits)

lemma per_message_request: "per_message_normative ad d = ok () \<Longrightarrow> is_request d \<Longrightarrow> deadline_order ad d = ok ()"
  by (auto simp: per_message_normative_def is_request_def is_kind_def str_or_empty_def Let_def admits)

lemma per_message_set: "per_message_normative ad d = ok () \<Longrightarrow> is_kind ''registration_set'' d \<Longrightarrow> digest_matches ad d = ok ()"
  by (auto simp: per_message_normative_def is_kind_def str_or_empty_def Let_def admits)

section \<open>Sets of documents\<close>

lemma set_rules_parts:
  assumes "set_rules ad ds = ok ()"
  shows "coverage_cardinality ds = ok ()" "ack_rules ds = ok ()" "fairness_starvation ds = ok ()"
    "silent_cursor_advance ds = ok ()" "revision_cross ds = ok ()" "authn_lease_bounds ad ds = ok ()"
  using assms by (auto simp: set_rules_def admits)

lemma list_ex_not: "\<not> list_ex (\<lambda>x. \<not> p x) xs \<longleftrightarrow> (\<forall>x \<in> set xs. p x)"
  by (simp add: list_ex_iff)

text \<open>An acknowledgment commits what its outcome retained, under the same registration.\<close>

definition ack_within :: "json \<Rightarrow> json \<Rightarrow> bool" where
  "ack_within ack outcome \<longleftrightarrow>
     (\<forall>(rid, anchor) \<in> set (object_map (j_get ''committed_anchors'' ack)).
        value_eq (bt_get (object_map (j_get ''retained_through'' outcome)) rid) (Some anchor)) \<and>
     (\<forall>(rid, events) \<in> set (string_list_map (j_get ''retained_events'' ack)).
        \<forall>eid \<in> set events. \<exists>es. bt_get (string_list_map (j_get ''retained_events'' outcome)) rid = Some es \<and> eid \<in> set es)"

lemma ack_of_ok: "ack_of ack outcome = ok () \<Longrightarrow> ack_within ack outcome"
proof -
  let ?retained = "object_map (j_get ''retained_through'' outcome)"
  let ?out = "string_list_map (j_get ''retained_events'' outcome)"
  assume "ack_of ack outcome = ok ()"
  then have c: "\<not> list_ex (\<lambda>(rid, anchor). \<not> value_eq (bt_get ?retained rid) (Some anchor)) (object_map (j_get ''committed_anchors'' ack))"
    and e: "\<not> list_ex (\<lambda>(rid, events). list_ex (\<lambda>eid. eid \<notin> set (case bt_get ?out rid of None \<Rightarrow> [] | Some es \<Rightarrow> es)) events)
      (string_list_map (j_get ''retained_events'' ack))"
    unfolding ack_of_def Let_def and_then_ok reject_if_ok by blast+
  have "\<exists>es. bt_get ?out rid = Some es \<and> eid \<in> set es"
    if "(rid, events) \<in> set (string_list_map (j_get ''retained_events'' ack))" "eid \<in> set events" for rid events eid
  proof -
    have "eid \<in> set (case bt_get ?out rid of None \<Rightarrow> [] | Some es \<Rightarrow> es)"
      using e that by (force simp: list_ex_iff)
    then show ?thesis by (cases "bt_get ?out rid") auto
  qed
  with c show ?thesis by (auto simp: ack_within_def list_ex_iff)
qed

lemma ack_rules_ok:
  assumes "ack_rules ds = ok ()" "ack \<in> set ds" "is_kind ''poll_cycle_ack'' ack"
    "find (\<lambda>out. get_str ''message_id'' out = get_str ''outcome_ref'' ack) (filter (is_kind ''poll_cycle_outcome'') ds) = Some out"
  shows "ack_within ack out"
proof -
  have "filter (is_kind ''poll_cycle_outcome'') ds \<noteq> []" using assms(4) by (cases "filter (is_kind ''poll_cycle_outcome'') ds") auto
  moreover have "filter (is_kind ''poll_cycle_ack'') ds \<noteq> []"
    using assms(2,3) by (auto simp: filter_empty_conv)
  ultimately have "ack_of ack out = ok ()"
    using assms unfolding ack_rules_def Let_def by (auto simp: for_each_ok)
  then show ?thesis by (rule ack_of_ok)
qed

lemma authn_lease_ok:
  assumes "authn_lease_bounds ad ds = ok ()" "rset \<in> set ds" "is_kind ''registration_set'' rset" "out \<in> set ds" "is_outcome out"
  shows "authn_of (filter is_request ds) (filter is_outcome ds) rset = ok ()"
    and "limits_of rset out = ok ()"
    and "registration \<in> set (get_list ''registrations'' rset) \<Longrightarrow>
      \<exists>lease completed. get_str ''lease_expires_at'' registration = Some lease \<and> get_str ''completed_at'' out = Some completed \<and>
        (\<exists>i j. parse_instant (ad_calendar ad) lease = P_Ok i \<and> parse_instant (ad_calendar ad) completed = P_Ok j \<and>
           (i < j \<longrightarrow> str_or_empty ''outcome_kind'' out = ''reauthentication_required''))"
proof -
  have "filter (is_kind ''registration_set'') ds \<noteq> []" "filter is_outcome ds \<noteq> []"
    using assms(2-5) by (auto simp: filter_empty_conv)
  with assms(1) have parts:
      "for_each (authn_of (filter is_request ds) (filter is_outcome ds)) (filter (is_kind ''registration_set'') ds) = ok ()"
      "for_each (\<lambda>rset. for_each (lease_of ad (filter is_outcome ds)) (get_list ''registrations'' rset)) (filter (is_kind ''registration_set'') ds) = ok ()"
      "for_each (\<lambda>rset. for_each (limits_of rset) (filter is_outcome ds)) (filter (is_kind ''registration_set'') ds) = ok ()"
    by (simp_all add: authn_lease_bounds_def Let_def and_then_ok)
  show "authn_of (filter is_request ds) (filter is_outcome ds) rset = ok ()" "limits_of rset out = ok ()"
    using parts(1,3) assms(2-5) by (simp_all add: for_each_ok)
  assume "registration \<in> set (get_list ''registrations'' rset)"
  with parts(2) assms(2,3) have "lease_of ad (filter is_outcome ds) registration = ok ()" by (simp add: for_each_ok)
  then obtain lease where lease: "get_str ''lease_expires_at'' registration = Some lease"
    and "\<forall>out \<in> set (filter is_outcome ds). \<exists>completed. get_str ''completed_at'' out = Some completed \<and> (\<exists>rel. compare_texts ad lease completed = ok rel \<and>
        \<not> (rel < 0 \<and> str_or_empty ''outcome_kind'' out \<noteq> ''reauthentication_required''))"
    by (auto simp: lease_of_def admits split: option.splits)
  with assms(4,5) obtain completed rel where c: "get_str ''completed_at'' out = Some completed" "compare_texts ad lease completed = ok rel"
      "\<not> (rel < 0 \<and> str_or_empty ''outcome_kind'' out \<noteq> ''reauthentication_required'')" by auto
  from c(2) obtain i j where "parse_instant (ad_calendar ad) lease = P_Ok i" "parse_instant (ad_calendar ad) completed = P_Ok j"
      "rel = (if i < j then - 1 else if i = j then 0 else 1)" unfolding compare_texts_ok by blast
  with c lease show "\<exists>lease completed. get_str ''lease_expires_at'' registration = Some lease \<and> get_str ''completed_at'' out = Some completed \<and>
        (\<exists>i j. parse_instant (ad_calendar ad) lease = P_Ok i \<and> parse_instant (ad_calendar ad) completed = P_Ok j \<and>
           (i < j \<longrightarrow> str_or_empty ''outcome_kind'' out = ''reauthentication_required''))"
    by auto
qed

lemma limits_of_ok:
  assumes "limits_of rset out = ok ()" "str_or_empty ''outcome_kind'' out \<notin> {''partial'', ''coverage_degraded''}"
  shows "length (get_list ''events'' out) \<le> unat (u64_or_max ''max_events'' (j_get ''aggregate_limits'' rset))"
    and "registration \<in> set (get_list ''registrations'' rset) \<Longrightarrow>
      length (filter (\<lambda>e. get_str ''registration_id'' e = Some (str_or_empty ''registration_id'' registration)) (get_list ''events'' out))
        \<le> unat (u64_or_max ''max_events'' (j_get ''bounds'' registration))"
  using assms by (auto simp: limits_of_def Let_def admits not_less)

section \<open>Errors\<close>

text \<open>The errors of the rules are a fixed list: no text of the document is in them.\<close>

definition rule_errors :: "validation_error list" where
  "rule_errors =
     [timestamp_error,
      ve_new ''/message_type'' ''required'', ve_new ''/message_type'' ''undeclared_message_type'',
      ve_new ''/run_deadline'' ''required'', ve_new ''/logical_deadline'' ''required'', ve_new ''/completed_at'' ''required'',
      ve_new ''/registration_digest/value'' ''required'', ve_new ''/registrations'' ''required'',
      ve_new ''/registrations/lease_expires_at'' ''required'', ve_new ''/'' ''typed_decode'', ve_new ''/'' ''empty_target'',
      ve_normative ''/run_deadline'' ''must_be_at_or_before_logical_deadline'' DeadlineOrdering,
      ve_normative ''/registration_digest'' ''rfc8785_sha256'' RegistrationDigestMismatch,
      ve_normative ''/registration_digest/value'' ''digest_mismatch'' RegistrationDigestMismatch,
      ve_normative ''/outcome_kind'' ''required_arm_not_clean'' OutageNotClean,
      ve_normative ''/logical_deadline'' ''required'' NoChangeInvariants,
      ve_normative ''/logical_deadline'' ''required'' DeadmanInvariants,
      ve_normative ''/outcome_kind'' ''no_change_invariants'' NoChangeInvariants,
      ve_normative ''/outcome_kind'' ''deadman_invariants'' DeadmanInvariants,
      ve_normative ''/arms'' ''missing_required_arm'' CoverageCardinality,
      ve_normative ''/committed_anchors'' ''cross_registration'' CrossArmCommit,
      ve_normative ''/retained_events'' ''cross_registration'' CrossArmCommit,
      ve_normative ''/committed_anchors'' ''past_unretained'' AckPastUnretained,
      ve_normative ''/next_fairness_cursor'' ''starvation'' FairnessStarvation,
      ve_normative ''/proposed_next_anchors'' ''silent_advance'' SilentCursorAdvance,
      ve_normative ''/registration_revision'' ''revision_mismatch'' RevisionCross,
      ve_normative ''/verification_receipt_ref'' ''required'' AuthnRequired,
      ve_normative ''/completed_at'' ''lease_expired'' LeaseReauth,
      ve_normative ''/events'' ''registration_max_events'' RegistrationBound,
      ve_normative ''/events'' ''aggregate_max_events'' AggregateBound]"

definition fixed :: "error \<Rightarrow> bool" where
  "fixed err \<longleftrightarrow> err \<in> EValidation ` set rule_errors"

definition safe :: "'a checked \<Rightarrow> bool" where
  "safe m \<longleftrightarrow> (\<forall>err. m = Some (Inl err) \<longrightarrow> fixed err)"

lemma safe_ok [simp]: "safe (ok x)"
  by (simp add: safe_def)

lemma safe_and_then [intro]: "safe m \<Longrightarrow> (\<And>x. safe (f x)) \<Longrightarrow> safe (and_then m f)"
  by (auto simp: safe_def rejected)

lemma safe_for_each [intro]: "(\<And>x. safe (f x)) \<Longrightarrow> safe (for_each f xs)"
  by (auto simp: safe_def dest: for_each_err)

lemma safe_reject: "e \<in> set rule_errors \<Longrightarrow> safe (reject_if b e)" "e \<in> set rule_errors \<Longrightarrow> safe (rejects e)"
  by (auto simp: safe_def reject_if_def fixed_def)

lemma safe_compare [intro]: "safe (compare_texts ad l r)"
  by (auto simp: safe_def fixed_def rule_errors_def dest: compare_texts_err)

lemma safe_string_field: "ve_new path ''required'' \<in> set rule_errors \<Longrightarrow> safe (string_field d path name)"
  by (auto simp: safe_def fixed_def rejected)

lemmas safe_rules = safe_reject safe_string_field safe_and_then safe_for_each safe_compare

lemma safe_per_message: "safe (per_message_normative ad d)"
proof -
  have clean: "safe (clean_kind ad d c arm_ok late constraint reason)"
    if "ve_normative ''/logical_deadline'' ''required'' reason \<in> set rule_errors" "ve_normative ''/outcome_kind'' constraint reason \<in> set rule_errors"
    for c arm_ok late constraint reason
    unfolding clean_kind_def using that by (auto intro!: safe_rules split: option.split)
  have "safe (outcome_normative ad d)"
    unfolding outcome_normative_def Let_def by (auto intro!: safe_rules clean simp: rule_errors_def)
  moreover have "safe (deadline_order ad d)"
    unfolding deadline_order_def by (auto intro!: safe_rules simp: rule_errors_def)
  moreover have "safe (digest_matches ad d)"
    unfolding digest_matches_def verify_registration_digest_def
    by (auto intro!: safe_rules simp: rule_errors_def split: option.split sum.split)
  ultimately show ?thesis
    unfolding per_message_normative_def Let_def by (auto intro!: safe_rules)
qed

lemma safe_set_rules: "safe (set_rules ad ds)"
proof -
  have "safe (coverage_cardinality ds)" unfolding coverage_cardinality_def Let_def by (auto intro!: safe_rules simp: rule_errors_def)
  moreover have "safe (ack_of ack out)" for ack out
    unfolding ack_of_def Let_def by (auto intro!: safe_rules simp: rule_errors_def split: prod.split)
  then have "safe (ack_rules ds)" unfolding ack_rules_def Let_def by (auto intro!: safe_rules split: option.split)
  moreover have "safe (fairness_starvation ds)" unfolding fairness_starvation_def fairness_of_def Let_def
    by (auto intro!: safe_rules simp: rule_errors_def split: prod.split)
  moreover have "safe (silent_cursor_advance ds)" unfolding silent_cursor_advance_def Let_def
    by (auto intro!: safe_rules simp: rule_errors_def)
  moreover have "safe (revision_cross ds)" unfolding revision_cross_def Let_def by (auto intro!: safe_rules simp: rule_errors_def)
  moreover have "safe (authn_lease_bounds ad ds)"
    unfolding authn_lease_bounds_def authn_of_def lease_of_def limits_of_def Let_def
    by (auto intro!: safe_rules simp: rule_errors_def split: option.split)
  ultimately show ?thesis unfolding set_rules_def by (auto intro!: safe_rules)
qed

end
