(* ===== verification/Contract_Closure.thy ===== *)
theory Contract_Closure
  imports Contract
begin

text \<open>
  The selected schema is self-contained: its definitions are those its references reach, no more
  and no fewer, and selection succeeds exactly when every name it reaches is defined.
\<close>

inductive reaches :: "(string, json) btree \<Rightarrow> json \<Rightarrow> string \<Rightarrow> bool" for defs root where
  reaches_root: "n \<in> refs_of root \<Longrightarrow> reaches defs root n"
| reaches_step: "reaches defs root a \<Longrightarrow> bt_get defs a = Some v \<Longrightarrow> n \<in> refs_of v \<Longrightarrow> reaches defs root n"

text \<open>What holds whenever the loop looks at its stack.\<close>

definition work_inv :: "(string, json) btree \<Rightarrow> json \<Rightarrow> names \<Rightarrow> string list \<Rightarrow> bool" where
  "work_inv defs root needed stack \<longleftrightarrow>
     set stack \<subseteq> fst ` set needed \<and> refs_of root \<subseteq> fst ` set needed \<and>
     (\<forall>a \<in> fst ` set needed. reaches defs root a) \<and>
     (\<forall>a \<in> fst ` set needed - set stack. \<exists>v. bt_get defs a = Some v \<and> refs_of v \<subseteq> fst ` set needed)"

lemma set_push_new:
  "set (snd (push_new extra needed stack)) = set stack \<union> (set extra - fst ` set needed)"
  by (induction extra needed stack rule: push_new.induct) (auto simp: bt_contains_iff)

lemma work_inv_turn:
  assumes inv: "work_inv defs root needed stack" and ne: "stack \<noteq> []"
    and node: "bt_get defs (last stack) = Some node"
    and p: "push_new (bt_keys (collect_def_refs node [])) needed (butlast stack) = (needed', stack')"
  shows "work_inv defs root needed' stack'"
proof -
  let ?extra = "bt_keys (collect_def_refs node [])"
  have e: "set ?extra = refs_of node" by (simp add: bt_keys_def refs_of_def)
  have n: "fst ` set needed' = refs_of node \<union> fst ` set needed"
    using fst_push_new [of ?extra needed "butlast stack"] p e by simp
  have s: "set stack' = set (butlast stack) \<union> (refs_of node - fst ` set needed)"
    using set_push_new [of ?extra needed "butlast stack"] p e by simp
  have l: "set stack = insert (last stack) (set (butlast stack))"
    using ne by (metis append_butlast_last_id list.set(2) rotate1.simps(2) set_rotate1)
  have r: "reaches defs root (last stack)" using inv l by (auto simp: work_inv_def)
  show ?thesis
    unfolding work_inv_def n s
  proof (intro conjI ballI)
    fix a assume a: "a \<in> refs_of node \<union> fst ` set needed - (set (butlast stack) \<union> (refs_of node - fst ` set needed))"
    show "\<exists>v. bt_get defs a = Some v \<and> refs_of v \<subseteq> refs_of node \<union> fst ` set needed"
    proof (cases "a = last stack")
      case True
      with node show ?thesis by auto
    next
      case False
      with a l have "a \<in> fst ` set needed - set stack" by auto
      with inv show ?thesis unfolding work_inv_def by blast
    qed
  qed (use inv l reaches_step [OF r node] in \<open>auto simp: work_inv_def\<close>)
qed

lemma close_refs_exact:
  assumes "work_inv defs root needed stack"
  shows "case close_refs defs needed stack of
      Inr needed' \<Rightarrow> fst ` set needed' = {n. reaches defs root n} \<and> (\<forall>n. reaches defs root n \<longrightarrow> bt_contains defs n)
    | Inl err \<Rightarrow> err = ve_new ''/$defs'' ''missing_kind'' \<and> (\<exists>n. reaches defs root n \<and> \<not> bt_contains defs n)"
  using assms
proof (induction defs needed stack rule: close_refs.induct)
  case (1 defs needed stack)
  show ?case
  proof (cases "stack = []")
    case True
    have n: "reaches defs root n \<longrightarrow> n \<in> fst ` set needed \<and> bt_contains defs n" for n
    proof
      assume "reaches defs root n"
      then have "n \<in> fst ` set needed"
        by (induction rule: reaches.induct) (use 1(2) True in \<open>force simp: work_inv_def\<close>)+
      moreover have "\<forall>a \<in> fst ` set needed. bt_contains defs a"
        using 1(2) True by (auto simp: work_inv_def bt_contains_def)
      ultimately show "n \<in> fst ` set needed \<and> bt_contains defs n" by blast
    qed
    have "fst ` set needed = {n. reaches defs root n}"
      using n 1(2) by (auto simp: work_inv_def)
    with n True show ?thesis by (simp add: close_refs.simps)
  next
    case False
    show ?thesis
    proof (cases "bt_get defs (last stack)")
      case None
      have "reaches defs root (last stack)" using 1(2) last_in_set [OF False] unfolding work_inv_def by blast
      with None False show ?thesis by (auto simp: close_refs.simps [of defs needed stack] bt_contains_def)
    next
      case (Some node)
      obtain needed' stack' where p: "push_new (bt_keys (collect_def_refs node [])) needed (butlast stack) = (needed', stack')"
        by fastforce
      note inv = work_inv_turn [OF 1(2) False Some p]
      have "close_refs defs needed stack = close_refs defs needed' stack'"
        using False Some p by (simp add: close_refs.simps [of defs needed stack])
      then show ?thesis using 1(1) [OF False Some p [symmetric] inv] by simp
    qed
  qed
qed

lemma work_inv_start: "work_inv defs root (collect_def_refs root []) (bt_keys (collect_def_refs root []))"
  by (auto simp: work_inv_def bt_keys_def refs_of_def intro: reaches_root [unfolded refs_of_def])

lemma bt_get_pick:
  "bt_get (bt_collect (map (\<lambda>n. (n, f n)) ns)) k = (if k \<in> set ns then Some (f k) else None)"
proof -
  have "map_of (map (\<lambda>n. (n, f n)) (rev ns)) k = (if k \<in> set ns then Some (f k) else None)"
    by (simp add: map_of_map_restrict)
  then show ?thesis by (simp add: bt_get_collect rev_map)
qed

lemma select_message_schema_exact:
  assumes "j_get_as j_object ''$defs'' entry = Some defs" "bt_get defs (def_name_for kind) = Some (JObject m)"
  shows "(\<exists>s. select_message_schema entry kind = Inr s) \<longleftrightarrow> (\<forall>n. reaches defs (JObject m) n \<longrightarrow> bt_contains defs n)"
    and "select_message_schema entry kind = Inr s \<Longrightarrow> \<exists>selected. j_get_as j_object ''$defs'' s = Some selected \<and>
      (\<forall>n. bt_get selected n = (if reaches defs (JObject m) n then bt_get defs n else None))"
    and "select_message_schema entry kind = Inr s \<Longrightarrow> key \<noteq> ''$defs'' \<Longrightarrow> key \<noteq> ''$id'' \<Longrightarrow> key \<noteq> ''$schema'' \<Longrightarrow>
      distinct (map fst m) \<Longrightarrow> j_get key s = bt_get m key"
proof -
  let ?root = "JObject m"
  define start where "start = collect_def_refs ?root []"
  have exact: "case close_refs defs start (bt_keys start) of
      Inr needed' \<Rightarrow> fst ` set needed' = {n. reaches defs ?root n} \<and> (\<forall>n. reaches defs ?root n \<longrightarrow> bt_contains defs n)
    | Inl err \<Rightarrow> err = ve_new ''/$defs'' ''missing_kind'' \<and> (\<exists>n. reaches defs ?root n \<and> \<not> bt_contains defs n)"
    unfolding start_def by (rule close_refs_exact [OF work_inv_start])
  have unfold: "select_message_schema entry kind =
      (case close_refs defs start (bt_keys start) of
         Inl err \<Rightarrow> Inl (EValidation err)
       | Inr needed \<Rightarrow> (case pick_defs defs (bt_keys needed) of
           Inl err \<Rightarrow> Inl (EValidation err)
         | Inr selected \<Rightarrow> Inr (JObject (bt_insert ''$defs'' (JObject selected)
             (bt_from_list (filter (\<lambda>(key, _). key \<noteq> ''$id'') m)
                (case j_get ''$schema'' entry of None \<Rightarrow> [] | Some schema \<Rightarrow> bt_insert ''$schema'' schema []))))))"
    unfolding select_message_schema_def Let_def by (simp add: assms j_object_def start_def)
  show "(\<exists>s. select_message_schema entry kind = Inr s) \<longleftrightarrow> (\<forall>n. reaches defs ?root n \<longrightarrow> bt_contains defs n)"
  proof (cases "close_refs defs start (bt_keys start)")
    case (Inl err)
    with exact show ?thesis by (auto simp: unfold)
  next
    case (Inr needed)
    with exact have "list_all (bt_contains defs) (bt_keys needed)" "\<forall>n. reaches defs ?root n \<longrightarrow> bt_contains defs n"
      by (auto simp: list_all_iff bt_keys_def)
    with Inr show ?thesis by (simp add: unfold pick_defs_def)
  qed
  assume s: "select_message_schema entry kind = Inr s"
  then obtain needed where needed: "close_refs defs start (bt_keys start) = Inr needed"
    by (auto simp: unfold split: sum.splits)
  define selected where "selected = bt_collect (map (\<lambda>name. (name, the (bt_get defs name))) (bt_keys needed))"
  have keys: "set (bt_keys needed) = {n. reaches defs ?root n}" "\<And>n. reaches defs ?root n \<Longrightarrow> bt_contains defs n"
    using exact needed by (auto simp: bt_keys_def)
  have s': "s = JObject (bt_insert ''$defs'' (JObject selected)
      (bt_from_list (filter (\<lambda>(key, _). key \<noteq> ''$id'') m)
         (case j_get ''$schema'' entry of None \<Rightarrow> [] | Some schema \<Rightarrow> bt_insert ''$schema'' schema [])))"
    using s by (auto simp: unfold needed pick_defs_def selected_def split: if_splits)
  have "bt_get selected n = (if reaches defs ?root n then bt_get defs n else None)" for n
    using keys by (auto simp: selected_def bt_get_pick bt_contains_def)
  then show "\<exists>selected. j_get_as j_object ''$defs'' s = Some selected \<and>
      (\<forall>n. bt_get selected n = (if reaches defs ?root n then bt_get defs n else None))"
    by (simp add: s' j_get_def j_object_def)
  assume key: "key \<noteq> ''$defs''" "key \<noteq> ''$id''" "key \<noteq> ''$schema''" "distinct (map fst m)"
  have "map_of (rev (filter (\<lambda>(key, _). key \<noteq> ''$id'') m)) key = map_of m key"
  proof -
    have d: "distinct (map fst (filter (\<lambda>(key, _). key \<noteq> ''$id'') m))" using key(4) by (rule distinct_map_filter)
    have "map_of (rev (filter (\<lambda>(key, _). key \<noteq> ''$id'') m)) = map_of (filter (\<lambda>(key, _). key \<noteq> ''$id'') m)"
      using d map_of_inject_set [of "rev (filter (\<lambda>(key, _). key \<noteq> ''$id'') m)" "filter (\<lambda>(key, _). key \<noteq> ''$id'') m"]
      by (simp flip: rev_map)
    moreover have "map_of (filter (\<lambda>(key, _). key \<noteq> ''$id'') m) key = map_of m key"
      using key(2) by (induction m) auto
    ultimately show ?thesis by simp
  qed
  then show "j_get key s = bt_get m key"
    using key by (simp add: s' j_get_def [of key] bt_get_from_list bt_get_def [of m] bt_get_def [of "[_]"] split: option.split)
qed

end
