(* ===== verification/Outcome_Admission.thy ===== *)
theory Outcome_Admission
  imports Wire_Json Validate_Rules Contract_Closure Poll_Outcome_Contract Testkit_Clock
begin

text \<open>
  What the runners emit against what the validator admits: the JSON of a poll-cycle outcome, with
  that of its request and registration set, under the rules of \<open>validate.rs\<close>.
\<close>

section \<open>Members of the messages\<close>

lemma j_get_object: "j_get name (object ms) = map_of (rev ms) name"
  by (simp add: object_def j_get_def bt_get_collect)

lemma map_of_optional: "map_of (rev (optional n v)) = (\<lambda>name. if name = n then v else None)"
  by (auto simp: optional_def fun_eq_iff split: option.split)

lemmas member = j_get_object header_fields_def map_of_optional map_add_def

lemmas reads_member = get_str_def get_list_def str_or_empty_def is_true_def is_false_def is_kind_def
  j_str_def j_array_def j_bool_def id_json_def ts_json_def opaque_json_def

lemma arm_members [simp]:
  "is_true ''required'' (arm_json a) = arm_required a" "get_str ''arm_id'' (arm_json a) = Some (id_str (arm_id a))"
  "get_str ''status'' (arm_json a) = Some (arm_status_str (arm_stat a))"
  "is_true ''degraded'' (arm_json a) = arm_degraded a" "is_false ''degraded'' (arm_json a) = (\<not> arm_degraded a)"
  by (simp_all add: arm_json_def member reads_member)

lemma outcome_members [simp]:
  "get_str ''message_type'' (poll_cycle_outcome_json r) = Some ''poll_cycle_outcome''"
  "get_str ''completed_at'' (poll_cycle_outcome_json r) = Some (ts_raw (po_completed_at r))"
  "get_str ''logical_deadline'' (poll_cycle_outcome_json r) = Some (ts_raw (po_logical_deadline r))"
  "get_str ''outcome_kind'' (poll_cycle_outcome_json r) = Some (outcome_kind_str (po_outcome_kind r))"
  "get_list ''events'' (poll_cycle_outcome_json r) = map event_json (po_events r)"
  "get_list ''arms'' (poll_cycle_outcome_json r) = map arm_json (po_arms r)"
  "is_true ''coverage_complete'' (poll_cycle_outcome_json r) = po_coverage_complete r"
  "j_get ''retained_through'' (poll_cycle_outcome_json r) = Some (anchors_json (po_retained_through r))"
  "j_get ''retained_events'' (poll_cycle_outcome_json r) = Some (event_ids_json (po_retained_events r))"
  "get_str ''message_id'' (poll_cycle_outcome_json r) = Some (id_str (message_id r))"
  by (simp_all add: poll_cycle_outcome_json_def member reads_member)

lemma ack_members [simp]:
  "get_str ''message_type'' (poll_cycle_ack_json r) = Some ''poll_cycle_ack''"
  "get_str ''outcome_ref'' (poll_cycle_ack_json r) = Some (id_str (pa_outcome_ref r))"
  "j_get ''committed_anchors'' (poll_cycle_ack_json r) = Some (anchors_json (pa_committed_anchors r))"
  "j_get ''retained_events'' (poll_cycle_ack_json r) = Some (event_ids_json (pa_retained_events r))"
  by (simp_all add: poll_cycle_ack_json_def member reads_member)

lemma request_members [simp]:
  "get_str ''message_type'' (poll_cycle_request_json r) = Some ''poll_cycle_request''"
  "get_str ''registration_revision'' (poll_cycle_request_json r) = Some (id_str (pr_registration_revision r))"
  "get_str ''verification_receipt_ref'' (poll_cycle_request_json r) = map_option opaque_str (verification_receipt_ref r)"
  "get_list ''required_arms'' (poll_cycle_request_json r) = map id_json (pr_required_arms r)"
  by (simp_all add: poll_cycle_request_json_def member reads_member split: option.split)

lemma set_members [simp]:
  "get_str ''message_type'' (registration_set_json s) = Some ''registration_set''"
  "get_str ''registration_revision'' (registration_set_json s) = Some (id_str (rs_registration_revision s))"
  "get_str ''authn_mode'' (registration_set_json s) = Some (authn_mode_str (rs_authn_mode s))"
  "get_list ''registrations'' (registration_set_json s) = map registration_json (rs_registrations s)"
  "j_get ''aggregate_limits'' (registration_set_json s) = Some (wait_bound_json (rs_aggregate_limits s))"
  by (simp_all add: registration_set_json_def member reads_member)

lemma registration_members [simp]:
  "get_str ''lease_expires_at'' (registration_json r) = Some (ts_raw (reg_lease_expires_at r))"
  "get_str ''registration_id'' (registration_json r) = Some (id_str (reg_id r))"
  "j_get ''bounds'' (registration_json r) = Some (wait_bound_json (reg_bounds r))"
  by (simp_all add: registration_json_def member reads_member)

lemma event_members [simp]: "get_str ''registration_id'' (event_json e) = Some (id_str (ev_registration_id e))"
  by (simp add: event_json_def member reads_member)

lemma bound_members [simp]: "u64_or_max ''max_events'' (Some (wait_bound_json b)) = wb_max_events b"
  by (simp add: wait_bound_json_def u64_or_max_def member u64_json_def j_u64_def n_as_u64_def)

section \<open>One outcome\<close>

text \<open>A timestamp whose text is its instant.\<close>

definition ts_faithful :: "calendar \<Rightarrow> timestamp \<Rightarrow> bool" where
  "ts_faithful cal t \<longleftrightarrow> parse_instant cal (ts_raw t) = P_Ok (ts_instant t)"

lemma compare_faithful:
  "ts_faithful (ad_calendar ad) a \<Longrightarrow> ts_faithful (ad_calendar ad) b \<Longrightarrow> compare_texts ad (ts_raw a) (ts_raw b) = ok (ts_compare a b)"
  by (simp add: compare_texts_ok ts_faithful_def ts_compare_def)

lemma required_arms_json: "required_arms_of (poll_cycle_outcome_json out) = map arm_json (filter arm_required (po_arms out))"
  by (simp add: required_arms_of_def filter_map comp_def)

lemma arm_status_str_eq [simp]:
  "arm_status_str s = ''outage'' \<longleftrightarrow> s = AS_Outage" "arm_status_str s = ''cursor_uncertain'' \<longleftrightarrow> s = AS_CursorUncertain"
  "arm_status_str s = ''no_change'' \<longleftrightarrow> s = AS_NoChange"
  by (cases s; simp)+

lemma outcome_kind_str_eq [simp]:
  "outcome_kind_str k = ''no_change'' \<longleftrightarrow> k = NoChange" "outcome_kind_str k = ''logical_deadman'' \<longleftrightarrow> k = LogicalDeadman"
  "outcome_kind_str k = ''partial'' \<longleftrightarrow> k = Partial" "outcome_kind_str k = ''coverage_degraded'' \<longleftrightarrow> k = CoverageDegraded"
  "outcome_kind_str k = ''events'' \<longleftrightarrow> k = Events"
  "outcome_kind_str k = ''reauthentication_required'' \<longleftrightarrow> k = ReauthenticationRequired"
  by (cases k; simp)+

lemma arm_json_ok [simp]:
  "arm_dirty (arm_json a) \<longleftrightarrow> arm_stat a = AS_Outage \<or> arm_stat a = AS_CursorUncertain \<or> arm_degraded a"
  "arm_no_change (arm_json a) \<longleftrightarrow> arm_stat a = AS_NoChange \<and> \<not> arm_degraded a"
  "arm_complete (arm_json a) \<longleftrightarrow> \<not> arm_degraded a \<and> arm_stat a \<noteq> AS_Outage \<and> arm_stat a \<noteq> AS_CursorUncertain"
  by (auto simp: arm_dirty_def arm_no_change_def arm_complete_def str_or_empty_def)

lemma poll_outcome_admitted:
  assumes ok: "poll_outcome_ok rset req out"
    and ts: "ts_faithful (ad_calendar ad) (po_completed_at out)" "ts_faithful (ad_calendar ad) (po_logical_deadline out)"
    and cov: "po_outcome_kind out \<in> {NoChange, LogicalDeadman} \<Longrightarrow>
      po_coverage_complete out \<and> (\<exists>arm \<in> set (po_arms out). arm_required arm)"
  shows "outcome_normative ad (poll_cycle_outcome_json out) = ok ()"
proof -
  have cmp: "compare_texts ad (ts_raw (po_completed_at out)) (ts_raw (po_logical_deadline out)) =
      ok (ts_compare (po_completed_at out) (po_logical_deadline out))"
    using ts by (rule compare_faithful)
  have deadline: "po_logical_deadline out = pr_logical_deadline req" using ok by (simp add: poll_outcome_ok_def poll_echo_def)
  have some: "filter arm_required (po_arms out) \<noteq> []" if "po_outcome_kind out \<in> {NoChange, LogicalDeadman}"
    using cov [OF that] by (auto simp: filter_empty_conv)
  show ?thesis
    unfolding outcome_normative_ok
  proof (intro exI conjI impI)
    show "get_str ''completed_at'' (poll_cycle_outcome_json out) = Some (ts_raw (po_completed_at out))" by simp
    show "\<forall>arm \<in> set (required_arms_of (poll_cycle_outcome_json out)). \<not> arm_dirty arm"
      if "str_or_empty ''outcome_kind'' (poll_cycle_outcome_json out) \<in> {''no_change'', ''logical_deadman''}"
      using that ok
      by (auto simp: str_or_empty_def required_arms_json poll_outcome_ok_def required_unchanged_def required_sound_def)
    show "clean_kind ad (poll_cycle_outcome_json out) (ts_raw (po_completed_at out)) arm_no_change (\<lambda>rel. 0 \<le> rel)
        ''no_change_invariants'' NoChangeInvariants = ok ()"
      if "str_or_empty ''outcome_kind'' (poll_cycle_outcome_json out) = ''no_change''"
      using that ok cov some
      by (simp add: str_or_empty_def clean_kind_ok cmp [unfolded deadline] required_arms_json poll_outcome_ok_def required_unchanged_def deadline
          ts_compare_nonneg_iff ts_le_def ts_less_def)
    show "clean_kind ad (poll_cycle_outcome_json out) (ts_raw (po_completed_at out)) arm_complete (\<lambda>rel. rel < 0)
        ''deadman_invariants'' DeadmanInvariants = ok ()"
      if "str_or_empty ''outcome_kind'' (poll_cycle_outcome_json out) = ''logical_deadman''"
      using that ok cov some
      by (simp add: str_or_empty_def clean_kind_ok cmp [unfolded deadline] required_arms_json poll_outcome_ok_def required_sound_def deadline
          ts_compare_neg_iff ts_le_def ts_less_def)
  qed
qed

section \<open>The acknowledgment\<close>

lemma object_map_anchors: "object_map (Some (anchors_json m)) = map (\<lambda>(k, a). (k, anchor_json a)) m"
  by (simp add: object_map_def anchors_json_def j_object_def)

lemma string_list_map_ids: "string_list_map (Some (event_ids_json m)) = map (\<lambda>(k, ids). (k, map id_str ids)) m"
proof -
  have "List.map_filter j_str (map id_json ids) = map id_str ids" for ids
    by (induction ids) (simp_all add: id_json_def j_str_def map_filter_simps)
  then show ?thesis
    by (auto simp: string_list_map_def object_map_def event_ids_json_def j_object_def j_array_def)
qed

lemma bt_get_map: "bt_get (map (\<lambda>(k, v). (k, f v)) m) k = map_option f (bt_get m k)"
  by (simp add: bt_get_def map_of_map)

text \<open>
  The commit of an outcome is admitted, unless two registrations retain an event of the same id:
  the rule then takes the event for another registration's.
\<close>

definition ids_apart :: "(string, id_token list) btree \<Rightarrow> bool" where
  "ids_apart m \<longleftrightarrow> (\<forall>(k, ids) \<in> set m. \<forall>(k', ids') \<in> set m. k \<noteq> k' \<longrightarrow> set ids \<inter> set ids' = {})"

lemma bt_get_mem: "bt_sorted m \<Longrightarrow> (k, v) \<in> set m \<Longrightarrow> bt_get m k = Some v"
  by (simp add: bt_get_def bt_sorted_distinct)

lemma ack_admitted:
  assumes s: "bt_sorted (po_retained_through out)" "bt_sorted (po_retained_events out)" and apart: "ids_apart (po_retained_events out)"
  shows "ack_of (poll_cycle_ack_json (ack_poll_outcome out)) (poll_cycle_outcome_json out) = ok ()"
proof -
  let ?anchors = "map (\<lambda>(k, a). (k, anchor_json a)) (po_retained_through out)"
  let ?ids = "map (\<lambda>(k, ids). (k, map id_str ids)) (po_retained_events out)"
  have anchors: "value_eq (bt_get ?anchors k) (Some a)" if "(k, a) \<in> set ?anchors" for k a
    using that bt_get_mem [OF s(1)] by (auto simp: bt_get_map value_eq_def)
  have ids: "bt_get ?ids k = Some es" if "(k, es) \<in> set ?ids" for k es
    using that bt_get_mem [OF s(2)] by (auto simp: bt_get_map)
  have mine: "\<not> event_stolen ?ids k e" if "(k, es) \<in> set ?ids" "e \<in> set es" for k es e
    using that apart by (fastforce simp: event_stolen_def list_ex_iff ids_apart_def)
  have "\<not> list_ex (\<lambda>(rid, anchor). \<not> value_eq (bt_get ?anchors rid) (Some anchor)) ?anchors"
    using anchors by (force simp: list_ex_iff)
  moreover have "\<not> list_ex (\<lambda>(rid, events). list_ex (\<lambda>event_id. event_id \<notin> set (case bt_get ?ids rid of None \<Rightarrow> [] | Some es \<Rightarrow> es)) events) ?ids"
    using ids by (force simp: list_ex_iff)
  moreover have "for_each (\<lambda>(rid, anchor). reject_if (anchor_stolen ?anchors rid anchor) err) ?anchors = ok ()" for err
    unfolding for_each_ok using anchors by (force simp: reject_if_ok anchor_stolen_def)
  moreover have "for_each (\<lambda>(rid, events). for_each (\<lambda>event_id. reject_if (event_stolen ?ids rid event_id) err) events) ?ids = ok ()" for err
    unfolding for_each_ok using mine by (force simp: reject_if_ok for_each_ok)
  ultimately show ?thesis
    unfolding ack_of_def Let_def and_then_ok reject_if_ok
    by (simp only: ack_members outcome_members object_map_anchors string_list_map_ids ack_poll_outcome_def poll_cycle_ack.simps) blast
qed

lemma set_keys_collect: "fst ` set (bt_collect es) = fst ` set es"
proof -
  have "fst ` set (bt_from_list es m) = fst ` set es \<union> fst ` set m" for m
    by (induction es m rule: bt_from_list.induct) auto
  then show ?thesis by (simp add: bt_collect_def)
qed

section \<open>The exchange\<close>

text \<open>What the posture checks and the bookkeeping of the runner guarantee.\<close>

definition exchange_ok :: "registration_set \<Rightarrow> poll_cycle_request \<Rightarrow> poll_cycle_outcome \<Rightarrow> bool" where
  "exchange_ok rset req out \<longleftrightarrow>
     (po_outcome_kind out \<notin> {Cancelled, Failed, ReauthenticationRequired} \<longrightarrow>
        (\<forall>reg \<in> set (rs_registrations rset). \<not> ts_less (reg_lease_expires_at reg) (po_completed_at out))) \<and>
     (\<not> is_rejection (po_outcome_kind out) \<longrightarrow> \<not> (rs_authn_mode rset = AuthnModeRequired \<and> verification_receipt_ref req = None)) \<and>
     (po_coverage_complete out \<longrightarrow> (\<forall>r \<in> set (pr_required_arms req). \<exists>arm \<in> set (po_arms out). id_str (arm_id arm) = id_str r)) \<and>
     bt_sorted (po_retained_through out) \<and> bt_sorted (po_retained_events out)"

lemma pc_build_maps:
  assumes "pc_build rset req now starts visits kind reason = Inr out"
  shows "bt_sorted (po_retained_through out)" "bt_sorted (po_retained_events out)"
  using assms by (auto simp: pc_build_def Let_def empty_event_map_from_arms_def split: if_splits)

lemma coverage_lists:
  "coverage_is_complete req arms kind \<Longrightarrow> r \<in> set (pr_required_arms req) \<Longrightarrow> \<exists>arm \<in> set arms. id_str (arm_id arm) = id_str r"
  by (force simp: coverage_is_complete_def list_all_iff list_ex_iff split: if_splits)

lemma run_poll_cycle_exchange:
  assumes r: "run_poll_cycle env rset req fuel w = (Some (Inr out), w')"
  shows "exchange_ok rset req out"
proof -
  from run_poll_cycle_decided [OF r] obtain b visits where
    b: "keys_below rset visits" "pc_decided rset req visits out" by metis
  from pc_decided_build [OF b(2,1)] obtain now starts visits' kind reason out' where
    o: "pc_build rset req now starts visits' kind reason = Inr out'" "out = apply_posture rset req out'"
      "(kind = Cancelled \<or> kind = Failed) \<and> reason \<noteq> None \<or>
       (kind, reason) = choose_kind req now (scan_cycle rset req visits') \<and> (\<forall>i < arm_count rset. bt_contains visits' i)"
    by metis
  have kind: "kind \<notin> {Refused, ReauthenticationRequired}"
    using o(3) by (auto elim!: choose_kind_cases)
  note f = pc_build_facts [OF o(1)] and m = pc_build_maps [OF o(1)]
  have cov: "po_coverage_complete out' \<Longrightarrow> r \<in> set (pr_required_arms req) \<Longrightarrow>
      \<exists>arm \<in> set (po_arms out'). id_str (arm_id arm) = id_str r" for r
    using coverage_lists f(5) by blast
  show ?thesis
    unfolding exchange_ok_def o(2) using kind f(2,3) m cov
    by (auto simp: apply_posture_def is_rejection_def list_ex_iff rebuild_reason_def Let_def empty_event_map_from_arms_def)
qed

definition exchange :: "registration_set \<Rightarrow> poll_cycle_request \<Rightarrow> poll_cycle_outcome \<Rightarrow> json list" where
  "exchange rset req out =
     map message_json [RegistrationSet rset, PollCycleRequest req, PollCycleOutcome out, PollCycleAck (ack_poll_outcome out)]"

lemma exchange_kinds:
  "filter (is_kind ''registration_set'') (exchange rset req out) = [registration_set_json rset]"
  "filter (is_kind ''poll_cycle_outcome'') (exchange rset req out) = [poll_cycle_outcome_json out]"
  "filter (is_kind ''poll_cycle_ack'') (exchange rset req out) = [poll_cycle_ack_json (ack_poll_outcome out)]"
  "filter (is_kind ''poll_cycle_request'') (exchange rset req out) = [poll_cycle_request_json req]"
  "filter is_outcome (exchange rset req out) = [poll_cycle_outcome_json out]"
  "filter is_request (exchange rset req out) = [poll_cycle_request_json req]"
  by (simp_all add: exchange_def is_kind_def is_outcome_def is_request_def)

lemma count_json: "length (filter (\<lambda>e. get_str ''registration_id'' e = Some rid) (map event_json evs)) = length (of_reg rid evs)"
  by (simp add: filter_map comp_def of_reg_def)

lemma exchange_admitted:
  assumes x: "exchange_ok rset req out" and echo: "poll_echo rset req out" and lim: "within_limits rset req (po_events out)"
    and res: "pc_resolve rset req = Inr ()"
    and ts: "ts_faithful (ad_calendar ad) (po_completed_at out)"
      "\<And>reg. reg \<in> set (rs_registrations rset) \<Longrightarrow> ts_faithful (ad_calendar ad) (reg_lease_expires_at reg)"
    and kind: "po_outcome_kind out \<notin> {Cancelled, Failed}" and apart: "ids_apart (po_retained_events out)"
  shows "set_rules ad (exchange rset req out) = ok ()"
proof -
  have "coverage_cardinality (exchange rset req out) = ok ()"
  proof -
    have "List.map_filter j_str (map id_json ids) = map id_str ids" for ids
      by (induction ids) (simp_all add: id_json_def j_str_def map_filter_simps)
    then have arms: "requested_arms (exchange rset req out) = map id_str (pr_required_arms req)"
      by (simp add: requested_arms_def exchange_kinds)
    have "List.map_filter (get_str ''arm_id'') (map arm_json as) = map (\<lambda>a. id_str (arm_id a)) as" for as :: "coverage_arm list"
      by (induction as) (simp_all add: map_filter_simps)
    then have have_arms: "List.map_filter (get_str ''arm_id'') (get_list ''arms'' (poll_cycle_outcome_json out)) = map (\<lambda>a. id_str (arm_id a)) (po_arms out)"
      by simp
    have keys: "set (bt_keys (bt_set xs)) = set xs" "bt_contains (bt_set xs) k \<longleftrightarrow> k \<in> set xs" for xs k
      using bt_get_pick [of "\<lambda>_. ()" xs] by (simp_all add: bt_set_def bt_contains_def bt_keys_def set_keys_collect image_image)
    have listed: "\<not> list_ex (\<lambda>arm. \<not> bt_contains (bt_set (map (\<lambda>a. id_str (arm_id a)) (po_arms out))) arm)
        (bt_keys (bt_set (map id_str (pr_required_arms req))))" if "po_coverage_complete out"
      unfolding list_ex_not keys using x that by (force simp: exchange_ok_def)
    have only: "d = poll_cycle_outcome_json out" if "d \<in> set (exchange rset req out)" "is_kind ''poll_cycle_outcome'' d" for d
    proof -
      have "d \<in> set (filter (is_kind ''poll_cycle_outcome'') (exchange rset req out))" using that by simp
      then show ?thesis by (simp add: exchange_kinds)
    qed
    with listed show ?thesis
      unfolding coverage_cardinality_def arms
      by (auto simp: for_each_ok reject_if_ok have_arms Let_def simp del: outcome_members(6) dest!: only)
  qed
  moreover have "ack_rules (exchange rset req out) = ok ()"
    using ack_admitted [OF _ _ apart] x by (simp add: ack_rules_def exchange_kinds Let_def exchange_ok_def and_then_ok ack_poll_outcome_def)
  moreover have "fairness_starvation (exchange rset req out) = ok ()"
    by (simp add: fairness_starvation_def exchange_kinds group_by_waiter_def fairness_of_def Let_def and_then_ok)
  moreover have "silent_cursor_advance (exchange rset req out) = ok ()"
    by (simp add: silent_cursor_advance_def exchange_kinds Let_def)
  moreover have "revision_cross (exchange rset req out) = ok ()"
    using res by (simp add: revision_cross_def exchange_kinds Let_def reject_if_ok pc_resolve_def split: if_splits)
  moreover have "authn_lease_bounds ad (exchange rset req out) = ok ()"
  proof -
    have clean: "clean_outcome (poll_cycle_outcome_json out) \<Longrightarrow> \<not> is_rejection (po_outcome_kind out)"
      by (cases "po_outcome_kind out") (auto simp: clean_outcome_def is_rejection_def)
    have "authn_of [poll_cycle_request_json req] [poll_cycle_outcome_json out] (registration_set_json rset) = ok ()"
      using x clean by (cases "rs_authn_mode rset") (auto simp: authn_of_def reject_if_ok Let_def exchange_ok_def)
    moreover have "lease_of ad [poll_cycle_outcome_json out] (registration_json reg) = ok ()" if "reg \<in> set (rs_registrations rset)" for reg
    proof -
      have "\<not> (ts_less (reg_lease_expires_at reg) (po_completed_at out) \<and> po_outcome_kind out \<noteq> ReauthenticationRequired)"
        using x kind that by (auto simp: exchange_ok_def)
      then show ?thesis
        using compare_faithful [OF ts(2) [OF that] ts(1)]
        by (simp add: lease_of_def and_then_ok string_field_ok reject_if_ok ts_compare_neg_iff str_or_empty_def)
    qed
    moreover have "limits_of (registration_set_json rset) (poll_cycle_outcome_json out) = ok ()"
      using lim by (auto simp: limits_of_def Let_def and_then_ok for_each_ok reject_if_ok str_or_empty_def within_limits_def
          not_less filter_map comp_def of_reg_def)
    ultimately show ?thesis
      by (simp add: authn_lease_bounds_def exchange_kinds Let_def and_then_ok for_each_ok)
  qed
  ultimately show ?thesis unfolding set_rules_def and_then_ok by blast
qed

end
