(* ===== verification/Rfc3339_Format.thy ===== *)
theory Rfc3339_Format
  imports Rfc3339
begin

text \<open>
  The profile and the renderer agree: what \<open>format_utc\<close> writes parses back, a numeric offset
  shifts the instant, and fraction digits past the sixth do not count.
\<close>

section \<open>Decimal digits\<close>

lemma byte_digit [simp]: "d < 10 \<Longrightarrow> byte (digit_char d) = 48 + d" "d < 10 \<Longrightarrow> is_digit (digit_char d)"
  by (simp_all add: byte_def digit_char_def is_digit_def)

lemma digits_value_snoc [simp]: "digits_value (ds @ [d]) = digits_value ds * 10 + (byte d - 48)"
  by (simp add: digits_value_def)

lemma digits_value_Nil [simp]: "digits_value [] = 0"
  by (simp add: digits_value_def)

lemma dec_digits: "list_all is_digit (dec n) \<and> digits_value (dec n) = n"
proof (induction n rule: dec.induct)
  case (1 n)
  show ?case
  proof (cases "n < 10")
    case True
    then show ?thesis using digits_value_snoc [of "[]" "digit_char n"] by (simp add: dec.simps)
  next
    case False
    with 1 show ?thesis by (subst (1 2) dec.simps) simp
  qed
qed

lemma dec_length: "n < 10 ^ Suc w \<Longrightarrow> length (dec n) \<le> Suc w"
proof (induction w arbitrary: n)
  case 0
  then show ?case by (simp add: dec.simps)
next
  case (Suc w)
  show ?case
  proof (cases "n < 10")
    case True
    then show ?thesis by (simp add: dec.simps)
  next
    case False
    have "n div 10 < 10 ^ Suc w" using Suc.prems by (simp add: less_mult_imp_div_less mult.commute)
    from Suc.IH [OF this] False show ?thesis by (subst dec.simps) simp
  qed
qed

lemma byte_0 [simp]: "is_digit (CHR ''0'')" "byte (CHR ''0'') = 48"
  by (simp_all add: is_digit_def byte_def)

lemma digits_value_zeros [simp]: "digits_value (replicate k (CHR ''0'') @ ds) = digits_value ds"
proof -
  have "foldl (\<lambda>v b. v * 10 + (byte b - 48)) 0 (replicate k (CHR ''0'')) = 0"
    by (induction k) simp_all
  then show ?thesis by (simp add: digits_value_def)
qed

lemma pad0_digits:
  assumes "n < 10 ^ Suc w"
  shows "length (pad0 (Suc w) (dec n)) = Suc w" "list_all is_digit (pad0 (Suc w) (dec n))"
    "digits_value (pad0 (Suc w) (dec n)) = n"
  using dec_length [OF assms] dec_digits [of n]
  by (auto simp: pad0_def list_all_iff)

lemma parse_padded: "n < 10 ^ Suc w \<Longrightarrow> parse_n_digits (pad0 (Suc w) (dec n)) (Suc w) = Some n"
  using pad0_digits [of n w] by (simp add: parse_n_digits_def)

section \<open>Fields by position\<close>

lemma slice_append:
  "length pre = i \<Longrightarrow> length ds = j - i \<Longrightarrow> slice i j (pre @ ds @ rest) = ds"
  by (simp add: slice_def)

text \<open>The nineteen bytes of date and time.\<close>

definition date_time :: "string \<Rightarrow> string \<Rightarrow> string \<Rightarrow> char \<Rightarrow> string \<Rightarrow> string \<Rightarrow> string \<Rightarrow> string" where
  "date_time ys ms ds t hs ns ss = ys @ ''-'' @ ms @ ''-'' @ ds @ [t] @ hs @ '':'' @ ns @ '':'' @ ss"

definition date_time_ok :: "string \<Rightarrow> string \<Rightarrow> string \<Rightarrow> char \<Rightarrow> string \<Rightarrow> string \<Rightarrow> string \<Rightarrow> bool" where
  "date_time_ok ys ms ds t hs ns ss \<longleftrightarrow>
     length ys = 4 \<and> length ms = 2 \<and> length ds = 2 \<and> length hs = 2 \<and> length ns = 2 \<and> length ss = 2 \<and>
     list_all is_digit (ys @ ms @ ds @ hs @ ns @ ss) \<and> (t = CHR ''T'' \<or> t = CHR ''t'')"

lemma date_time_slices:
  assumes "date_time_ok ys ms ds t hs ns ss"
  shows "slice 0 4 (date_time ys ms ds t hs ns ss @ rest) = ys" "slice 5 7 (date_time ys ms ds t hs ns ss @ rest) = ms"
    "slice 8 10 (date_time ys ms ds t hs ns ss @ rest) = ds" "slice 11 13 (date_time ys ms ds t hs ns ss @ rest) = hs"
    "slice 14 16 (date_time ys ms ds t hs ns ss @ rest) = ns" "slice 17 19 (date_time ys ms ds t hs ns ss @ rest) = ss"
    "(date_time ys ms ds t hs ns ss @ rest) ! 4 = CHR ''-''" "(date_time ys ms ds t hs ns ss @ rest) ! 7 = CHR ''-''"
    "(date_time ys ms ds t hs ns ss @ rest) ! 10 = t" "(date_time ys ms ds t hs ns ss @ rest) ! 13 = CHR '':''"
    "(date_time ys ms ds t hs ns ss @ rest) ! 16 = CHR '':''" "length (date_time ys ms ds t hs ns ss) = 19"
  using assms by (simp_all add: date_time_ok_def date_time_def slice_def nth_append)

lemma parse_fields_date_time:
  assumes "date_time_ok ys ms ds t hs ns ss"
  shows "parse_fields (date_time ys ms ds t hs ns ss @ rest) =
    (if digits_value hs \<le> 23 \<and> digits_value ns \<le> 59 \<and> digits_value ss < 60
     then (case parse_fraction (date_time ys ms ds t hs ns ss @ rest) 19 of
             None \<Rightarrow> None
           | Some (nanos, idx) \<Rightarrow>
               map_option (\<lambda>zone. (digits_value ys, digits_value ms, digits_value ds,
                   digits_value hs * 3600 + digits_value ns * 60 + digits_value ss, nanos, zone))
                 (parse_zone (date_time ys ms ds t hs ns ss @ rest) idx))
     else None)"
proof -
  note s = date_time_slices [OF assms]
  have "length ys = 4" "length ms = 2" "length ds = 2" "length hs = 2" "length ns = 2" "length ss = 2"
    "list_all is_digit ys" "list_all is_digit ms" "list_all is_digit ds" "list_all is_digit hs"
    "list_all is_digit ns" "list_all is_digit ss" "t = CHR ''T'' \<or> t = CHR ''t''"
    using assms by (auto simp: date_time_ok_def)
  with s show ?thesis
    by (auto simp: parse_fields_def parse_n_digits_def expect_def ensure_def map_option_case
        split: option.splits prod.splits)
qed

lemma length_4: "length xs = 4 \<Longrightarrow> \<exists>a b c d. xs = [a, b, c, d]"
  by (auto simp: numeral_eq_Suc length_Suc_conv)

lemma length_2: "length xs = 2 \<Longrightarrow> \<exists>a b. xs = [a, b]"
  by (auto simp: numeral_eq_Suc length_Suc_conv)

text \<open>Every text the parser does not refuse starts with a date and time.\<close>

lemma parse_fields_SomeD:
  assumes "parse_fields text = Some f" "20 \<le> length text"
  obtains ys ms ds t hs ns ss rest where "date_time_ok ys ms ds t hs ns ss"
    "text = date_time ys ms ds t hs ns ss @ rest"
proof -
  define ys ms ds hs ns ss where "ys = slice 0 4 text" "ms = slice 5 7 text" "ds = slice 8 10 text"
    "hs = slice 11 13 text" "ns = slice 14 16 text" "ss = slice 17 19 text"
  note d = this
  from assms(1) have p: "parse_n_digits ys 4 \<noteq> None" "parse_n_digits ms 2 \<noteq> None" "parse_n_digits ds 2 \<noteq> None"
    "parse_n_digits hs 2 \<noteq> None" "parse_n_digits ns 2 \<noteq> None" "parse_n_digits ss 2 \<noteq> None"
    "text ! 4 = CHR ''-''" "text ! 7 = CHR ''-''" "text ! 13 = CHR '':''" "text ! 16 = CHR '':''"
    "text ! 10 = CHR ''T'' \<or> text ! 10 = CHR ''t''"
    unfolding d by (auto simp: parse_fields_def bind_eq_Some_conv expect_def ensure_def split: if_splits)
  have ok: "date_time_ok ys ms ds (text ! 10) hs ns ss"
    using p by (auto simp: date_time_ok_def parse_n_digits_def split: if_splits)
  have nth: "drop i text = text ! i # drop (Suc i) text" if "i < 20" for i
    using that assms(2) by (intro Cons_nth_drop_Suc [symmetric]) simp
  have "text = date_time ys ms ds (text ! 10) hs ns ss @ drop 19 text"
  proof -
    have "text = drop 0 text" by simp
    also have "drop 0 text = date_time ys ms ds (text ! 10) hs ns ss @ drop 19 text"
      using p by (simp add: date_time_def d slice_def nth numeral_eq_Suc del: drop0)
    finally show ?thesis .
  qed
  with ok show ?thesis by (rule that)
qed

section \<open>Fraction and zone\<close>

lemma nth_end [simp]: "(pre @ c # cs) ! length pre = c"
  by simp

lemma slice_from: "slice (length pre + i) (length pre + j) (pre @ rest) = slice i j rest"
  by (simp add: slice_def)

lemma parse_fraction_none:
  "(\<And>cs. rest \<noteq> CHR ''.'' # cs) \<Longrightarrow> parse_fraction (pre @ rest) (length pre) = Some (0, length pre)"
  by (cases rest) (auto simp: parse_fraction_def)

lemma parse_fraction_some:
  assumes "list_all is_digit fs" "fs \<noteq> []" "\<And>c cs. rest = c # cs \<Longrightarrow> \<not> is_digit c"
  shows "parse_fraction (pre @ CHR ''.'' # fs @ rest) (length pre) = Some (fraction_nanos fs, length pre + 1 + length fs)"
proof -
  have "takeWhile is_digit (fs @ rest) = fs"
    using assms by (cases rest) (auto simp: list_all_iff takeWhile_append2 takeWhile_tail)
  then show ?thesis using assms(2) by (simp add: parse_fraction_def fraction_digits_def Let_def)
qed

lemma parse_zone_Z [simp]: "parse_zone (pre @ ''Z'') (length pre) = Some 0"
  by (simp add: parse_zone_def)

definition zone_text :: "bool \<Rightarrow> nat \<Rightarrow> nat \<Rightarrow> string" where
  "zone_text east h m = (if east then ''+'' else ''-'') @ pad0 2 (dec h) @ '':'' @ pad0 2 (dec m)"

definition zone_minutes :: "bool \<Rightarrow> nat \<Rightarrow> nat \<Rightarrow> int" where
  "zone_minutes east h m = (if east then 1 else - 1) * (int h * 60 + int m)"

lemma parse_zone_text:
  assumes "h \<le> 23" "m \<le> 59"
  shows "parse_zone (pre @ zone_text east h m) (length pre) = Some (zone_minutes east h m)"
proof -
  have l: "length (pad0 2 (dec h)) = 2" "length (pad0 2 (dec m)) = 2"
    "parse_n_digits (pad0 2 (dec h)) 2 = Some h" "parse_n_digits (pad0 2 (dec m)) 2 = Some m"
    using pad0_digits [of h 1] pad0_digits [of m 1] parse_padded [of h 1] parse_padded [of m 1] assms
    by (simp_all add: numeral_2_eq_2)
  then obtain a b c d where p: "pad0 2 (dec h) = [a, b]" "pad0 2 (dec m) = [c, d]"
    using length_2 by metis
  let ?s = "if east then CHR ''+'' else CHR ''-''"
  have z: "zone_text east h m = ?s # a # b # CHR '':'' # c # d # []" by (simp add: zone_text_def p)
  from l(3,4) assms show ?thesis
    unfolding p z by (cases east) (simp_all add: parse_zone_def slice_def nth_append ensure_def zone_minutes_def)
qed

section \<open>Rendering\<close>

lemma white_space_first: "ws \<in> set white_space \<Longrightarrow> \<exists>c cs. ws = c # cs \<and> \<not> is_digit c"
  by (auto simp: white_space_def is_digit_def byte_def)

lemma white_space_last: "ws \<in> set white_space \<Longrightarrow> ws \<noteq> [] \<and> \<not> is_digit (last ws) \<and> last ws \<noteq> CHR ''Z''"
  by (auto simp: white_space_def is_digit_def byte_def char_of_eq_iff)

lemma trim_keeps:
  assumes "is_digit c" "is_digit d \<or> d = CHR ''Z''"
  shows "\<not> trim_changes (c # mid @ [d])"
proof
  assume "trim_changes (c # mid @ [d])"
  then obtain ws where ws: "ws \<in> set white_space"
    "take (length ws) (c # mid @ [d]) = ws \<or> drop (length (c # mid @ [d]) - length ws) (c # mid @ [d]) = ws"
    by (auto simp: trim_changes_def list_ex_iff)
  from ws(2) show False
  proof
    assume "take (length ws) (c # mid @ [d]) = ws"
    moreover obtain x xs where "ws = x # xs" "\<not> is_digit x" using white_space_first [OF ws(1)] by blast
    ultimately show False using assms(1) by simp
  next
    assume e: "drop (length (c # mid @ [d]) - length ws) (c # mid @ [d]) = ws"
    have "ws \<noteq> []" using white_space_last [OF ws(1)] by simp
    with e have "last (c # mid @ [d]) = last ws" by (metis drop_eq_Nil last_drop linorder_not_le)
    then have "d = last ws" by simp
    with white_space_last [OF ws(1)] assms(2) show False by auto
  qed
qed

text \<open>The date and time of day that \<open>format_utc\<close> writes.\<close>

definition tod_secs :: "int \<Rightarrow> nat" where
  "tod_secs i = nat (i mod nanos_per_day div nanos_per_sec)"

definition tod_nanos :: "int \<Rightarrow> nat" where
  "tod_nanos i = nat (i mod nanos_per_day mod nanos_per_sec)"

definition utc_head :: "calendar \<Rightarrow> int \<Rightarrow> string" where
  "utc_head cal i =
     (case cal_of_days cal (i div nanos_per_day) of (y, m, d) \<Rightarrow>
        date_time (pad0 4 (dec (nat y))) (pad0 2 (dec m)) (pad0 2 (dec d)) (CHR ''T'')
          (pad0 2 (dec (tod_secs i div 3600))) (pad0 2 (dec (tod_secs i div 60 mod 60))) (pad0 2 (dec (tod_secs i mod 60))))"

lemma tod_bounds: "tod_secs i < 86400" "tod_nanos i < 1000000000"
proof -
  have "i mod nanos_per_day < nanos_per_day" by (simp add: nanos_per_day_def nanos_per_sec_def)
  then show "tod_secs i < 86400"
    unfolding tod_secs_def nanos_per_day_def nanos_per_sec_def by simp
  show "tod_nanos i < 1000000000"
    by (simp add: tod_nanos_def nanos_per_sec_def nat_less_iff)
qed

lemma tod_split: "i = i div nanos_per_day * nanos_per_day + int (tod_secs i) * nanos_per_sec + int (tod_nanos i)"
proof -
  have "0 \<le> i mod nanos_per_day" by (simp add: nanos_per_day_def nanos_per_sec_def)
  then have "int (tod_secs i) * nanos_per_sec + int (tod_nanos i) = i mod nanos_per_day"
    by (simp add: tod_secs_def tod_nanos_def nanos_per_sec_def)
  moreover have "i = i div nanos_per_day * nanos_per_day + i mod nanos_per_day" by (rule div_mult_mod_eq [symmetric])
  ultimately show ?thesis by linarith
qed

lemma format_utc_text:
  assumes "cal_of_days cal (i div nanos_per_day) = (y, m, d)" "0 \<le> y"
  shows "format_utc cal i = utc_head cal i @
    (if tod_nanos i = 0 then ''Z'' else CHR ''.'' # pad0 6 (dec (tod_nanos i div 1000)) @ ''Z'')"
  using assms by (simp add: format_utc_def utc_head_def Let_def fmt_year_def date_time_def tod_secs_def tod_nanos_def)

lemma utc_head_ok:
  assumes c: "cal_of_days cal (i div nanos_per_day) = (y, m, d)" and b: "0 \<le> y" "y \<le> 9999" "m \<le> 99" "d \<le> 99"
  shows "date_time_ok (pad0 4 (dec (nat y))) (pad0 2 (dec m)) (pad0 2 (dec d)) (CHR ''T'')
      (pad0 2 (dec (tod_secs i div 3600))) (pad0 2 (dec (tod_secs i div 60 mod 60))) (pad0 2 (dec (tod_secs i mod 60)))"
    and "digits_value (pad0 4 (dec (nat y))) = nat y" "digits_value (pad0 2 (dec m)) = m" "digits_value (pad0 2 (dec d)) = d"
    and "digits_value (pad0 2 (dec (tod_secs i div 3600))) = tod_secs i div 3600"
    "digits_value (pad0 2 (dec (tod_secs i div 60 mod 60))) = tod_secs i div 60 mod 60"
    "digits_value (pad0 2 (dec (tod_secs i mod 60))) = tod_secs i mod 60"
proof -
  have p: "length (pad0 2 (dec n)) = 2 \<and> list_all is_digit (pad0 2 (dec n)) \<and> digits_value (pad0 2 (dec n)) = n"
    if "n < 100" for n using pad0_digits [of n 1] that by (simp add: numeral_2_eq_2)
  have q: "length (pad0 4 (dec (nat y))) = 4 \<and> list_all is_digit (pad0 4 (dec (nat y))) \<and>
      digits_value (pad0 4 (dec (nat y))) = nat y"
    using pad0_digits [of "nat y" 3] b by (simp add: nat_less_iff)
  have t: "tod_secs i div 3600 < 100" "tod_secs i div 60 mod 60 < 100" "tod_secs i mod 60 < 100"
    using tod_bounds(1) [of i] by (simp_all add: less_mult_imp_div_less mod_less_divisor [THEN less_trans])
  show "date_time_ok (pad0 4 (dec (nat y))) (pad0 2 (dec m)) (pad0 2 (dec d)) (CHR ''T'')
      (pad0 2 (dec (tod_secs i div 3600))) (pad0 2 (dec (tod_secs i div 60 mod 60))) (pad0 2 (dec (tod_secs i mod 60)))"
    using q p [of m] p [of d] p [OF t(1)] p [OF t(2)] p [OF t(3)] b by (simp add: date_time_ok_def)
  show "digits_value (pad0 4 (dec (nat y))) = nat y" "digits_value (pad0 2 (dec m)) = m" "digits_value (pad0 2 (dec d)) = d"
    "digits_value (pad0 2 (dec (tod_secs i div 3600))) = tod_secs i div 3600"
    "digits_value (pad0 2 (dec (tod_secs i div 60 mod 60))) = tod_secs i div 60 mod 60"
    "digits_value (pad0 2 (dec (tod_secs i mod 60))) = tod_secs i mod 60"
    using q p [of m] p [of d] p [OF t(1)] p [OF t(2)] p [OF t(3)] b by simp_all
qed

lemma tod_recombine: "n div 3600 * 3600 + n div 60 mod 60 * 60 + n mod 60 = (n :: nat)"
proof -
  have "n div 3600 = n div 60 div 60" by (simp add: div_mult2_eq [symmetric])
  then have "n div 3600 * 60 + n div 60 mod 60 = n div 60" by simp
  then have "(n div 3600 * 60 + n div 60 mod 60) * 60 + n mod 60 = n" by simp
  then show ?thesis by (simp add: add_mult_distrib)
qed

lemma fraction_nanos_micros:
  assumes "n < 1000000"
  shows "fraction_nanos (pad0 6 (dec n)) = n * 1000"
  using pad0_digits [of n 5] assms by (simp add: fraction_nanos_def)

text \<open>
  C24. The renderer and the parser agree: the text of an instant of whole microseconds in the years
  0 to 9999 parses back to that instant.
\<close>

theorem parse_format_utc:
  assumes c: "cal_of_days cal (i div nanos_per_day) = (y, m, d)" "cal_to_days cal y m d = Some (i div nanos_per_day)"
    and b: "0 \<le> y" "y \<le> 9999" "1 \<le> m" "m \<le> 12" "d \<le> 31" and us: "i mod 1000 = 0"
  shows "parse_instant cal (format_utc cal i) = P_Ok i"
proof -
  let ?head = "utc_head cal i"
  let ?tail = "if tod_nanos i = 0 then ''Z'' else CHR ''.'' # pad0 6 (dec (tod_nanos i div 1000)) @ ''Z''"
  have md: "m \<le> 99" "d \<le> 99" using b by simp_all
  note ok = utc_head_ok [OF c(1) b(1,2) md]
  have head: "?head = date_time (pad0 4 (dec (nat y))) (pad0 2 (dec m)) (pad0 2 (dec d)) (CHR ''T'')
      (pad0 2 (dec (tod_secs i div 3600))) (pad0 2 (dec (tod_secs i div 60 mod 60))) (pad0 2 (dec (tod_secs i mod 60)))"
    using c(1) by (simp add: utc_head_def)
  have len: "length ?head = 19" unfolding head using date_time_slices(12) [OF ok(1)] .
  have whole: "format_utc cal i = ?head @ ?tail" by (rule format_utc_text [OF c(1) b(1)])
  have thou: "tod_nanos i mod 1000 = 0"
  proof -
    have "i mod nanos_per_day mod nanos_per_sec mod 1000 = i mod 1000"
      by (simp add: nanos_per_day_def nanos_per_sec_def mod_mod_cancel)
    then have "int (tod_nanos i) mod 1000 = 0" using us by (simp add: tod_nanos_def nanos_per_sec_def)
    then show ?thesis by presburger
  qed
  have micros: "tod_nanos i div 1000 < 1000000" using tod_bounds(2) [of i] by (simp add: less_mult_imp_div_less)
  have frac: "parse_fraction (?head @ ?tail) 19 = Some (tod_nanos i, length (?head @ ?tail) - 1)"
  proof (cases "tod_nanos i = 0")
    case True
    with parse_fraction_none [of "''Z''" ?head] len show ?thesis by simp
  next
    case False
    have f: "list_all is_digit (pad0 6 (dec (tod_nanos i div 1000)))" "pad0 6 (dec (tod_nanos i div 1000)) \<noteq> []"
      "length (pad0 6 (dec (tod_nanos i div 1000))) = 6"
      using pad0_digits [of "tod_nanos i div 1000" 5] micros by auto
    let ?fs = "pad0 6 (dec (tod_nanos i div 1000))"
    have e: "?tail = CHR ''.'' # ?fs @ ''Z''" using False by (rule if_not_P)
    have "parse_fraction (?head @ CHR ''.'' # pad0 6 (dec (tod_nanos i div 1000)) @ ''Z'') (length ?head) =
        Some (fraction_nanos (pad0 6 (dec (tod_nanos i div 1000))), length ?head + 1 + length (pad0 6 (dec (tod_nanos i div 1000))))"
      by (rule parse_fraction_some [OF f(1,2)]) (auto simp: is_digit_def byte_def)
    moreover have "fraction_nanos (pad0 6 (dec (tod_nanos i div 1000))) = tod_nanos i"
      unfolding fraction_nanos_micros [OF micros]
      using div_mult_mod_eq [of "tod_nanos i" 1000] unfolding thou by (simp only: add_0_right)
    moreover have "length (?head @ CHR ''.'' # ?fs @ ''Z'') - 1 = 26"
      unfolding length_append list.size len f(3) by simp
    moreover have "19 + 1 + length ?fs = 26" unfolding f(3) by simp
    ultimately show ?thesis unfolding e by (simp only: len)
  qed
  obtain pre where pre: "?head @ ?tail = pre @ ''Z''" by (cases "tod_nanos i = 0") auto
  have zone: "parse_zone (?head @ ?tail) (length (?head @ ?tail) - 1) = Some 0"
    unfolding pre by (simp del: append_assoc)
  have hms: "tod_secs i div 3600 \<le> 23" "tod_secs i div 60 mod 60 \<le> 59" "tod_secs i mod 60 < 60"
    using tod_bounds(1) [of i] by (simp_all add: less_Suc_eq_le [symmetric] less_mult_imp_div_less)
  have fields: "parse_fields (format_utc cal i) = Some (nat y, m, d, tod_secs i, tod_nanos i, 0)"
    using parse_fields_date_time [OF ok(1), of ?tail] frac zone hms tod_recombine [of "tod_secs i"]
    unfolding whole head [symmetric] ok(2-7) by simp
  obtain c0 r where first: "?head = c0 # r" "is_digit c0"
  proof -
    have "length (pad0 4 (dec (nat y))) = 4" "list_all is_digit (pad0 4 (dec (nat y)))"
      using ok(1) by (simp_all add: date_time_ok_def)
    then obtain a b c e where "pad0 4 (dec (nat y)) = [a, b, c, e]" "is_digit a" using length_4 by fastforce
    then show ?thesis by (intro that [of a]) (simp_all add: head date_time_def)
  qed
  have "format_utc cal i = c0 # (r @ butlast ?tail) @ [CHR ''Z'']"
    unfolding whole first(1) by (cases "tod_nanos i = 0") (simp_all add: butlast_append)
  with trim_keeps [OF first(2), of "CHR ''Z''" "r @ butlast ?tail"]
  have trim: "\<not> trim_changes (format_utc cal i)" by simp
  have "20 \<le> length (format_utc cal i)" unfolding whole using len by simp
  moreover have "int (nat y) = y" using b(1) by simp
  ultimately show ?thesis
    using fields trim c(2) b tod_split [of i] by (auto simp: parse_instant_def instant_of_def)
qed

section \<open>Zones and fractions\<close>

lemma parse_fraction_tail:
  assumes "idx \<le> length pre" "\<And>c cs. tail = c # cs \<Longrightarrow> \<not> is_digit c \<and> c \<noteq> CHR ''.''"
  shows "parse_fraction (pre @ tail) idx = parse_fraction pre idx"
proof (cases "idx < length pre")
  case True
  have "takeWhile is_digit (drop (Suc idx) pre @ tail) = takeWhile is_digit (drop (Suc idx) pre)"
    using assms(2) by (cases tail) (auto simp: takeWhile_tail)
  with True show ?thesis by (simp add: parse_fraction_def fraction_digits_def nth_append)
next
  case False
  with assms show ?thesis by (cases tail) (auto simp: parse_fraction_def)
qed

lemma parse_fraction_le: "parse_fraction bytes idx = Some (n, k) \<Longrightarrow> idx \<le> length bytes \<Longrightarrow> k \<le> length bytes"
  using length_takeWhile_le [of is_digit "drop (Suc idx) bytes"]
  by (auto simp: parse_fraction_def fraction_digits_def Let_def split: if_splits)

lemma parse_zone_last:
  assumes "parse_zone (xs @ [c]) idx = Some z" "idx < length xs"
  shows "is_digit c"
proof -
  from assms have l: "length xs = idx + 5" "parse_n_digits (slice (4 + idx) (6 + idx) (xs @ [c])) 2 \<noteq> None"
    by (auto simp: parse_zone_def Let_def bind_eq_Some_conv split: if_splits)
  then have "list_all is_digit (slice (4 + idx) (6 + idx) (xs @ [c]))" by (auto simp: parse_n_digits_def split: if_splits)
  with l(1) show ?thesis by (simp add: slice_def)
qed

lemma not_digit [simp]: "\<not> is_digit (CHR ''Z'')" "\<not> is_digit (CHR ''+'')" "\<not> is_digit (CHR ''-'')" "\<not> is_digit (CHR ''.'')"
  by (simp_all add: is_digit_def byte_def)

lemma parse_fields_zone:
  assumes f: "parse_fields (pre @ ''Z'') = Some (y, mo, d, sec, ns, z)" and n: "19 \<le> length pre" and hm: "h \<le> 23" "m \<le> 59"
  shows "z = 0" "parse_fields (pre @ zone_text east h m) = Some (y, mo, d, sec, ns, zone_minutes east h m)"
proof -
  obtain ys ms ds t hs ns' ss rest where ok: "date_time_ok ys ms ds t hs ns' ss"
    "pre @ ''Z'' = date_time ys ms ds t hs ns' ss @ rest"
    by (rule parse_fields_SomeD [OF f]) (use n in simp_all)
  let ?dt = "date_time ys ms ds t hs ns' ss"
  have len: "length ?dt = 19" by (rule date_time_slices(12) [OF ok(1)])
  have "rest \<noteq> []"
  proof
    assume "rest = []"
    with arg_cong [OF ok(2), of length] len n show False by simp
  qed
  then obtain r where r: "rest = r @ ''Z''" "pre = ?dt @ r"
    using ok(2) by (cases rest rule: rev_cases) auto
  have frac: "parse_fraction (pre @ ''Z'') 19 = parse_fraction pre 19"
    "parse_fraction (pre @ zone_text east h m) 19 = parse_fraction pre 19"
    by (rule parse_fraction_tail [OF n], auto simp: zone_text_def is_digit_def byte_def)+
  note g = parse_fields_date_time [OF ok(1)]
  from f frac(1) obtain idx where idx: "parse_fraction pre 19 = Some (ns, idx)" "parse_zone (pre @ ''Z'') idx = Some z"
    and v: "digits_value hs \<le> 23" "digits_value ns' \<le> 59" "digits_value ss < 60"
    and e: "y = digits_value ys" "mo = digits_value ms" "d = digits_value ds"
      "sec = digits_value hs * 3600 + digits_value ns' * 60 + digits_value ss"
    using g [of "r @ ''Z''"] unfolding r by (auto split: if_splits option.splits prod.splits)
  have "idx = length pre"
  proof (rule ccontr)
    assume "idx \<noteq> length pre"
    with parse_fraction_le [OF idx(1) n] have "idx < length pre" by simp
    from parse_zone_last [OF idx(2) this] show False by simp
  qed
  note end_idx = this
  show "z = 0" using idx(2) parse_zone_Z [of pre] unfolding end_idx by simp
  from end_idx idx(1) parse_zone_text [OF hm, of pre east] frac(2) v e g [of "r @ zone_text east h m"]
  show "parse_fields (pre @ zone_text east h m) = Some (y, mo, d, sec, ns, zone_minutes east h m)"
    unfolding r by auto
qed

text \<open>A numeric offset moves the instant the other way, and may move it out of range.\<close>

text \<open>
  C25. A numeric offset denotes the instant of the local time less the offset, so texts that differ
  only in their offset compare as instants. An offset that moves the instant out of the calendar
  panics instead of failing.
\<close>

theorem parse_zone_shift:
  assumes p: "parse_instant cal (pre @ ''Z'') = P_Ok i" and hm: "h \<le> 23" "m \<le> 59"
  shows "parse_instant cal (pre @ zone_text east h m) =
    (let j = i - zone_minutes east h m * 60 * nanos_per_sec
     in if zone_minutes east h m = 0 \<or> cal_min cal \<le> j \<and> j \<le> cal_max cal then P_Ok j else P_Panic)"
proof -
  from p obtain f where f: "parse_fields (pre @ ''Z'') = Some f" "instant_of cal f = P_Ok i"
    and n: "19 \<le> length pre" by (auto simp: parse_instant_def split: if_splits option.splits)
  obtain y mo d sec ns z where t: "f = (y, mo, d, sec, ns, z)" by (metis prod_cases6)
  note q = parse_fields_zone [OF f(1) [unfolded t] n hm]
  obtain c r where c: "pre = c # r" "is_digit c"
  proof -
    obtain ys ms ds t hs ns' ss rest where ok: "date_time_ok ys ms ds t hs ns' ss"
      "pre @ ''Z'' = date_time ys ms ds t hs ns' ss @ rest"
      by (rule parse_fields_SomeD [OF f(1)]) (use n in simp_all)
    then obtain a b c e where "ys = [a, b, c, e]" "is_digit a" using length_4 [of ys] by (auto simp: date_time_ok_def)
    with ok(2) n show ?thesis by (cases pre) (auto simp: date_time_def intro: that)
  qed
  obtain a b where ab: "pad0 2 (dec m) = [a, b]" "is_digit b"
    using pad0_digits [of m 1] length_2 [of "pad0 2 (dec m)"] hm(2) by (auto simp: numeral_2_eq_2)
  have w: "pre @ zone_text east h m = c # (r @ butlast (zone_text east h m)) @ [b]"
    by (simp add: c(1) zone_text_def ab(1) butlast_append)
  have "\<not> trim_changes (pre @ zone_text east h m)"
    unfolding w by (rule trim_keeps) (use c(2) ab(2) in simp_all)
  moreover have "20 \<le> length (pre @ zone_text east h m)" using n by (simp add: zone_text_def)
  ultimately have "parse_instant cal (pre @ zone_text east h m) = instant_of cal (y, mo, d, sec, ns, zone_minutes east h m)"
    using q(2) by (auto simp: parse_instant_def)
  with f(2) t q(1) show ?thesis
    by (auto simp: instant_of_def Let_def algebra_simps split: if_splits option.splits)
qed

text \<open>
  Digits of the fraction past the sixth do not change the instant.
\<close>

theorem parse_fraction_truncates:
  assumes "length pre = 19" "list_all is_digit (ds @ extra)" "length ds = 6"
  shows "parse_instant cal (pre @ CHR ''.'' # ds @ extra @ ''Z'') = parse_instant cal (pre @ CHR ''.'' # ds @ ''Z'')"
proof (cases "\<exists>ys ms dd t hs ns ss. date_time_ok ys ms dd t hs ns ss \<and> pre = date_time ys ms dd t hs ns ss")
  case True
  then obtain ys ms dd t hs ns ss where ok: "date_time_ok ys ms dd t hs ns ss" "pre = date_time ys ms dd t hs ns ss" by blast
  have fields: "parse_fields (pre @ CHR ''.'' # fs @ ''Z'') =
      (if digits_value hs \<le> 23 \<and> digits_value ns \<le> 59 \<and> digits_value ss < 60
       then Some (digits_value ys, digits_value ms, digits_value dd,
              digits_value hs * 3600 + digits_value ns * 60 + digits_value ss, fraction_nanos fs, 0) else None)"
    if fs: "list_all is_digit fs" "fs \<noteq> []" for fs
  proof -
    have "parse_fraction (pre @ CHR ''.'' # fs @ ''Z'') 19 = Some (fraction_nanos fs, 20 + length fs)"
      using parse_fraction_some [OF fs, of "''Z''" pre] assms(1) by simp
    moreover have "parse_zone (pre @ CHR ''.'' # fs @ ''Z'') (20 + length fs) = Some 0"
      using parse_zone_Z [of "pre @ CHR ''.'' # fs"] assms(1) by simp
    ultimately show ?thesis
      using parse_fields_date_time [OF ok(1), of "CHR ''.'' # fs @ ''Z''"] unfolding ok(2) [symmetric] by simp
  qed
  obtain a r where a: "pre = a # r" "is_digit a"
    using length_4 [of ys] ok by (auto simp: date_time_ok_def date_time_def)
  have trim: "\<not> trim_changes (pre @ CHR ''.'' # fs @ ''Z'')" for fs
    using trim_keeps [OF a(2), of "CHR ''Z''" "r @ CHR ''.'' # fs"] by (simp add: a(1))
  have "ds \<noteq> []" using assms(3) by auto
  moreover have "fraction_nanos (ds @ extra) = fraction_nanos ds" using assms(3) by (simp add: fraction_nanos_def)
  ultimately show ?thesis
    using fields [of ds] fields [of "ds @ extra"] trim [of ds] trim [of "ds @ extra"] assms
    by (simp add: parse_instant_def)
next
  case False
  have none: "parse_fields (pre @ rest) = None" if "rest \<noteq> []" for rest
  proof (rule ccontr)
    assume "parse_fields (pre @ rest) \<noteq> None"
    then obtain f where f: "parse_fields (pre @ rest) = Some f" by blast
    have "20 \<le> length (pre @ rest)" using assms(1) that by (cases rest) simp_all
    with f obtain ys ms dd t hs ns ss rest' where ok: "date_time_ok ys ms dd t hs ns ss"
      "pre @ rest = date_time ys ms dd t hs ns ss @ rest'" by (rule parse_fields_SomeD)
    with date_time_slices(12) [OF ok(1)] assms(1) have "pre = date_time ys ms dd t hs ns ss" by (metis append_eq_append_conv)
    with False ok(1) show False by blast
  qed
  then show ?thesis by (simp add: parse_instant_def)
qed

text \<open>
  A leap second is refused, not clamped: no text with 60 for its seconds parses.
\<close>

theorem parse_leap_second: "slice 17 19 s = ''60'' \<Longrightarrow> parse_instant cal s = P_Err"
  by (auto simp: parse_instant_def parse_fields_def parse_n_digits_def digits_value_def is_digit_def byte_def ensure_def
      split: option.splits Option.bind_splits if_splits)

end
