(* ===== verification/Jcs_Roundtrip.thy ===== *)
theory Jcs_Roundtrip
  imports Jcs Rfc3339_Format
begin

text \<open>
  What the canonical text promises: the strict parser returns ordered maps and consumes input,
  an integer below \<open>2 ^ 53\<close> keeps its value as a binary64, and the parser reads the encoder's
  text of a value back as that value. The law on the number formatter (\<open>fmt_integers\<close>) is
  ECMAScript's: an integer in that range is written as its decimal digits.
\<close>

section \<open>What the parser returns\<close>

lemma json_wf_insert: "list_all (\<lambda>(_, v). json_wf v) m \<Longrightarrow> json_wf v \<Longrightarrow> list_all (\<lambda>(_, v). json_wf v) (bt_insert k v m)"
  by (induction k v m rule: bt_insert.induct) auto

lemma parse_chars_length: "parse_chars s out = Inr (str, r) \<Longrightarrow> length r < length s"
proof (induction s arbitrary: out rule: length_induct)
  case (1 s)
  have IH: "length r < length t" if "parse_chars t out = Inr (str, r)" "length t < length s" for t out
    using 1(1) that by blast
  from 1(2) show ?case
    by (subst (asm) parse_chars.simps)
      (auto split: list.splits if_splits sum.splits option.splits prod.splits
        dest!: IH parse_unicode_escape_length)
qed

lemma parse_string_length: "parse_string s = Inr (str, r) \<Longrightarrow> length r < length s"
  by (cases s) (auto simp: parse_string_def dest!: parse_chars_length)

lemma parse_literal_length: "parse_literal t v s = Inr (w, r) \<Longrightarrow> t \<noteq> [] \<Longrightarrow> w = v \<and> length r < length s"
  by (cases s) (auto simp: parse_literal_def split: if_splits)

lemma scan_digits_length: "scan_digits s = (ds, r) \<Longrightarrow> length r + length ds = length s"
  by (auto simp: scan_digits_def) (metis takeWhile_dropWhile_id length_append add.commute)

lemma scan_int_length: "scan_int s = Inr (ds, r) \<Longrightarrow> length r < length s"
  by (auto simp: scan_int_def split: prod.splits list.splits if_splits dest!: scan_digits_length)

lemma scan_frac_length: "scan_frac s = Inr (f, r) \<Longrightarrow> length r \<le> length s"
  by (auto simp: scan_frac_def split: prod.splits list.splits if_splits dest!: scan_digits_length)

lemma scan_exp_length: "scan_exp s = Inr (f, r) \<Longrightarrow> length r \<le> length s"
  by (fastforce simp: scan_exp_def Let_def split: prod.splits list.splits if_splits dest: scan_digits_length)

lemma scan_number_length: "scan_number s = Inr (t, r) \<Longrightarrow> length r < length s"
  by (fastforce simp: scan_number_def Let_def split: prod.splits list.splits if_splits sum.splits
      dest: scan_int_length scan_frac_length scan_exp_length)

lemma parse_number_length: "parse_number s = Inr (v, r) \<Longrightarrow> length r < length s \<and> json_wf v"
  by (auto simp: parse_number_def Let_def split: sum.splits prod.splits if_splits dest: scan_number_length)

lemma parse_value_array:
  "skip_ws s0 = CHR ''['' # s \<Longrightarrow> parse_value s0 =
     (case skip_ws s of
        [] \<Rightarrow> Inl InvalidJson
      | c # r \<Rightarrow> if c = CHR '']'' then Inr (JArray [], r)
          else case parse_items (skip_ws s) [] of Inl err \<Rightarrow> Inl err | Inr (vs, r) \<Rightarrow> Inr (JArray vs, r))"
  by (simp add: parse_value.simps [of s0] quote_def split: list.split)

lemma parse_value_object:
  "skip_ws s0 = CHR ''{'' # s \<Longrightarrow> parse_value s0 =
     (case skip_ws s of
        [] \<Rightarrow> Inl InvalidJson
      | c # r \<Rightarrow> if c = CHR ''}'' then Inr (JObject [], r)
          else case parse_members (skip_ws s) [] of Inl err \<Rightarrow> Inl err | Inr (m, r) \<Rightarrow> Inr (JObject m, r))"
  by (simp add: parse_value.simps [of s0] quote_def split: list.split)

lemma parse_value_leaf:
  "skip_ws s0 = b # s \<Longrightarrow> b \<noteq> CHR ''['' \<Longrightarrow> b \<noteq> CHR ''{'' \<Longrightarrow> parse_value s0 =
     (if b = CHR ''n'' then parse_literal ''null'' JNull (b # s)
      else if b = CHR ''t'' then parse_literal ''true'' (JBool True) (b # s)
      else if b = CHR ''f'' then parse_literal ''false'' (JBool False) (b # s)
      else if b = quote
      then (case parse_string (b # s) of Inl err \<Rightarrow> Inl err | Inr (str, r) \<Rightarrow> Inr (JString str, r))
      else if b = CHR ''-'' \<or> is_digit b then parse_number (b # s)
      else Inl InvalidJson)"
  by (simp add: parse_value.simps [of s0])

lemma parse_value_leaf_length:
  assumes "skip_ws s0 = b # s" "b \<noteq> CHR ''[''" "b \<noteq> CHR ''{''" "parse_value s0 = Inr (v, r)"
  shows "json_wf v \<and> length r < length s0"
proof -
  have "json_wf v \<and> length r < length (b # s)"
    using assms(4) unfolding parse_value_leaf [OF assms(1-3)]
    by (auto split: if_splits sum.splits dest!: parse_literal_length parse_string_length parse_number_length)
  then show ?thesis using skip_ws_length [of s0] assms(1) by simp
qed

lemma parse_value_length_wf:
  shows "parse_value s = Inr (v, r) \<Longrightarrow> json_wf v \<and> length r < length s"
    and "parse_items s items = Inr (vs, r') \<Longrightarrow> list_all json_wf items \<Longrightarrow> list_all json_wf vs \<and> length r' < length s"
    and "parse_members s m = Inr (m', r'') \<Longrightarrow> json_wf (JObject m) \<Longrightarrow> json_wf (JObject m') \<and> length r'' < length s"
proof (induction s and s items and s m arbitrary: v r and vs r' and m' r''
    rule: parse_value_parse_items_parse_members.induct)
  case (1 s0)
  show ?case
  proof (cases "skip_ws s0")
    case Nil
    with 1(3) show ?thesis by (simp add: parse_value.simps)
  next
    case (Cons b s)
    show ?thesis
    proof (cases "b = CHR ''['' \<or> b = CHR ''{''")
      case False
      with parse_value_leaf_length [OF Cons _ _ 1(3)] show ?thesis by simp
    next
      case True
      then have b: "skip_ws s0 = CHR ''['' # s \<or> skip_ws s0 = CHR ''{'' # s" using Cons by auto
      have len: "length (skip_ws s) < length s0" using skip_ws_Cons [OF Cons] skip_ws_length [of s] by simp
      show ?thesis
      proof (cases "skip_ws s")
        case Nil
        with b 1(3) show ?thesis by (auto simp: parse_value_array parse_value_object)
      next
        case (Cons c r')
        from b show ?thesis
        proof
          assume p: "skip_ws s0 = CHR ''['' # s"
          show ?thesis using 1(3) 1(1) [OF p] len Cons
            by (fastforce simp: parse_value_array [OF p] quote_def split: if_splits sum.splits)
        next
          assume p: "skip_ws s0 = CHR ''{'' # s"
          show ?thesis using 1(3) 1(2) [OF p] len Cons
            by (fastforce simp: parse_value_object [OF p] quote_def split: if_splits sum.splits)
        qed
      qed
    qed
  qed
next
  case (2 s items)
  from 2(3) obtain v r where v: "parse_value s = Inr (v, r)"
    by (subst (asm) parse_items.simps) (auto split: sum.splits)
  from 2(3) v obtain c q where c: "skip_ws r = c # q"
    by (subst (asm) parse_items.simps) (auto split: list.splits)
  show ?case
    using 2(3,4) 2(1) [OF v] 2(2) [OF v refl c] skip_ws_Cons [OF c]
    by (auto simp: parse_items.simps [of s] v c split: if_splits)
next
  case (3 s m)
  from 3(3) obtain q s1 key r c r2 v r3 d r4 where p: "skip_ws s = q # s1" "q = quote" "parse_string (q # s1) = Inr (key, r)"
      "\<not> bt_contains m key" "skip_ws r = c # r2" "c = CHR '':''" "length r2 < length s" "parse_value r2 = Inr (v, r3)"
      "skip_ws r3 = d # r4"
    by (subst (asm) parse_members.simps) (auto split: list.splits if_splits sum.splits)
  show ?case
    using 3(3,4) 3(1) [OF p(1) _ p(3) refl p(4,5) _ p(8)] 3(2) [OF p(1) _ p(3) refl p(4,5) _ p(8) refl p(9)] p(2,6,7)
      skip_ws_Cons [OF p(9)]
    by (auto simp: parse_members.simps [of s] p(1-6,8,9) p(3) [unfolded p(2)] json_wf_insert split: if_splits)
qed

text \<open>The tests on lengths never fail: the parser is the code's recursion.\<close>

lemma parse_items_code:
  "parse_items s items =
     (case parse_value s of
        Inl err \<Rightarrow> Inl err
      | Inr (v, r) \<Rightarrow>
          (case skip_ws r of
             c # r \<Rightarrow>
               (if c = CHR '','' then parse_items r (items @ [v])
                else if c = CHR '']'' then Inr (items @ [v], r)
                else Inl InvalidJson)
           | [] \<Rightarrow> Inl InvalidJson))"
  using parse_value_length_wf(1) [of s] skip_ws_Cons
  by (subst parse_items.simps) (fastforce split: sum.split list.split dest: less_trans)

lemma parse_members_code:
  "parse_members s m =
     (case skip_ws s of
        [] \<Rightarrow> Inl InvalidJson
      | q # s1 \<Rightarrow>
          (if q \<noteq> quote then Inl InvalidJson
           else case parse_string (q # s1) of
                  Inl err \<Rightarrow> Inl err
                | Inr (key, r) \<Rightarrow>
                    (if bt_contains m key then Inl DuplicateKey
                     else case skip_ws r of
                            [] \<Rightarrow> Inl InvalidJson
                          | c # r \<Rightarrow>
                              (if c \<noteq> CHR '':'' then Inl InvalidJson
                               else case parse_value r of
                                      Inl err \<Rightarrow> Inl err
                                    | Inr (v, r) \<Rightarrow>
                                        (case skip_ws r of
                                           [] \<Rightarrow> Inl InvalidJson
                                         | c # r \<Rightarrow>
                                             (if c = CHR '','' then parse_members r (bt_insert key v m)
                                              else if c = CHR ''}'' then Inr (bt_insert key v m, r)
                                              else Inl InvalidJson))))))"
proof (cases "skip_ws s")
  case (Cons q s1)
  show ?thesis
  proof (cases "q = quote")
    case True
    then have s: "skip_ws s = quote # s1" using Cons by simp
    note l1 = skip_ws_Cons [OF s]
    show ?thesis
    proof (cases "parse_string (quote # s1)")
      case (Inr kr)
      then obtain key r where p: "parse_string (quote # s1) = Inr (key, r)" by (metis surj_pair)
      note l2 = parse_string_length [OF p]
      show ?thesis
      proof (cases "skip_ws r")
        case r: (Cons c r2)
        have l3: "length r2 < length s" using skip_ws_Cons [OF r] l1 l2 by simp
        show ?thesis
        proof (cases "parse_value r2")
          case (Inr vr)
          then obtain v r3 where v: "parse_value r2 = Inr (v, r3)" by (metis surj_pair)
          note l4 = conjunct2 [OF parse_value_length_wf(1) [OF v]]
          show ?thesis
          proof (cases "skip_ws r3")
            case r3: (Cons d r4)
            have "length r4 < length s" using skip_ws_Cons [OF r3] l3 l4 by simp
            then show ?thesis by (subst parse_members.simps) (simp add: s p r v r3 l3)
          qed (subst parse_members.simps, simp add: s p r v l3)
        qed (subst parse_members.simps, simp add: s p r l3)
      qed (subst parse_members.simps, simp add: s p)
    qed (subst parse_members.simps, simp add: s)
  qed (subst parse_members.simps, simp add: Cons)
qed (subst parse_members.simps, simp)

section \<open>Integers below \<open>2 ^ 53\<close>\<close>

lemma bit_length_bounds: "0 < n \<Longrightarrow> 2 ^ (bit_length n - 1) \<le> n \<and> n < 2 ^ bit_length n \<and> 0 < bit_length n"
proof (induction n rule: bit_length.induct)
  case (1 n)
  show ?case
  proof (cases "n div 2 = 0")
    case True
    with 1(2) have "n = 1" by simp
    then show ?thesis by (simp add: bit_length.simps)
  next
    case False
    obtain k where k: "bit_length (n div 2) = Suc k" using 1 False by (cases "bit_length (n div 2)") auto
    have "bit_length n = Suc (Suc k)" using 1(2) k by (subst bit_length.simps) simp
    moreover have "2 ^ k \<le> n div 2 \<and> n div 2 < 2 ^ Suc k" using 1 False k by auto
    ultimately show ?thesis by auto
  qed
qed

lemma bit_length_1 [simp]: "bit_length (Suc 0) = Suc 0"
  by (simp add: bit_length.simps)

lemma div_even_1 [simp]: "div_even a (Suc 0) = a"
  by (simp add: div_even_def)

lemma f_round_small:
  assumes "0 < n" "n < 2 ^ 53"
  shows "f_round neg n 1 = F_Finite neg (n * 2 ^ (53 - bit_length n)) (int (bit_length n) - 53)"
proof -
  let ?l = "bit_length n"
  have l: "2 ^ (?l - 1) \<le> n" "n < 2 ^ ?l" "0 < ?l" using bit_length_bounds [OF assms(1)] by auto
  have "?l - 1 < 53"
  proof (rule ccontr)
    assume "\<not> ?l - 1 < 53"
    then have "(2 :: nat) ^ 53 \<le> 2 ^ (?l - 1)" by (intro power_increasing) simp_all
    with l(1) assms(2) show False by linarith
  qed
  then have k: "?l \<le> 53" by simp
  have "n * 2 ^ (53 - ?l) < 2 ^ ?l * 2 ^ (53 - ?l)" using l(2) by simp
  also have "\<dots> = 2 ^ 53" using k by (simp flip: power_add)
  finally have m: "n * 2 ^ (53 - ?l) \<noteq> 2 ^ 53" by simp
  have e: "nat (int ?l - 1) = ?l - 1" "nat (53 - int ?l) = 53 - ?l" "nat (int ?l - 53) = 0" "nat (- (int ?l - 1)) = 0" "nat (1 - int ?l) = 0"
    using l(3) k by auto
  have lg: "\<not> n < 2 ^ (?l - Suc 0)" "max (int ?l - 1 - 52) (- 1074) = int ?l - 53" "- (int ?l - 53) = 53 - int ?l" "\<not> 971 < int ?l - 53" "\<not> 1024 < ?l"
    using l k by auto
  show ?thesis
    using assms(1) m unfolding f_round_def
    by (simp add: Let_def e lg)
qed

lemma f_of_int_exact:
  assumes "\<bar>i\<bar> < 2 ^ 53" "lo \<le> i" "i \<le> hi"
  shows "f_is_finite (f_of_int i)" "f_is_zero (f_of_int i) \<longleftrightarrow> i = 0" "f_as_int lo hi (f_of_int i) = i"
proof -
  have "f_is_finite (f_of_int i) \<and> (f_is_zero (f_of_int i) \<longleftrightarrow> i = 0) \<and> f_as_int lo hi (f_of_int i) = i"
  proof (cases "i = 0")
    case True
    then show ?thesis
      using assms by (simp add: f_of_int_def f_round_def f_is_finite_def f_is_zero_def f_as_int_def)
  next
    case False
    define n where "n = nat \<bar>i\<bar>"
    have n: "0 < n" "n < 2 ^ 53" "int n = \<bar>i\<bar>" using False assms(1) by (auto simp: n_def)
    let ?l = "bit_length n"
    have f: "f_of_int i = F_Finite (i < 0) (n * 2 ^ (53 - ?l)) (int ?l - 53)"
      using f_round_small [OF n(1,2)] by (simp add: f_of_int_def n_def)
    have "?l \<le> 53"
    proof (rule ccontr)
      assume "\<not> ?l \<le> 53"
      then have "(2 :: nat) ^ 53 \<le> 2 ^ (?l - 1)" by (intro power_increasing) simp_all
      with bit_length_bounds [OF n(1)] n(2) show False by linarith
    qed
    moreover have "int n * 2 ^ (53 - ?l) div 2 ^ nat (53 - int ?l) = int n" if "?l \<le> 53"
    proof -
      have "nat (53 - int ?l) = 53 - ?l" using that by simp
      then show ?thesis by simp
    qed
    ultimately have "f_as_int lo hi (f_of_int i) = max lo (min hi (if i < 0 then - int n else int n))"
      by (cases "?l = 53") (auto simp: f f_as_int_def Let_def)
    with n(1,3) assms f False show ?thesis by (auto simp: f_is_finite_def f_is_zero_def)
  qed
  then show "f_is_finite (f_of_int i)" "f_is_zero (f_of_int i) \<longleftrightarrow> i = 0" "f_as_int lo hi (f_of_int i) = i"
    by blast+
qed

section \<open>Numbers\<close>

definition int_text :: "int \<Rightarrow> string" where
  "int_text i = (if i < 0 then CHR ''-'' # dec (nat (- i)) else dec (nat i))"

definition fmt_integers :: "(f64 \<Rightarrow> string) \<Rightarrow> bool" where
  "fmt_integers fmt \<longleftrightarrow> (\<forall>i. i \<noteq> 0 \<longrightarrow> \<bar>i\<bar> < 2 ^ 53 \<longrightarrow> fmt (f_of_int i) = int_text i)"

definition n_int :: "json_number \<Rightarrow> int" where
  "n_int n = (case n of N_Pos u \<Rightarrow> uint u | N_Neg i \<Rightarrow> i | N_Float _ \<Rightarrow> 0)"

definition number_safe :: "json_number \<Rightarrow> bool" where
  "number_safe n =
     (case n of N_Pos u \<Rightarrow> uint u < 2 ^ 53 | N_Neg i \<Rightarrow> i < 0 \<and> - (2 ^ 53) < i | N_Float _ \<Rightarrow> False)"

definition delimiter :: "string \<Rightarrow> bool" where
  "delimiter r \<longleftrightarrow> (case r of [] \<Rightarrow> True | c # _ \<Rightarrow> \<not> is_digit c \<and> c \<notin> {CHR ''.'', CHR ''e'', CHR ''E''})"

lemma char_of_48 [simp]: "char_of (48 :: nat) = CHR ''0''"
  by code_simp

lemma dec_leading: "\<exists>d ds. dec n = d # ds \<and> (d = CHR ''0'' \<longrightarrow> n = 0 \<and> ds = [])"
proof (induction n rule: dec.induct)
  case (1 n)
  have zero: "digit_char k = CHR ''0'' \<longleftrightarrow> k = 0" if "k < 10" for k
  proof
    assume "digit_char k = CHR ''0''"
    then show "k = 0" using byte_digit(1) [OF that] by simp
  qed (simp add: digit_char_def)
  show ?case
  proof (cases "n < 10")
    case True
    then show ?thesis using zero [of n] by (simp add: dec.simps [of n])
  next
    case False
    with 1 obtain d ds where "dec (n div 10) = d # ds" "d = CHR ''0'' \<longrightarrow> n div 10 = 0" by blast
    with False show ?thesis by (subst dec.simps) auto
  qed
qed

lemma scan_digits_dec: "delimiter r \<Longrightarrow> scan_digits (dec n @ r) = (dec n, r)"
  using dec_digits [of n] unfolding scan_digits_def delimiter_def list_all_iff
  by (cases r) (auto simp: takeWhile_append dropWhile_append)

lemma scan_int_dec: "delimiter r \<Longrightarrow> scan_int (dec n @ r) = Inr (dec n, r)"
  using dec_leading [of n] by (auto simp: scan_int_def scan_digits_dec)

lemma dec_no_minus: "\<exists>d ds. dec n = d # ds \<and> is_digit d \<and> d \<noteq> CHR ''-''"
  using dec_leading [of n] dec_digits [of n] by auto

lemma scan_number_int:
  assumes "delimiter r"
  shows "scan_number (int_text i @ r) =
    Inr (\<lparr>nt_neg = i < 0, nt_int = dec (nat \<bar>i\<bar>), nt_frac = None, nt_exp = None\<rparr>, r)"
proof -
  have ends: "scan_frac r = Inr (None, r)" "scan_exp r = Inr (None, r)"
    using assms by (auto simp: scan_frac_def scan_exp_def delimiter_def split: list.split)
  show ?thesis
  proof (cases "i < 0")
    case True
    then show ?thesis by (simp add: scan_number_def int_text_def scan_int_dec assms ends)
  next
    case False
    obtain d ds where "dec (nat i) = d # ds" "d \<noteq> CHR ''-''" using dec_no_minus by blast
    with False scan_int_dec [OF assms, of "nat i"] show ?thesis
      by (simp add: scan_number_def int_text_def ends)
  qed
qed

lemma parse_number_int:
  assumes "delimiter r" "\<bar>i\<bar> < 2 ^ 53"
  shows "parse_number (int_text i @ r) = Inr (JNumber (n_from_i64 i), r)"
proof -
  have b: "i128_min \<le> i" "i \<le> i128_max" "i64_min \<le> i" "i \<le> i64_max"
    using assms(2) by (auto simp: i128_min_def i128_max_def i64_min_def i64_max_def)
  have "token_int \<lparr>nt_neg = i < 0, nt_int = dec (nat \<bar>i\<bar>), nt_frac = None, nt_exp = None\<rparr> = i"
    using dec_digits by (simp add: token_int_def)
  with b show ?thesis
    using f_of_int_exact [OF assms(2) b(1,2)]
    by (simp add: parse_number_def scan_number_int assms ijson_int_def Let_def)
qed

lemma encode_number_safe:
  assumes "fmt_integers fmt" "number_safe n"
  shows "encode_number fmt n = Inr (int_text (n_int n)) \<and> n_from_i64 (n_int n) = n \<and> \<bar>n_int n\<bar> < 2 ^ 53"
proof -
  have n: "\<bar>n_int n\<bar> < 2 ^ 53" "n_as_i64 n = Some (n_int n)" "n_from_i64 (n_int n) = n" "i64_min \<le> n_int n" "n_int n \<le> i64_max"
    using assms(2)
    by (auto simp: number_safe_def n_int_def n_as_i64_def n_from_i64_def i64_max_def i64_min_def
        intro: order_trans [OF _ uint_ge_0] split: json_number.splits)
  with f_of_int_exact [OF n(1,4,5)] assms(1) show ?thesis
    by (auto simp: encode_number_def encode_f64_def fmt_integers_def int_text_def dec.simps [of 0] digit_char_def)
qed

section \<open>Strings\<close>

lemma hex_value_digit: "n < 16 \<Longrightarrow> hex_value (hex_digit n) = Some n"
  by (auto simp: hex_value_def hex_digit_def is_digit_def byte_def)

lemma backslash_not_quote: "backslash \<noteq> quote"
  by (simp add: backslash_def quote_def)

lemma parse_chars_plain:
  "\<not> byte c < 32 \<Longrightarrow> c \<noteq> quote \<Longrightarrow> c \<noteq> backslash \<Longrightarrow> parse_chars (c # t) out = parse_chars t (out @ [c])"
  by (simp add: parse_chars.simps [of "c # t"])

lemma parse_chars_escape:
  "simple_escape e = Some c \<Longrightarrow> e \<noteq> CHR ''u'' \<Longrightarrow> parse_chars (backslash # e # t) out = parse_chars t (out @ [c])"
  by (simp add: parse_chars.simps [of "backslash # e # t"] backslash_not_quote)

lemma parse_chars_control:
  assumes "byte c < 32"
  shows "parse_chars (backslash # ''u00'' @ [hex_digit (byte c div 16), hex_digit (byte c mod 16)] @ t) out = parse_chars t (out @ [c])"
proof -
  have "hex_value (CHR ''0'') = Some 0" by code_simp
  moreover have "byte c div 16 < 16" using assms by simp
  moreover have "byte c div 16 * 16 + byte c mod 16 = byte c" by simp
  moreover have "char_of (byte c) = c" by (simp add: byte_def)
  ultimately have "parse_unicode_escape (''00'' @ [hex_digit (byte c div 16), hex_digit (byte c mod 16)] @ t) = Inr (byte c, t)"
    "utf8_encode (byte c) = [c]"
    using assms by (simp_all add: parse_unicode_escape_def read_hex4_def hex_value_digit is_high_def is_low_def utf8_encode_def)
  then show ?thesis by (subst parse_chars.simps) (simp add: backslash_def quote_def)
qed

lemma parse_chars_encoded: "parse_chars (encode_char c @ t) out = parse_chars t (out @ [c])"
proof -
  let ?named = "c = quote \<or> c = backslash \<or> c = CHR 0x08 \<or> c = CHR 0x0C \<or> c = CHR 0x0A \<or> c = CHR 0x0D \<or> c = CHR 0x09"
  show ?thesis
  proof (cases ?named)
    case True
    then have "\<exists>e. encode_char c = [backslash, e] \<and> simple_escape e = Some c \<and> e \<noteq> CHR ''u''"
      by (elim disjE) (simp_all add: encode_char_def simple_escape_def quote_def backslash_def)
    then show ?thesis using parse_chars_escape by force
  next
    case False
    then show ?thesis
    proof (cases "byte c < 32")
      case True
      with False have "encode_char c = backslash # ''u00'' @ [hex_digit (byte c div 16), hex_digit (byte c mod 16)]"
        by (simp add: encode_char_def)
      then show ?thesis using parse_chars_control [OF True, of t out] by simp
    qed (simp add: encode_char_def parse_chars_plain)
  qed
qed

lemma parse_string_encoded: "parse_string (encode_string s @ r) = Inr (s, r)"
proof -
  have "parse_chars (concat (map encode_char s) @ quote # r) out = Inr (out @ s, r)" for out
  proof (induction s arbitrary: out)
    case Nil
    show ?case by (simp add: parse_chars.simps [of "quote # r"])
  next
    case (Cons c s)
    then show ?case by (simp add: parse_chars_encoded)
  qed
  then show ?thesis by (simp add: parse_string_def encode_string_def)
qed

section \<open>Maps\<close>

lemma distinct_map_of: "distinct (map fst m) \<Longrightarrow> m = map (\<lambda>k. (k, the (map_of m k))) (map fst m)"
  by (auto intro!: map_idI [symmetric])

lemma bt_sorted_unique: "bt_sorted a \<Longrightarrow> bt_sorted b \<Longrightarrow> map_of a = map_of b \<Longrightarrow> a = b"
proof -
  assume s: "bt_sorted a" "bt_sorted b" and m: "map_of a = map_of b"
  have "set (map fst a) = set (map fst b)" using m by (metis dom_map_of_conv_image_fst list.set_map)
  then have "map fst a = map fst b"
    using s by (auto simp: bt_sorted_def intro!: strict_sorted_equal)
  then show "a = b" using distinct_map_of [OF bt_sorted_distinct [OF s(1)]] distinct_map_of [OF bt_sorted_distinct [OF s(2)]] m by metis
qed

lemma bt_collect_perm:
  assumes "bt_sorted m" "distinct (map fst es)" "set es = set m"
  shows "bt_collect es = m"
proof (rule bt_sorted_unique)
  have "map_of es = map_of m"
    using assms bt_sorted_distinct map_of_inject_set by blast
  moreover have "bt_get (bt_collect es) = map_of es"
    using assms(2) map_of_inject_set [of "rev es" es] by (simp add: bt_get_collect fun_eq_iff rev_map flip: rev_map)
  ultimately show "map_of (bt_collect es) = map_of m" by (auto simp: bt_get_def fun_eq_iff)
qed (use assms in simp_all)

lemma sort_key_map: "(\<And>x. f (g x) = h x) \<Longrightarrow> sort_key f (map g xs) = map g (sort_key h xs)"
proof -
  assume fg: "\<And>x. f (g x) = h x"
  have "insort_key f (g x) (map g ys) = map g (insort_key h x ys)" for x ys
    by (induction ys) (simp_all add: fg)
  then show ?thesis by (induction xs) simp_all
qed

section \<open>Values\<close>

text \<open>Documents whose numbers are integers below \<open>2 ^ 53\<close>, the only numbers of the contract.\<close>

fun json_safe :: "json \<Rightarrow> bool" where
  "json_safe (JArray vs) = list_all json_safe vs"
| "json_safe (JObject m) = list_all (\<lambda>(_, v). json_safe v) m"
| "json_safe (JNumber n) = number_safe n"
| "json_safe _ = True"

text \<open>A text that starts a value, and that the parser reads back whatever delimiter follows.\<close>

definition reads :: "string \<Rightarrow> json \<Rightarrow> bool" where
  "reads t v \<longleftrightarrow> (\<exists>c s. t = c # s \<and> \<not> is_ws c \<and> c \<noteq> CHR '']'' \<and> c \<noteq> CHR ''}'')
     \<and> (\<forall>r. delimiter r \<longrightarrow> parse_value (t @ r) = Inr (v, r))"

fun join :: "string list \<Rightarrow> string" where
  "join [] = []"
| "join [t] = t"
| "join (t # ts) = t @ '','' @ join ts"

lemma join_results_map: "join_results (map Inr ts) = Inr (join ts)"
  by (induction ts rule: join.induct) simp_all

lemma skip_ws_punct [simp]: "\<not> is_ws c \<Longrightarrow> skip_ws (c # s) = c # s"
  by (simp add: skip_ws_def)

lemma not_ws [simp]:
  "\<not> is_ws (CHR '','')" "\<not> is_ws (CHR '':'')" "\<not> is_ws (CHR '']'')" "\<not> is_ws (CHR ''}'')" "\<not> is_ws (CHR ''['')"
  "\<not> is_ws (CHR ''{'')" "\<not> is_ws quote"
  by (simp_all add: is_ws_def quote_def)

lemma delimiter_punct [simp]: "c \<in> {CHR '','', CHR '']'', CHR ''}''} \<Longrightarrow> delimiter (c # s)"
  by (auto simp: delimiter_def is_digit_def byte_def)

lemma parse_items_join:
  assumes "list_all2 reads ts vs" "vs \<noteq> []"
  shows "parse_items (join ts @ CHR '']'' # r) items = Inr (items @ vs, r)"
  using assms
proof (induction ts arbitrary: vs items rule: join.induct)
  case (2 t)
  then show ?case by (subst parse_items_code) (auto simp: reads_def list_all2_Cons1)
next
  case (3 t u ts)
  then obtain v ws where "vs = v # ws" "reads t v" "list_all2 reads (u # ts) ws" "ws \<noteq> []"
    by (auto simp: list_all2_Cons1)
  with 3 show ?case by (subst parse_items_code) (auto simp: reads_def)
qed simp

lemma parse_members_join:
  assumes "list_all2 (\<lambda>t (_, v). reads t v) ts kvs" "kvs \<noteq> []" "distinct (map fst kvs)" "fst ` set kvs \<inter> fst ` set m = {}"
  shows "parse_members (join (map2 (\<lambda>(k, _) t. encode_string k @ '':'' @ t) kvs ts) @ CHR ''}'' # r) m
    = Inr (bt_from_list kvs m, r)"
  using assms
proof (induction kvs arbitrary: ts m rule: list.induct)
  case (Cons kv kvs)
  obtain k v where kv: "kv = (k, v)" by fastforce
  obtain t us where ts: "ts = t # us" "reads t v" "list_all2 (\<lambda>t (_, v). reads t v) us kvs"
    using Cons.prems(1) by (auto simp: kv list_all2_Cons2)
  have q: "encode_string k @ x = quote # tl (encode_string k) @ x" "parse_string (quote # tl (encode_string k) @ x) = Inr (k, x)" for x
    using parse_string_encoded [of k x] by (simp_all add: encode_string_def)
  have new: "\<not> bt_contains m k" using Cons.prems(4) by (auto simp: kv bt_contains_iff)
  have pv: "delimiter x \<Longrightarrow> parse_value (t @ x) = Inr (v, x)" for x using ts(2) by (simp add: reads_def)
  show ?case
  proof (cases "kvs = []")
    case True
    with ts show ?thesis
      by (subst parse_members_code) (simp add: kv q new pv)
  next
    case False
    then obtain kv' kvs' u us' where "kvs = kv' # kvs'" "us = u # us'" using ts(3) by (cases kvs; cases us) auto
    with Cons.IH [OF ts(3) False, of "bt_insert k v m"] Cons.prems ts show ?thesis
      by (subst parse_members_code) (auto simp: kv q new pv)
  qed
qed simp

lemma parse_literal_append: "parse_literal t v (t @ r) = Inr (v, r)"
  by (simp add: parse_literal_def)

lemma reads_leaf:
  assumes "t = c # s" "\<not> is_ws c" "c \<notin> {CHR ''['', CHR ''{'', CHR '']'', CHR ''}''}"
    "\<And>r. delimiter r \<Longrightarrow> parse_value (t @ r) = Inr (v, r)"
  shows "reads t v"
  using assms by (auto simp: reads_def)

lemma reads_number:
  assumes "fmt_integers fmt" "number_safe n" "encode_number fmt n = Inr t"
  shows "reads t (JNumber n)"
proof -
  have t: "t = int_text (n_int n)" "n_from_i64 (n_int n) = n" "\<bar>n_int n\<bar> < 2 ^ 53"
    using encode_number_safe [OF assms(1,2)] assms(3) by auto
  obtain c s where c: "t = c # s" "c = CHR ''-'' \<or> is_digit c"
    using dec_no_minus [of "nat (n_int n)"] by (cases "n_int n < 0") (auto simp: t(1) int_text_def)
  have ne: "c \<noteq> CHR ''n''" "c \<noteq> CHR ''t''" "c \<noteq> CHR ''f''" "c \<noteq> quote" "\<not> is_ws c"
      "c \<notin> {CHR ''['', CHR ''{'', CHR '']'', CHR ''}''}"
    using c(2) by (auto simp: is_digit_def byte_def quote_def is_ws_def)
  show ?thesis
  proof (rule reads_leaf [OF c(1) ne(5,6)])
    fix r assume r: "delimiter r"
    have "parse_value (t @ r) = parse_number (t @ r)"
      using ne c by (subst parse_value_leaf [of _ c "s @ r"]) auto
    then show "parse_value (t @ r) = Inr (JNumber n, r)"
      using parse_number_int [OF r t(3)] t by simp
  qed
qed

lemma reads_string: "reads (encode_string s) (JString s)"
proof (rule reads_leaf)
  show "encode_string s = quote # tl (encode_string s)" by (simp add: encode_string_def)
  fix r
  have "parse_value (encode_string s @ r) = (case parse_string (encode_string s @ r) of Inl err \<Rightarrow> Inl err | Inr (str, r) \<Rightarrow> Inr (JString str, r))"
    by (subst parse_value_leaf [of _ quote "tl (encode_string s) @ r"]) (simp_all add: encode_string_def quote_def is_ws_def skip_ws_def)
  then show "parse_value (encode_string s @ r) = Inr (JString s, r)" by (simp add: parse_string_encoded)
qed (simp_all add: quote_def is_ws_def)

lemma reads_literals: "reads ''null'' JNull" "reads ''true'' (JBool True)" "reads ''false'' (JBool False)"
proof -
  have *: "parse_value (''null'' @ r) = Inr (JNull, r)" "parse_value (''true'' @ r) = Inr (JBool True, r)"
    "parse_value (''false'' @ r) = Inr (JBool False, r)" for r
    using parse_literal_append [of "''null''" JNull r] parse_literal_append [of "''true''" "JBool True" r]
      parse_literal_append [of "''false''" "JBool False" r]
    by (simp_all add: parse_value_leaf [where b = "CHR ''n''"] parse_value_leaf [where b = "CHR ''t''"]
        parse_value_leaf [where b = "CHR ''f''"] skip_ws_def is_ws_def)
  show "reads ''null'' JNull" "reads ''true'' (JBool True)" "reads ''false'' (JBool False)"
    using * by (auto intro!: reads_leaf simp: is_ws_def)
qed

lemma reads_array:
  assumes "list_all2 reads ts vs"
  shows "reads (''['' @ join ts @ '']'') (JArray vs)"
proof -
  have "parse_value (CHR ''['' # join ts @ CHR '']'' # r) = Inr (JArray vs, r)" for r
  proof (cases "ts")
    case Nil
    with assms show ?thesis by (simp add: parse_value_array [where s = "CHR '']'' # r"])
  next
    case (Cons t us)
    with assms obtain v ws where v: "vs = v # ws" "reads t v" by (auto simp: list_all2_Cons1)
    obtain c s where c: "join ts = c # s" "\<not> is_ws c" "c \<noteq> CHR '']''"
      using v(2) Cons by (cases us) (auto simp: reads_def)
    have "parse_items (join ts @ CHR '']'' # r) [] = Inr (vs, r)"
      using parse_items_join [OF assms, of r "[]"] v(1) by simp
    with c show ?thesis by (simp add: parse_value_array [where s = "join ts @ CHR '']'' # r"])
  qed
  then show ?thesis by (simp add: reads_def is_ws_def)
qed

lemma reads_object:
  assumes "list_all2 (\<lambda>t (_, v). reads t v) ts kvs" "distinct (map fst kvs)"
  shows "reads (''{'' @ join (map2 (\<lambda>(k, _) t. encode_string k @ '':'' @ t) kvs ts) @ ''}'') (JObject (bt_collect kvs))"
proof -
  let ?t = "join (map2 (\<lambda>(k, _) t. encode_string k @ '':'' @ t) kvs ts)"
  have "parse_value (CHR ''{'' # ?t @ CHR ''}'' # r) = Inr (JObject (bt_collect kvs), r)" for r
  proof (cases kvs)
    case Nil
    then show ?thesis by (simp add: bt_collect_def parse_value_object [where s = "CHR ''}'' # r"])
  next
    case (Cons kv kvs')
    with assms(1) obtain t us where us: "ts = t # us" by (auto simp: list_all2_Cons2)
    obtain s where s: "?t = quote # s"
      using Cons us by (cases kv; cases kvs'; cases us) (auto simp: encode_string_def)
    have "parse_members (?t @ CHR ''}'' # r) [] = Inr (bt_collect kvs, r)"
      using parse_members_join [OF assms(1) _ assms(2), of "[]" r] Cons by (simp add: bt_collect_def)
    moreover have "quote \<noteq> CHR ''}''" by (simp add: quote_def)
    ultimately show ?thesis using s by (simp add: parse_value_object [where s = "?t @ CHR ''}'' # r"])
  qed
  then show ?thesis by (simp add: reads_def is_ws_def)
qed

lemma map_result_map_Inr: "map_result f (Inr t) = Inr (f t)"
  by (simp add: map_result_def)

lemma encode_reads:
  assumes "fmt_integers fmt"
  shows "json_wf v \<Longrightarrow> json_safe v \<Longrightarrow> \<exists>t. encode fmt v = Inr t \<and> reads t v"
proof (induction v)
  case (JBool b)
  then show ?case by (cases b) (simp_all add: reads_literals)
next
  case (JNumber n)
  then show ?case using encode_number_safe [OF assms] reads_number [OF assms] by auto
next
  case (JArray vs)
  have "\<forall>v\<in>set vs. \<exists>t. encode fmt v = Inr t \<and> reads t v"
    using JArray by (auto simp: list_all_iff)
  then obtain f where f: "\<And>v. v \<in> set vs \<Longrightarrow> encode fmt v = Inr (f v) \<and> reads (f v) v" by metis
  then have "map (encode fmt) vs = map Inr (map f vs)" by simp
  then have "join_results (map (encode fmt) vs) = Inr (join (map f vs))" by (simp only: join_results_map)
  moreover have "list_all2 reads (map f vs) vs" using f by (simp add: list.rel_map list_all2_same)
  ultimately show ?case
    using reads_array by (auto simp: map_result_map_Inr)
next
  case (JObject m)
  let ?order = "sort_key (\<lambda>(k, _). utf16_units k)"
  have "\<forall>kv\<in>set m. \<exists>t. encode fmt (snd kv) = Inr t \<and> reads t (snd kv)"
    using JObject by (fastforce simp: list_all_iff)
  then obtain f where f: "\<And>kv. kv \<in> set m \<Longrightarrow> encode fmt (snd kv) = Inr (f kv) \<and> reads (f kv) (snd kv)" by metis
  define kvs where "kvs = ?order m"
  have s: "set kvs = set m" "distinct (map fst kvs)"
    using bt_sorted_distinct [of m] JObject.prems(1) by (auto simp: kvs_def distinct_map)
  have ordered: "utf16_order (map (\<lambda>(k, v). (k, map_result (\<lambda>t. encode_string k @ '':'' @ t) (encode fmt v))) m)
      = map (\<lambda>(k, v). (k, map_result (\<lambda>t. encode_string k @ '':'' @ t) (encode fmt v))) kvs"
    unfolding utf16_order_def kvs_def by (rule sort_key_map) auto
  have texts: "map snd (map (\<lambda>(k, v). (k, map_result (\<lambda>t. encode_string k @ '':'' @ t) (encode fmt v))) kvs)
      = map Inr (map2 (\<lambda>(k, _) t. encode_string k @ '':'' @ t) kvs (map f kvs))"
    using f s(1) by (auto simp: zip_map2 zip_same_conv_map map_result_map_Inr split: prod.splits)
  have "encode fmt (JObject m) = Inr (''{'' @ join (map2 (\<lambda>(k, _) t. encode_string k @ '':'' @ t) kvs (map f kvs)) @ ''}'')"
    by (simp only: encode.simps ordered texts join_results_map map_result_map_Inr)
  moreover have "list_all2 (\<lambda>t (_, v). reads t v) (map f kvs) kvs"
    using f s(1) by (auto simp: list.rel_map list_all2_same split: prod.split)
  moreover have "bt_collect kvs = m" using bt_collect_perm [of m kvs] JObject.prems(1) s by simp
  ultimately show ?case
    using reads_object [of "map f kvs" kvs] s(2) by simp
qed (simp_all add: reads_literals reads_string)

section \<open>Large integers\<close>

lemma parse_strict_int:
  assumes b: "i128_min \<le> i" "i \<le> i128_max"
  shows "parse_strict (int_text i) = (case ijson_int i of Inl err \<Rightarrow> Inl err | Inr n \<Rightarrow> Inr (JNumber n))"
proof -
  obtain c s where c: "int_text i = c # s" "c = CHR ''-'' \<or> is_digit c"
    using dec_no_minus [of "nat i"] by (cases "i < 0") (auto simp: int_text_def)
  have ne: "c \<noteq> CHR ''n''" "c \<noteq> CHR ''t''" "c \<noteq> CHR ''f''" "c \<noteq> quote" "\<not> is_ws c" "c \<noteq> CHR ''[''" "c \<noteq> CHR ''{''"
    using c(2) by (auto simp: is_digit_def byte_def quote_def is_ws_def)
  have "parse_value (int_text i) = parse_number (int_text i)"
    using ne c by (subst parse_value_leaf [of _ c s]) auto
  moreover have "token_int \<lparr>nt_neg = i < 0, nt_int = dec (nat \<bar>i\<bar>), nt_frac = None, nt_exp = None\<rparr> = i"
    using dec_digits by (simp add: token_int_def)
  ultimately show ?thesis
    using b scan_number_int [of "[]" i]
    by (simp add: parse_strict_def parse_number_def delimiter_def Let_def skip_ws_def split: sum.split)
qed

lemma bit_length_unique: "2 ^ l \<le> n \<Longrightarrow> n < 2 ^ Suc l \<Longrightarrow> bit_length n = Suc l"
proof -
  assume n: "2 ^ l \<le> n" "n < 2 ^ Suc l"
  have "0 < n" using n(1) by (metis zero_less_numeral zero_less_power less_le_trans)
  note b = bit_length_bounds [OF this]
  have "l < bit_length n" using n(1) b by (metis le_less_trans power_less_imp_less_exp one_less_numeral_iff semiring_norm(76))
  moreover have "bit_length n - 1 < Suc l" using n(2) b by (metis le_less_trans power_less_imp_less_exp one_less_numeral_iff semiring_norm(76))
  ultimately show ?thesis using b by linarith
qed

text \<open>Above \<open>2 ^ 53\<close> the cast rounds the integer to 53 bits.\<close>

lemma f_round_large:
  assumes "2 ^ (52 + k) \<le> n" "n < 2 ^ (53 + k)" "0 < k" "k < 971"
  shows "f_round neg n 1 =
    (if div_even n (2 ^ k) = 2 ^ 53 then F_Finite neg (2 ^ 52) (int k + 1) else F_Finite neg (div_even n (2 ^ k)) (int k))"
proof -
  have l: "bit_length n = 53 + k" using bit_length_unique [of "52 + k" n] assms by simp
  have "0 < n" using assms(1) by (metis zero_less_numeral zero_less_power less_le_trans)
  then show ?thesis
    using assms(1,3,4) unfolding f_round_def l
    by (auto simp: Let_def nat_add_distrib)
qed

end
