(* ===== verification/Contract_Properties.thy ===== *)
theory Contract_Properties
  imports Outcome_Admission Jcs_Roundtrip Rfc3339_Format Examples
begin

text \<open>
  The properties of the contract crate: timestamps, canonical JSON, schema selection, admission,
  and the outcomes of the runners under the rules of admission.
\<close>

section \<open>Examples\<close>

text \<open>An instance of the outside: integers in decimal, a digest that is its input, a permissive schema.\<close>

definition ex_admission :: admission where
  "ex_admission =
     \<lparr>ad_calendar = gregorian, ad_fmt = (\<lambda>f. int_text (f_as_int i64_min i64_max f)), ad_sha256 = (\<lambda>s. s),
      ad_is_valid = Some (\<lambda>_. True), ad_first_error = (\<lambda>_. None), ad_decode = (\<lambda>_. Some (PollCycleRequest ex_poll_request))\<rparr>"

text \<open>No event comes; a request that names a third arm; no required registration; leases that have run out; a cancelled wait.\<close>

definition ex_quiet_world :: scripted_world where
  "ex_quiet_world = scripted_new \<lparr>sp_buffer_limit = 8, sp_events = []\<rparr> ts_1601"

definition ex_extra_request :: poll_cycle_request where
  "ex_extra_request = ex_poll_request\<lparr>pr_required_arms := pr_required_arms ex_poll_request @ [IdToken ''arm:c'']\<rparr>"

definition ex_optional_set :: registration_set where
  "ex_optional_set = ex_set\<lparr>rs_registrations := map (reg_required_update (\<lambda>_. False)) (rs_registrations ex_set)\<rparr>"

definition ex_expired_set :: registration_set where
  "ex_expired_set = ex_set\<lparr>rs_registrations := map (reg_lease_expires_at_update (\<lambda>_. ts_1600)) (rs_registrations ex_set)\<rparr>"

definition ex_cancel_env :: "(scripted_world, tracked_bind) env" where
  "ex_cancel_env = ex_env\<lparr>env_is_cancelled := (\<lambda>w. (True, w))\<rparr>"

section \<open>Timestamps\<close>

lemma parse_instant_fields:
  "parse_fields s = Some f \<Longrightarrow> \<not> trim_changes s \<Longrightarrow> 20 \<le> length s \<Longrightarrow> parse_instant cal s = instant_of cal f"
  by (auto simp: parse_instant_def)

lemmas instant_simps = parse_instant_fields instant_of_def nanos_per_day_def nanos_per_sec_def

lemma ex_days [simp]: "cal_to_days gregorian 2026 8 15 = Some 20680" "cal_of_days gregorian 20680 = (2026, 8, 15)"
  by code_simp+

lemma ex_instants [simp]:
  "parse_instant gregorian ''2026-08-15T16:01:00Z'' = P_Ok 1786809660000000000"
  "parse_instant gregorian ''2026-08-15T16:02:00Z'' = P_Ok 1786809720000000000"
  "parse_instant gregorian ''2026-08-15T17:00:00Z'' = P_Ok 1786813200000000000"
proof -
  have "parse_fields ''2026-08-15T16:01:00Z'' = Some (2026, 8, 15, 57660, 0, 0)"
    "parse_fields ''2026-08-15T16:02:00Z'' = Some (2026, 8, 15, 57720, 0, 0)"
    "parse_fields ''2026-08-15T17:00:00Z'' = Some (2026, 8, 15, 61200, 0, 0)" by code_simp+
  moreover have "\<not> trim_changes ''2026-08-15T16:01:00Z''" "\<not> trim_changes ''2026-08-15T16:02:00Z''"
    "\<not> trim_changes ''2026-08-15T17:00:00Z''" by code_simp+
  ultimately show "parse_instant gregorian ''2026-08-15T16:01:00Z'' = P_Ok 1786809660000000000"
    "parse_instant gregorian ''2026-08-15T16:02:00Z'' = P_Ok 1786809720000000000"
    "parse_instant gregorian ''2026-08-15T17:00:00Z'' = P_Ok 1786813200000000000"
    by (simp_all add: instant_simps)
qed

lemma parse_format_utc_witness:
  "parse_instant gregorian (format_utc gregorian 1786809720123456000) = P_Ok 1786809720123456000"
proof -
  have "1786809720123456000 div nanos_per_day = 20680" by code_simp
  then show ?thesis by (intro parse_format_utc [where y = 2026 and m = 8 and d = 15]) simp_all
qed

lemma parse_zone_shift_witness:
  "parse_instant gregorian (''2026-08-15T16:02:00'' @ zone_text True 5 30) = P_Ok 1786789920000000000"
proof -
  have "parse_instant gregorian (''2026-08-15T16:02:00'' @ ''Z'') = P_Ok 1786809720000000000" by simp
  from parse_zone_shift [OF this, of 5 30 True] show ?thesis
    by (simp add: Let_def nanos_per_sec_def zone_minutes_def)
qed

lemma parse_fraction_truncates_witness:
  "parse_instant gregorian (''2026-08-15T16:02:00'' @ CHR ''.'' # ''123456'' @ ''789'' @ ''Z'') =
   parse_instant gregorian (''2026-08-15T16:02:00'' @ CHR ''.'' # ''123456'' @ ''Z'')"
  by (rule parse_fraction_truncates) code_simp+

lemma parse_leap_second_witness: "parse_instant gregorian ''2026-08-15T16:02:60Z'' = P_Err"
  by (rule parse_leap_second) code_simp

text \<open>
  Admission can panic: a request whose run deadline is the last minute of the year 9999 under
  a negative offset satisfies the profile, but its instant lies in the year 10000, which the
  conversion to the offset cannot hold.
\<close>

theorem admission_panics:
  "parse_instant gregorian ''9999-12-31T23:59:59-00:01'' = P_Panic \<and>
   deadline_order ex_admission (object
     [(''message_type'', JString ''live_wait_request''), (''run_deadline'', JString ''9999-12-31T23:59:59-00:01''),
      (''logical_deadline'', JString ''9999-12-31T23:59:59Z'')]) = None"
proof -
  have "parse_fields ''9999-12-31T23:59:59-00:01'' = Some (9999, 12, 31, 86399, 0, - 1)"
    "\<not> trim_changes ''9999-12-31T23:59:59-00:01''" "cal_to_days gregorian 9999 12 31 = Some 2932896" by code_simp+
  then have panics: "parse_instant gregorian ''9999-12-31T23:59:59-00:01'' = P_Panic" by (simp add: instant_simps)
  then show ?thesis
    by (simp add: deadline_order_def string_field_def member reads_member and_then_def compare_texts_def rfc3339_compare_def
        ts_parse_def ex_admission_def)
qed

section \<open>Canonical JSON\<close>

text \<open>The encoder succeeds on such a value, and the strict parser reads its text back.\<close>

lemma canonical_reads:
  assumes "fmt_integers fmt" "json_wf v" "json_safe v"
  shows "\<exists>t. encode fmt v = Inr t \<and> parse_strict t = Inr v"
proof -
  obtain t where t: "encode fmt v = Inr t" "reads t v" using encode_reads [OF assms] by blast
  have "delimiter []" by (simp add: delimiter_def)
  with t(2) have "parse_value (t @ []) = Inr (v, [])" unfolding reads_def by blast
  with t(1) show ?thesis by (auto simp: parse_strict_def skip_ws_def)
qed

lemma ex_fmt: "fmt_integers (ad_fmt ex_admission)"
proof -
  have "f_as_int i64_min i64_max (f_of_int i) = i" if "\<bar>i\<bar> < 2 ^ 53" for i
    using that by (intro f_of_int_exact(3)) (auto simp: i64_min_def i64_max_def)
  then show ?thesis by (simp add: fmt_integers_def ex_admission_def)
qed

lemma ex_numbers: "json_safe (JArray [JNumber (N_Pos 1), JNumber (N_Neg (- 25)), JBool True])" "json_safe (JArray [JNumber (N_Pos 2)])"
  by (simp_all add: number_safe_def)



text \<open>
  C20. Canonicalization is a round trip: on a document whose numbers are integers below \<open>2 ^ 53\<close>
  it succeeds, the strict parser reads the canonical text back as the same value, and the
  canonical text is its own canonical form.
\<close>

theorem canonical_roundtrip:
  assumes fmt: "fmt_integers fmt" and p: "parse_strict raw = Inr v" and safe: "json_safe v"
  shows "\<exists>t. canonicalize_json fmt raw = Inr t \<and> parse_strict t = Inr v \<and> canonicalize_json fmt t = Inr t"
proof -
  have "json_wf v" using p parse_value_length_wf(1) [of raw] by (auto simp: parse_strict_def split: sum.splits if_splits)
  from canonical_reads [OF fmt this safe] obtain t where "encode fmt v = Inr t" "parse_strict t = Inr v" by blast
  with p show ?thesis by (simp add: canonicalize_json_def)
qed

lemma canonical_roundtrip_witness:
  "\<exists>raw t. parse_strict raw = Inr (JArray [JNumber (N_Pos 1), JNumber (N_Neg (- 25)), JBool True]) \<and>
     canonicalize_json (ad_fmt ex_admission) raw = Inr t \<and> canonicalize_json (ad_fmt ex_admission) t = Inr t"
proof -
  obtain raw where raw: "parse_strict raw = Inr (JArray [JNumber (N_Pos 1), JNumber (N_Neg (- 25)), JBool True])"
    using canonical_reads [OF ex_fmt _ ex_numbers(1)] by auto
  from canonical_roundtrip [OF ex_fmt this ex_numbers(1)] raw show ?thesis by blast
qed

text \<open>
  C21. The canonical text identifies the value: two such documents have the same canonical text
  exactly when the parser reads the same value from them. A digest of the text is a digest of
  the value.
\<close>

theorem canonical_identifies:
  assumes fmt: "fmt_integers fmt" and v: "parse_strict raw = Inr v" "json_safe v" and w: "parse_strict raw' = Inr w" "json_safe w"
  shows "canonicalize_json fmt raw = canonicalize_json fmt raw' \<longleftrightarrow> v = w"
proof
  have wf: "json_wf x" if "parse_strict r = Inr x" for r x
    using that parse_value_length_wf(1) [of r] by (auto simp: parse_strict_def split: sum.splits if_splits)
  obtain t where t: "encode fmt v = Inr t" "parse_strict t = Inr v" using canonical_reads [OF fmt wf [OF v(1)] v(2)] by blast
  obtain u where u: "encode fmt w = Inr u" "parse_strict u = Inr w" using canonical_reads [OF fmt wf [OF w(1)] w(2)] by blast
  assume "canonicalize_json fmt raw = canonicalize_json fmt raw'"
  with t u v w show "v = w" by (auto simp: canonicalize_json_def)
qed (use v w in \<open>simp add: canonicalize_json_def\<close>)

lemma canonical_identifies_witness:
  "\<exists>raw raw'. canonicalize_json (ad_fmt ex_admission) raw \<noteq> canonicalize_json (ad_fmt ex_admission) raw'"
proof -
  obtain raw where raw: "parse_strict raw = Inr (JArray [JNumber (N_Pos 1), JNumber (N_Neg (- 25)), JBool True])"
    using canonical_reads [OF ex_fmt _ ex_numbers(1)] by auto
  obtain raw' where raw': "parse_strict raw' = Inr (JArray [JNumber (N_Pos 2)])"
    using canonical_reads [OF ex_fmt _ ex_numbers(2)] by auto
  from canonical_identifies [OF ex_fmt raw ex_numbers(1) raw' ex_numbers(2)] show ?thesis by auto
qed

lemma digit_chars:
  "char_of (49 :: nat) = CHR ''1''" "char_of (50 :: nat) = CHR ''2''" "char_of (51 :: nat) = CHR ''3''" "char_of (52 :: nat) = CHR ''4''"
  "char_of (53 :: nat) = CHR ''5''" "char_of (54 :: nat) = CHR ''6''" "char_of (55 :: nat) = CHR ''7''" "char_of (56 :: nat) = CHR ''8''"
  "char_of (57 :: nat) = CHR ''9''"
  by code_simp+

text \<open>
  Above \<open>2 ^ 53\<close> it is not: \<open>2 ^ 60\<close> is admitted, but its ECMAScript text is not, so a
  canonical text may not parse. And the largest 128-bit integer, which no binary64 holds, is
  admitted as \<open>2 ^ 127\<close>, because the cast back saturates.
\<close>

theorem canonical_not_reparsed:
  "parse_strict ''1152921504606846976'' = Inr (JNumber (N_Pos (2 ^ 60))) \<and>
   canonicalize_json (\<lambda>f. if f = f_of_int (2 ^ 60) then ''1152921504606847000'' else [])
     ''1152921504606846976'' = Inr ''1152921504606847000'' \<and>
   parse_strict ''1152921504606847000'' = Inl IntegerOutsideIjson \<and>
   parse_strict ''170141183460469231731687303715884105727'' = Inr (JNumber (N_Float (f_of_int (2 ^ 127))))"
proof -
  have texts: "int_text (2 ^ 60) = ''1152921504606846976''" "int_text 1152921504606847000 = ''1152921504606847000''"
    "int_text (2 ^ 127 - 1) = ''170141183460469231731687303715884105727''"
    by (simp_all add: int_text_def dec.simps digit_char_def digit_chars)
  have f: "f_of_int (2 ^ 60) = F_Finite False (2 ^ 52) 8" "f_of_int 1152921504606847000 = F_Finite False (2 ^ 52) 8"
    using f_round_large [of 8 "2 ^ 60" False] f_round_large [of 8 1152921504606847000 False]
    by (simp_all add: f_of_int_def div_even_def Let_def)
  have g: "f_of_int (2 ^ 127 - 1) = F_Finite False (2 ^ 52) 75" "f_of_int (2 ^ 127) = F_Finite False (2 ^ 52) 75"
    using f_round_large [of 74 "2 ^ 127 - 1" False] f_round_large [of 75 "2 ^ 127" False]
    by (simp_all add: f_of_int_def div_even_def Let_def)
  note bounds = i64_min_def i64_max_def i128_min_def i128_max_def
  have two60: "parse_strict ''1152921504606846976'' = Inr (JNumber (N_Pos (2 ^ 60)))"
    using parse_strict_int [of "2 ^ 60"] f by (simp add: texts [simplified] ijson_int_def bounds f_is_finite_def f_as_int_def n_from_i64_def)
  have "parse_strict ''1152921504606847000'' = Inl IntegerOutsideIjson"
    using parse_strict_int [of 1152921504606847000] f by (simp add: texts ijson_int_def bounds f_is_finite_def f_as_int_def)
  moreover have "parse_strict ''170141183460469231731687303715884105727'' = Inr (JNumber (N_Float (f_of_int (2 ^ 127))))"
    using parse_strict_int [of "2 ^ 127 - 1"] g by (simp add: texts [simplified] ijson_int_def bounds f_is_finite_def f_as_int_def)
  moreover have "canonicalize_json (\<lambda>f. if f = f_of_int (2 ^ 60) then ''1152921504606847000'' else []) ''1152921504606846976''
      = Inr ''1152921504606847000''"
    using two60 f by (simp add: canonicalize_json_def encode_number_def n_as_i64_def bounds f_as_int_def encode_f64_def
        f_is_finite_def f_is_zero_def)
  ultimately show ?thesis using two60 by blast
qed

section \<open>Schema selection\<close>

text \<open>
  C23. The schema of one message is self-contained and minimal: selection succeeds exactly when every
  definition its references reach is there, and then keeps exactly those definitions, as the
  bundle has them.
\<close>

theorem message_schema_closed:
  assumes "j_get_as j_object ''$defs'' entry = Some defs" "bt_get defs (def_name_for kind) = Some (JObject m)"
  shows "case select_message_schema entry kind of
      Inl err \<Rightarrow> \<exists>n. reaches defs (JObject m) n \<and> \<not> bt_contains defs n
    | Inr s \<Rightarrow> (\<forall>n. reaches defs (JObject m) n \<longrightarrow> bt_contains defs n) \<and>
        (\<exists>selected. j_get_as j_object ''$defs'' s = Some selected \<and>
           (\<forall>n. bt_get selected n = (if reaches defs (JObject m) n then bt_get defs n else None)))"
proof (cases "select_message_schema entry kind")
  case (Inl err)
  then show ?thesis using select_message_schema_exact(1) [OF assms] by auto
next
  case (Inr s)
  then show ?thesis using select_message_schema_exact(1) [OF assms] select_message_schema_exact(2) [OF assms Inr] by auto
qed

definition ex_defs :: "(string \<times> json) list" where
  "ex_defs =
     [(''anchor'', JObject [(''type'', JString ''object'')]),
      (''event'', JObject [(''type'', JString ''object'')]),
      (''pollCycleAck'', JObject [(''properties'', JObject [(''start'', JObject [(''$ref'', JString ''#/$defs/anchor'')])])])]"

lemma message_schema_closed_witness:
  "\<exists>s selected. select_message_schema (JObject [(''$defs'', JObject ex_defs)]) MT_PollCycleAck = Inr s \<and>
     j_get_as j_object ''$defs'' s = Some selected \<and> bt_contains selected ''anchor'' \<and> \<not> bt_contains selected ''event''"
proof -
  let ?ack = "[(''properties'', JObject [(''start'', JObject [(''$ref'', JString ''#/$defs/anchor'')])])]"
  have d: "j_get_as j_object ''$defs'' (JObject [(''$defs'', JObject ex_defs)]) = Some ex_defs"
    "bt_get ex_defs (def_name_for MT_PollCycleAck) = Some (JObject ?ack)"
    by (simp_all add: j_get_def j_object_def bt_get_def ex_defs_def)
  have "''anchor'' \<in> refs_of (JObject ?ack)"
    by (simp add: refs_of_def own_ref_def j_get_def bt_get_def j_str_def def_ref_def add_name_def)
  then have anchor: "reaches ex_defs (JObject ?ack) ''anchor''" by (rule reaches_root)
  have only: "n = ''anchor''" if "reaches ex_defs (JObject ?ack) n" for n
    using that
    by (induction rule: reaches.induct)
      (auto simp: refs_of_def ex_defs_def own_ref_def j_get_def bt_get_def j_str_def def_ref_def add_name_def split: if_splits)
  have present: "bt_contains ex_defs ''anchor''" by (simp add: ex_defs_def bt_contains_def bt_get_def)
  note closed = message_schema_closed [OF d]
  show ?thesis
  proof (cases "select_message_schema (JObject [(''$defs'', JObject ex_defs)]) MT_PollCycleAck")
    case (Inl err)
    with closed only present show ?thesis by auto
  next
    case (Inr s)
    with closed obtain selected where sel: "j_get_as j_object ''$defs'' s = Some selected"
      "\<And>n. bt_get selected n = (if reaches ex_defs (JObject ?ack) n then bt_get ex_defs n else None)" by auto
    moreover have "\<not> reaches ex_defs (JObject ?ack) ''event''" using only by blast
    ultimately show ?thesis using Inr anchor present by (auto simp: bt_contains_def)
  qed
qed

section \<open>Admission\<close>

text \<open>
  A message admitted alone is subject to its own rules only: the rules over sets are silent on
  one document.
\<close>

theorem validate_message_alone:
  "validate_message ad raw =
     (case parse_strict raw of Inl err \<Rightarrow> Some (Inl (EJcs err)) | Inr v \<Rightarrow> validate_document ad v)"
proof (cases "parse_strict raw")
  case (Inr v)
  then show ?thesis
    by (cases "validate_document ad v")
      (auto simp: validate_message_def validate_raw_documents_def validate_documents_def set_rules_one and_then_def
        split: sum.splits)
qed (simp add: validate_message_def validate_raw_documents_def and_then_def)

text \<open>
  C19. Admission is all or nothing: a set is admitted exactly when it is not empty, every document
  parses strictly, has a declared kind, satisfies the schema and its own rules and decodes, and
  the set satisfies the rules over sets. The messages returned are the decodings, in order.
\<close>

theorem admission_exact:
  "validate_raw_documents ad raws = ok msgs \<longleftrightarrow>
     (\<exists>ds. ds \<noteq> [] \<and> list_all2 (\<lambda>raw d. parse_strict raw = Inr d) raws ds \<and>
        (\<forall>d \<in> set ds. (\<exists>kind. get_str ''message_type'' d = Some (message_type_str kind)) \<and>
           schema_validate ad d = ok () \<and> per_message_normative ad d = ok ()) \<and>
        map (ad_decode ad) ds = map Some msgs \<and> set_rules ad ds = ok ())"
proof -
  have declared: "reject_undeclared_kind d = ok () \<longleftrightarrow> (\<exists>kind. get_str ''message_type'' d = Some (message_type_str kind))" for d
  proof
    assume "reject_undeclared_kind d = ok ()"
    then obtain s where s: "get_str ''message_type'' d = Some s" "s \<in> set admitted_message_types"
      by (auto simp: reject_undeclared_kind_def split: option.splits if_splits)
    then have "s \<in> message_type_str ` set message_type_all"
      by (auto simp: admitted_message_types_def message_type_all_def)
    with s(1) show "\<exists>kind. get_str ''message_type'' d = Some (message_type_str kind)" by auto
  next
    assume "\<exists>kind. get_str ''message_type'' d = Some (message_type_str kind)"
    then obtain kind where "get_str ''message_type'' d = Some (message_type_str kind)" by blast
    then show "reject_undeclared_kind d = ok ()"
      by (cases kind) (simp_all add: reject_undeclared_kind_def admitted_message_types_def)
  qed
  have "list_all2 (\<lambda>d m. validate_document ad d = ok m) ds msgs \<longleftrightarrow>
      (\<forall>d \<in> set ds. reject_undeclared_kind d = ok () \<and> schema_validate ad d = ok () \<and> per_message_normative ad d = ok ()) \<and>
      map (ad_decode ad) ds = map Some msgs" for ds
  proof (induction ds arbitrary: msgs)
    case (Cons d ds)
    show ?case
    proof (cases msgs)
      case (Cons m ms)
      show ?thesis unfolding Cons list_all2_Cons Cons.IH by (auto simp: validate_document_ok)
    qed simp
  qed simp
  then show ?thesis by (auto simp: validate_raw_documents_ok declared)
qed

end
