(* ===== verification/Admission_Properties.thy ===== *)
theory Admission_Properties
  imports Contract_Properties
begin

text \<open>
  The guarantees of an admitted set of documents, the errors of admission, and the outcomes of the
  poll-cycle runner under its rules.
\<close>

section \<open>An admitted exchange\<close>

definition ex_registrations :: json where
  "ex_registrations = JArray
     [object [(''registration_id'', JString ''reg:a''), (''lease_expires_at'', JString ''2026-08-15T17:00:00Z''),
              (''bounds'', object [(''max_events'', JNumber (N_Pos 1))])]]"

definition ex_digest :: string where
  "ex_digest = (case digest_unique_registrations ex_admission ex_registrations of Inl _ \<Rightarrow> [] | Inr s \<Rightarrow> s)"

definition ex_set_doc :: json where
  "ex_set_doc = object
     [(''message_type'', JString ''registration_set''), (''registration_revision'', JString ''rev:1''),
      (''registrations'', ex_registrations), (''registration_digest'', object [(''value'', JString ex_digest)])]"

definition ex_request_doc :: json where
  "ex_request_doc = object
     [(''message_type'', JString ''poll_cycle_request''), (''registration_revision'', JString ''rev:1''),
      (''run_deadline'', JString ''2026-08-15T16:02:00Z''), (''logical_deadline'', JString ''2026-08-15T17:00:00Z'')]"

definition ex_outcome_doc :: json where
  "ex_outcome_doc = object
     [(''message_type'', JString ''poll_cycle_outcome''), (''message_id'', JString ''msg:2''),
      (''outcome_kind'', JString ''no_change''), (''coverage_complete'', JBool True),
      (''completed_at'', JString ''2026-08-15T16:01:00Z''), (''logical_deadline'', JString ''2026-08-15T17:00:00Z''),
      (''arms'', JArray [object [(''required'', JBool True), (''status'', JString ''no_change''), (''degraded'', JBool False)]]),
      (''retained_through'', object [(''reg:a'', JString ''anchor:7'')])]"

definition ex_ack_doc :: json where
  "ex_ack_doc = object
     [(''message_type'', JString ''poll_cycle_ack''), (''outcome_ref'', JString ''msg:2''),
      (''committed_anchors'', object [(''reg:a'', JString ''anchor:7'')])]"

definition ex_docs :: "json list" where
  "ex_docs = [ex_set_doc, ex_request_doc, ex_outcome_doc, ex_ack_doc]"

lemmas ex_doc_defs = ex_docs_def ex_set_doc_def ex_request_doc_def ex_outcome_doc_def ex_ack_doc_def ex_registrations_def

lemma ex_docs_wf: "\<forall>d \<in> set ex_docs. json_wf d \<and> json_safe d"
  by (simp add: ex_doc_defs object_def bt_collect_def bt_sorted_def number_safe_def)

lemma ex_digest: "verify_registration_digest ex_admission ex_registrations ex_digest = ok ()"
proof -
  have "json_wf ex_registrations" "json_safe ex_registrations" using ex_docs_wf
    by (simp_all add: ex_registrations_def object_def bt_collect_def bt_sorted_def number_safe_def)
  from canonical_reads [OF ex_fmt this] obtain t where "encode (ad_fmt ex_admission) ex_registrations = Inr t" by blast
  then have "digest_unique_registrations ex_admission ex_registrations = Inr ex_digest"
    by (simp add: ex_digest_def digest_unique_registrations_def) (simp add: ex_registrations_def j_array_def)
  then show ?thesis by (simp add: verify_registration_digest_def reject_if_def)
qed

lemma ex_compare [simp]:
  "compare_texts ex_admission ''2026-08-15T16:01:00Z'' ''2026-08-15T17:00:00Z'' = ok (- 1)"
  "compare_texts ex_admission ''2026-08-15T16:02:00Z'' ''2026-08-15T17:00:00Z'' = ok (- 1)"
  "compare_texts ex_admission ''2026-08-15T17:00:00Z'' ''2026-08-15T16:01:00Z'' = ok 1"
  by (simp_all add: compare_texts_ok ex_admission_def)

lemma ex_types [simp]:
  "get_str ''message_type'' ex_set_doc = Some ''registration_set''" "get_str ''message_type'' ex_request_doc = Some ''poll_cycle_request''"
  "get_str ''message_type'' ex_outcome_doc = Some ''poll_cycle_outcome''" "get_str ''message_type'' ex_ack_doc = Some ''poll_cycle_ack''"
  by (simp_all add: ex_doc_defs member reads_member)

lemma ex_ack_members [simp]:
  "j_get ''committed_anchors'' ex_ack_doc = Some (JObject [(''reg:a'', JString ''anchor:7'')])" "j_get ''retained_events'' ex_ack_doc = None"
  "j_get ''retained_through'' ex_outcome_doc = Some (JObject [(''reg:a'', JString ''anchor:7'')])" "j_get ''retained_events'' ex_outcome_doc = None"
  "get_str ''outcome_ref'' ex_ack_doc = Some ''msg:2''" "get_str ''message_id'' ex_outcome_doc = Some ''msg:2''"
  by (simp_all add: ex_ack_doc_def ex_outcome_doc_def member reads_member) (simp_all add: object_def bt_collect_def)

lemma ex_documents: "d \<in> set ex_docs \<Longrightarrow> validate_document ex_admission d = ok (PollCycleRequest ex_poll_request)"
proof -
  assume d: "d \<in> set ex_docs"
  have "deadline_order ex_admission ex_request_doc = ok ()"
    by (simp add: deadline_order_def admits string_field_ok) (simp add: ex_request_doc_def member reads_member)
  moreover have "digest_matches ex_admission ex_set_doc = ok ()"
    using ex_digest by (simp add: digest_matches_def ex_set_doc_def member reads_member)
  moreover have "outcome_normative ex_admission ex_outcome_doc = ok ()"
    by (simp add: outcome_normative_ok clean_kind_ok ex_outcome_doc_def member reads_member required_arms_of_def arm_dirty_def arm_no_change_def)
  moreover have "str_or_empty ''message_type'' ex_set_doc = ''registration_set''" "str_or_empty ''message_type'' ex_request_doc = ''poll_cycle_request''"
    "str_or_empty ''message_type'' ex_outcome_doc = ''poll_cycle_outcome''" "str_or_empty ''message_type'' ex_ack_doc = ''poll_cycle_ack''"
    by (simp_all add: str_or_empty_def)
  ultimately have "per_message_normative ex_admission d = ok ()"
    using d by (auto simp: ex_docs_def per_message_normative_def and_then_def)
  moreover have "reject_undeclared_kind d = ok ()"
    using d by (auto simp: ex_docs_def reject_undeclared_kind_def admitted_message_types_def)
  ultimately show ?thesis
    by (simp add: validate_document_ok schema_validate_def) (simp add: ex_admission_def)
qed

lemma ex_set_rules: "set_rules ex_admission ex_docs = ok ()"
proof -
  have f: "filter (is_kind ''registration_set'') ex_docs = [ex_set_doc]" "filter (is_kind ''poll_cycle_request'') ex_docs = [ex_request_doc]"
    "filter (is_kind ''poll_cycle_outcome'') ex_docs = [ex_outcome_doc]" "filter (is_kind ''poll_cycle_ack'') ex_docs = [ex_ack_doc]"
    "filter is_outcome ex_docs = [ex_outcome_doc]" "filter is_request ex_docs = [ex_request_doc]"
    by (simp_all add: ex_docs_def is_outcome_def is_request_def is_kind_def)
  have "coverage_cardinality ex_docs = ok ()"
    by (simp add: coverage_cardinality_def requested_arms_def f) (simp add: ex_request_doc_def member reads_member)
  moreover have "ack_rules ex_docs = ok ()"
    by (simp add: ack_rules_def f admits ack_of_def Let_def object_map_def j_object_def bt_get_def value_eq_def string_list_map_def
        anchor_stolen_def)
  moreover have "fairness_starvation ex_docs = ok ()"
    by (simp add: fairness_starvation_def f group_by_waiter_def fairness_of_def Let_def admits)
  moreover have "silent_cursor_advance ex_docs = ok ()" by (simp add: silent_cursor_advance_def f Let_def)
  moreover have "revision_cross ex_docs = ok ()"
    by (simp add: revision_cross_def f Let_def admits) (simp add: ex_doc_defs member reads_member)
  moreover have "authn_lease_bounds ex_admission ex_docs = ok ()"
    by (simp add: authn_lease_bounds_def f Let_def admits authn_of_def lease_of_def limits_of_def)
      (simp add: ex_doc_defs member reads_member admits)
  ultimately show ?thesis by (simp add: set_rules_def admits)
qed

lemma ex_admitted:
  obtains raws where "list_all2 (\<lambda>raw d. parse_strict raw = Inr d) raws ex_docs" "parse_all raws = Inr ex_docs"
    "validate_raw_documents ex_admission raws = ok (replicate 4 (PollCycleRequest ex_poll_request))"
proof -
  have "\<exists>raw. parse_strict raw = Inr d" if "d \<in> set ex_docs" for d
    using canonical_reads [OF ex_fmt] ex_docs_wf that by blast
  then obtain text_of where "\<And>d. d \<in> set ex_docs \<Longrightarrow> parse_strict (text_of d) = Inr d" by metis
  then have raws: "list_all2 (\<lambda>raw d. parse_strict raw = Inr d) (map text_of ex_docs) ex_docs"
    by (simp add: list_all2_conv_all_nth)
  have "list_all2 (\<lambda>d m. validate_document ex_admission d = ok m) ex_docs (replicate 4 (PollCycleRequest ex_poll_request))"
    using ex_documents by (auto simp: list_all2_conv_all_nth ex_docs_def nth_Cons split: nat.splits)
  moreover have "ex_docs \<noteq> []" by (simp add: ex_docs_def)
  ultimately have "validate_raw_documents ex_admission (map text_of ex_docs) = ok (replicate 4 (PollCycleRequest ex_poll_request))"
    using raws ex_set_rules unfolding validate_raw_documents_ok by blast
  with raws that show ?thesis by (simp add: parse_all_ok)
qed

lemma admission_exact_witness:
  "\<exists>raws. (validate_raw_documents ex_admission raws = ok (replicate 4 (PollCycleRequest ex_poll_request))) \<and>
     (\<forall>d \<in> set ex_docs. schema_validate ex_admission d = ok ()) \<and> set_rules ex_admission ex_docs = ok ()"
proof -
  obtain raws where r: "list_all2 (\<lambda>raw d. parse_strict raw = Inr d) raws ex_docs"
    "validate_raw_documents ex_admission raws = ok (replicate 4 (PollCycleRequest ex_poll_request))" by (rule ex_admitted)
  from iffD1 [OF admission_exact r(2)] obtain ds where ds: "list_all2 (\<lambda>raw d. parse_strict raw = Inr d) raws ds"
    "\<forall>d \<in> set ds. schema_validate ex_admission d = ok ()" "set_rules ex_admission ds = ok ()" by blast
  from r(1) ds(1) have "ds = ex_docs" by (auto simp: list_all2_conv_all_nth intro: nth_equalityI)
  with r ds show ?thesis by blast
qed

section \<open>Guarantees of admitted sets\<close>

text \<open>The documents of an admitted set have passed their own rules and those of the set.\<close>

lemma admitted_rules:
  assumes "validate_raw_documents ad raws = ok msgs" "parse_all raws = Inr ds"
  shows "set_rules ad ds = ok ()" "d \<in> set ds \<Longrightarrow> per_message_normative ad d = ok ()"
proof -
  from assms obtain ds' where ds: "parse_all raws = Inr ds'" "list_all2 (\<lambda>d m. validate_document ad d = ok m) ds' msgs" "set_rules ad ds' = ok ()"
    by (auto simp: validate_raw_documents_ok parse_all_ok [symmetric])
  then have eq: "ds' = ds" using assms(2) by simp
  show "set_rules ad ds = ok ()" using ds eq by simp
  assume "d \<in> set ds"
  with ds(2) eq obtain m where "validate_document ad d = ok m" by (auto simp: list_all2_conv_all_nth in_set_conv_nth)
  then show "per_message_normative ad d = ok ()" by (simp add: validate_document_ok)
qed

text \<open>
  C26. An admitted clean outcome is honest: a \<open>no_change\<close> completed before its logical deadline, a
  \<open>logical_deadman\<close> not before it; neither carries an event, both claim complete coverage, and
  every required arm, of which there is at least one, is what the kind says.
\<close>

theorem admitted_clean_outcomes:
  assumes "validate_raw_documents ad raws = ok msgs" "parse_all raws = Inr ds" "d \<in> set ds" "is_outcome d"
    and "str_or_empty ''outcome_kind'' d \<in> {''no_change'', ''logical_deadman''}"
  shows "get_list ''events'' d = [] \<and> is_true ''coverage_complete'' d \<and> required_arms_of d \<noteq> [] \<and>
    (\<exists>completed logical i j. get_str ''completed_at'' d = Some completed \<and> get_str ''logical_deadline'' d = Some logical \<and>
       parse_instant (ad_calendar ad) completed = P_Ok i \<and> parse_instant (ad_calendar ad) logical = P_Ok j \<and>
       (if str_or_empty ''outcome_kind'' d = ''no_change''
        then i < j \<and> list_all arm_no_change (required_arms_of d)
        else j \<le> i \<and> list_all arm_complete (required_arms_of d)))"
proof -
  from admitted_rules(2) [OF assms(1,2,3)] assms(4) have "outcome_normative ad d = ok ()" by (rule per_message_outcome)
  with assms(5) show ?thesis
    by (auto simp: outcome_normative_ok clean_kind_ok compare_texts_ok list_all_iff not_less split: if_splits)
qed

lemma admitted_clean_outcomes_witness:
  "get_list ''events'' ex_outcome_doc = [] \<and> list_all arm_no_change (required_arms_of ex_outcome_doc)"
proof -
  obtain raws where r: "parse_all raws = Inr ex_docs" "validate_raw_documents ex_admission raws = ok (replicate 4 (PollCycleRequest ex_poll_request))"
    by (rule ex_admitted)
  have kind: "str_or_empty ''outcome_kind'' ex_outcome_doc = ''no_change''" by (simp add: ex_outcome_doc_def member reads_member)
  have "ex_outcome_doc \<in> set ex_docs" "is_outcome ex_outcome_doc" by (simp_all add: ex_docs_def is_outcome_def is_kind_def)
  from admitted_clean_outcomes [OF r(2,1) this] kind show ?thesis by auto
qed

text \<open>
  C27. An admitted acknowledgment commits nothing past its outcome: each anchor it commits is the
  one the outcome retained for that registration, and each event it retains is one the outcome
  retained for that registration.
\<close>

theorem admitted_acknowledgments:
  assumes "validate_raw_documents ad raws = ok msgs" "parse_all raws = Inr ds" "ack \<in> set ds" "is_kind ''poll_cycle_ack'' ack"
    and "find (\<lambda>out. get_str ''message_id'' out = get_str ''outcome_ref'' ack) (filter (is_kind ''poll_cycle_outcome'') ds) = Some out"
  shows "(\<forall>(rid, anchor) \<in> set (object_map (j_get ''committed_anchors'' ack)).
      value_eq (bt_get (object_map (j_get ''retained_through'' out)) rid) (Some anchor)) \<and>
    (\<forall>(rid, events) \<in> set (string_list_map (j_get ''retained_events'' ack)). \<forall>eid \<in> set events.
      \<exists>es. bt_get (string_list_map (j_get ''retained_events'' out)) rid = Some es \<and> eid \<in> set es)"
proof -
  from set_rules_parts(2) [OF admitted_rules(1) [OF assms(1,2)]] assms(3-5) have "ack_within ack out" by (rule ack_rules_ok)
  then show ?thesis by (simp add: ack_within_def)
qed

lemma admitted_acknowledgments_witness:
  "value_eq (bt_get (object_map (j_get ''retained_through'' ex_outcome_doc)) ''reg:a'') (Some (JString ''anchor:7''))"
proof -
  obtain raws where r: "parse_all raws = Inr ex_docs" "validate_raw_documents ex_admission raws = ok (replicate 4 (PollCycleRequest ex_poll_request))"
    by (rule ex_admitted)
  have "find (\<lambda>out. get_str ''message_id'' out = get_str ''outcome_ref'' ex_ack_doc) (filter (is_kind ''poll_cycle_outcome'') ex_docs) =
      Some ex_outcome_doc" by (simp add: ex_docs_def is_kind_def)
  moreover have "ex_ack_doc \<in> set ex_docs" "is_kind ''poll_cycle_ack'' ex_ack_doc" by (simp_all add: ex_docs_def is_kind_def)
  ultimately have "\<forall>(rid, anchor) \<in> set (object_map (j_get ''committed_anchors'' ex_ack_doc)).
      value_eq (bt_get (object_map (j_get ''retained_through'' ex_outcome_doc)) rid) (Some anchor)"
    using r admitted_acknowledgments by blast
  then show ?thesis by (simp add: object_map_def j_object_def)
qed

text \<open>
  C28. Admitted requests and registration sets are consistent: a request stops running at or before
  its logical deadline, and the digest a set claims is the SHA-256 of the canonical text of its
  registrations, in lowercase hexadecimal.
\<close>

theorem admitted_requests_and_digests:
  assumes "validate_raw_documents ad raws = ok msgs" "parse_all raws = Inr ds" "d \<in> set ds"
  shows "(is_request d \<longrightarrow>
      (\<exists>run logical i j. get_str ''run_deadline'' d = Some run \<and> get_str ''logical_deadline'' d = Some logical \<and>
         parse_instant (ad_calendar ad) run = P_Ok i \<and> parse_instant (ad_calendar ad) logical = P_Ok j \<and> i \<le> j)) \<and>
    (is_kind ''registration_set'' d \<longrightarrow>
      (\<exists>digest registrations canonical. j_get ''registration_digest'' d = Some digest \<and> j_get ''registrations'' d = Some (JArray registrations) \<and>
         encode (ad_fmt ad) (JArray registrations) = Inr canonical \<and>
         get_str ''value'' digest = Some (concat (map hex_byte (ad_sha256 ad canonical)))))"
proof -
  note own = admitted_rules(2) [OF assms]
  have "deadline_order ad d = ok ()" if "is_request d" using own that by (rule per_message_request)
  moreover have "digest_matches ad d = ok ()" if "is_kind ''registration_set'' d" using own that by (rule per_message_set)
  ultimately show ?thesis
    by (fastforce simp: deadline_order_def admits compare_texts_ok digest_matches_def verify_registration_digest_def
        digest_unique_registrations_def sha256_hex_def j_array_def bind_eq_Some_conv split: option.splits sum.splits json.splits if_splits)
qed

lemma admitted_requests_and_digests_witness:
  "\<exists>canonical. encode (ad_fmt ex_admission) ex_registrations = Inr canonical \<and> ex_digest = concat (map hex_byte (ad_sha256 ex_admission canonical))"
proof -
  obtain raws where r: "parse_all raws = Inr ex_docs" "validate_raw_documents ex_admission raws = ok (replicate 4 (PollCycleRequest ex_poll_request))"
    by (rule ex_admitted)
  have d: "ex_set_doc \<in> set ex_docs" "is_kind ''registration_set'' ex_set_doc" by (simp_all add: ex_docs_def is_kind_def)
  have "j_get ''registrations'' ex_set_doc = Some ex_registrations"
    "j_get ''registration_digest'' ex_set_doc = Some (object [(''value'', JString ex_digest)])"
    by (simp_all add: ex_set_doc_def member)
  with admitted_requests_and_digests [OF r(2,1) d(1)] d(2) show ?thesis
    by (auto simp: member reads_member simp del: encode.simps)
qed



lemma validate_each_err:
  "validate_each ad ds = Some (Inl err) \<Longrightarrow> \<exists>d \<in> set ds. validate_document ad d = Some (Inl err)"
  by (induction ds) (auto simp: rejected)

text \<open>
  C30. The errors of admission are a fixed vocabulary. A rejection is a parse error, a schema that
  did not compile, one of the listed rule errors, or a schema error whose constraint is a schema
  keyword and whose path is what the validator reports; no value of a document is in it.
\<close>

theorem admission_errors:
  assumes "validate_raw_documents ad raws = Some (Inl err)"
  shows "(\<exists>e. err = EJcs e) \<or> err = EContract ''entry_schema'' ''compile'' \<or> err \<in> EValidation ` set rule_errors \<or>
    (\<exists>d path constraint. err = EValidation (ve_new path constraint) \<and> constraint \<in> set (''schema'' # schema_keywords) \<and>
       (path = ''/'' \<or> (\<exists>rendered schema_path. ad_first_error ad d = Some (rendered, schema_path) \<and> path \<in> {rendered, CHR ''/'' # rendered})))"
    (is "?P err")
proof -
  have keyword: "schema_constraint sp \<in> set (''schema'' # schema_keywords)" for sp
    by (auto simp: schema_constraint_def find_Some_iff split: option.split)
  have schema: "?P e" if "schema_validate ad d = Some (Inl e)" for d e
    using that keyword
    by (auto simp: schema_validate_def split: option.splits if_splits) (metis insertCI)+
  have doc: "?P e" if err: "validate_document ad d = Some (Inl e)" for d e
  proof -
    consider "reject_undeclared_kind d = Some (Inl e)" | "schema_validate ad d = Some (Inl e)"
      | "per_message_normative ad d = Some (Inl e)" | "e = EValidation (ve_new ''/'' ''typed_decode'')"
      using err by (auto simp: validate_document_def rejected split: option.splits)
    then show ?thesis
    proof cases
      case 1
      then show ?thesis by (auto simp: reject_undeclared_kind_def rule_errors_def split: option.splits if_splits)
    next
      case 2
      then show ?thesis by (rule schema)
    next
      case 3
      with safe_per_message [of ad d] show ?thesis by (auto simp: safe_def fixed_def)
    qed (simp add: rule_errors_def)
  qed
  have each: "?P e" if "validate_each ad ds = Some (Inl e)" for ds e
    using validate_each_err [OF that] doc by (elim bexE)
  show ?thesis
  proof (cases "parse_all raws")
    case (Inl e)
    with assms have "err = e" by (simp add: validate_raw_documents_def)
    with parse_all_err [OF Inl] show ?thesis by simp
  next
    case (Inr ds)
    with assms have "validate_documents ad ds = Some (Inl err)" by (simp add: validate_raw_documents_def)
    then consider "err = EValidation (ve_new ''/'' ''empty_target'')" | "validate_each ad ds = Some (Inl err)" | "set_rules ad ds = Some (Inl err)"
      by (cases "ds = []") (auto simp: validate_documents_def and_then_err)
    then show ?thesis
    proof cases
      case 2
      then show ?thesis by (rule each)
    next
      case 3
      with safe_set_rules [of ad ds] show ?thesis by (auto simp: safe_def fixed_def)
    next
      case 1
      moreover have "ve_new ''/'' ''empty_target'' \<in> set rule_errors" by (simp add: rule_errors_def)
      ultimately show ?thesis by simp
    qed
  qed
qed

lemma admission_errors_witness:
  "\<exists>err. validate_raw_documents ex_admission [] = Some (Inl err) \<and> err \<in> EValidation ` set rule_errors"
proof -
  have err: "validate_raw_documents ex_admission [] = Some (Inl (EValidation (ve_new ''/'' ''empty_target'')))"
    by (simp add: validate_raw_documents_def validate_documents_def)
  from admission_errors [OF this] have "EValidation (ve_new ''/'' ''empty_target'') \<in> EValidation ` set rule_errors"
    by (auto simp: ve_new_def schema_keywords_def)
  with err show ?thesis by blast
qed

end
