(* ===== verification/Poll_Admission.thy ===== *)
theory Poll_Admission
  imports Contract_Properties
begin

text \<open>
  When every outcome of the poll-cycle runner is admissible: the request names no more arms than
  the set has required registrations, there is one, and each registration has a start.
\<close>

definition starts_known :: "registration_set \<Rightarrow> poll_cycle_request \<Rightarrow> bool" where
  "starts_known rset req \<longleftrightarrow>
     (\<forall>reg \<in> set (rs_registrations rset).
        reg_start_anchor reg \<noteq> None \<or> bt_get (pr_acknowledged_anchors req) (id_str (reg_id reg)) \<noteq> None)"

definition arms_named :: "registration_set \<Rightarrow> poll_cycle_request \<Rightarrow> bool" where
  "arms_named rset req \<longleftrightarrow>
     filter reg_required (rs_registrations rset) \<noteq> [] \<and>
     length (pr_required_arms req) \<le> length (filter reg_required (rs_registrations rset))"

lemma honest_start_known:
  "starts_known rset req \<Longrightarrow> reg \<in> set (rs_registrations rset) \<Longrightarrow> \<exists>start. honest_start resolved req reg = Some start"
  by (auto simp: starts_known_def honest_start_def split: option.splits)

lemma build_rows_named:
  assumes "\<forall>reg \<in> set regs. \<exists>start. honest_start resolved req reg = Some start"
    and "ri \<le> k" "k < ri + length (filter reg_required regs)"
  shows "\<exists>row \<in> set (build_rows req resolved visits kind idx ri regs).
    arm_required (row_arm row) \<and> (k < length (pr_required_arms req) \<longrightarrow> arm_id (row_arm row) = pr_required_arms req ! k)"
  using assms
proof (induction regs arbitrary: ri idx)
  case (Cons reg regs)
  then obtain start where start: "honest_start resolved req reg = Some start" by auto
  show ?case
  proof (cases "reg_required reg \<and> k = ri")
    case True
    with start show ?thesis by (auto simp: poll_arm_id_def build_row_def Let_def split: prod.splits)
  next
    case False
    obtain arm ri' where a: "poll_arm_id req reg ri = (arm, ri')" by fastforce
    then have ri': "ri' = (if reg_required reg then ri + 1 else ri)" by (auto simp: poll_arm_id_def split: if_splits)
    have "ri' \<le> k" "k < ri' + length (filter reg_required regs)" using Cons.prems False by (auto simp: ri')
    from Cons.IH [OF _ this] Cons.prems(1) a start show ?thesis by (simp add: Let_def)
  qed
qed simp

lemma pc_build_named:
  assumes b: "pc_build rset req now starts visits kind reason = Inr out" "\<not> is_rejection kind"
    and known: "starts_known rset req" and named: "arms_named rset req"
  shows "\<exists>arm \<in> set (po_arms out). arm_required arm"
    and "r \<in> set (pr_required_arms req) \<Longrightarrow> \<exists>arm \<in> set (po_arms out). arm_required arm \<and> arm_id arm = r"
proof -
  have arms: "po_arms out = map row_arm (build_rows req starts visits kind 0 0 (rs_registrations rset))"
    using b by (auto simp: pc_build_def Let_def split: if_splits)
  have row: "\<exists>row \<in> set (build_rows req starts visits kind 0 0 (rs_registrations rset)).
      arm_required (row_arm row) \<and> (k < length (pr_required_arms req) \<longrightarrow> arm_id (row_arm row) = pr_required_arms req ! k)"
    if "k < length (filter reg_required (rs_registrations rset))" for k
    using honest_start_known [OF known] that by (intro build_rows_named) auto
  show "\<exists>arm \<in> set (po_arms out). arm_required arm"
    using row [of 0] named by (auto simp: arms arms_named_def)
  assume "r \<in> set (pr_required_arms req)"
  then obtain k where k: "k < length (pr_required_arms req)" "pr_required_arms req ! k = r" by (auto simp: in_set_conv_nth)
  with row [of k] named show "\<exists>arm \<in> set (po_arms out). arm_required arm \<and> arm_id arm = r"
    by (auto simp: arms arms_named_def)
qed

text \<open>Clean coverage is complete coverage.\<close>

lemma run_poll_cycle_coverage:
  assumes r: "run_poll_cycle env rset req fuel w = (Some (Inr out), w')"
    and in_order: "starts_known rset req" "arms_named rset req" and kind: "po_outcome_kind out \<in> {NoChange, LogicalDeadman}"
  shows "po_coverage_complete out \<and> (\<exists>arm \<in> set (po_arms out). arm_required arm)"
proof -
  from run_poll_cycle_decided [OF r] obtain b visits where
    b: "keys_below rset visits" "pc_decided rset req visits out" by metis
  from pc_decided_build [OF b(2,1)] obtain now starts visits' k reason out' where
    o: "pc_build rset req now starts visits' k reason = Inr out'" "out = apply_posture rset req out'" by metis
  have same: "out = out'" using kind o(2) by (auto simp: apply_posture_def split: if_splits)
  note f = pc_build_facts [OF o(1)] and k = kind [unfolded same f(2)]
  have nr: "\<not> is_rejection k" using k by (auto simp: is_rejection_def)
  have sound: "required_sound out"
    using run_poll_cycle_ok [OF r] kind by (auto simp: poll_outcome_ok_def required_unchanged_def required_sound_def)
  have "\<exists>arm \<in> set (po_arms out). id_str (arm_id arm) = id_str q \<and> \<not> arm_degraded arm \<and>
      \<not> (arm_stat arm = AS_Outage \<or> arm_stat arm = AS_CursorUncertain)" if "q \<in> set (pr_required_arms req)" for q
    using pc_build_named(2) [OF o(1) nr in_order that] sound by (fastforce simp: same required_sound_def)
  then have "coverage_is_complete req (po_arms out) k"
    using k by (auto simp: coverage_is_complete_def list_all_iff list_ex_iff)
  with f(5) pc_build_named(1) [OF o(1) nr in_order] show ?thesis by (simp add: same)
qed

text \<open>So the runner emits only outcomes that admission accepts.\<close>

lemma run_poll_cycle_admitted:
  assumes r: "run_poll_cycle env rset req fuel w = (Some (Inr out), w')"
    and in_order: "starts_known rset req" "arms_named rset req"
    and ts: "ts_faithful (ad_calendar ad) (po_completed_at out)" "ts_faithful (ad_calendar ad) (pr_logical_deadline req)"
  shows "outcome_normative ad (poll_cycle_outcome_json out) = ok ()"
proof (rule poll_outcome_admitted [OF run_poll_cycle_ok [OF r] ts(1)])
  show "ts_faithful (ad_calendar ad) (po_logical_deadline out)"
    using run_poll_cycle_ok [OF r] ts(2) by (simp add: poll_outcome_ok_def poll_echo_def)
qed (use run_poll_cycle_coverage [OF r in_order] in simp)

section \<open>Examples\<close>

lemma ex_instants_runs [simp]:
  "parse_instant gregorian ''2026-08-15T16:20:00Z'' = P_Ok 1786810800000000000"
  "parse_instant gregorian ''2026-08-16T00:00:00Z'' = P_Ok 1786838400000000000"
  "parse_instant gregorian ''2026-08-15T16:00:00Z'' = P_Ok 1786809600000000000"
proof -
  have "parse_fields ''2026-08-15T16:20:00Z'' = Some (2026, 8, 15, 58800, 0, 0)"
    "parse_fields ''2026-08-16T00:00:00Z'' = Some (2026, 8, 16, 0, 0, 0)"
    "parse_fields ''2026-08-15T16:00:00Z'' = Some (2026, 8, 15, 57600, 0, 0)" by code_simp+
  moreover have "\<not> trim_changes ''2026-08-15T16:20:00Z''" "\<not> trim_changes ''2026-08-16T00:00:00Z''"
    "\<not> trim_changes ''2026-08-15T16:00:00Z''" by code_simp+
  moreover have "cal_to_days gregorian 2026 8 16 = Some 20681" by code_simp
  ultimately show "parse_instant gregorian ''2026-08-15T16:20:00Z'' = P_Ok 1786810800000000000"
    "parse_instant gregorian ''2026-08-16T00:00:00Z'' = P_Ok 1786838400000000000"
    "parse_instant gregorian ''2026-08-15T16:00:00Z'' = P_Ok 1786809600000000000"
    by (simp_all add: instant_simps)
qed

lemma ex_faithful:
  "ts_faithful (ad_calendar ex_admission) ts_1620" "ts_faithful (ad_calendar ex_admission) ts_1602"
  "ts_faithful (ad_calendar ex_admission) (pr_logical_deadline ex_poll_request)"
  "\<forall>reg \<in> set (rs_registrations ex_set). ts_faithful (ad_calendar ex_admission) (reg_lease_expires_at reg)"
  "ts_faithful (ad_calendar ex_admission) ts_1600" "ts_faithful (ad_calendar ex_admission) ts_1601"
proof -
  have ts: "ts_1620 = \<lparr>ts_raw = ''2026-08-15T16:20:00Z'', ts_instant = 1786810800000000000\<rparr>"
    "ts_1602 = \<lparr>ts_raw = ''2026-08-15T16:02:00Z'', ts_instant = 1786809720000000000\<rparr>"
    "pr_logical_deadline ex_poll_request = \<lparr>ts_raw = ''2026-08-15T17:00:00Z'', ts_instant = 1786813200000000000\<rparr>"
    "ts_1600 = \<lparr>ts_raw = ''2026-08-15T16:00:00Z'', ts_instant = 1786809600000000000\<rparr>"
    "ts_1601 = \<lparr>ts_raw = ''2026-08-15T16:01:00Z'', ts_instant = 1786809660000000000\<rparr>"
    by code_simp+
  have "list_all (\<lambda>reg. reg_lease_expires_at reg = \<lparr>ts_raw = ''2026-08-16T00:00:00Z'', ts_instant = 1786838400000000000\<rparr>)
      (rs_registrations ex_set)" by code_simp
  then have leases: "reg_lease_expires_at reg = \<lparr>ts_raw = ''2026-08-16T00:00:00Z'', ts_instant = 1786838400000000000\<rparr>"
    if "reg \<in> set (rs_registrations ex_set)" for reg using that by (simp add: list_all_iff)
  have "ad_calendar ex_admission = gregorian" by (simp add: ex_admission_def)
  with leases show "ts_faithful (ad_calendar ex_admission) ts_1620" "ts_faithful (ad_calendar ex_admission) ts_1602"
    "ts_faithful (ad_calendar ex_admission) (pr_logical_deadline ex_poll_request)"
    "\<forall>reg \<in> set (rs_registrations ex_set). ts_faithful (ad_calendar ex_admission) (reg_lease_expires_at reg)"
    "ts_faithful (ad_calendar ex_admission) ts_1600" "ts_faithful (ad_calendar ex_admission) ts_1601"
    unfolding ts by (simp_all add: ts_faithful_def)
qed

lemma ex_in_order: "starts_known ex_set ex_poll_request" "arms_named ex_set ex_poll_request"
proof -
  have "list_all (\<lambda>reg. reg_start_anchor reg \<noteq> None) (rs_registrations ex_set)" by code_simp
  then show "starts_known ex_set ex_poll_request" by (simp add: starts_known_def list_all_iff)
  show "arms_named ex_set ex_poll_request" by code_simp
qed

lemma ex_quiet_run:
  "case run_poll_cycle ex_env ex_set ex_poll_request 12 ex_quiet_world of
     (Some (Inr out), _) \<Rightarrow> po_outcome_kind out = NoChange \<and> po_completed_at out = ts_1620
   | _ \<Rightarrow> False"
  by code_simp


section \<open>Properties\<close>

text \<open>
  C31. The runner emits what admission accepts: if every registration has a start, at least one is
  required and the request names no more arms than are required, every outcome of a poll cycle
  passes the rules for outcomes. Its timestamps must be texts of their instants, as every
  constructor of a timestamp makes them.
\<close>

theorem poll_cycle_admitted:
  assumes "run_poll_cycle env rset req fuel w = (Some (Inr out), w')"
    and "starts_known rset req" "arms_named rset req"
    and "ts_faithful (ad_calendar ad) (po_completed_at out)" "ts_faithful (ad_calendar ad) (pr_logical_deadline req)"
  shows "outcome_normative ad (poll_cycle_outcome_json out) = ok ()"
  using assms by (rule run_poll_cycle_admitted)

lemma poll_cycle_admitted_witness:
  "\<exists>out w'. run_poll_cycle ex_env ex_set ex_poll_request 12 ex_quiet_world = (Some (Inr out), w') \<and> po_outcome_kind out = NoChange \<and>
     outcome_normative ex_admission (poll_cycle_outcome_json out) = ok ()"
proof -
  obtain out w' where r: "run_poll_cycle ex_env ex_set ex_poll_request 12 ex_quiet_world = (Some (Inr out), w')"
    "po_outcome_kind out = NoChange" "po_completed_at out = ts_1620"
    using ex_quiet_run by (auto split: prod.splits option.splits sum.splits)
  from poll_cycle_admitted [OF r(1) ex_in_order _ ex_faithful(3)] r ex_faithful(1) show ?thesis by auto
qed



text \<open>
  The \<open>no_change\<close> the runner emits without complete coverage, or without a required arm.
\<close>

lemma no_change_rejected:
  assumes ok: "poll_outcome_ok rset req out" and kind: "po_outcome_kind out = NoChange"
    and ts: "ts_faithful (ad_calendar ad) (po_completed_at out)" "ts_faithful (ad_calendar ad) (po_logical_deadline out)"
    and bad: "\<not> po_coverage_complete out \<or> filter arm_required (po_arms out) = []"
  shows "outcome_normative ad (poll_cycle_outcome_json out) =
    rejects (ve_normative ''/outcome_kind'' ''no_change_invariants'' NoChangeInvariants)"
proof -
  let ?d = "poll_cycle_outcome_json out"
  have clean: "length (filter arm_dirty (required_arms_of ?d)) = 0"
    using ok kind by (auto simp: required_arms_json poll_outcome_ok_def required_unchanged_def filter_empty_conv)
  have "\<not> is_true ''coverage_complete'' ?d \<or> \<not> all_required arm_no_change ?d"
    using bad by (auto simp: all_required_def required_arms_json)
  moreover have "str_or_empty ''outcome_kind'' ?d = ''no_change''" by (simp add: str_or_empty_def kind)
  ultimately show ?thesis
    using clean compare_faithful [OF ts]
    by (auto simp: outcome_normative_def clean_kind_def string_field_def and_then_def reject_if_def Let_def)
qed

text \<open>
  The premises on the request and the set are needed: a request that names a third arm, and a set without a
  required registration, both lead the runner to a \<open>no_change\<close> that admission rejects.
\<close>

theorem poll_no_change_rejected:
  "(case run_poll_cycle ex_env ex_set ex_extra_request 12 ex_quiet_world of
      (Some (Inr out), _) \<Rightarrow> po_outcome_kind out = NoChange \<and> outcome_normative ex_admission (poll_cycle_outcome_json out) =
        rejects (ve_normative ''/outcome_kind'' ''no_change_invariants'' NoChangeInvariants)
    | _ \<Rightarrow> False) \<and>
   (case run_poll_cycle ex_env ex_optional_set ex_poll_request 12 ex_quiet_world of
      (Some (Inr out), _) \<Rightarrow> po_outcome_kind out = NoChange \<and> outcome_normative ex_admission (poll_cycle_outcome_json out) =
        rejects (ve_normative ''/outcome_kind'' ''no_change_invariants'' NoChangeInvariants)
    | _ \<Rightarrow> False)"
proof -
  have extra: "case run_poll_cycle ex_env ex_set ex_extra_request 12 ex_quiet_world of
      (Some (Inr out), _) \<Rightarrow> po_outcome_kind out = NoChange \<and> po_completed_at out = ts_1620 \<and> po_logical_deadline out = ts_1700 \<and>
        \<not> po_coverage_complete out
    | _ \<Rightarrow> False" by code_simp
  have optional: "case run_poll_cycle ex_env ex_optional_set ex_poll_request 12 ex_quiet_world of
      (Some (Inr out), _) \<Rightarrow> po_outcome_kind out = NoChange \<and> po_completed_at out = ts_1620 \<and> po_logical_deadline out = ts_1700 \<and>
        filter arm_required (po_arms out) = []
    | _ \<Rightarrow> False" by code_simp
  have "pr_logical_deadline ex_poll_request = ts_1700" by code_simp
  with ex_faithful(3) have ts: "ts_faithful (ad_calendar ex_admission) ts_1700" by simp
  note rejected = no_change_rejected [OF run_poll_cycle_ok]
  from extra obtain out w where a: "run_poll_cycle ex_env ex_set ex_extra_request 12 ex_quiet_world = (Some (Inr out), w)"
    "po_outcome_kind out = NoChange" "po_completed_at out = ts_1620" "po_logical_deadline out = ts_1700" "\<not> po_coverage_complete out"
    by (auto split: prod.splits option.splits sum.splits)
  from optional obtain out' w' where b: "run_poll_cycle ex_env ex_optional_set ex_poll_request 12 ex_quiet_world = (Some (Inr out'), w')"
    "po_outcome_kind out' = NoChange" "po_completed_at out' = ts_1620" "po_logical_deadline out' = ts_1700"
    "filter arm_required (po_arms out') = []"
    by (auto split: prod.splits option.splits sum.splits)
  show ?thesis
    using rejected [OF a(1,2), of ex_admission] rejected [OF b(1,2), of ex_admission] a b ts ex_faithful(1) by simp
qed

text \<open>An outcome that completed after a lease and does not say so breaks the rule for leases.\<close>

lemma late_exchange_rejected:
  assumes reg: "reg \<in> set (rs_registrations rset)" "ts_less (reg_lease_expires_at reg) (po_completed_at out)"
    and ts: "ts_faithful (ad_calendar ad) (reg_lease_expires_at reg)" "ts_faithful (ad_calendar ad) (po_completed_at out)"
    and kind: "po_outcome_kind out \<noteq> ReauthenticationRequired"
  shows "set_rules ad (exchange rset req out) \<noteq> ok ()"
proof
  assume "set_rules ad (exchange rset req out) = ok ()"
  from authn_lease_ok(3) [OF set_rules_parts(6) [OF this], of "registration_set_json rset" "poll_cycle_outcome_json out" "registration_json reg"]
  have "ts_instant (reg_lease_expires_at reg) < ts_instant (po_completed_at out) \<longrightarrow> po_outcome_kind out = ReauthenticationRequired"
    using reg(1) ts by (simp add: exchange_def is_kind_def is_outcome_def str_or_empty_def ts_faithful_def)
  with reg(2) kind show False by (simp add: ts_less_def)
qed

text \<open>
  So is the exception for cancellations: a wait cancelled after a lease has run out
  reports \<open>cancelled\<close>, and its exchange breaks the rule that only a demand for reauthentication
  may complete after a lease.
\<close>

theorem poll_cancelled_rejected:
  "case run_poll_cycle ex_cancel_env ex_expired_set ex_poll_request 12 ex_quiet_world of
     (Some (Inr out), _) \<Rightarrow> po_outcome_kind out = Cancelled \<and> set_rules ex_admission (exchange ex_expired_set ex_poll_request out) \<noteq> ok ()
   | _ \<Rightarrow> False"
proof -
  have run: "case run_poll_cycle ex_cancel_env ex_expired_set ex_poll_request 12 ex_quiet_world of
      (Some (Inr out), _) \<Rightarrow> po_outcome_kind out = Cancelled \<and> po_completed_at out = ts_1601
    | _ \<Rightarrow> False" by code_simp
  have lease: "reg_lease_expires_at (hd (rs_registrations ex_expired_set)) = ts_1600" "rs_registrations ex_expired_set \<noteq> []"
    "ts_less ts_1600 ts_1601" by code_simp+
  from run obtain out w where out: "run_poll_cycle ex_cancel_env ex_expired_set ex_poll_request 12 ex_quiet_world = (Some (Inr out), w)"
    "po_outcome_kind out = Cancelled" "po_completed_at out = ts_1601"
    by (auto split: prod.splits option.splits sum.splits)
  have "set_rules ex_admission (exchange ex_expired_set ex_poll_request out) \<noteq> ok ()"
    by (rule late_exchange_rejected [of "hd (rs_registrations ex_expired_set)"]) (use lease out ex_faithful in simp_all)
  with out show ?thesis by simp
qed

end
