(* ===== verification/Fs_Path.thy ===== *)
theory Fs_Path
  imports Validate Observer_Interface
begin

text \<open>
  Paths and watch targets of the native filesystem observer (\<open>Target\<close>, \<open>normalize_paths\<close> and
  their helpers in \<^verbatim>\<open>crates/waitprims-fs/src/lib.rs\<close>). A Unix path is the list of its components, as
  \<open>Path::components\<close> yields them, which is how \<open>std::path\<close> compares paths. The filesystem, the
  watch backend, the event-reference sink and the clock are the fields of \<open>host\<close>; each call is
  given the outside and may change it, so two successive questions may be answered differently.
\<close>

section \<open>Paths\<close>

datatype path_component = C_Root | C_Cur | C_Parent | C_Normal string

type_synonym path = "path_component list"

text \<open>\<open>Path::new\<close> and \<open>components\<close>: empty pieces and inner dots are skipped.\<close>

fun split_slash :: "string \<Rightarrow> string list" where
  "split_slash [] = [[]]"
| "split_slash (c # s) =
     (if c = CHR ''/'' then [] # split_slash s
      else case split_slash s of [] \<Rightarrow> [[c]] | p # ps \<Rightarrow> (c # p) # ps)"

definition piece :: "string \<Rightarrow> path" where
  "piece p = (if p = [] \<or> p = ''.'' then [] else if p = ''..'' then [C_Parent] else [C_Normal p])"

definition path_new :: "string \<Rightarrow> path" where
  "path_new s =
     (case split_slash s of
        [] \<Rightarrow> []
      | p # ps \<Rightarrow>
          (if take 1 s = ''/'' then [C_Root] else if p = ''.'' then [C_Cur] else piece p) @ concat (map piece ps))"

definition path_is_absolute :: "path \<Rightarrow> bool" where
  "path_is_absolute p \<longleftrightarrow> take 1 p = [C_Root]"

definition path_join :: "path \<Rightarrow> path \<Rightarrow> path" where
  "path_join p q =
     (if path_is_absolute q then q
      else if p = [] then q
      else p @ (case q of C_Cur # q' \<Rightarrow> q' | _ \<Rightarrow> q))"

definition path_parent :: "path \<Rightarrow> path option" where
  "path_parent p = (if p = [] \<or> last p = C_Root then None else Some (butlast p))"

definition path_file_name :: "path \<Rightarrow> path option" where
  "path_file_name p =
     (if p = [] then None else case last p of C_Normal n \<Rightarrow> Some [C_Normal n] | _ \<Rightarrow> None)"

definition path_starts_with :: "path \<Rightarrow> path \<Rightarrow> bool" where
  "path_starts_with p base \<longleftrightarrow> take (length base) p = base"

definition path_strip :: "path \<Rightarrow> path \<Rightarrow> path option" where
  "path_strip p base = (if path_starts_with p base then Some (drop (length base) p) else None)"

lemma path_starts_with_iff: "path_starts_with p base \<longleftrightarrow> (\<exists>rest. p = base @ rest)"
  unfolding path_starts_with_def by (metis append_eq_conv_conj append_take_drop_id)

section \<open>Events and the outside\<close>

datatype file_event_class = FE_Create | FE_Write | FE_Remove | FE_Rename | FE_Ambiguous

record event_descriptor =
  ed_class :: file_event_class
  ed_paths :: "string list"

record backend_event =
  be_class :: file_event_class
  be_paths :: "path list"

datatype backend_signal = BS_Event backend_event | BS_Rescan | BS_Failed

record 'w host =
  h_canonicalize :: "'w \<Rightarrow> path \<Rightarrow> path option \<times> 'w"
  h_is_dir :: "'w \<Rightarrow> path \<Rightarrow> bool \<times> 'w"
  h_exists :: "'w \<Rightarrow> path \<Rightarrow> bool \<times> 'w"
  h_start :: "'w \<Rightarrow> path list \<Rightarrow> bool \<times> 'w"
  h_materialize :: "'w \<Rightarrow> event_descriptor \<Rightarrow> (error + payload_ref) \<times> 'w"
  h_now :: "'w \<Rightarrow> timestamp \<times> 'w"
  h_to_vec :: "event_descriptor \<Rightarrow> string"
  h_sha256 :: "string \<Rightarrow> string"
  h_lossy :: "string \<Rightarrow> string"

section \<open>Subjects\<close>

definition parse_portable_relative :: "string \<Rightarrow> path option" where
  "parse_portable_relative subject =
     (if subject = [] \<or> take 1 subject = ''/'' \<or> take 1 subject = [CHR 0x5C] \<or> CHR 0x5C \<in> set subject
         \<or> take 1 (drop 1 subject) = '':''
      then None
      else if list_all (\<lambda>c. case c of C_Normal _ \<Rightarrow> True | C_Cur \<Rightarrow> True | _ \<Rightarrow> False) (path_new subject)
      then Some (path_new subject) else None)"

section \<open>Targets\<close>

record target =
  tg_relative :: path
  tg_watch_paths :: "path list"
  tg_canonical_at_bind :: "path option"
  tg_canonical_candidate :: path
  tg_container_logical :: path
  tg_container_canonical :: path
  tg_exact_leaf :: bool

definition target_inert :: target where
  "target_inert =
     \<lparr>tg_relative = [C_Cur], tg_watch_paths = [], tg_canonical_at_bind = None, tg_canonical_candidate = [],
      tg_container_logical = [], tg_container_canonical = [], tg_exact_leaf = False\<rparr>"

text \<open>The last test of \<open>resolve\<close>.\<close>

definition target_within :: "path \<Rightarrow> target \<Rightarrow> target option" where
  "target_within root t = (if path_starts_with (tg_container_canonical t) root then Some t else None)"

definition resolve_directory :: "'w host \<Rightarrow> path \<Rightarrow> path \<Rightarrow> path \<Rightarrow> path \<Rightarrow> 'w \<Rightarrow> target option \<times> 'w" where
  "resolve_directory h root relative logical canonical w =
     (let container_logical =
            (if logical = root then root else case path_parent logical of None \<Rightarrow> root | Some p \<Rightarrow> p);
          (container_canonical, w) = h_canonicalize h w container_logical
      in case container_canonical of
           None \<Rightarrow> (None, w)
         | Some container_canonical \<Rightarrow>
             (target_within root
                \<lparr>tg_relative = relative, tg_watch_paths = [canonical], tg_canonical_at_bind = Some canonical,
                 tg_canonical_candidate = canonical, tg_container_logical = container_logical,
                 tg_container_canonical = container_canonical, tg_exact_leaf = False\<rparr>, w))"

definition resolve_file :: "'w host \<Rightarrow> path \<Rightarrow> path \<Rightarrow> path \<Rightarrow> path \<Rightarrow> 'w \<Rightarrow> target option \<times> 'w" where
  "resolve_file h root relative logical canonical w =
     (case path_parent logical of
        None \<Rightarrow> (None, w)
      | Some logical_parent \<Rightarrow>
          (case h_canonicalize h w logical_parent of
             (None, w) \<Rightarrow> (None, w)
           | (Some canonical_parent, w) \<Rightarrow>
               (target_within root
                  \<lparr>tg_relative = relative, tg_watch_paths = [canonical, canonical_parent], tg_canonical_at_bind = Some canonical,
                   tg_canonical_candidate = canonical, tg_container_logical = logical_parent,
                   tg_container_canonical = canonical_parent, tg_exact_leaf = True\<rparr>, w)))"

definition resolve_missing :: "'w host \<Rightarrow> path \<Rightarrow> path \<Rightarrow> path \<Rightarrow> 'w \<Rightarrow> target option \<times> 'w" where
  "resolve_missing h root relative logical w =
     (case path_parent logical of
        None \<Rightarrow> (None, w)
      | Some parent \<Rightarrow>
          (case h_canonicalize h w parent of
             (None, w) \<Rightarrow> (None, w)
           | (Some canonical_parent, w) \<Rightarrow>
               (if \<not> path_starts_with canonical_parent root then (None, w)
                else case path_file_name logical of
                       None \<Rightarrow> (None, w)
                     | Some name \<Rightarrow>
                         (target_within root
                            \<lparr>tg_relative = relative, tg_watch_paths = [canonical_parent], tg_canonical_at_bind = None,
                             tg_canonical_candidate = path_join canonical_parent name, tg_container_logical = parent,
                             tg_container_canonical = canonical_parent, tg_exact_leaf = True\<rparr>, w))))"

definition target_resolve :: "'w host \<Rightarrow> path \<Rightarrow> string \<Rightarrow> 'w \<Rightarrow> target option \<times> 'w" where
  "target_resolve h root subject w =
     (case parse_portable_relative subject of
        None \<Rightarrow> (None, w)
      | Some relative \<Rightarrow>
          (let logical = path_join root relative
           in case h_canonicalize h w logical of
                (None, w) \<Rightarrow> resolve_missing h root relative logical w
              | (Some canonical, w) \<Rightarrow>
                  (if \<not> path_starts_with canonical root then (None, w)
                   else case h_is_dir h w canonical of
                          (True, w) \<Rightarrow> resolve_directory h root relative logical canonical w
                        | (False, w) \<Rightarrow> resolve_file h root relative logical canonical w)))"

definition still_safe :: "'w host \<Rightarrow> path \<Rightarrow> target \<Rightarrow> 'w \<Rightarrow> bool \<times> 'w" where
  "still_safe h root t w =
     (let (container, w) = h_canonicalize h w (tg_container_logical t)
      in if container \<noteq> Some (tg_container_canonical t) then (False, w)
         else let logical = path_join root (tg_relative t);
                  (current, w) = h_canonicalize h w logical
              in case (tg_canonical_at_bind t, current) of
                   (Some expected, Some current) \<Rightarrow> (current = expected \<and> path_starts_with current root, w)
                 | (Some _, None) \<Rightarrow> (True, w)
                 | (None, Some current) \<Rightarrow> (path_starts_with current root, w)
                 | (None, None) \<Rightarrow>
                     (case path_parent logical of
                        None \<Rightarrow> (False, w)
                      | Some parent \<Rightarrow>
                          (case h_canonicalize h w parent of
                             (None, w) \<Rightarrow> (False, w)
                           | (Some parent, w) \<Rightarrow> (path_starts_with parent root, w))))"

section \<open>Paths of an event\<close>

fun slash_join :: "string list \<Rightarrow> string" where
  "slash_join [] = []"
| "slash_join [s] = s"
| "slash_join (s # ss) = s @ ''/'' @ slash_join ss"

definition portable_path :: "'w host \<Rightarrow> path \<Rightarrow> string" where
  "portable_path h p =
     (if p = [] then ''.''
      else slash_join (filter_map (\<lambda>c. case c of C_Normal n \<Rightarrow> Some (h_lossy h n) | _ \<Rightarrow> None) p))"

text \<open>The canonical place of a path that may be gone.\<close>

definition safe_absolute :: "'w host \<Rightarrow> path \<Rightarrow> 'w \<Rightarrow> path option \<times> 'w" where
  "safe_absolute h absolute w =
     (case h_exists h w absolute of
        (True, w) \<Rightarrow> h_canonicalize h w absolute
      | (False, w) \<Rightarrow>
          (case path_parent absolute of
             None \<Rightarrow> (None, w)
           | Some parent \<Rightarrow>
               (case h_canonicalize h w parent of
                  (None, w) \<Rightarrow> (None, w)
                | (Some canonical_parent, w) \<Rightarrow> (map_option (path_join canonical_parent) (path_file_name absolute), w))))"

definition is_target :: "path \<Rightarrow> target \<Rightarrow> path \<Rightarrow> path \<Rightarrow> bool" where
  "is_target root t absolute safe \<longleftrightarrow>
     absolute = path_join root (tg_relative t) \<or> safe = path_join root (tg_relative t) \<or>
     safe = tg_canonical_candidate t \<or> tg_canonical_at_bind t = Some safe"

text \<open>The loop; \<open>None\<close> is a path outside the root or one that cannot be placed.\<close>

fun normalize_each :: "'w host \<Rightarrow> path \<Rightarrow> target \<Rightarrow> path list \<Rightarrow> 'w \<Rightarrow> string list option \<times> 'w" where
  "normalize_each h root t [] w = (Some [], w)"
| "normalize_each h root t (p # ps) w =
     (let absolute = (if path_is_absolute p then p else path_join root p)
      in case safe_absolute h absolute w of
           (None, w) \<Rightarrow> (None, w)
         | (Some safe, w) \<Rightarrow>
             (case path_strip safe root of
                None \<Rightarrow> (None, w)
              | Some relative \<Rightarrow>
                  (case normalize_each h root t ps w of
                     (None, w) \<Rightarrow> (None, w)
                   | (Some ns, w) \<Rightarrow>
                       (Some (if tg_exact_leaf t \<and> \<not> is_target root t absolute safe then ns else portable_path h relative # ns), w))))"

definition normalize_paths :: "'w host \<Rightarrow> path \<Rightarrow> target \<Rightarrow> path list \<Rightarrow> 'w \<Rightarrow> string list option \<times> 'w" where
  "normalize_paths h root t ps w =
     (case normalize_each h root t ps w of
        (None, w) \<Rightarrow> (None, w)
      | (Some ns, w) \<Rightarrow> (Some (remdups_adj (sort ns)), w))"

section \<open>Nothing leaves the root\<close>

text \<open>A subject has no component that climbs or restarts.\<close>

lemma parse_portable_relative_names:
  "parse_portable_relative s = Some p \<Longrightarrow> c \<in> set p \<Longrightarrow> c = C_Cur \<or> (\<exists>n. c = C_Normal n)"
  by (cases c) (auto simp: parse_portable_relative_def list_all_iff split: if_splits)

lemma target_within_Some: "target_within root t = Some t' \<longleftrightarrow> t' = t \<and> path_starts_with (tg_container_canonical t) root"
  by (auto simp: target_within_def)

lemma target_resolve_inside:
  assumes "target_resolve h root subject w = (Some t, w')"
  shows "(\<forall>p \<in> set (tg_watch_paths t). path_starts_with p root) \<and> path_starts_with (tg_container_canonical t) root \<and>
    tg_watch_paths t \<noteq> []"
  using assms
  by (auto simp: target_resolve_def resolve_missing_def resolve_directory_def resolve_file_def target_within_Some Let_def
      split: option.splits prod.splits if_splits bool.splits)

lemma normalize_each_inside:
  "normalize_each h root t ps w = (Some ns, w') \<Longrightarrow> n \<in> set ns \<Longrightarrow>
   \<exists>u u' p safe relative. p \<in> set ps \<and>
     safe_absolute h (if path_is_absolute p then p else path_join root p) u = (Some safe, u') \<and>
     safe = root @ relative \<and> n = portable_path h relative \<and>
     (tg_exact_leaf t \<longrightarrow> is_target root t (if path_is_absolute p then p else path_join root p) safe)"
proof (induction ps arbitrary: w ns)
  case (Cons p ps)
  let ?abs = "if path_is_absolute p then p else path_join root p"
  obtain safe u where s: "safe_absolute h ?abs w = (Some safe, u)"
    using Cons.prems(1) by (auto simp: Let_def split: prod.splits option.splits)
  then obtain relative ms where r: "path_strip safe root = Some relative" "normalize_each h root t ps u = (Some ms, w')"
    "ns = (if tg_exact_leaf t \<and> \<not> is_target root t ?abs safe then ms else portable_path h relative # ms)"
    using Cons.prems(1) by (auto simp: Let_def split: prod.splits option.splits)
  from r(1) have safe: "safe = root @ relative"
    by (auto simp: path_strip_def path_starts_with_def split: if_splits) (metis append_take_drop_id)
  show ?case
  proof (cases "n \<in> set ms")
    case True
    from Cons.IH [OF r(2) this] show ?thesis by (metis list.set_intros(2))
  next
    case False
    with r(3) Cons.prems(2) have "n = portable_path h relative" "tg_exact_leaf t \<longrightarrow> is_target root t ?abs safe"
      by (auto split: if_splits)
    with s safe show ?thesis by (metis list.set_intros(1))
  qed
qed simp

lemma sorted_remdups_adj: "sorted (xs :: string list) \<Longrightarrow> sorted_wrt (<) (remdups_adj xs)"
  by (induction xs rule: remdups_adj.induct) (auto simp: less_le)

lemma normalize_paths_inside:
  assumes "normalize_paths h root t ps w = (Some ns, w')"
  shows "sorted_wrt (<) ns"
    and "n \<in> set ns \<Longrightarrow> \<exists>u u' p safe relative. p \<in> set ps \<and>
      safe_absolute h (if path_is_absolute p then p else path_join root p) u = (Some safe, u') \<and>
      safe = root @ relative \<and> n = portable_path h relative \<and>
      (tg_exact_leaf t \<longrightarrow> is_target root t (if path_is_absolute p then p else path_join root p) safe)"
proof -
  from assms obtain ms where ms: "normalize_each h root t ps w = (Some ms, w')" "ns = remdups_adj (sort ms)"
    by (auto simp: normalize_paths_def split: prod.splits option.splits)
  show "sorted_wrt (<) ns" by (simp add: ms(2) sorted_remdups_adj)
  assume "n \<in> set ns"
  then have "n \<in> set ms" by (simp add: ms(2))
  from normalize_each_inside [OF ms(1) this] show "\<exists>u u' p safe relative. p \<in> set ps \<and>
      safe_absolute h (if path_is_absolute p then p else path_join root p) u = (Some safe, u') \<and>
      safe = root @ relative \<and> n = portable_path h relative \<and>
      (tg_exact_leaf t \<longrightarrow> is_target root t (if path_is_absolute p then p else path_join root p) safe)" .
qed

end
