(* ===== verification/Fs_Observer.thy ===== *)
theory Fs_Observer
  imports Fs_Path
begin

text \<open>
  The native filesystem observer (\<^verbatim>\<open>crates/waitprims-fs/src/lib.rs\<close>): registration checks, the bind
  with its bounded channel, and the operations of the observer on it. The watch backend pushes
  signals through \<open>fb_callback\<close> between polls. The channel closes when its last sender goes,
  which the watch lease holds. A parked \<open>next\<close> holds the receiver's lock.
\<close>

section \<open>Vocabulary\<close>

definition method_file_watch :: string where "method_file_watch = ''file_watch''"

datatype filesystem_posture = FP_Local | FP_Network | FP_Unknown

datatype predicate = P_Create | P_Write | P_Remove | P_Rename | P_Any

definition predicate_parse :: "string \<Rightarrow> predicate option" where
  "predicate_parse v =
     (if v = ''pred:file-create'' then Some P_Create
      else if v = ''pred:file-write'' then Some P_Write
      else if v = ''pred:file-remove'' then Some P_Remove
      else if v = ''pred:file-rename'' then Some P_Rename
      else if v = ''pred:file-any'' then Some P_Any
      else None)"

definition predicate_matches :: "predicate \<Rightarrow> file_event_class \<Rightarrow> bool" where
  "predicate_matches p c \<longleftrightarrow>
     p = P_Any \<or> (p, c) \<in> {(P_Create, FE_Create), (P_Write, FE_Write), (P_Remove, FE_Remove), (P_Rename, FE_Rename)}"

definition obs_failed :: "string \<Rightarrow> observation" where
  "obs_failed reason = Obs_Failed (IdToken reason)"

text \<open>The native event of the \<^verbatim>\<open>notify\<close> crate, as far as its kinds are told apart.\<close>

datatype rename_mode = RM_Any | RM_From | RM_To | RM_Both | RM_Other
datatype modify_kind = MK_Name rename_mode | MK_Rest
datatype event_kind = EK_Create | EK_Remove | EK_Modify modify_kind | EK_Rest

record notify_event =
  ne_need_rescan :: bool
  ne_kind :: event_kind
  ne_paths :: "path list"

definition notify_signal :: "notify_event \<Rightarrow> backend_signal" where
  "notify_signal ev =
     (if ne_need_rescan ev then BS_Rescan
      else BS_Event
        \<lparr>be_class = (case ne_kind ev of
                       EK_Create \<Rightarrow> FE_Create
                     | EK_Remove \<Rightarrow> FE_Remove
                     | EK_Modify (MK_Name _) \<Rightarrow> FE_Rename
                     | EK_Modify _ \<Rightarrow> FE_Write
                     | EK_Rest \<Rightarrow> FE_Ambiguous),
         be_paths = ne_paths ev\<rparr>)"

section \<open>Tokens\<close>

definition fs_token :: "string \<Rightarrow> u64 \<Rightarrow> u64 \<Rightarrow> string" where
  "fs_token namespace session sequence = namespace @ ''-'' @ dec (unat session) @ ''-'' @ dec (unat sequence)"

definition fs_anchor :: "u64 \<Rightarrow> u64 \<Rightarrow> anchor" where
  "fs_anchor session sequence = \<lparr>anc_kind = ProviderOpaque, anc_value = IdToken (fs_token ''anc:fs'' session sequence)\<rparr>"

text \<open>\<open>str::split_once\<close> and \<open>str::parse::<u64>\<close>, which takes a leading plus.\<close>

fun split_once :: "char \<Rightarrow> string \<Rightarrow> (string \<times> string) option" where
  "split_once d [] = None"
| "split_once d (c # s) =
     (if c = d then Some ([], s) else map_option (\<lambda>(a, b). (c # a, b)) (split_once d s))"

definition parse_u64 :: "string \<Rightarrow> u64 option" where
  "parse_u64 s =
     (let ds = (case s of c # r \<Rightarrow> if c = CHR ''+'' then r else s | [] \<Rightarrow> s)
      in if ds \<noteq> [] \<and> list_all is_digit ds \<and> digits_value ds < 2 ^ 64 then Some (of_nat (digits_value ds)) else None)"

definition fs_token_sequence :: "string \<Rightarrow> string \<Rightarrow> u64 \<Rightarrow> u64 option" where
  "fs_token_sequence v namespace expected_session = do {
     r \<leftarrow> strip_prefix namespace v;
     r \<leftarrow> strip_prefix ''-'' r;
     (session, sequence) \<leftarrow> split_once (CHR ''-'') r;
     session \<leftarrow> parse_u64 session;
     if session = expected_session then parse_u64 sequence else None
   }"

definition checked_pred :: "u64 \<Rightarrow> u64 option" where
  "checked_pred n = (if n = 0 then None else Some (n - 1))"

section \<open>Observer and bind\<close>

record fs_observer =
  fo_source_instance_ref :: opaque_ref
  fo_root :: path
  fo_posture :: filesystem_posture

record fs_bind =
  fb_registration_id :: id_token
  fb_registration :: registration
  fb_resolved_start :: anchor
  fb_root :: path
  fb_target :: target
  fb_predicate :: predicate
  fb_session :: u64
  fb_sequence :: u64
  fb_current_anchor :: anchor
  fb_channel :: "backend_signal list"
  fb_capacity :: nat
  fb_held :: bool
  fb_restored :: "observation list"
  fb_overflowed :: bool
  fb_released :: bool
  fb_terminal :: "observation option"
  fb_lease :: bool

definition fs_with_clock :: "'w host \<Rightarrow> opaque_ref \<Rightarrow> path \<Rightarrow> filesystem_posture \<Rightarrow> 'w \<Rightarrow> (error + fs_observer) \<times> 'w" where
  "fs_with_clock h src root posture w =
     (case h_canonicalize h w root of
        (None, w) \<Rightarrow> (Inl (EValidation (ve_new ''/filesystem/root'' ''canonical_local_root_required'')), w)
      | (Some root, w) \<Rightarrow>
          (case h_is_dir h w root of
             (False, w) \<Rightarrow> (Inl (EValidation (ve_new ''/filesystem/root'' ''directory_root_required'')), w)
           | (True, w) \<Rightarrow> (Inr \<lparr>fo_source_instance_ref = src, fo_root = root, fo_posture = posture\<rparr>, w)))"

definition validate_registration ::
  "'w host \<Rightarrow> fs_observer \<Rightarrow> registration \<Rightarrow> 'w \<Rightarrow> (observation + predicate \<times> target) \<times> 'w" where
  "validate_registration h ob reg w =
     (if id_str (reg_method_id reg) \<noteq> method_file_watch \<or> id_str (reg_subject_kind reg) \<noteq> ''path''
         \<or> reg_source_instance_ref reg \<noteq> fo_source_instance_ref ob
      then (Inl (obs_failed ''fs_invalid_registration''), w)
      else if reg_start_anchor reg \<noteq> None \<or> reg_baseline_policy reg \<noteq> Some Latest
      then (Inl (Obs_CursorUncertain (IdToken ''fs_cross_bind_cursor_unsupported'')), w)
      else if fo_posture ob \<noteq> FP_Local
      then (Inl (Obs_Degraded (IdToken ''fs_unsupported_filesystem'')), w)
      else case predicate_parse (pred_str (reg_predicate_ref reg)) of
             None \<Rightarrow> (Inl (obs_failed ''fs_invalid_registration''), w)
           | Some predicate \<Rightarrow>
               (case target_resolve h (fo_root ob) (id_str (reg_subject_id reg)) w of
                  (None, w) \<Rightarrow> (Inl (obs_failed ''fs_path_uncertain''), w)
                | (Some t, w) \<Rightarrow> (Inr (predicate, t), w)))"

text \<open>A bind that only ever reports its terminal observation. The session counter is global.\<close>

definition fb_inert :: "path \<Rightarrow> registration \<Rightarrow> observation \<Rightarrow> u64 \<Rightarrow> fs_bind \<times> u64" where
  "fb_inert root reg terminal session =
     (\<lparr>fb_registration_id = reg_id reg, fb_registration = reg, fb_resolved_start = fs_anchor session 0, fb_root = root,
       fb_target = target_inert, fb_predicate = P_Any, fb_session = session, fb_sequence = 0,
       fb_current_anchor = fs_anchor session 0, fb_channel = [], fb_capacity = 1, fb_held = False, fb_restored = [],
       fb_overflowed = False, fb_released = False, fb_terminal = Some terminal, fb_lease = False\<rparr>, session + 1)"

definition fb_live :: "path \<Rightarrow> registration \<Rightarrow> predicate \<Rightarrow> target \<Rightarrow> u64 \<Rightarrow> fs_bind" where
  "fb_live root reg predicate t session =
     \<lparr>fb_registration_id = reg_id reg, fb_registration = reg, fb_resolved_start = fs_anchor session 0, fb_root = root,
      fb_target = t, fb_predicate = predicate, fb_session = session, fb_sequence = 0,
      fb_current_anchor = fs_anchor session 0, fb_channel = [],
      fb_capacity = max 1 (min 65536 (unat (wb_max_events (reg_bounds reg)))), fb_held = False, fb_restored = [],
      fb_overflowed = False, fb_released = False, fb_terminal = None, fb_lease = True\<rparr>"

definition fs_bind_to :: "'w host \<Rightarrow> fs_observer \<Rightarrow> registration \<Rightarrow> u64 \<times> 'w \<Rightarrow> fs_bind \<times> u64 \<times> 'w" where
  "fs_bind_to h ob reg c =
     (case c of (session, w) \<Rightarrow>
        (case validate_registration h ob reg w of
           (Inl terminal, w) \<Rightarrow> (case fb_inert (fo_root ob) reg terminal session of (b, session) \<Rightarrow> (b, session, w))
         | (Inr (predicate, t), w) \<Rightarrow>
             (case h_start h w (tg_watch_paths t) of
                (False, w) \<Rightarrow>
                  (case fb_inert (fo_root ob) reg (obs_failed ''fs_native_watch_failed'') (session + 1) of
                     (b, session) \<Rightarrow> (b, session, w))
              | (True, w) \<Rightarrow> (fb_live (fo_root ob) reg predicate t session, session + 1, w))))"

text \<open>\<open>try_send\<close>: a full channel raises the overflow flag.\<close>

definition fb_callback :: "fs_bind \<Rightarrow> backend_signal \<Rightarrow> fs_bind" where
  "fb_callback b signal =
     (if length (fb_channel b) < fb_capacity b then b\<lparr>fb_channel := fb_channel b @ [signal]\<rparr>
      else b\<lparr>fb_overflowed := True\<rparr>)"

section \<open>Observing\<close>

definition fb_immediate :: "fs_bind \<Rightarrow> observation option \<times> fs_bind" where
  "fb_immediate b =
     (if fb_released b then (Some (obs_failed ''fs_bind_released''), b)
      else case fb_restored b of
             obs # rest \<Rightarrow> (Some obs, b\<lparr>fb_restored := rest\<rparr>)
           | [] \<Rightarrow>
               (if fb_overflowed b then (Some Obs_Overflow, b\<lparr>fb_overflowed := False\<rparr>)
                else (fb_terminal b, b\<lparr>fb_terminal := None\<rparr>)))"

text \<open>The event of an admitted descriptor. The counter is atomic and wraps.\<close>

definition fb_mint :: "'w host \<Rightarrow> fs_bind \<Rightarrow> payload_ref \<Rightarrow> 'w \<Rightarrow> wait_event \<times> fs_bind \<times> 'w" where
  "fb_mint h b payload w =
     (let sequence = fb_sequence b + 1;
          nxt = fs_anchor (fb_session b) sequence;
          (now, w) = h_now h w;
          reg = fb_registration b
      in (\<lparr>ev_event_id = IdToken (fs_token ''evt:fs'' (fb_session b) sequence), ev_registration_id = reg_id reg,
           ev_source_instance_ref = reg_source_instance_ref reg, ev_method_id = reg_method_id reg,
           ev_subject_kind = reg_subject_kind reg, ev_subject_id = reg_subject_id reg,
           ev_occurred_at = now, ev_observed_at = now, ev_start_anchor = fb_current_anchor b,
           ev_proposed_next_anchor = nxt, ev_replay_status = Fresh,
           ev_correlation_id = IdToken (fs_token ''cor:fs'' (fb_session b) sequence), ev_causation_id = None,
           ev_payload = payload, ev_delivery_ref = None, ev_activation_ref = None\<rparr>,
          b\<lparr>fb_sequence := sequence, fb_current_anchor := nxt\<rparr>, w))"

definition fb_digest :: "'w host \<Rightarrow> event_descriptor \<Rightarrow> string" where
  "fb_digest h d = concat (map hex_byte (h_sha256 h (h_to_vec h d)))"

text \<open>A descriptor that passed the predicate: its size, its payload and the payload's digest.\<close>

definition fb_admit :: "'w host \<Rightarrow> fs_bind \<Rightarrow> event_descriptor \<Rightarrow> 'w \<Rightarrow> observation option \<times> fs_bind \<times> 'w" where
  "fb_admit h b d w =
     (if unat (wb_max_bytes (reg_bounds (fb_registration b))) < length (h_to_vec h d) then (Some Obs_Overflow, b, w)
      else case h_materialize h w d of
             (Inl _, w) \<Rightarrow> (Some (obs_failed ''fs_event_ref_sink_failed''), b, w)
           | (Inr payload, w) \<Rightarrow>
               (if cd_algorithm (pl_content_digest payload) \<noteq> Sha256 \<or> cd_value (pl_content_digest payload) \<noteq> fb_digest h d
                then (Some (obs_failed ''fs_event_ref_digest_mismatch''), b, w)
                else case fb_mint h b payload w of (ev, b, w) \<Rightarrow> (Some (Obs_Event ev), b, w)))"

definition fb_process_event :: "'w host \<Rightarrow> fs_bind \<Rightarrow> backend_event \<Rightarrow> 'w \<Rightarrow> observation option \<times> fs_bind \<times> 'w" where
  "fb_process_event h b raw w =
     (case still_safe h (fb_root b) (fb_target b) w of
        (False, w) \<Rightarrow> (Some (obs_failed ''fs_path_uncertain''), b, w)
      | (True, w) \<Rightarrow>
          (case normalize_paths h (fb_root b) (fb_target b) (be_paths raw) w of
             (None, w) \<Rightarrow> (Some (obs_failed ''fs_path_uncertain''), b, w)
           | (Some [], w) \<Rightarrow> (None, b, w)
           | (Some paths, w) \<Rightarrow>
               (if be_class raw = FE_Ambiguous \<and> fb_predicate b \<noteq> P_Any
                then (Some (Obs_Degraded (IdToken ''fs_ambiguous_event_class'')), b, w)
                else if \<not> predicate_matches (fb_predicate b) (be_class raw) then (None, b, w)
                else fb_admit h b \<lparr>ed_class = be_class raw, ed_paths = paths\<rparr> w)))"

definition fb_process :: "'w host \<Rightarrow> fs_bind \<Rightarrow> backend_signal \<Rightarrow> 'w \<Rightarrow> observation option \<times> fs_bind \<times> 'w" where
  "fb_process h b signal w =
     (if fb_released b then (Some (obs_failed ''fs_bind_released''), b, w)
      else case signal of
             BS_Rescan \<Rightarrow> (Some (Obs_CursorUncertain (IdToken ''fs_rescan_required'')), b, w)
           | BS_Failed \<Rightarrow> (Some (obs_failed ''fs_native_watch_failed''), b, w)
           | BS_Event raw \<Rightarrow> fb_process_event h b raw w)"

lemma fb_immediate_channel: "fb_immediate b = (r, b') \<Longrightarrow> fb_channel b' = fb_channel b"
  by (auto simp: fb_immediate_def split: if_splits list.splits)

text \<open>What processing a signal changes of the bind: nothing, or the counter and the anchor.\<close>

definition same_but_count :: "fs_bind \<Rightarrow> fs_bind \<Rightarrow> bool" where
  "same_but_count b b' \<longleftrightarrow>
     b' = b \<or> b' = b\<lparr>fb_sequence := fb_sequence b + 1, fb_current_anchor := fs_anchor (fb_session b) (fb_sequence b + 1)\<rparr>"

lemma fb_admit_cases:
  assumes "fb_admit h b d w = (r, b', w')"
  obtains (signal) obs where "r = Some obs" "b' = b" "\<not> observation_is_replayable obs"
  | (event) payload u ev where "cd_algorithm (pl_content_digest payload) = Sha256" "h_materialize h w d = (Inr payload, u)" "r = Some (Obs_Event ev)"
      "fb_mint h b payload u = (ev, b', w')" "cd_value (pl_content_digest payload) = fb_digest h d"
      "length (h_to_vec h d) \<le> unat (wb_max_bytes (reg_bounds (fb_registration b)))"
proof (cases "h_materialize h w d")
  case (Pair m u)
  show thesis
  proof (cases m)
    case (Inl err)
    with Pair assms signal show thesis by (auto simp: fb_admit_def obs_failed_def split: if_splits)
  next
    case (Inr payload)
    obtain ev c v where mint: "fb_mint h b payload u = (ev, c, v)" by (metis prod_cases3)
    show thesis
    proof (cases "r = Some (Obs_Event ev) \<and> b' = c \<and> w' = v \<and> cd_algorithm (pl_content_digest payload) = Sha256
        \<and> cd_value (pl_content_digest payload) = fb_digest h d \<and> length (h_to_vec h d) \<le> unat (wb_max_bytes (reg_bounds (fb_registration b)))")
      case True
      with Pair Inr mint show thesis by (intro event) auto
    next
      case False
      with assms Pair Inr mint signal show thesis by (auto simp: fb_admit_def obs_failed_def split: if_splits)
    qed
  qed
qed

lemma fb_process_event_cases:
  assumes "fb_process_event h b raw w = (r, b', w')"
  obtains (skip) "r = None" "b' = b"
  | (signal) obs where "r = Some obs" "b' = b" "\<not> observation_is_replayable obs"
  | (admit) paths u v where "still_safe h (fb_root b) (fb_target b) w = (True, u)"
      "normalize_paths h (fb_root b) (fb_target b) (be_paths raw) u = (Some paths, v)" "paths \<noteq> []"
      "predicate_matches (fb_predicate b) (be_class raw)"
      "fb_admit h b \<lparr>ed_class = be_class raw, ed_paths = paths\<rparr> v = (r, b', w')"
proof (cases "still_safe h (fb_root b) (fb_target b) w")
  case (Pair s u)
  show thesis
  proof (cases s)
    case False
    with Pair assms signal show thesis by (auto simp: fb_process_event_def obs_failed_def)
  next
    case True
    obtain ps v where n: "normalize_paths h (fb_root b) (fb_target b) (be_paths raw) u = (ps, v)" by fastforce
    consider "ps = None" | "ps = Some []" | p qs where "ps = Some (p # qs)" by (cases ps; cases "the ps") auto
    then show thesis
    proof cases
      case 3
      with assms Pair True n admit [of u "p # qs" v] signal skip show thesis
        by (auto simp: fb_process_event_def split: if_splits)
    qed (use assms Pair True n signal skip in \<open>auto simp: fb_process_event_def obs_failed_def\<close>)
  qed
qed

lemma fb_mint_bind:
  "fb_mint h b payload w = (ev, b', w') \<Longrightarrow>
     b' = b\<lparr>fb_sequence := fb_sequence b + 1, fb_current_anchor := fs_anchor (fb_session b) (fb_sequence b + 1)\<rparr>"
  by (auto simp: fb_mint_def Let_def split: prod.splits)

lemma fb_process_count: "fb_process h b signal w = (r, b', w') \<Longrightarrow> same_but_count b b'"
  unfolding fb_process_def same_but_count_def
  by (auto split: if_splits backend_signal.splits elim!: fb_process_event_cases fb_admit_cases dest: fb_mint_bind)

lemma fb_process_channel: "fb_process h b signal w = (r, b', w') \<Longrightarrow> fb_channel b' = fb_channel b"
  by (drule fb_process_count) (auto simp: same_but_count_def)

text \<open>
  One poll of \<open>next\<close>. A call that is parked on the channel (\<open>fb_held\<close>) goes on where it
  waits; a new one looks first at what it can report at once.
\<close>

definition fb_enter :: "fs_bind \<Rightarrow> observation option \<times> fs_bind" where
  "fb_enter b = (if fb_held b then (None, b\<lparr>fb_held := False\<rparr>) else fb_immediate b)"

lemma fb_enter_channel: "fb_enter b = (r, b') \<Longrightarrow> fb_channel b' = fb_channel b"
  by (auto simp: fb_enter_def dest: fb_immediate_channel split: if_splits)

function fb_next :: "'w host \<Rightarrow> fs_bind \<Rightarrow> 'w \<Rightarrow> (error + observation) poll \<times> fs_bind \<times> 'w" where
  "fb_next h b w =
     (case fb_enter b of
        (Some obs, b) \<Rightarrow> (Ready (Inr obs), b, w)
      | (None, b) \<Rightarrow>
          (case fb_channel b of
             [] \<Rightarrow> (if fb_lease b then (Pending, b\<lparr>fb_held := True\<rparr>, w)
                    else (Ready (Inr (obs_failed ''fs_native_watch_failed'')), b, w))
           | signal # rest \<Rightarrow>
               (case fb_process h (b\<lparr>fb_channel := rest\<rparr>) signal w of
                  (Some obs, b, w) \<Rightarrow> (Ready (Inr obs), b, w)
                | (None, b, w) \<Rightarrow> fb_next h b w)))"
  by pat_completeness auto

termination
  by (relation "measure (\<lambda>(h, b, w). length (fb_channel b))")
    (auto dest!: fb_enter_channel [OF sym] fb_process_channel [OF sym])

declare fb_next.simps [simp del]

text \<open>The loop of \<open>poll_ready\<close>, on what the channel holds.\<close>

function fb_drain :: "'w host \<Rightarrow> fs_bind \<Rightarrow> 'w \<Rightarrow> observation option \<times> fs_bind \<times> 'w" where
  "fb_drain h b w =
     (case fb_channel b of
        [] \<Rightarrow> (None, b, w)
      | signal # rest \<Rightarrow>
          (case fb_process h (b\<lparr>fb_channel := rest\<rparr>) signal w of
             (Some obs, b, w) \<Rightarrow> (Some obs, b, w)
           | (None, b, w) \<Rightarrow> fb_drain h b w))"
  by pat_completeness auto

termination
  by (relation "measure (\<lambda>(h, b, w). length (fb_channel b))") (auto dest: fb_process_channel [OF sym])

declare fb_drain.simps [simp del]

definition fb_poll_ready :: "'w host \<Rightarrow> fs_bind \<Rightarrow> 'w \<Rightarrow> observation option \<times> fs_bind \<times> 'w" where
  "fb_poll_ready h b w =
     (case fb_immediate b of
        (Some obs, b) \<Rightarrow> (Some obs, b, w)
      | (None, b) \<Rightarrow> if fb_held b then (None, b, w) else fb_drain h b w)"

section \<open>Restoring and releasing\<close>

definition fb_owns :: "fs_bind \<Rightarrow> observation \<Rightarrow> bool" where
  "fb_owns b obs =
     (case obs of
        Obs_Event ev \<Rightarrow>
          (case fs_token_sequence (id_str (ev_event_id ev)) ''evt:fs'' (fb_session b) of
             None \<Rightarrow> False
           | Some sequence \<Rightarrow>
               (let reg = fb_registration b
                in ev_registration_id ev = reg_id reg \<and> ev_source_instance_ref ev = reg_source_instance_ref reg \<and>
                   ev_method_id ev = reg_method_id reg \<and> ev_subject_kind ev = reg_subject_kind reg \<and>
                   ev_subject_id ev = reg_subject_id reg \<and>
                   fs_token_sequence (id_str (ev_correlation_id ev)) ''cor:fs'' (fb_session b) = Some sequence \<and>
                   anc_kind (ev_start_anchor ev) = ProviderOpaque \<and>
                   fs_token_sequence (id_str (anc_value (ev_start_anchor ev))) ''anc:fs'' (fb_session b) = checked_pred sequence \<and>
                   anc_kind (ev_proposed_next_anchor ev) = ProviderOpaque \<and>
                   fs_token_sequence (id_str (anc_value (ev_proposed_next_anchor ev))) ''anc:fs'' (fb_session b) = Some sequence))
      | _ \<Rightarrow> False)"

definition fb_restore_ready :: "fs_bind \<Rightarrow> observation \<Rightarrow> (error + unit) \<times> fs_bind" where
  "fb_restore_ready b obs =
     (if \<not> fb_owns b obs then (Inl (EValidation (ve_new ''/observer/restore_ready'' ''cross_bind_restore'')), b)
      else (Inr (), b\<lparr>fb_restored := obs # fb_restored b\<rparr>))"

definition fb_release :: "fs_bind \<Rightarrow> fs_bind" where
  "fb_release b = (if fb_released b then b else b\<lparr>fb_released := True, fb_lease := False\<rparr>)"

end
