(* ===== verification/Fs_Custody.thy ===== *)
theory Fs_Custody
  imports Fs_Observer Rfc3339_Format
begin

text \<open>
  What a bind of the filesystem observer keeps over any run of calls: the events it mints are
  numbered in one chain of anchors, and what it handed out, followed by what was given back to it,
  is that chain. The callback and the other methods may be interleaved in any order.
\<close>

section \<open>Tokens\<close>

lemma dec_nonempty: "dec n \<noteq> []"
  by (subst dec.simps) simp

lemma parse_u64_dec: "parse_u64 (dec (unat n)) = Some n"
proof -
  obtain c s where c: "dec (unat n) = c # s" by (cases "dec (unat n)") (auto simp: dec_nonempty)
  with dec_digits [of "unat n"] have "is_digit c" by simp
  then have "c \<noteq> CHR ''+''" by (auto simp: is_digit_def byte_def)
  with c dec_digits [of "unat n"] unat_u64_less [of n] show ?thesis
    by (simp add: parse_u64_def Let_def)
qed

lemma split_once_digits: "list_all is_digit ds \<Longrightarrow> split_once (CHR ''-'') (ds @ CHR ''-'' # r) = Some (ds, r)"
  by (induction ds) (auto simp: is_digit_def byte_def)

lemma fs_token_sequence_token [simp]: "fs_token_sequence (fs_token ns session sequence) ns session = Some sequence"
  using dec_digits [of "unat session"]
  by (simp add: fs_token_sequence_def fs_token_def split_once_digits parse_u64_dec)

lemma fs_token_inj: "fs_token ns s a = fs_token ns s b \<Longrightarrow> a = b"
  by (metis fs_token_sequence_token option.inject)

section \<open>Numbered events\<close>

definition numbered :: "registration \<Rightarrow> u64 \<Rightarrow> u64 \<Rightarrow> wait_event \<Rightarrow> bool" where
  "numbered reg session k ev \<longleftrightarrow>
     id_str (ev_event_id ev) = fs_token ''evt:fs'' session k \<and> id_str (ev_correlation_id ev) = fs_token ''cor:fs'' session k \<and>
     ev_start_anchor ev = fs_anchor session (k - 1) \<and> ev_proposed_next_anchor ev = fs_anchor session k \<and>
     ev_registration_id ev = reg_id reg \<and> ev_source_instance_ref ev = reg_source_instance_ref reg \<and>
     ev_method_id ev = reg_method_id reg \<and> ev_subject_kind ev = reg_subject_kind reg \<and> ev_subject_id ev = reg_subject_id reg"

lemma numbered_owned:
  "numbered (fb_registration b) (fb_session b) k ev \<Longrightarrow> k \<noteq> 0 \<Longrightarrow> fb_owns b (Obs_Event ev)"
  by (simp add: numbered_def fb_owns_def fs_anchor_def checked_pred_def Let_def)

lemma numbered_unique: "numbered reg session j ev \<Longrightarrow> numbered reg session k ev \<Longrightarrow> j = k"
  unfolding numbered_def by (metis fs_token_inj)

text \<open>The parts of a bind that no call changes.\<close>

definition same_bind :: "fs_bind \<Rightarrow> fs_bind \<Rightarrow> bool" where
  "same_bind b b' \<longleftrightarrow> fb_registration b' = fb_registration b \<and> fb_session b' = fb_session b \<and>
     fb_root b' = fb_root b \<and> fb_target b' = fb_target b \<and> fb_predicate b' = fb_predicate b"

lemma same_bind_refl [simp]: "same_bind b b"
  by (simp add: same_bind_def)

lemma same_bind_trans: "same_bind a b \<Longrightarrow> same_bind b c \<Longrightarrow> same_bind a c"
  by (simp add: same_bind_def)

text \<open>
  What an event reports: the places of a backend event that the predicate selects, normalised at
  a moment at which the target was safe, and written out by the sink.
\<close>

definition observed :: "'w host \<Rightarrow> fs_bind \<Rightarrow> backend_event \<Rightarrow> event_descriptor \<Rightarrow> wait_event \<Rightarrow> bool" where
  "observed h b raw d ev \<longleftrightarrow>
     ed_class d = be_class raw \<and> predicate_matches (fb_predicate b) (be_class raw) \<and> ed_paths d \<noteq> [] \<and>
     (\<exists>s u v. still_safe h (fb_root b) (fb_target b) s = (True, u) \<and>
        normalize_paths h (fb_root b) (fb_target b) (be_paths raw) u = (Some (ed_paths d), v)) \<and>
     (\<exists>u v. h_materialize h u d = (Inr (ev_payload ev), v)) \<and>
     cd_algorithm (pl_content_digest (ev_payload ev)) = Sha256 \<and>
     cd_value (pl_content_digest (ev_payload ev)) = fb_digest h d \<and>
     length (h_to_vec h d) \<le> unat (wb_max_bytes (reg_bounds (fb_registration b)))"

text \<open>\<open>chained b evs\<close>: the bind stands behind the events \<open>evs\<close>, all it has minted.\<close>

definition chained :: "'w host \<Rightarrow> fs_bind \<Rightarrow> wait_event list \<Rightarrow> bool" where
  "chained h b evs \<longleftrightarrow>
     (\<forall>ev \<in> set evs. \<exists>raw d. observed h b raw d ev) \<and>
     fb_sequence b = of_nat (length evs) \<and> fb_current_anchor b = fs_anchor (fb_session b) (fb_sequence b) \<and>
     (\<forall>i < length evs. numbered (fb_registration b) (fb_session b) (of_nat (i + 1)) (evs ! i))"

lemma observed_cong: "same_bind b b' \<Longrightarrow> observed h b' raw d ev = observed h b raw d ev"
  by (simp add: observed_def same_bind_def)

lemma fb_mint_bind_same: "fb_mint h b payload w = (ev, b', w') \<Longrightarrow> same_bind b b'"
  by (auto simp: same_bind_def dest: fb_mint_bind)

lemma chained_mint:
  assumes mint: "fb_mint h b payload w = (ev, b', w')" and ch: "chained h b evs" and obs: "observed h b raw d ev"
  shows "chained h b' (evs @ [ev]) \<and> same_bind b b' \<and> fb_restored b' = fb_restored b \<and>
    (fb_channel b', fb_lease b', fb_terminal b', fb_held b') = (fb_channel b, fb_lease b, fb_terminal b, fb_held b)"
proof -
  note same = fb_mint_bind_same [OF mint]
  have "\<forall>e \<in> set (evs @ [ev]). \<exists>raw d. observed h b' raw d e"
    using ch obs observed_cong [OF same] by (fastforce simp: chained_def)
  moreover have "numbered (fb_registration b) (fb_session b) (fb_sequence b + 1) ev"
    using mint ch by (auto simp: numbered_def chained_def fb_mint_def Let_def split: prod.splits)
  ultimately show ?thesis
    using ch same fb_mint_bind [OF mint] by (auto simp: chained_def nth_append less_Suc_eq add.commute)
qed

text \<open>The event an observation carries, if any.\<close>

definition events_of :: "observation option \<Rightarrow> wait_event list" where
  "events_of r = (case r of Some (Obs_Event ev) \<Rightarrow> [ev] | _ \<Rightarrow> [])"

lemma events_of_simps [simp]:
  "events_of None = []" "events_of (Some (Obs_Event ev)) = [ev]" "\<not> observation_is_replayable obs \<Longrightarrow> events_of (Some obs) = []"
  by (auto simp: events_of_def split: observation.split)

lemma obs_failed_signal [simp]: "\<not> observation_is_replayable (obs_failed reason)"
  by (simp add: obs_failed_def)

lemma fb_process_cases:
  assumes "fb_process h b signal w = (r, b', w')"
  obtains (silent) "events_of r = []" "b' = b"
  | (event) raw d payload u ev where "signal = BS_Event raw" "r = Some (Obs_Event ev)" "fb_mint h b payload u = (ev, b', w')"
      "observed h b raw d ev"
proof (cases "\<exists>raw. signal = BS_Event raw \<and> \<not> fb_released b")
  case False
  with assms silent show thesis by (auto simp: fb_process_def split: backend_signal.splits if_splits)
next
  case True
  then obtain raw where raw: "signal = BS_Event raw" "fb_process_event h b raw w = (r, b', w')"
    using assms by (auto simp: fb_process_def)
  from raw(2) show thesis
  proof (cases rule: fb_process_event_cases)
    case (admit paths u v)
    let ?d = "\<lparr>ed_class = be_class raw, ed_paths = paths\<rparr>"
    from admit(5) show thesis
    proof (cases rule: fb_admit_cases)
      case (event payload x ev)
      have "ev_payload ev = payload" using event(4) by (auto simp: fb_mint_def Let_def split: prod.splits)
      with admit event have "observed h b raw ?d ev" by (auto simp: observed_def)
      with raw(1) event(3,4) that(2) show thesis by blast
    qed (use silent in auto)
  qed (use silent in auto)
qed

lemma fb_process_chained:
  assumes "fb_process h b signal w = (r, b', w')" "chained h b evs"
  shows "chained h b' (evs @ events_of r) \<and> same_bind b b' \<and> fb_restored b' = fb_restored b \<and>
    (fb_channel b', fb_lease b', fb_terminal b', fb_held b') = (fb_channel b, fb_lease b, fb_terminal b, fb_held b)"
  using assms(1)
proof (cases rule: fb_process_cases)
  case (event raw d payload u ev)
  with chained_mint [OF event(3) assms(2) event(4)] show ?thesis by simp
qed (use assms(2) in simp)

section \<open>One call\<close>

text \<open>
  \<open>holds h b out\<close>: the chain is \<open>out\<close> followed by the events given back, which wait in the
  queue of the bind.
\<close>

definition holds :: "'w host \<Rightarrow> fs_bind \<Rightarrow> wait_event list \<Rightarrow> bool" where
  "holds h b out \<longleftrightarrow>
     (\<exists>queued. fb_restored b = map Obs_Event queued \<and> chained h b (out @ queued)) \<and>
     (fb_held b \<longrightarrow> fb_restored b = []) \<and> (\<forall>obs. fb_terminal b = Some obs \<longrightarrow> \<not> observation_is_replayable obs)"

lemma chained_cong:
  "chained h b evs \<Longrightarrow> same_bind b b' \<Longrightarrow> (fb_sequence b', fb_current_anchor b') = (fb_sequence b, fb_current_anchor b) \<Longrightarrow> chained h b' evs"
  by (simp add: chained_def observed_def same_bind_def)

lemma fb_immediate_held: "fb_immediate b = (r, b') \<Longrightarrow> fb_held b' = fb_held b"
  by (auto simp: fb_immediate_def split: if_splits list.splits)

lemma fb_immediate_holds:
  assumes "fb_immediate b = (r, b')" "holds h b out"
  shows "holds h b' (out @ events_of r) \<and> same_bind b b' \<and> (r = None \<longrightarrow> fb_restored b' = [])"
proof -
  from assms(2) obtain queued where b: "fb_restored b = map Obs_Event queued" "chained h b (out @ queued)"
    "\<And>obs. fb_terminal b = Some obs \<Longrightarrow> \<not> observation_is_replayable obs"
    "fb_held b \<Longrightarrow> fb_restored b = []" by (auto simp: holds_def)
  have keep: "chained h b' (out @ queued)" if "same_bind b b'" "(fb_sequence b', fb_current_anchor b') = (fb_sequence b, fb_current_anchor b)"
    using b(2) that by (rule chained_cong)
  show ?thesis
  proof (cases "fb_released b")
    case True
    with assms show ?thesis by (auto simp: fb_immediate_def)
  next
    case False
    show ?thesis
    proof (cases queued)
      case (Cons ev rest)
      with assms(1) b(1) False have r: "r = Some (Obs_Event ev)" "b' = b\<lparr>fb_restored := map Obs_Event rest\<rparr>"
        by (auto simp: fb_immediate_def)
      with keep Cons b(1,3,4) show ?thesis by (auto simp: holds_def same_bind_def)
    next
      case Nil
      with assms(1) b(1) False
      have r: "r = Some Obs_Overflow \<and> b' = b\<lparr>fb_overflowed := False\<rparr> \<or> r = fb_terminal b \<and> b' = b\<lparr>fb_terminal := None\<rparr>"
        by (auto simp: fb_immediate_def split: if_splits)
      moreover have "events_of (fb_terminal b) = []" using b(3) by (cases "fb_terminal b") auto
      ultimately show ?thesis using keep Nil b(1,3) by (auto simp: holds_def same_bind_def)
    qed
  qed
qed

lemma fb_process_holds:
  assumes "fb_process h b signal w = (r, b', w')" "holds h b out" "fb_restored b = []"
  shows "holds h b' (out @ events_of r) \<and> same_bind b b' \<and> fb_restored b' = []"
  using fb_process_chained [OF assms(1)] assms(2,3) by (auto simp: holds_def)

lemma holds_cong:
  assumes "holds h b out" "same_bind b b'" "(fb_sequence b', fb_current_anchor b') = (fb_sequence b, fb_current_anchor b)"
    and "fb_restored b' = fb_restored b" "fb_terminal b' = fb_terminal b" "fb_held b' \<Longrightarrow> fb_held b \<or> fb_restored b = []"
  shows "holds h b' out"
  using assms chained_cong [OF _ assms(2,3)] by (auto simp: holds_def)

lemma fb_enter_holds:
  assumes "fb_enter b = (r, b')" "holds h b out"
  shows "holds h b' (out @ events_of r) \<and> same_bind b b' \<and> (r = None \<longrightarrow> fb_restored b' = []) \<and> \<not> fb_held b'"
proof (cases "fb_held b")
  case True
  have "holds h (b\<lparr>fb_held := False\<rparr>) out"
    using assms(2) by (rule holds_cong) (simp_all add: same_bind_def)
  with True assms show ?thesis by (auto simp: fb_enter_def same_bind_def holds_def)
next
  case False
  with assms fb_immediate_holds [of b r b' h out] show ?thesis by (simp add: fb_enter_def fb_immediate_held)
qed

lemma fb_next_holds:
  "fb_next h b w = (r, b', w') \<Longrightarrow> holds h b out \<Longrightarrow>
   holds h b' (out @ events_of (case r of Ready (Inr obs) \<Rightarrow> Some obs | _ \<Rightarrow> None)) \<and> same_bind b b'"
proof (induction h b w arbitrary: r out rule: fb_next.induct)
  case (1 h b w)
  obtain q c where q: "fb_enter b = (q, c)" by fastforce
  note imm = fb_enter_holds [OF q "1.prems"(2)]
  show ?case
  proof (cases q)
    case (Some obs)
    with "1.prems"(1) q imm show ?thesis by (subst (asm) fb_next.simps) auto
  next
    case None
    show ?thesis
    proof (cases "fb_channel c")
      case Nil
      have parked: "holds h (c\<lparr>fb_held := True\<rparr>) out" using imm None by (auto intro: holds_cong simp: same_bind_def)
      with "1.prems"(1) q imm None Nil show ?thesis
        by (subst (asm) fb_next.simps) (auto simp: same_bind_def obs_failed_def split: if_splits)
    next
      case (Cons signal rest)
      have taken: "holds h (c\<lparr>fb_channel := rest\<rparr>) out" "fb_restored (c\<lparr>fb_channel := rest\<rparr>) = []"
        using imm None by (auto intro: holds_cong simp: same_bind_def)
      obtain p d u where p: "fb_process h (c\<lparr>fb_channel := rest\<rparr>) signal w = (p, d, u)" by (metis prod_cases3)
      note pr = fb_process_holds [OF p taken]
      have step: "fb_next h b w = (case p of Some obs \<Rightarrow> (Ready (Inr obs), d, u) | None \<Rightarrow> fb_next h d u)"
        by (subst fb_next.simps) (simp add: q None Cons p split: option.split)
      show ?thesis
      proof (cases p)
        case (Some obs)
        with step "1.prems"(1) pr imm show ?thesis by (auto simp: same_bind_def)
      next
        case pnone: None
        from step pnone "1.prems"(1) have "fb_next h d u = (r, b', w')" by simp
        from "1.IH" [OF q [symmetric] None Cons p [symmetric] pnone refl this] pr pnone
        show ?thesis using imm by (auto simp: same_bind_def)
      qed
    qed
  qed
qed

end
