(* ===== verification/Fs_Run.thy ===== *)
theory Fs_Run
  imports Fs_Custody
begin

text \<open>
  Any history of one bind of the filesystem observer: which events its caller holds after a run of
  callbacks and calls, and the laws a runner relies on when it takes and gives back events.
\<close>

section \<open>The remaining calls\<close>

lemma fb_drain_holds:
  "fb_drain h b w = (r, b', w') \<Longrightarrow> holds h b out \<Longrightarrow> fb_restored b = [] \<Longrightarrow>
   holds h b' (out @ events_of r) \<and> same_bind b b'"
proof (induction h b w arbitrary: r out rule: fb_drain.induct)
  case (1 h b w)
  show ?case
  proof (cases "fb_channel b")
    case Nil
    with "1.prems" show ?thesis by (subst (asm) fb_drain.simps) auto
  next
    case (Cons signal rest)
    have taken: "holds h (b\<lparr>fb_channel := rest\<rparr>) out" "fb_restored (b\<lparr>fb_channel := rest\<rparr>) = []"
      using "1.prems"(2,3) by (auto intro: holds_cong simp: same_bind_def)
    obtain p d u where p: "fb_process h (b\<lparr>fb_channel := rest\<rparr>) signal w = (p, d, u)" by (metis prod_cases3)
    note pr = fb_process_holds [OF p taken]
    have step: "fb_drain h b w = (case p of Some obs \<Rightarrow> (Some obs, d, u) | None \<Rightarrow> fb_drain h d u)"
      by (subst fb_drain.simps) (simp add: Cons p split: option.split)
    show ?thesis
    proof (cases p)
      case (Some obs)
      with step "1.prems"(1) pr show ?thesis by (auto simp: same_bind_def)
    next
      case pnone: None
      from step pnone "1.prems"(1) have "fb_drain h d u = (r, b', w')" by simp
      from "1.IH" [OF Cons p [symmetric] pnone refl this] pr pnone
      show ?thesis by (auto simp: same_bind_def)
    qed
  qed
qed

lemma fb_poll_ready_holds:
  assumes "fb_poll_ready h b w = (r, b', w')" "holds h b out"
  shows "holds h b' (out @ events_of r) \<and> same_bind b b'"
proof -
  obtain q c where q: "fb_immediate b = (q, c)" by fastforce
  note imm = fb_immediate_holds [OF q assms(2)]
  show ?thesis
  proof (cases q)
    case (Some obs)
    with assms q imm show ?thesis by (auto simp: fb_poll_ready_def)
  next
    case None
    show ?thesis
    proof (cases "fb_held c")
      case True
      with assms q imm None show ?thesis by (auto simp: fb_poll_ready_def)
    next
      case False
      with assms q imm None have "fb_drain h c w = (r, b', w')" by (simp add: fb_poll_ready_def)
      from fb_drain_holds [OF this] imm None show ?thesis by (auto simp: same_bind_def)
    qed
  qed
qed

lemma fb_callback_holds: "holds h b out \<Longrightarrow> holds h (fb_callback b signal) out \<and> same_bind b (fb_callback b signal)"
  by (auto simp: fb_callback_def same_bind_def intro: holds_cong)

lemma fb_release_holds: "holds h b out \<Longrightarrow> holds h (fb_release b) out \<and> same_bind b (fb_release b)"
  by (auto simp: fb_release_def same_bind_def intro: holds_cong)

lemma fb_drop_next_holds: "holds h b out \<Longrightarrow> holds h (b\<lparr>fb_held := False\<rparr>) out \<and> same_bind b (b\<lparr>fb_held := False\<rparr>)"
  by (auto simp: same_bind_def intro: holds_cong)

lemma fb_owns_signal: "\<not> observation_is_replayable obs \<Longrightarrow> \<not> fb_owns b obs"
  by (auto simp: fb_owns_def split: observation.split)

lemma fb_owns_event: "fb_owns b obs \<Longrightarrow> \<exists>ev. obs = Obs_Event ev"
  by (metis fb_owns_signal observation_is_replayable.elims(2))

lemma fb_restore_ready_cases:
  assumes "fb_restore_ready b obs = (r, b')"
  obtains (accepted) ev where "r = Inr ()" "obs = Obs_Event ev" "fb_owns b obs" "b' = b\<lparr>fb_restored := obs # fb_restored b\<rparr>"
  | (refused) "r = Inl (EValidation (ve_new ''/observer/restore_ready'' ''cross_bind_restore''))" "\<not> fb_owns b obs" "b' = b"
proof (cases "fb_owns b obs")
  case True
  then obtain ev where "obs = Obs_Event ev" using fb_owns_event by blast
  moreover from True assms have "r = Inr ()" "b' = b\<lparr>fb_restored := obs # fb_restored b\<rparr>"
    by (auto simp: fb_restore_ready_def)
  ultimately show thesis using True accepted by blast
next
  case False
  with assms have "r = Inl (EValidation (ve_new ''/observer/restore_ready'' ''cross_bind_restore''))" "b' = b"
    by (auto simp: fb_restore_ready_def)
  with False refused show thesis by blast
qed

lemma fb_restore_last_holds:
  assumes "fb_restore_ready b (Obs_Event ev) = (r, b')" "holds h b (out @ [ev])" "\<not> fb_held b"
  shows "holds h b' (if r = Inr () then out else out @ [ev]) \<and> same_bind b b'"
  using assms(1)
proof (cases rule: fb_restore_ready_cases)
  case (accepted ev')
  from assms(2) obtain queued where "fb_restored b = map Obs_Event queued" "chained h b ((out @ [ev]) @ queued)"
    "\<forall>obs. fb_terminal b = Some obs \<longrightarrow> \<not> observation_is_replayable obs"
    by (auto simp: holds_def)
  moreover have "chained h b' (out @ ev # queued)"
    using calculation(2) accepted(4) by (auto intro: chained_cong simp: same_bind_def)
  ultimately show ?thesis using accepted assms(3)
    by (auto simp: holds_def same_bind_def intro!: exI [of _ "ev # queued"])
qed (use assms(2) in auto)

section \<open>Histories\<close>

text \<open>
  \<open>fs_run h b0 b out\<close>: after some run from \<open>b0\<close> the bind is \<open>b\<close> and its caller holds the events
  \<open>out\<close>, oldest first. Each call finds an arbitrary outside. The watch backend speaks only through
  a lease. The caller gives back the youngest event it holds, and not while a \<open>next\<close> is parked.
\<close>

inductive fs_run :: "'w host \<Rightarrow> fs_bind \<Rightarrow> fs_bind \<Rightarrow> wait_event list \<Rightarrow> bool"
  for h :: "'w host" and b0 :: fs_bind where
  start: "fs_run h b0 b0 []"
| callback: "fs_run h b0 b out \<Longrightarrow> fb_lease b \<Longrightarrow> fs_run h b0 (fb_callback b signal) out"
| next_call: "fs_run h b0 b out \<Longrightarrow> fb_next h b w = (r, b', w') \<Longrightarrow>
    fs_run h b0 b' (out @ events_of (case r of Ready (Inr obs) \<Rightarrow> Some obs | _ \<Rightarrow> None))"
| drop_next: "fs_run h b0 b out \<Longrightarrow> fs_run h b0 (b\<lparr>fb_held := False\<rparr>) out"
| poll_ready: "fs_run h b0 b out \<Longrightarrow> fb_poll_ready h b w = (r, b', w') \<Longrightarrow> fs_run h b0 b' (out @ events_of r)"
| give_back: "fs_run h b0 b (out @ [ev]) \<Longrightarrow> \<not> fb_held b \<Longrightarrow> fb_restore_ready b (Obs_Event ev) = (r, b') \<Longrightarrow>
    fs_run h b0 b' (if r = Inr () then out else out @ [ev])"
| foreign: "fs_run h b0 b out \<Longrightarrow> fb_restore_ready b obs = (Inl e, b') \<Longrightarrow> fs_run h b0 b' out"
| cancel: "fs_run h b0 b out \<Longrightarrow> fs_run h b0 (fb_release b) out"

lemma fs_run_holds: "fs_run h b0 b out \<Longrightarrow> holds h b0 [] \<Longrightarrow> holds h b out \<and> same_bind b0 b"
proof (induction rule: fs_run.induct)
  case (next_call b out w r b' w')
  with fb_next_holds [OF next_call(2)] show ?case by (blast intro: same_bind_trans)
next
  case (poll_ready b out w r b' w')
  with fb_poll_ready_holds [OF poll_ready(2)] show ?case by (blast intro: same_bind_trans)
next
  case (give_back b out ev r b')
  with fb_restore_last_holds [OF give_back(3)] show ?case by (blast intro: same_bind_trans)
next
  case (foreign b out obs e b')
  from foreign(2) have "b' = b" by (cases rule: fb_restore_ready_cases) auto
  with foreign show ?case by simp
next
  case (callback b out signal)
  with fb_callback_holds [of h b out signal] show ?case by (blast intro: same_bind_trans)
next
  case (drop_next b out)
  with fb_drop_next_holds [of h b out] show ?case by (blast intro: same_bind_trans)
next
  case (cancel b out)
  with fb_release_holds [of h b out] show ?case by (blast intro: same_bind_trans)
qed simp

lemma fb_live_holds: "holds h (fb_live root reg predicate t session) []"
  by (simp add: holds_def chained_def fb_live_def)

lemma fs_run_live:
  assumes "fs_run h (fb_live root reg predicate t session) b out"
  shows "holds h b out" "same_bind (fb_live root reg predicate t session) b"
  using fs_run_holds [OF assms fb_live_holds] by auto

end
