(* ===== verification/Fs_Properties.thy ===== *)
theory Fs_Properties
  imports Fs_Run Examples
begin

text \<open>
  What the filesystem observer promises: registrations it does not support never watch anything,
  events are numbered without gaps and name places inside the root only, and an event given back
  is the next one handed out.
\<close>

section \<open>An example host\<close>

text \<open>
  A filesystem with the directory \<^verbatim>\<open>/srv/w\<close> and the file \<^verbatim>\<open>a\<close> in it, and a sink that answers with a
  constant digest.
\<close>

definition ex_root :: path where "ex_root = [C_Root, C_Normal ''srv'', C_Normal ''w'']"
definition ex_file :: path where "ex_file = ex_root @ [C_Normal ''a'']"

definition ex_host :: "unit host" where
  "ex_host =
     \<lparr>h_canonicalize = \<lambda>w p. (if p \<in> {ex_root, ex_file} then Some p else None, w),
      h_is_dir = \<lambda>w p. (p = ex_root, w), h_exists = \<lambda>w p. (p \<in> {ex_root, ex_file}, w),
      h_start = \<lambda>w ps. (True, w),
      h_materialize = \<lambda>w d. (Inr \<lparr>pl_payload_ref = OpaqueRef ''ref:p'',
        pl_content_digest = \<lparr>cd_algorithm = Sha256, cd_value = ''ab''\<rparr>, pl_media_type = None\<rparr>, w),
      h_now = \<lambda>w. (ts_1601, w), h_to_vec = \<lambda>d. ''{}'', h_sha256 = \<lambda>s. [CHR 0xAB], h_lossy = \<lambda>s. s\<rparr>"

definition ex_watch :: registration where
  "ex_watch = (fixture_registration ''reg:f'' ''file_watch'' ''a'')
     \<lparr>reg_subject_kind := IdToken ''path'', reg_predicate_ref := PredicateRef ''pred:file-write'',
      reg_start_anchor := None, reg_baseline_policy := Some Latest\<rparr>"

definition ex_fs :: fs_observer where
  "ex_fs = \<lparr>fo_source_instance_ref = reg_source_instance_ref ex_watch, fo_root = ex_root, fo_posture = FP_Local\<rparr>"

definition ex_fs_bind :: fs_bind where
  "ex_fs_bind = fst (fs_bind_to ex_host ex_fs ex_watch (7, ()))"

definition ex_write :: backend_signal where
  "ex_write = BS_Event \<lparr>be_class = FE_Write, be_paths = [ex_file]\<rparr>"

section \<open>Numbering\<close>



lemma ex_fs_bind_live:
  "ex_fs_bind = fb_live ex_root ex_watch P_Write (fb_target ex_fs_bind) 7" "fb_lease ex_fs_bind"
  by code_simp+

text \<open>The file is written, \<open>next\<close> is parked until then, and the event is handed out.\<close>

definition ex_parked :: fs_bind where "ex_parked = fst (snd (fb_next ex_host ex_fs_bind ()))"
definition ex_taken :: "(error + observation) poll \<times> fs_bind \<times> unit" where
  "ex_taken = fb_next ex_host (fb_callback ex_parked ex_write) ()"
definition ex_fs_event :: wait_event where
  "ex_fs_event = (case fst ex_taken of Ready (Inr (Obs_Event ev)) \<Rightarrow> ev | _ \<Rightarrow> ex_event_a)"

lemma ex_taken_event:
  "ex_taken = (Ready (Inr (Obs_Event ex_fs_event)), fst (snd ex_taken), ())" "fb_next ex_host ex_fs_bind () = (Pending, ex_parked, ())"
  "fb_lease ex_parked"
  by code_simp+


lemma ex_fs_run: "fs_run ex_host (fb_live ex_root ex_watch P_Write (fb_target ex_fs_bind) 7) (fst (snd ex_taken)) ([] @ [ex_fs_event])"
proof -
  let ?b0 = "fb_live ex_root ex_watch P_Write (fb_target ex_fs_bind) 7"
  have "fs_run ex_host ?b0 ex_fs_bind []" by (subst (2) ex_fs_bind_live(1)) (rule fs_run.start)
  from fs_run.next_call [OF this ex_taken_event(2)] have "fs_run ex_host ?b0 ex_parked []" by simp
  from fs_run.callback [OF this ex_taken_event(3), of ex_write]
  have "fs_run ex_host ?b0 (fb_callback ex_parked ex_write) []" .
  from fs_run.next_call [OF this ex_taken_event(1) [unfolded ex_taken_def]]
  show ?thesis by (simp add: ex_taken_def)
qed

section \<open>Custody\<close>

lemma fs_run_chain:
  assumes "fs_run h (fb_live root reg predicate t session) b out"
  obtains queued where "fb_restored b = map Obs_Event queued" "chained h b (out @ queued)"
    "fb_registration b = reg" "fb_session b = session" "fb_root b = root" "fb_target b = t" "fb_predicate b = predicate"
  using fs_run_live [OF assms] that by (auto simp: holds_def same_bind_def fb_live_def)



section \<open>What an event says\<close>

text \<open>\<open>n\<close> names, below the root, the canonical place of a path of the backend event.\<close>

definition placed :: "'w host \<Rightarrow> path \<Rightarrow> target \<Rightarrow> backend_event \<Rightarrow> string \<Rightarrow> bool" where
  "placed h root t raw n \<longleftrightarrow>
     (\<exists>p \<in> set (be_paths raw). \<exists>u v relative.
       safe_absolute h (if path_is_absolute p then p else path_join root p) u = (Some (root @ relative), v) \<and>
       n = portable_path h relative \<and>
       (tg_exact_leaf t \<longrightarrow> is_target root t (if path_is_absolute p then p else path_join root p) (root @ relative)))"

text \<open>
  C34. Every event a live bind hands out reports a backend event of a class its predicate selects:
  its places are sorted, without repetition, each the name below the root of the canonical place
  of a path of that event, and the watched leaf itself where the target is one file; its payload
  is what the sink wrote for exactly this description, carries its SHA-256, and the description
  is no longer than the registration allows.
\<close>

theorem fs_event_contract:
  assumes "fs_run h (fb_live root reg predicate t session) b out" "ev \<in> set out"
  shows "\<exists>raw d. ed_class d = be_class raw \<and> predicate_matches predicate (be_class raw) \<and>
    ed_paths d \<noteq> [] \<and> sorted_wrt (<) (ed_paths d) \<and>
    (\<forall>n \<in> set (ed_paths d). placed h root t raw n) \<and>
    (\<exists>u v. h_materialize h u d = (Inr (ev_payload ev), v)) \<and>
    pl_content_digest (ev_payload ev) = \<lparr>cd_algorithm = Sha256, cd_value = fb_digest h d\<rparr> \<and>
    length (h_to_vec h d) \<le> unat (wb_max_bytes (reg_bounds reg))"
proof -
  obtain queued where q: "chained h b (out @ queued)" "fb_registration b = reg" "fb_root b = root" "fb_target b = t"
    "fb_predicate b = predicate"
    by (rule fs_run_chain [OF assms(1)])
  from q(1) have "\<forall>e \<in> set (out @ queued). \<exists>raw d. observed h b raw d e" unfolding chained_def by blast
  with assms(2) obtain raw d where o: "observed h b raw d ev" by (metis UnI1 set_append)
  then obtain u v where n: "normalize_paths h root t (be_paths raw) u = (Some (ed_paths d), v)"
    by (auto simp: observed_def q)
  have dig: "pl_content_digest (ev_payload ev) = \<lparr>cd_algorithm = Sha256, cd_value = fb_digest h d\<rparr>"
    using o by (cases "pl_content_digest (ev_payload ev)") (simp add: observed_def)
  have pl: "placed h root t raw m"
    if "m \<in> set (ed_paths d)" for m
    using normalize_paths_inside(2) [OF n that] unfolding placed_def by blast
  from o show ?thesis
    unfolding observed_def q
    by (intro exI [of _ raw] exI [of _ d] conjI ballI) (auto simp: dig normalize_paths_inside(1) [OF n] intro: pl)
qed

theorem fs_event_contract_witness:
  "\<exists>d. ed_class d = FE_Write \<and> ed_paths d \<noteq> [] \<and>
    pl_content_digest (ev_payload ex_fs_event) = \<lparr>cd_algorithm = Sha256, cd_value = fb_digest ex_host d\<rparr>"
proof -
  have "ex_fs_event \<in> set ([] @ [ex_fs_event])" by simp
  from fs_event_contract [OF ex_fs_run this] obtain raw :: backend_event and d :: event_descriptor where
    "ed_class d = be_class raw" "predicate_matches P_Write (be_class raw)" "ed_paths d \<noteq> []"
    "pl_content_digest (ev_payload ex_fs_event) = \<lparr>cd_algorithm = Sha256, cd_value = fb_digest ex_host d\<rparr>"
    by blast
  then show ?thesis by (intro exI [of _ d]) (simp add: predicate_matches_def)
qed

section \<open>Binding\<close>

text \<open>A bind that nobody watches for, and which holds no event.\<close>

definition silent :: "fs_bind \<Rightarrow> bool" where
  "silent b \<longleftrightarrow> \<not> fb_lease b \<and> fb_channel b = [] \<and> fb_restored b = [] \<and>
     (\<forall>obs. fb_terminal b = Some obs \<longrightarrow> \<not> observation_is_replayable obs)"

lemma fb_immediate_silent:
  assumes "fb_immediate b = (r, b')" "silent b"
  shows "silent b' \<and> events_of r = []"
proof -
  have "events_of (fb_terminal b) = []" using assms(2) by (cases "fb_terminal b") (auto simp: silent_def)
  with assms show ?thesis by (auto simp: fb_immediate_def silent_def split: if_splits)
qed

lemma fb_enter_silent: "fb_enter b = (r, b') \<Longrightarrow> silent b \<Longrightarrow> silent b' \<and> events_of r = []"
  using fb_immediate_silent [of b r b'] by (auto simp: fb_enter_def silent_def split: if_splits)

lemma fb_next_silent:
  assumes "fb_next h b w = (r, b', w')" "silent b"
  shows "silent b' \<and> events_of (case r of Ready (Inr obs) \<Rightarrow> Some obs | _ \<Rightarrow> None) = []"
proof -
  obtain q c where q: "fb_enter b = (q, c)" by fastforce
  from fb_enter_silent [OF q assms(2)] have c: "silent c" "events_of q = []" by auto
  from assms(1) q c show ?thesis
    by (subst (asm) fb_next.simps) (cases q; auto simp: silent_def)
qed

lemma fb_poll_ready_silent:
  assumes "fb_poll_ready h b w = (r, b', w')" "silent b"
  shows "silent b' \<and> events_of r = []"
proof -
  obtain q c where q: "fb_immediate b = (q, c)" by fastforce
  from fb_immediate_silent [OF q assms(2)] have c: "silent c" "events_of q = []" by auto
  from c(1) have "fb_drain h c w = (None, c, w)" by (simp add: fb_drain.simps [of h c] silent_def)
  with assms(1) q c show ?thesis
    by (cases q) (auto simp: fb_poll_ready_def split: if_splits)
qed

lemma fs_run_silent: "fs_run h b0 b out \<Longrightarrow> silent b0 \<Longrightarrow> silent b \<and> out = []"
proof (induction rule: fs_run.induct)
  case (next_call b out w r b' w')
  with fb_next_silent [OF next_call(2)] show ?case by simp
next
  case (poll_ready b out w r b' w')
  with fb_poll_ready_silent [OF poll_ready(2)] show ?case by simp
next
  case (foreign b out obs e b')
  from foreign(2) have "b' = b" by (cases rule: fb_restore_ready_cases) auto
  then show ?case using foreign(3,4) by blast
next
  case (callback b out signal)
  then show ?case by (simp add: silent_def)
next
  case (drop_next b out)
  then have "silent b" "out = []" by blast+
  then show ?case unfolding silent_def by simp
next
  case (cancel b out)
  then have "silent b" "out = []" by blast+
  then show ?case unfolding silent_def fb_release_def by simp
qed simp_all

lemma fb_inert_silent:
  assumes "fb_inert root reg obs session = (b, session')" "\<not> observation_is_replayable obs"
  shows "silent b" "fb_poll_ready h b w = (Some obs, b\<lparr>fb_terminal := None\<rparr>, w)"
  using assms by (auto simp: fb_inert_def silent_def fb_poll_ready_def fb_immediate_def)

lemma fb_inert_fields:
  "fb_inert root reg obs session = (b, session') \<Longrightarrow>
     fb_registration b = reg \<and> fb_registration_id b = reg_id reg \<and> fb_resolved_start b = fs_anchor (fb_session b) 0 \<and> \<not> fb_lease b"
  by (auto simp: fb_inert_def)

lemma fb_live_fields:
  "fb_registration (fb_live root reg p t s) = reg \<and> fb_registration_id (fb_live root reg p t s) = reg_id reg \<and>
   fb_resolved_start (fb_live root reg p t s) = fs_anchor (fb_session (fb_live root reg p t s)) 0 \<and>
   fb_lease (fb_live root reg p t s) \<and> fb_predicate (fb_live root reg p t s) = p \<and> fb_target (fb_live root reg p t s) = t"
  by (simp add: fb_live_def)

lemma validate_registration_refused:
  "validate_registration h ob reg w = (Inl obs, w') \<Longrightarrow> \<not> observation_is_replayable obs"
  by (auto simp: validate_registration_def obs_failed_def split: if_splits option.splits prod.splits)

lemma validate_registration_taken:
  assumes "validate_registration h ob reg w = (Inr (p, t), w')"
  shows "id_str (reg_method_id reg) = method_file_watch" "id_str (reg_subject_kind reg) = ''path''"
    "reg_source_instance_ref reg = fo_source_instance_ref ob" "reg_start_anchor reg = None"
    "reg_baseline_policy reg = Some Latest" "fo_posture ob = FP_Local"
    "predicate_parse (pred_str (reg_predicate_ref reg)) = Some p"
    "target_resolve h (fo_root ob) (id_str (reg_subject_id reg)) w = (Some t, w')"
  using assms by (auto simp: validate_registration_def split: if_splits option.splits prod.splits)

text \<open>
  C35. A bind of the filesystem observer watches only what it may: where it holds a watch, the
  registration is a file watch of this source with no cursor to resume, the filesystem is local,
  the predicate is known, and every watched path lies inside the canonical root. Otherwise the
  bind says why, once, and no history of calls makes it hand out an event.
\<close>

theorem fs_bind_checked:
  assumes "fs_bind_to h ob reg (session, w) = (b, session', w')"
  shows "fb_registration_id b = reg_id reg \<and> fb_resolved_start b = fs_anchor (fb_session b) 0 \<and>
    (if fb_lease b then
       b = fb_live (fo_root ob) reg (fb_predicate b) (fb_target b) session \<and>
       id_str (reg_method_id reg) = method_file_watch \<and> id_str (reg_subject_kind reg) = ''path'' \<and>
       reg_source_instance_ref reg = fo_source_instance_ref ob \<and> reg_start_anchor reg = None \<and>
       reg_baseline_policy reg = Some Latest \<and> fo_posture ob = FP_Local \<and>
       predicate_parse (pred_str (reg_predicate_ref reg)) = Some (fb_predicate b) \<and>
       (\<exists>u. h_start h u (tg_watch_paths (fb_target b)) = (True, w')) \<and>
       tg_watch_paths (fb_target b) \<noteq> [] \<and> (\<forall>p \<in> set (tg_watch_paths (fb_target b)). path_starts_with p (fo_root ob))
     else (\<exists>obs. \<not> observation_is_replayable obs \<and> fb_poll_ready h b u = (Some obs, b\<lparr>fb_terminal := None\<rparr>, u)) \<and>
       (\<forall>c out. fs_run h b c out \<longrightarrow> out = []))"
proof -
  have refused: ?thesis
    if "fb_inert (fo_root ob) reg obs n = (b, m)" "\<not> observation_is_replayable obs" for obs n m
  proof -
    have "out = []" if "fs_run h b c out" for c out
      using fs_run_silent [OF that fb_inert_silent(1) [OF \<open>fb_inert (fo_root ob) reg obs n = (b, m)\<close>]] \<open>\<not> observation_is_replayable obs\<close>
      by blast
    with fb_inert_fields [OF that(1)] fb_inert_silent(2) [OF that, of h u] that(2) show ?thesis by auto
  qed
  obtain v u where v: "validate_registration h ob reg w = (v, u)" by fastforce
  show ?thesis
  proof (cases v)
    case (Inl obs)
    with assms v have "fb_inert (fo_root ob) reg obs session = (b, session')"
      by (auto simp: fs_bind_to_def split: prod.splits)
    with refused validate_registration_refused [of h ob reg w obs u] v Inl show ?thesis by blast
  next
    case (Inr pt)
    obtain p t where pt: "pt = (p, t)" by fastforce
    note taken = validate_registration_taken [OF v [unfolded Inr pt]]
    obtain started x where st: "h_start h u (tg_watch_paths t) = (started, x)" by fastforce
    show ?thesis
    proof (cases started)
      case False
      with assms v Inr pt st have "fb_inert (fo_root ob) reg (obs_failed ''fs_native_watch_failed'') (session + 1) = (b, session')"
        by (auto simp: fs_bind_to_def split: prod.splits)
      with refused show ?thesis by simp
    next
      case True
      with assms v Inr pt st have b: "b = fb_live (fo_root ob) reg p t session" "w' = x" by (auto simp: fs_bind_to_def)
      with True taken target_resolve_inside [OF taken(8)] st show ?thesis
        by (simp add: b fb_live_fields exI [of _ u])
    qed
  qed
qed

theorem fs_bind_checked_witness:
  "fb_lease ex_fs_bind \<and> list_all (\<lambda>p. path_starts_with p ex_root) (tg_watch_paths (fb_target ex_fs_bind))"
proof -
  have "fs_bind_to ex_host ex_fs ex_watch (7, ()) = (ex_fs_bind, 8, ())" by code_simp
  from fs_bind_checked [OF this] show ?thesis by (simp add: ex_fs_bind_live(2) ex_fs_def list_all_iff)
qed

section \<open>Giving back\<close>



text \<open>A bind that has been released takes back an event as well, but never hands it out again.\<close>

theorem fs_released_restore:
  assumes "fb_released b" "fb_owns b obs"
  shows "\<exists>b'. fb_restore_ready b obs = (Inr (), b') \<and>
    fb_poll_ready h b' w = (Some (obs_failed ''fs_bind_released''), b', w)"
  using assms by (simp add: fb_restore_ready_def fb_poll_ready_def fb_immediate_def)

section \<open>Losing a signal\<close>













end
