(* ===== verification/Cli_Input.thy ===== *)
theory Cli_Input
  imports Fs_Properties Contract Validate_Set
begin

text \<open>
  The inputs of the diagnostic command line (\<^verbatim>\<open>crates/waitprims-cli/src/main.rs\<close>): paths, which must
  be local, documents and directories of documents, durations, and the pairs of messages a replay
  takes. Files, the standard output and the parsers of \<^verbatim>\<open>serde_json\<close> are the fields of \<open>cli\<close>.
  A call ends with a result or an error; \<open>None\<close> stands for a call that does not: admission
  panics, or the fuel of a loop is used up.
\<close>

section \<open>Calls\<close>

record 'w cli =
  cl_read :: "'w \<Rightarrow> string \<Rightarrow> string option \<times> 'w"
  cl_is_file :: "'w \<Rightarrow> string \<Rightarrow> bool \<times> 'w"
  cl_is_dir :: "'w \<Rightarrow> string \<Rightarrow> bool \<times> 'w"
  cl_read_dir :: "'w \<Rightarrow> string \<Rightarrow> string option list option \<times> 'w"
  cl_write_all :: "'w \<Rightarrow> string \<Rightarrow> bool \<times> 'w"
  cl_flush :: "'w \<Rightarrow> bool \<times> 'w"
  cl_to_string :: "json \<Rightarrow> string option"
  cl_message_string :: "agent_wait_message \<Rightarrow> string option"
  cl_lossy :: "string \<Rightarrow> string"
  cl_events :: "json \<Rightarrow> wait_event list option"
  cl_script :: "json \<Rightarrow> script option"
  cl_reader :: json_reader
  cl_contract :: string
  cl_schema :: string
  cl_version :: string
  cl_pkg_version :: string
  cl_runtime :: bool
  cl_admission :: admission
  cl_fs :: "'w host"

type_synonym ('w, 'a) act = "'w \<Rightarrow> (error + 'a) option \<times> 'w"

definition act_then :: "('w, 'a) act \<Rightarrow> ('a \<Rightarrow> ('w, 'b) act) \<Rightarrow> ('w, 'b) act" where
  "act_then m f w =
     (case m w of
        (None, w) \<Rightarrow> (None, w)
      | (Some (Inl err), w) \<Rightarrow> (Some (Inl err), w)
      | (Some (Inr x), w) \<Rightarrow> f x w)"

definition act_of :: "error + 'a \<Rightarrow> ('w, 'a) act" where
  "act_of r w = (Some r, w)"

definition act_checked :: "'a checked \<Rightarrow> ('w, 'a) act" where
  "act_checked r w = (r, w)"

lemma act_then_Inr:
  "act_then m f w = (Some (Inr y), w'') \<longleftrightarrow> (\<exists>x w'. m w = (Some (Inr x), w') \<and> f x w' = (Some (Inr y), w''))"
  by (auto simp: act_then_def split: prod.splits option.splits sum.splits)

lemma act_of_Inr: "act_of r w = (Some (Inr y), w') \<longleftrightarrow> r = Inr y \<and> w' = w"
  by (auto simp: act_of_def)

lemma act_checked_Inr: "act_checked r w = (Some (Inr y), w') \<longleftrightarrow> r = ok y \<and> w' = w"
  by (auto simp: act_checked_def)

lemmas act_simps = act_then_Inr act_of_Inr act_checked_Inr

section \<open>Local paths\<close>

definition is_ascii_alphabetic :: "char \<Rightarrow> bool" where
  "is_ascii_alphabetic c \<longleftrightarrow> CHR ''A'' \<le> c \<and> c \<le> CHR ''Z'' \<or> CHR ''a'' \<le> c \<and> c \<le> CHR ''z''"

definition is_uri_scheme :: "string \<Rightarrow> bool" where
  "is_uri_scheme scheme =
     (case scheme of
        [] \<Rightarrow> False
      | first # chars \<Rightarrow>
          is_ascii_alphabetic first \<and>
          list_all (\<lambda>c. is_ascii_alphabetic c \<or> is_digit c \<or> c \<in> {CHR ''+'', CHR ''-'', CHR ''.''}) chars)"

definition looks_like_uri :: "string \<Rightarrow> bool" where
  "looks_like_uri raw =
     (case split_once (CHR '':'') raw of
        None \<Rightarrow> False
      | Some (scheme, rest) \<Rightarrow>
          is_uri_scheme scheme \<and>
          \<not> (length scheme = 1 \<and> (take 1 rest = ''/'' \<or> take 1 rest = [CHR 0x5C])))"

definition reject_non_local_path :: "'w cli \<Rightarrow> string \<Rightarrow> error + unit" where
  "reject_non_local_path c path =
     (let raw = cl_lossy c path
      in if raw = ''-'' \<or> looks_like_uri raw then Inl (EValidation (ve_new ''target'' ''local_path_required''))
         else Inr ())"

definition read_raw :: "'w cli \<Rightarrow> string \<Rightarrow> ('w, string) act" where
  "read_raw c path w = (case cl_read c w path of (r, w) \<Rightarrow> (Some (ok_or EMalformedJson r), w))"

section \<open>Directories of documents\<close>

text \<open>\<open>Path::extension\<close>: what follows the last dot of the file name, if something precedes it.\<close>

definition path_extension :: "string \<Rightarrow> string option" where
  "path_extension p =
     (case path_file_name (path_new p) of
        Some [C_Normal n] \<Rightarrow>
          (case dropWhile (\<lambda>c. c \<noteq> CHR ''.'') (rev n) of
             dot # before # _ \<Rightarrow> Some (rev (takeWhile (\<lambda>c. c \<noteq> CHR ''.'') (rev n)))
           | _ \<Rightarrow> None)
      | _ \<Rightarrow> None)"

text \<open>Paths are ordered by their components.\<close>

fun component_rank :: "path_component \<Rightarrow> nat \<times> string" where
  "component_rank C_Root = (0, [])"
| "component_rank C_Cur = (1, [])"
| "component_rank C_Parent = (2, [])"
| "component_rank (C_Normal n) = (3, n)"

instantiation path_component :: linorder
begin

definition less_eq_path_component :: "path_component \<Rightarrow> path_component \<Rightarrow> bool" where
  "less_eq_path_component a b \<longleftrightarrow>
     fst (component_rank a) < fst (component_rank b) \<or>
     fst (component_rank a) = fst (component_rank b) \<and> snd (component_rank a) \<le> snd (component_rank b)"

definition less_path_component :: "path_component \<Rightarrow> path_component \<Rightarrow> bool" where
  "less_path_component a b \<longleftrightarrow> a \<le> b \<and> \<not> b \<le> a"

instance
proof
  fix a b c :: path_component
  show "(a < b) = (a \<le> b \<and> \<not> b \<le> a)" by (rule less_path_component_def)
  show "a \<le> a" by (simp add: less_eq_path_component_def)
  show "a \<le> b \<Longrightarrow> b \<le> c \<Longrightarrow> a \<le> c" by (auto simp: less_eq_path_component_def)
  show "a \<le> b \<Longrightarrow> b \<le> a \<Longrightarrow> a = b" by (cases a; cases b) (auto simp: less_eq_path_component_def)
  show "a \<le> b \<or> b \<le> a" by (auto simp: less_eq_path_component_def)
qed

end

definition missing_target :: error where
  "missing_target = EContract ''target'' ''missing_or_unreadable''"

text \<open>
  The entries still to visit, in the order of the recursion. The walk follows directories and may
  not end when they form a cycle.
\<close>

partial_function (option) collect_entries ::
  "'w cli \<Rightarrow> string option list \<Rightarrow> string list \<Rightarrow> 'w \<Rightarrow> ((error + string list) \<times> 'w) option" where
  "collect_entries c entries files w =
     (case entries of
        [] \<Rightarrow> Some (Inr files, w)
      | None # rest \<Rightarrow> Some (Inl missing_target, w)
      | Some p # rest \<Rightarrow>
          (case cl_is_dir c w p of
             (is_dir, w) \<Rightarrow>
               if is_dir then
                 (case cl_read_dir c w p of
                    (sub, w) \<Rightarrow>
                      (case sub of
                         None \<Rightarrow> Some (Inl missing_target, w)
                       | Some sub \<Rightarrow> collect_entries c (sub @ rest) files w))
               else
                 collect_entries c rest (if path_extension p = Some ''json'' then files @ [p] else files) w))"

definition collect_json :: "'w cli \<Rightarrow> string \<Rightarrow> ('w, string list) act" where
  "collect_json c dir w =
     (case cl_read_dir c w dir of
        (None, w) \<Rightarrow> (Some (Inl missing_target), w)
      | (Some entries, w) \<Rightarrow>
          (case collect_entries c entries [] w of None \<Rightarrow> (None, w) | Some (r, w) \<Rightarrow> (Some r, w)))"

fun read_all :: "'w cli \<Rightarrow> string list \<Rightarrow> ('w, string list) act" where
  "read_all c [] = act_of (Inr [])"
| "read_all c (p # ps) = act_then (read_raw c p) (\<lambda>raw. act_then (read_all c ps) (\<lambda>raws. act_of (Inr (raw # raws))))"

definition load_documents :: "'w cli \<Rightarrow> string \<Rightarrow> ('w, string list) act" where
  "load_documents c path w =
     (case cl_is_file c w path of
        (True, w) \<Rightarrow> act_then (read_raw c path) (\<lambda>raw. act_of (Inr [raw])) w
      | (False, w) \<Rightarrow>
          (case cl_is_dir c w path of
             (True, w) \<Rightarrow>
               act_then (collect_json c path) (\<lambda>files.
                 if files = [] then act_of (Inl (EValidation (ve_new ''/'' ''empty_target'')))
                 else read_all c (sort_key path_new files)) w
           | (False, w) \<Rightarrow> (Some (Inl missing_target), w)))"

definition validate_path :: "'w cli \<Rightarrow> string \<Rightarrow> ('w, nat) act" where
  "validate_path c path =
     act_then (act_of (reject_non_local_path c path)) (\<lambda>_.
     act_then (load_documents c path) (\<lambda>documents.
     act_then (act_checked (validate_raw_documents (cl_admission c) documents)) (\<lambda>typed.
     act_of (Inr (length typed)))))"

section \<open>Durations\<close>

text \<open>\<open>str::trim\<close> on the bytes of UTF-8: the 25 white space characters of Unicode.\<close>

definition white_space :: "string list" where
  "white_space =
     map (\<lambda>c. [c]) [CHR 0x09, CHR 0x0A, CHR 0x0B, CHR 0x0C, CHR 0x0D, CHR 0x20] @
     map (\<lambda>c. [CHR 0xC2, c]) [CHR 0x85, CHR 0xA0] @ [[CHR 0xE1, CHR 0x9A, CHR 0x80]] @
     map (\<lambda>c. [CHR 0xE2, CHR 0x80, c])
       [CHR 0x80, CHR 0x81, CHR 0x82, CHR 0x83, CHR 0x84, CHR 0x85, CHR 0x86, CHR 0x87, CHR 0x88, CHR 0x89, CHR 0x8A,
        CHR 0xA8, CHR 0xA9, CHR 0xAF] @
     [[CHR 0xE2, CHR 0x81, CHR 0x9F], [CHR 0xE3, CHR 0x80, CHR 0x80]]"

function trim_front :: "string list \<Rightarrow> string \<Rightarrow> string" where
  "trim_front ws s =
     (case find (\<lambda>w. w \<noteq> [] \<and> starts_with s w) ws of
        None \<Rightarrow> s
      | Some w \<Rightarrow> trim_front ws (drop (length w) s))"
  by pat_completeness auto

termination
  by (relation "measure (\<lambda>(ws, s). length s)")
    (auto simp: find_Some_iff starts_with_def strip_prefix_Some)

declare trim_front.simps [simp del]

definition trim :: "string \<Rightarrow> string" where
  "trim s = rev (trim_front (map rev white_space) (rev (trim_front white_space s)))"

definition strip_suffix :: "string \<Rightarrow> string \<Rightarrow> string option" where
  "strip_suffix p s = map_option rev (strip_prefix (rev p) (rev s))"

definition sat_mul :: "u64 \<Rightarrow> u64 \<Rightarrow> u64" where
  "sat_mul a b = (if unat a * unat b < 2 ^ 64 then a * b else u64_max)"

definition duration_from_secs :: "u64 \<Rightarrow> duration" where
  "duration_from_secs s = \<lparr>dur_secs = s, dur_nanos = 0\<rparr>"

definition parse_duration :: "string \<Rightarrow> error + duration" where
  "parse_duration raw =
     (let body = trim raw;
          (amount, unit) =
            (case strip_suffix ''ms'' body of Some rest \<Rightarrow> (rest, 0) | None \<Rightarrow>
            (case strip_suffix ''s'' body of Some rest \<Rightarrow> (rest, 1) | None \<Rightarrow>
            (case strip_suffix ''m'' body of Some rest \<Rightarrow> (rest, 2) | None \<Rightarrow>
            (case strip_suffix ''h'' body of Some rest \<Rightarrow> (rest, 3) | None \<Rightarrow> (body, 1 :: nat)))))
      in case parse_u64 (trim amount) of
           None \<Rightarrow> Inl (EValidation (ve_new ''/min_emit_interval'' ''invalid_duration''))
         | Some v \<Rightarrow>
             Inr (if unit = 0 then duration_from_millis (unat v)
                  else if unit = 1 then duration_from_secs v
                  else if unit = 2 then duration_from_secs (sat_mul v 60)
                  else duration_from_secs (sat_mul v 3600)))"

end
