(* ===== verification/Cli_Run.thy ===== *)
theory Cli_Run
  imports Cli_Input Wire_Json Testkit_Sessions
begin

text \<open>
  The commands of the diagnostic command line: the replays of a script through the four runners,
  the diagnostic records a held session prints (\<^verbatim>\<open>crates/waitprims-cli/src/diagnostic.rs\<close>), the
  inputs and the event sink of a native watch, and the dispatch of \<open>main\<close>
  (\<^verbatim>\<open>crates/waitprims-cli/src/main.rs\<close>).
\<close>

section \<open>Diagnostic records\<close>

fun terminal_kind_str :: "terminal_arm_kind \<Rightarrow> string" where
  "terminal_kind_str TA_Overflow = ''overflow''"
| "terminal_kind_str TA_Failed = ''failed''"
| "terminal_kind_str TA_Outage = ''outage''"
| "terminal_kind_str TA_CursorUncertain = ''cursor_uncertain''"
| "terminal_kind_str TA_Degraded = ''degraded''"

definition compact_json :: "'w cli \<Rightarrow> json \<Rightarrow> error + string" where
  "compact_json c v = ok_or EMalformedJson (cl_to_string c v)"

definition burst_json :: "u64 \<Rightarrow> wait_event list \<Rightarrow> json" where
  "burst_json sequence events =
     object [(''diagnostic_type'', JString ''follow_burst''), (''sequence'', u64_json sequence),
             (''events'', JArray (map event_json events))]"

definition coalesce_burst_json :: "u64 \<Rightarrow> wait_event list \<Rightarrow> json" where
  "coalesce_burst_json sequence events =
     object [(''diagnostic_type'', JString ''coalesce_burst''), (''sequence'', u64_json sequence),
             (''events'', JArray (map event_json events))]"

fun end_json :: "follow_end \<Rightarrow> json" where
  "end_json FE_Deadline = object [(''diagnostic_type'', JString ''follow_end''), (''end_kind'', JString ''deadline'')]"
| "end_json FE_Cancel = object [(''diagnostic_type'', JString ''follow_end''), (''end_kind'', JString ''cancel'')]"
| "end_json (FE_TerminalArm rid kind reason) =
     object [(''diagnostic_type'', JString ''follow_end''), (''end_kind'', JString ''terminal_arm''),
             (''registration_id'', id_json rid), (''terminal_kind'', JString (terminal_kind_str kind)),
             (''reason_code'', id_json reason)]"

definition pinned_crucible_sha :: string where
  "pinned_crucible_sha = ''4bc95146bc4ed503180fb13971947854a36957cb''"

definition contract_json :: "'w cli \<Rightarrow> error + string" where
  "contract_json c =
     (case resolve_bundled (cl_reader c) (cl_contract c) (cl_schema c) capability of
        Inl err \<Rightarrow> Inl err
      | Inr rc \<Rightarrow>
          compact_json c (object
            [(''diagnostic_type'', JString ''contract''), (''version'', JString (cl_version c)),
             (''capability'', JString capability), (''crucible_sha'', JString pinned_crucible_sha),
             (''entry_schema'', JString (rc_entry_schema_name rc)),
             (''entry_schema_id'', JString (case j_get_as j_str ''$id'' (rc_entry_schema rc) of None \<Rightarrow> [] | Some i \<Rightarrow> i)),
             (''message_types'', JArray (map (\<lambda>kind. JString (message_type_str kind)) message_type_all))]))"

definition write_record :: "'w cli \<Rightarrow> string \<Rightarrow> 'w \<Rightarrow> (error + unit) \<times> 'w" where
  "write_record c line w =
     (case cl_write_all c w line of
        (False, w) \<Rightarrow> (Inl (EContract ''stdout'' ''write''), w)
      | (True, w) \<Rightarrow>
          (case cl_write_all c w [CHR 0x0A] of
             (False, w) \<Rightarrow> (Inl (EContract ''stdout'' ''write''), w)
           | (True, w) \<Rightarrow>
               (case cl_flush c w of
                  (False, w) \<Rightarrow> (Inl (EContract ''stdout'' ''write''), w)
                | (True, w) \<Rightarrow> (Inr (), w))))"

definition put_record :: "'w cli \<Rightarrow> json \<Rightarrow> 'w \<Rightarrow> (error + unit) \<times> 'w" where
  "put_record c v w =
     (case compact_json c v of Inl err \<Rightarrow> (Inl err, w) | Inr line \<Rightarrow> write_record c line w)"

text \<open>The state of a \<open>JsonlSink\<close> is the number of bursts it has written.\<close>

definition emit_view ::
  "'w cli \<Rightarrow> (u64 \<Rightarrow> wait_event list \<Rightarrow> json) \<Rightarrow> u64 \<Rightarrow> wait_event list \<Rightarrow> 'w \<Rightarrow> (error + unit) \<times> u64 \<times> 'w" where
  "emit_view c view sequence events w =
     (let nxt = sequence + 1
      in case put_record c (view nxt events) w of
           (Inl err, w) \<Rightarrow> (Inl err, sequence, w)
         | (Inr _, w) \<Rightarrow> (Inr (), nxt, w))"

definition emit_burst :: "'w cli \<Rightarrow> u64 \<Rightarrow> wait_event list \<Rightarrow> 'w \<Rightarrow> (error + unit) \<times> u64 \<times> 'w" where
  "emit_burst c = emit_view c burst_json"

definition emit_coalesce_burst :: "'w cli \<Rightarrow> u64 \<Rightarrow> wait_event list \<Rightarrow> 'w \<Rightarrow> (error + unit) \<times> u64 \<times> 'w" where
  "emit_coalesce_burst c = emit_view c coalesce_burst_json"

definition emit_end :: "'w cli \<Rightarrow> follow_end \<Rightarrow> ('w, unit) act" where
  "emit_end c fin w = (case put_record c (end_json fin) w of (r, w) \<Rightarrow> (Some r, w))"

section \<open>The inputs of a replay\<close>

fun take_messages ::
  "(agent_wait_message \<Rightarrow> 'r option) \<Rightarrow> agent_wait_message list \<Rightarrow> registration_set option \<Rightarrow> 'r option \<Rightarrow>
   error + registration_set option \<times> 'r option" where
  "take_messages pick [] rset request = Inr (rset, request)"
| "take_messages pick (m # ms) rset request =
     (case m of
        RegistrationSet v \<Rightarrow> take_messages pick ms (Some v) request
      | _ \<Rightarrow>
          (case pick m of
             Some v \<Rightarrow> take_messages pick ms rset (Some v)
           | None \<Rightarrow> Inl (EValidation (ve_new ''/message_type'' ''unexpected_kind''))))"

definition take_pair ::
  "(agent_wait_message \<Rightarrow> 'r option) \<Rightarrow> string \<Rightarrow> agent_wait_message list \<Rightarrow> error + registration_set \<times> 'r" where
  "take_pair pick absent ms =
     (case take_messages pick ms None None of
        Inl err \<Rightarrow> Inl err
      | Inr (None, _) \<Rightarrow> Inl (EValidation (ve_new ''/message_type'' ''registration_set_required''))
      | Inr (Some rset, None) \<Rightarrow> Inl (EValidation (ve_new ''/message_type'' absent))
      | Inr (Some rset, Some request) \<Rightarrow> Inr (rset, request))"

definition take_set_and_request :: "agent_wait_message list \<Rightarrow> error + registration_set \<times> live_wait_request" where
  "take_set_and_request =
     take_pair (\<lambda>m. case m of LiveWaitRequest v \<Rightarrow> Some v | _ \<Rightarrow> None) ''live_wait_request_required''"

definition take_set_and_poll_request :: "agent_wait_message list \<Rightarrow> error + registration_set \<times> poll_cycle_request" where
  "take_set_and_poll_request =
     take_pair (\<lambda>m. case m of PollCycleRequest v \<Rightarrow> Some v | _ \<Rightarrow> None) ''poll_cycle_request_required''"

definition script_from_json :: "'w cli \<Rightarrow> string \<Rightarrow> error + script" where
  "script_from_json c raw =
     (case jr_value (cl_reader c) raw of
        None \<Rightarrow> Inl EMalformedJson
      | Some v \<Rightarrow>
          (if j_array v \<noteq> None
           then (case cl_events c v of
                   None \<Rightarrow> Inl EMalformedJson
                 | Some events \<Rightarrow> Inr (script_default\<lparr>sp_events := events\<rparr>))
           else ok_or EMalformedJson (cl_script c v)))"

definition reject_unknown_registrations :: "registration_set \<Rightarrow> script \<Rightarrow> error + unit" where
  "reject_unknown_registrations rset script =
     (if list_all (\<lambda>event. list_ex (\<lambda>reg. id_str (reg_id reg) = id_str (ev_registration_id event)) (rs_registrations rset))
           (sp_events script)
      then Inr ()
      else Inl (EValidation (ve_new ''/events/registration_id'' ''unknown_registration'')))"

definition local_paths :: "'w cli \<Rightarrow> string list \<Rightarrow> error + unit" where
  "local_paths c paths =
     (case find (\<lambda>p. reject_non_local_path c p \<noteq> Inr ()) paths of
        None \<Rightarrow> Inr ()
      | Some p \<Rightarrow> reject_non_local_path c p)"

definition build_runtime :: "'w cli \<Rightarrow> error + unit" where
  "build_runtime c = (if cl_runtime c then Inr () else Inl (EContract ''runtime'' ''init''))"

text \<open>
  The set and the request of a replay, admitted together, and its script. The first two replays
  read the script before they admit the messages, the held sessions after.
\<close>

definition replay_inputs ::
  "'w cli \<Rightarrow> (agent_wait_message list \<Rightarrow> error + registration_set \<times> 'r) \<Rightarrow> string \<Rightarrow> string \<Rightarrow> string \<Rightarrow>
   ('w, (registration_set \<times> 'r) \<times> script) act" where
  "replay_inputs c pick set_path request_path script_path =
     act_then (act_of (local_paths c [set_path, request_path, script_path])) (\<lambda>_.
     act_then (read_raw c set_path) (\<lambda>set_raw.
     act_then (read_raw c request_path) (\<lambda>request_raw.
     act_then (read_raw c script_path) (\<lambda>script_raw.
     act_then (act_checked (validate_raw_documents (cl_admission c) [set_raw, request_raw])) (\<lambda>admitted.
     act_then (act_of (pick admitted)) (\<lambda>inputs.
     act_then (act_of (script_from_json c script_raw)) (\<lambda>script.
     act_then (act_of (reject_unknown_registrations (fst inputs) script)) (\<lambda>_.
     act_then (act_of (build_runtime c)) (\<lambda>_.
     act_of (Inr (inputs, script)))))))))))"

definition held_inputs ::
  "'w cli \<Rightarrow> string \<Rightarrow> string \<Rightarrow> string \<Rightarrow> ('w, (registration_set \<times> live_wait_request) \<times> script) act" where
  "held_inputs c set_path request_path script_path =
     act_then (act_of (local_paths c [set_path, request_path, script_path])) (\<lambda>_.
     act_then (read_raw c set_path) (\<lambda>set_raw.
     act_then (read_raw c request_path) (\<lambda>request_raw.
     act_then (act_checked (validate_raw_documents (cl_admission c) [set_raw, request_raw])) (\<lambda>admitted.
     act_then (act_of (take_set_and_request admitted)) (\<lambda>inputs.
     act_then (read_raw c script_path) (\<lambda>script_raw.
     act_then (act_of (script_from_json c script_raw)) (\<lambda>script.
     act_then (act_of (reject_unknown_registrations (fst inputs) script)) (\<lambda>_.
     act_of (Inr (inputs, script))))))))))"

section \<open>The replays\<close>

definition replay_env :: "'w cli \<Rightarrow> (scripted_world, tracked_bind) env" where
  "replay_env c = scripted_env (ad_calendar (cl_admission c)) True"

text \<open>The printed line is admitted first.\<close>

definition admit_line :: "'w cli \<Rightarrow> agent_wait_message \<Rightarrow> ('w, string) act" where
  "admit_line c message =
     act_then (act_of (ok_or EMalformedJson (cl_message_string c message))) (\<lambda>json.
     act_then (act_checked (validate_message (cl_admission c) json)) (\<lambda>_. act_of (Inr json)))"

definition run_wait :: "'w cli \<Rightarrow> nat \<Rightarrow> string \<Rightarrow> string \<Rightarrow> string \<Rightarrow> ('w, string) act" where
  "run_wait c fuel set_path request_path script_path =
     act_then (replay_inputs c take_set_and_request set_path request_path script_path) (\<lambda>((rset, request), script).
     act_then (act_checked (fst (run_first_match (replay_env c) rset request fuel (scripted_new script (created_at request)))))
       (\<lambda>outcome. admit_line c (LiveWaitOutcome outcome)))"

definition run_poll :: "'w cli \<Rightarrow> nat \<Rightarrow> string \<Rightarrow> string \<Rightarrow> string \<Rightarrow> ('w, string) act" where
  "run_poll c fuel set_path request_path script_path =
     act_then (replay_inputs c take_set_and_poll_request set_path request_path script_path) (\<lambda>((rset, request), script).
     act_then (act_checked (fst (run_poll_cycle (replay_env c) rset request fuel (scripted_new script (created_at request)))))
       (\<lambda>outcome. admit_line c (PollCycleOutcome outcome)))"

text \<open>An environment beside a state it does not touch: the standard output and its counter.\<close>

definition beside :: "('w, 'b) env \<Rightarrow> ('s \<times> 'w, 'b) env" where
  "beside e =
     \<lparr>env_bind = \<lambda>(s, w) reg. case env_bind e w reg of (r, w) \<Rightarrow> (r, s, w),
      env_next = \<lambda>(s, w) b. case env_next e w b of (r, w) \<Rightarrow> (r, s, w),
      env_poll_ready = \<lambda>(s, w) b. case env_poll_ready e w b of (r, w) \<Rightarrow> (r, s, w),
      env_restore_ready = \<lambda>(s, w) b obs. case env_restore_ready e w b obs of (r, w) \<Rightarrow> (r, s, w),
      env_registration_id = env_registration_id e, env_resolved_start = env_resolved_start e,
      env_now = \<lambda>(s, w). case env_now e w of (r, w) \<Rightarrow> (r, s, w),
      env_sleep_until = \<lambda>(s, w) t. case env_sleep_until e w t of (r, w) \<Rightarrow> (r, s, w),
      env_is_cancelled = \<lambda>(s, w). case env_is_cancelled e w of (r, w) \<Rightarrow> (r, s, w),
      env_park = \<lambda>(s, w). (s, env_park e w), env_calendar = env_calendar e\<rparr>"

definition line_sink ::
  "(u64 \<Rightarrow> wait_event list \<Rightarrow> 'w \<Rightarrow> (error + unit) \<times> u64 \<times> 'w) \<Rightarrow> ((u64 \<times> 'w) \<times> 'x) sink" where
  "line_sink emit = (\<lambda>((sequence, w), x) events. case emit sequence events w of (r, s) \<Rightarrow> (Ready r, s, x))"

definition end_session :: "'w cli \<Rightarrow> (error + follow_end) option \<Rightarrow> ('w, unit) act" where
  "end_session c r w =
     (case r of
        None \<Rightarrow> (None, w)
      | Some (Inl err) \<Rightarrow> (Some (Inl err), w)
      | Some (Inr fin) \<Rightarrow> emit_end c fin w)"

definition run_held_follow :: "'w cli \<Rightarrow> nat \<Rightarrow> string \<Rightarrow> string \<Rightarrow> string \<Rightarrow> ('w, unit) act" where
  "run_held_follow c fuel set_path request_path script_path =
     act_then (held_inputs c set_path request_path script_path) (\<lambda>((rset, request), script).
     act_then (act_of (build_runtime c)) (\<lambda>_ w.
       case run_follow (beside (replay_env c)) (line_sink (emit_burst c)) rset request fuel
              ((0, w), scripted_new script (created_at request)) of
         (r, _, (_, w), _) \<Rightarrow> end_session c r w))"

definition coalesce_policy_of :: "string option \<Rightarrow> u8 option \<Rightarrow> error + coalesce_policy" where
  "coalesce_policy_of min_emit_interval urgent_at =
     (case (case min_emit_interval of None \<Rightarrow> Inr (duration_from_secs 10) | Some raw \<Rightarrow> parse_duration raw) of
        Inl err \<Rightarrow> Inl err
      | Inr interval \<Rightarrow>
          (let policy = coalesce_policy_new interval
           in Inr (case urgent_at of None \<Rightarrow> policy | Some at \<Rightarrow> policy\<lparr>cp_urgent_at := at\<rparr>)))"

definition run_held_coalesce ::
  "'w cli \<Rightarrow> nat \<Rightarrow> string \<Rightarrow> string \<Rightarrow> string \<Rightarrow> string option \<Rightarrow> u8 option \<Rightarrow> ('w, unit) act" where
  "run_held_coalesce c fuel set_path request_path script_path min_emit_interval urgent_at =
     act_then (held_inputs c set_path request_path script_path) (\<lambda>((rset, request), script).
     act_then (act_of (coalesce_policy_of min_emit_interval urgent_at)) (\<lambda>policy.
     act_then (act_of (build_runtime c)) (\<lambda>_ w.
       case run_coalesce (beside (replay_env c)) (line_sink (emit_coalesce_burst c)) rset request policy fuel
              ((0, w), scripted_new script (created_at request)) of
         (r, _, (_, w), _) \<Rightarrow> end_session c r w)))"

end
