(* ===== verification/Cli_Watch.thy ===== *)
theory Cli_Watch
  imports Cli_Run
begin

text \<open>
  A native watch of the command line: its inputs, and the sink that gives every event descriptor a
  reference within the limits of the set; then the other commands and the dispatch of \<open>main\<close>
  (\<^verbatim>\<open>crates/waitprims-cli/src/main.rs\<close>). The session of a watch runs on the wall clock and the native
  watcher of the machine: it is an argument of the dispatch.
\<close>

section \<open>The inputs of a watch\<close>

definition validate_watch_subject :: "string \<Rightarrow> error + unit" where
  "validate_watch_subject subject =
     (if subject = [] \<or> take 1 subject = ''/'' \<or> take 1 subject = [CHR 0x5C] \<or> CHR 0x5C \<in> set subject
         \<or> take 1 (drop 1 subject) = '':''
      then Inl (EValidation (ve_new ''/registrations/subject_id'' ''portable_relative_path_required''))
      else if list_ex (\<lambda>component. component = C_Parent \<or> component = C_Root) (path_new subject)
      then Inl (EValidation (ve_new ''/registrations/subject_id'' ''portable_relative_path_required''))
      else Inr ())"

fun watch_registrations :: "opaque_ref \<Rightarrow> registration list \<Rightarrow> error + unit" where
  "watch_registrations src [] = Inr ()"
| "watch_registrations src (reg # regs) =
     (if id_str (reg_method_id reg) \<noteq> method_file_watch
      then Inl (EValidation (ve_new ''/registrations/method_id'' ''file_watch_required''))
      else if reg_source_instance_ref reg \<noteq> src
      then Inl (EValidation (ve_new ''/registrations/source_instance_ref'' ''single_source_required''))
      else if id_str (reg_subject_kind reg) \<noteq> ''path''
      then Inl (EValidation (ve_new ''/registrations/subject_kind'' ''path_required''))
      else case validate_watch_subject (id_str (reg_subject_id reg)) of
             Inl err \<Rightarrow> Inl err
           | Inr _ \<Rightarrow> watch_registrations src regs)"

definition watch_root :: "'w cli \<Rightarrow> string \<Rightarrow> ('w, path) act" where
  "watch_root c root w =
     (case h_canonicalize (cl_fs c) w (path_new root) of
        (None, w) \<Rightarrow> (Some (Inl (EValidation (ve_new ''/root'' ''existing_local_directory_required''))), w)
      | (Some root, w) \<Rightarrow>
          (case h_is_dir (cl_fs c) w root of
             (False, w) \<Rightarrow> (Some (Inl (EValidation (ve_new ''/root'' ''existing_local_directory_required''))), w)
           | (True, w) \<Rightarrow> (Some (Inr root), w)))"

definition watch_source :: "registration_set \<Rightarrow> error + opaque_ref" where
  "watch_source rset =
     (case rs_registrations rset of
        [] \<Rightarrow> Inl (EValidation (ve_new ''/registrations'' ''nonempty_required''))
      | reg # _ \<Rightarrow> Inr (reg_source_instance_ref reg))"

definition admit_watch_inputs ::
  "'w cli \<Rightarrow> string \<Rightarrow> string \<Rightarrow> string \<Rightarrow> ('w, path \<times> (registration_set \<times> live_wait_request) \<times> opaque_ref) act" where
  "admit_watch_inputs c root set_path request_path =
     act_then (act_of (local_paths c [root, set_path, request_path])) (\<lambda>_.
     act_then (watch_root c root) (\<lambda>root.
     act_then (read_raw c set_path) (\<lambda>set_raw.
     act_then (read_raw c request_path) (\<lambda>request_raw.
     act_then (act_checked (validate_raw_documents (cl_admission c) [set_raw, request_raw])) (\<lambda>admitted.
     act_then (act_of (take_set_and_request admitted)) (\<lambda>inputs.
     act_then (act_of (watch_source (fst inputs))) (\<lambda>src.
     act_then (act_of (watch_registrations src (rs_registrations (fst inputs)))) (\<lambda>_.
     act_of (Inr (root, inputs, src))))))))))"

section \<open>The sink of a watch\<close>

record cli_sink =
  cs_next :: u64
  cs_bytes :: u64
  cs_entries :: "(string, string) btree"
  cs_max_events :: u64
  cs_max_bytes :: u64
  cs_failed :: bool

definition cli_sink_new :: "u64 \<Rightarrow> u64 \<Rightarrow> cli_sink" where
  "cli_sink_new max_events max_bytes =
     \<lparr>cs_next = 0, cs_bytes = 0, cs_entries = [], cs_max_events = max_events, cs_max_bytes = max_bytes, cs_failed = False\<rparr>"

definition cli_ref :: "u64 \<Rightarrow> string" where
  "cli_ref sequence = ''ref:fs-cli-'' @ dec (unat sequence)"

definition cli_materialize :: "'w host \<Rightarrow> cli_sink \<Rightarrow> event_descriptor \<Rightarrow> (error + payload_ref) \<times> cli_sink" where
  "cli_materialize h s descriptor =
     (let bytes = h_to_vec h descriptor;
          digest = fb_digest h descriptor;
          sequence = cs_next s + 1;
          s = s\<lparr>cs_next := sequence\<rparr>;
          payload_ref = cli_ref sequence;
          next_bytes = sat_add (cs_bytes s) (of_nat (length bytes))
      in if cs_max_events s < sequence \<or> cs_max_bytes s < next_bytes
         then (Inl (EValidation (ve_new ''/event_ref_sink'' ''capacity_exhausted'')), s\<lparr>cs_failed := True\<rparr>)
         else (Inr \<lparr>pl_payload_ref = OpaqueRef payload_ref,
                    pl_content_digest = \<lparr>cd_algorithm = Sha256, cd_value = digest\<rparr>,
                    pl_media_type = Some ''application/json''\<rparr>,
               s\<lparr>cs_bytes := next_bytes, cs_entries := bt_insert payload_ref bytes (cs_entries s)\<rparr>))"

text \<open>The host of a watch: the filesystem of the command line with this sink beside it.\<close>

definition watch_host :: "'w host \<Rightarrow> (cli_sink \<times> 'w) host" where
  "watch_host h =
     \<lparr>h_canonicalize = \<lambda>(s, w) p. case h_canonicalize h w p of (r, w) \<Rightarrow> (r, s, w),
      h_is_dir = \<lambda>(s, w) p. case h_is_dir h w p of (r, w) \<Rightarrow> (r, s, w),
      h_exists = \<lambda>(s, w) p. case h_exists h w p of (r, w) \<Rightarrow> (r, s, w),
      h_start = \<lambda>(s, w) ps. case h_start h w ps of (r, w) \<Rightarrow> (r, s, w),
      h_materialize = \<lambda>(s, w) d. case cli_materialize h s d of (r, s) \<Rightarrow> (r, s, w),
      h_now = \<lambda>(s, w). case h_now h w of (r, w) \<Rightarrow> (r, s, w),
      h_to_vec = h_to_vec h, h_sha256 = h_sha256 h, h_lossy = h_lossy h\<rparr>"

section \<open>The other commands\<close>

definition schema_line :: "'w cli \<Rightarrow> string option \<Rightarrow> error + string" where
  "schema_line c message_type =
     (case (case message_type of
              None \<Rightarrow> bundled_entry_schema (cl_reader c) (cl_contract c) (cl_schema c)
            | Some raw \<Rightarrow>
                (case message_type_parse raw of
                   None \<Rightarrow> Inl (EValidation (ve_new ''/message_type'' ''undeclared_message_type''))
                 | Some kind \<Rightarrow> bundled_message_schema (cl_reader c) (cl_contract c) (cl_schema c) kind)) of
        Inl err \<Rightarrow> Inl err
      | Inr schema \<Rightarrow> compact_json c schema)"

text \<open>\<open>println!\<close>, which panics when the standard output cannot be written.\<close>

definition put_line :: "'w cli \<Rightarrow> string \<Rightarrow> ('w, unit) act" where
  "put_line c line w = (case cl_write_all c w (line @ [CHR 0x0A]) of (wrote, w) \<Rightarrow> (if wrote then Some (Inr ()) else None, w))"

definition print_schema :: "'w cli \<Rightarrow> string option \<Rightarrow> ('w, unit) act" where
  "print_schema c message_type = act_then (act_of (schema_line c message_type)) (put_line c)"

definition print_contract :: "'w cli \<Rightarrow> ('w, unit) act" where
  "print_contract c = act_then (act_of (contract_json c)) (put_line c)"

fun jcs_display :: "jcs_error \<Rightarrow> string" where
  "jcs_display InvalidJson = ''invalid JSON''"
| "jcs_display DuplicateKey = ''duplicate object member name''"
| "jcs_display LoneSurrogate = ''lone surrogate is not permitted in JCS''"
| "jcs_display NonFiniteNumber = ''non-finite numbers are not permitted in JCS''"
| "jcs_display IntegerOutsideIjson = ''integer is outside the I-JSON IEEE 754 binary64 domain''"
| "jcs_display Unsupported = ''unsupported JSON value''"

fun error_display :: "error \<Rightarrow> string" where
  "error_display (EContract path constraint) = ''contract resolution failed at '' @ path @ '': '' @ constraint"
| "error_display (EValidation e) = ve_display e"
| "error_display (EJcs e) = jcs_display e"
| "error_display EMalformedJson = ''malformed JSON''"

section \<open>Dispatch\<close>

datatype command =
    Cmd_Validate string
  | Cmd_Wait string string string
  | Cmd_Poll string string string
  | Cmd_Follow string string string
  | Cmd_Watch string string string
  | Cmd_Coalesce string string string "string option" "u8 option"
  | Cmd_Contract
  | Cmd_Schema "string option"

text \<open>Whether the command succeeds, and its line on the standard error when it does not.\<close>

type_synonym exit_code = "bool \<times> string option"

definition settle :: "string \<Rightarrow> ('w, unit) act \<Rightarrow> 'w \<Rightarrow> exit_code option \<times> 'w" where
  "settle name m w =
     (case m w of
        (None, w) \<Rightarrow> (None, w)
      | (Some (Inr _), w) \<Rightarrow> (Some (True, None), w)
      | (Some (Inl err), w) \<Rightarrow> (Some (False, Some (''waitprims '' @ name @ '': '' @ error_display err)), w))"

definition report_line :: "'w cli \<Rightarrow> ('w, string) act \<Rightarrow> ('w, unit) act" where
  "report_line c m = act_then m (put_line c)"

definition count_json :: "nat \<Rightarrow> json" where
  "count_json n = object [(''ok'', JBool True), (''documents'', u64_json (of_nat n))]"

definition count_line :: "'w cli \<Rightarrow> nat \<Rightarrow> ('w, string) act" where
  "count_line c n = act_checked (map_option Inr (cl_to_string c (count_json n)))"

fun run_command ::
  "'w cli \<Rightarrow> nat \<Rightarrow> (string \<Rightarrow> string \<Rightarrow> string \<Rightarrow> ('w, unit) act) \<Rightarrow> command option \<Rightarrow> 'w \<Rightarrow> exit_code option \<times> 'w" where
  "run_command c fuel watch None =
     settle [] (put_line c (''waitprims '' @ cl_pkg_version c @
       [CHR 0x0A] @ ''Diagnostic CLI. The library is the product; there is no daemon.''))"
| "run_command c fuel watch (Some cmd) =
     (case cmd of
        Cmd_Schema message_type \<Rightarrow> settle ''schema'' (print_schema c message_type)
      | Cmd_Validate input \<Rightarrow> settle ''validate'' (report_line c (act_then (validate_path c input) (count_line c)))
      | Cmd_Wait set_path request script \<Rightarrow> settle ''wait'' (report_line c (run_wait c fuel set_path request script))
      | Cmd_Poll set_path request script \<Rightarrow> settle ''poll'' (report_line c (run_poll c fuel set_path request script))
      | Cmd_Follow set_path request script \<Rightarrow> settle ''follow'' (run_held_follow c fuel set_path request script)
      | Cmd_Watch root set_path request \<Rightarrow> settle ''watch'' (watch root set_path request)
      | Cmd_Coalesce set_path request script min_emit_interval urgent_at \<Rightarrow>
          settle ''coalesce'' (run_held_coalesce c fuel set_path request script min_emit_interval urgent_at)
      | Cmd_Contract \<Rightarrow> settle ''contract'' (print_contract c))"

end
