(* ===== verification/Cli_Properties.thy ===== *)
theory Cli_Properties
  imports Cli_Watch
begin

text \<open>
  What the command line promises: the sink of a native watch stays within the limits of the set
  and never trips the digest check of the observer, the inputs of a watch are those the observer
  accepts, a held session prints what the runner hands on, and a replay ends.
\<close>

section \<open>The sink of a watch\<close>

lemma cli_ref_inj: "cli_ref a = cli_ref b \<Longrightarrow> a = b"
  by (simp add: cli_ref_def) (metis parse_u64_dec option.inject)

lemma length_bt_insert: "k \<notin> fst ` set m \<Longrightarrow> length (bt_insert k v m) = Suc (length m)"
  by (induction k v m rule: bt_insert.induct) auto

lemma sum_bt_insert:
  "k \<notin> fst ` set m \<Longrightarrow> (\<Sum>e \<leftarrow> bt_insert k v m. f (snd e)) = f v + (\<Sum>e \<leftarrow> m. f (snd e) :: nat)"
  by (induction k v m rule: bt_insert.induct) auto

text \<open>A watch hands its sink the descriptors one after the other.\<close>

fun cli_serve :: "'w host \<Rightarrow> cli_sink \<Rightarrow> event_descriptor list \<Rightarrow> (error + payload_ref) list \<times> cli_sink" where
  "cli_serve h s [] = ([], s)"
| "cli_serve h s (d # ds) =
     (case cli_materialize h s d of (r, s) \<Rightarrow> case cli_serve h s ds of (rs, s) \<Rightarrow> (r # rs, s))"

definition stored_bytes :: "cli_sink \<Rightarrow> nat" where
  "stored_bytes s = (\<Sum>e \<leftarrow> cs_entries s. length (snd e))"

definition cs_ok :: "nat \<Rightarrow> cli_sink \<Rightarrow> bool" where
  "cs_ok n s \<longleftrightarrow> cs_next s = of_nat n \<and> length (cs_entries s) \<le> n \<and>
     (\<forall>k \<in> fst ` set (cs_entries s). \<exists>j. 0 < j \<and> j \<le> n \<and> k = cli_ref (of_nat j)) \<and>
     length (cs_entries s) \<le> unat (cs_max_events s) \<and>
     unat (cs_bytes s) = stored_bytes s \<and> stored_bytes s \<le> unat (cs_max_bytes s)"

definition answers :: "'w host \<Rightarrow> cli_sink \<Rightarrow> error + payload_ref \<Rightarrow> event_descriptor \<Rightarrow> bool" where
  "answers h s r d \<longleftrightarrow>
     (case r of
        Inl err \<Rightarrow> err = EValidation (ve_new ''/event_ref_sink'' ''capacity_exhausted'') \<and> cs_failed s
      | Inr payload \<Rightarrow>
          pl_content_digest payload = \<lparr>cd_algorithm = Sha256, cd_value = fb_digest h d\<rparr> \<and>
          bt_get (cs_entries s) (opaque_str (pl_payload_ref payload)) = Some (h_to_vec h d))"

text \<open>What later calls keep: the entries, the limits and a failure.\<close>

definition cs_grows :: "cli_sink \<Rightarrow> cli_sink \<Rightarrow> bool" where
  "cs_grows s t \<longleftrightarrow> (\<forall>k v. bt_get (cs_entries s) k = Some v \<longrightarrow> bt_get (cs_entries t) k = Some v) \<and>
     (cs_failed s \<longrightarrow> cs_failed t) \<and> cs_max_events t = cs_max_events s \<and> cs_max_bytes t = cs_max_bytes s"

lemma cs_grows_trans: "cs_grows a b \<Longrightarrow> cs_grows b c \<Longrightarrow> cs_grows a c"
  by (simp add: cs_grows_def)

lemma answers_grows: "answers h s r d \<Longrightarrow> cs_grows s t \<Longrightarrow> answers h t r d"
  by (auto simp: answers_def cs_grows_def split: sum.splits)

lemma cli_ref_fresh:
  assumes "cs_ok n s" "Suc n < 2 ^ 64"
  shows "cli_ref (cs_next s + 1) \<notin> fst ` set (cs_entries s)"
proof
  assume "cli_ref (cs_next s + 1) \<in> fst ` set (cs_entries s)"
  with assms(1) obtain j where j: "0 < j" "j \<le> n" "cli_ref (of_nat (Suc n)) = cli_ref (of_nat j)"
    by (auto simp: cs_ok_def add.commute)
  from cli_ref_inj [OF j(3)] have "Suc n = j"
    using j assms(2) by (subst (asm) word_of_nat_eq_iff) (simp add: take_bit_nat_eq_self)
  with j show False by simp
qed

lemma cli_materialize_step:
  assumes m: "cli_materialize h s d = (r, t)" and ok: "cs_ok n s" and n: "Suc n < 2 ^ 64"
    and d: "length (h_to_vec h d) < 2 ^ 64" and mb: "cs_max_bytes s \<noteq> u64_max"
  shows "cs_ok (Suc n) t \<and> answers h t r d \<and> cs_grows s t \<and> (cs_failed t \<longleftrightarrow> cs_failed s \<or> (\<exists>err. r = Inl err))"
proof -
  let ?v = "h_to_vec h d" and ?seq = "cs_next s + 1"
  let ?bytes = "sat_add (cs_bytes s) (of_nat (length ?v))"
  have next_seq: "?seq = of_nat (Suc n)" using ok by (simp add: cs_ok_def add.commute)
  have useq: "unat ?seq = Suc n"
    unfolding next_seq using n by (subst unat_of_nat) (simp del: of_nat_Suc)
  have keys: "\<exists>j. 0 < j \<and> j \<le> Suc n \<and> k = cli_ref (of_nat j)" if "k \<in> fst ` set (cs_entries s)" for k
    using ok that unfolding cs_ok_def by (meson le_SucI)
  show ?thesis
  proof (cases "cs_max_events s < ?seq \<or> cs_max_bytes s < ?bytes")
    case True
    with m have t: "t = s\<lparr>cs_next := ?seq, cs_failed := True\<rparr>"
      "r = Inl (EValidation (ve_new ''/event_ref_sink'' ''capacity_exhausted''))"
      by (auto simp: cli_materialize_def Let_def)
    then show ?thesis using ok keys next_seq
      by (auto simp: cs_ok_def answers_def cs_grows_def stored_bytes_def)
  next
    case False
    note fresh = cli_ref_fresh [OF ok n]
    from False have le: "?seq \<le> cs_max_events s" "?bytes \<le> cs_max_bytes s" by auto
    have "unat (cs_max_bytes s) \<noteq> unat u64_max" using mb by (simp only: word_unat_eq_iff not_False_eq_True)
    then have "unat ?bytes < 2 ^ 64 - 1"
      using le(2) unat_le_u64_max [of "cs_max_bytes s"] unfolding word_le_nat_alt unat_u64_max by linarith
    then have ub: "unat ?bytes = stored_bytes s + length ?v"
      using ok d by (simp add: unat_sat_add cs_ok_def unat_of_nat min_def split: if_splits)
    from False m obtain p where t: "t = s\<lparr>cs_next := ?seq, cs_bytes := ?bytes,
        cs_entries := bt_insert (cli_ref ?seq) ?v (cs_entries s)\<rparr>"
      "r = Inr p" "pl_content_digest p = \<lparr>cd_algorithm = Sha256, cd_value = fb_digest h d\<rparr>"
      "opaque_str (pl_payload_ref p) = cli_ref ?seq"
      by (auto simp: cli_materialize_def Let_def)
    have stored: "stored_bytes t = stored_bytes s + length ?v"
      unfolding stored_bytes_def t using sum_bt_insert [OF fresh, of length ?v] by simp
    have len: "length (cs_entries t) = Suc (length (cs_entries s))" "length (cs_entries s) \<le> n"
      using length_bt_insert [OF fresh] ok unfolding cs_ok_def t by simp_all
    have t_fields: "cs_next t = of_nat (Suc n)" "unat (cs_bytes t) = stored_bytes s + length ?v"
      "cs_max_events t = cs_max_events s" "cs_max_bytes t = cs_max_bytes s"
      using ub next_seq by (simp_all add: t)
    have "Suc n \<le> unat (cs_max_events s)" "stored_bytes s + length ?v \<le> unat (cs_max_bytes s)"
      using le useq ub by (simp_all add: word_le_nat_alt)
    moreover have "\<forall>k \<in> fst ` set (cs_entries t). \<exists>j. 0 < j \<and> j \<le> Suc n \<and> k = cli_ref (of_nat j)"
    proof
      fix k assume "k \<in> fst ` set (cs_entries t)"
      then have "k = cli_ref (of_nat (Suc n)) \<or> k \<in> fst ` set (cs_entries s)"
        using next_seq by (auto simp: t)
      with keys [of k] show "\<exists>j. 0 < j \<and> j \<le> Suc n \<and> k = cli_ref (of_nat j)" by blast
    qed
    ultimately have "cs_ok (Suc n) t"
      unfolding cs_ok_def t_fields stored len(1) using len(2) by simp
    moreover have "cs_grows s t"
      using fresh unfolding bt_contains_iff [symmetric] bt_contains_def by (auto simp: cs_grows_def t)
    ultimately show ?thesis using t by (simp add: answers_def)
  qed
qed

lemma cli_serve_ok:
  "cli_serve h s ds = (rs, t) \<Longrightarrow> cs_ok n s \<Longrightarrow> n + length ds < 2 ^ 64 \<Longrightarrow>
   (\<forall>d \<in> set ds. length (h_to_vec h d) < 2 ^ 64) \<Longrightarrow> cs_max_bytes s \<noteq> u64_max \<Longrightarrow>
   cs_ok (n + length ds) t \<and> cs_grows s t \<and> list_all2 (answers h t) rs ds \<and>
   (cs_failed t \<longleftrightarrow> cs_failed s \<or> (\<exists>err. Inl err \<in> set rs))"
proof (induction ds arbitrary: s rs n)
  case Nil
  then show ?case by (simp add: cs_grows_def)
next
  case (Cons d ds)
  obtain r u where m: "cli_materialize h s d = (r, u)" by fastforce
  obtain qs where q: "cli_serve h u ds = (qs, t)" "rs = r # qs"
    using Cons.prems(1) m by (auto split: prod.splits)
  have step: "cs_ok (Suc n) u \<and> answers h u r d \<and> cs_grows s u \<and> (cs_failed u \<longleftrightarrow> cs_failed s \<or> (\<exists>err. r = Inl err))"
    using Cons.prems by (intro cli_materialize_step [OF m]) auto
  then have mb: "cs_max_bytes u \<noteq> u64_max" using Cons.prems(5) by (simp add: cs_grows_def)
  have "cs_ok (Suc n + length ds) t \<and> cs_grows u t \<and> list_all2 (answers h t) qs ds \<and>
      (cs_failed t \<longleftrightarrow> cs_failed u \<or> (\<exists>err. Inl err \<in> set qs))"
    using Cons.prems by (intro Cons.IH [OF q(1)]) (auto simp: step mb)
  with step q(2) show ?case by (auto intro: cs_grows_trans answers_grows)
qed

text \<open>
  C38. Whatever descriptors a watch materializes, the sink stores at most as many and at most as
  many bytes as the set allows, every reference it has given still names the bytes of its
  descriptor, the digest beside it is that of those bytes, every other answer is an exhausted
  capacity, and the sink is marked as failed exactly when it has given such an answer.
\<close>

theorem cli_watch_sink:
  assumes "cli_serve h (cli_sink_new max_events max_bytes) ds = (rs, s)"
    and "length ds < 2 ^ 64" "\<forall>d \<in> set ds. length (h_to_vec h d) < 2 ^ 64" "max_bytes \<noteq> u64_max"
  shows "length (cs_entries s) \<le> unat max_events \<and> (\<Sum>e \<leftarrow> cs_entries s. length (snd e)) \<le> unat max_bytes \<and>
    list_all2 (answers h s) rs ds \<and> (cs_failed s \<longleftrightarrow> (\<exists>err. Inl err \<in> set rs))"
proof -
  have "cs_ok 0 (cli_sink_new max_events max_bytes)" by (simp add: cs_ok_def cli_sink_new_def stored_bytes_def)
  from cli_serve_ok [OF assms(1) this] assms(2-4) show ?thesis
    by (auto simp: cs_ok_def cs_grows_def stored_bytes_def cli_sink_new_def)
qed

definition ex_descriptor :: event_descriptor where
  "ex_descriptor = \<lparr>ed_class = FE_Write, ed_paths = [''a'']\<rparr>"

theorem cli_watch_sink_witness:
  "cs_failed (snd (cli_serve ex_host (cli_sink_new 1 9) [ex_descriptor, ex_descriptor])) \<and>
   length (cs_entries (snd (cli_serve ex_host (cli_sink_new 1 9) [ex_descriptor, ex_descriptor]))) \<le> 1"
proof -
  obtain rs s where r: "cli_serve ex_host (cli_sink_new 1 9) [ex_descriptor, ex_descriptor] = (rs, s)" by fastforce
  have "list_ex isl (fst (cli_serve ex_host (cli_sink_new 1 9) [ex_descriptor, ex_descriptor]))"
    by code_simp
  then have e: "\<exists>err. Inl err \<in> set rs" unfolding r by (auto simp: list_ex_iff isl_def)
  have "length (cs_entries s) \<le> unat (1 :: u64) \<and> cs_failed s"
    using cli_watch_sink [OF r] e by (auto simp: ex_host_def u64_max_def)
  then show ?thesis unfolding r by simp
qed

text \<open>So the observer of a watch never finds a wrong digest.\<close>

lemma watch_never_mismatches:
  "fst (fb_admit (watch_host h) b d sw) \<noteq> Some (obs_failed ''fs_event_ref_digest_mismatch'')"
  by (cases sw) (auto simp: fb_admit_def watch_host_def cli_materialize_def fb_digest_def obs_failed_def Let_def split: prod.splits)

section \<open>The inputs of a watch\<close>

text \<open>The subjects a watch takes are those the observer can resolve.\<close>

lemma validate_watch_subject_iff:
  "validate_watch_subject s = Inr () \<longleftrightarrow> parse_portable_relative s \<noteq> None"
proof -
  have "list_all (\<lambda>c. case c of C_Normal _ \<Rightarrow> True | C_Cur \<Rightarrow> True | _ \<Rightarrow> False) p \<longleftrightarrow>
      \<not> list_ex (\<lambda>c. c = C_Parent \<or> c = C_Root) p" for p
    by (induction p) (auto split: path_component.splits)
  then show ?thesis by (simp add: validate_watch_subject_def parse_portable_relative_def)
qed

lemma watch_registrations_ok:
  "watch_registrations src regs = Inr () \<Longrightarrow> reg \<in> set regs \<Longrightarrow>
   id_str (reg_method_id reg) = method_file_watch \<and> reg_source_instance_ref reg = src \<and>
   id_str (reg_subject_kind reg) = ''path'' \<and> parse_portable_relative (id_str (reg_subject_id reg)) \<noteq> None"
proof (induction regs)
  case (Cons r regs)
  then have "watch_registrations src regs = Inr ()" "validate_watch_subject (id_str (reg_subject_id r)) = Inr ()"
    by (auto split: if_splits sum.splits)
  with Cons show ?case
    using validate_watch_subject_iff [of "id_str (reg_subject_id r)"] by (auto split: if_splits)
qed simp

end
