(* ===== verification/Cli_Stream.thy ===== *)
theory Cli_Stream
  imports Cli_Properties
begin

text \<open>
  What a held session prints. The environment of a replay does not touch the standard output, so
  the output changes only when the sink of the session takes a burst: the lines printed are the
  bursts the runner hands on, in order and numbered from one, and then its end.
\<close>

section \<open>A bystander of the environment\<close>


text \<open>\<open>accept\<close> is what the sink of a session does to the bystander when it takes a burst.\<close>

fun accept_all :: "('s \<Rightarrow> 'e \<Rightarrow> 's option) \<Rightarrow> 's \<Rightarrow> 'e list \<Rightarrow> 's option" where
  "accept_all accept s [] = Some s"
| "accept_all accept s (x # xs) = Option.bind (accept s x) (\<lambda>s. accept_all accept s xs)"

lemma accept_all_append [simp]:
  "accept_all accept s (xs @ ys) = Option.bind (accept_all accept s xs) (\<lambda>s. accept_all accept s ys)"
  by (induction xs arbitrary: s) (auto split: bind_splits)



section \<open>The replay of a held session\<close>













section \<open>An example session\<close>

text \<open>
  A machine with three files and a buffer for the standard output. The decoder tells the two
  documents apart by a member, and records are written as one word.
\<close>

definition ex_ack_text :: "string \<Rightarrow> string" where
  "ex_ack_text d = ''{'' @ [CHR 0x22] @ ''message_type'' @ [CHR 0x22] @ '':'' @ [CHR 0x22] @ ''poll_cycle_ack'' @ [CHR 0x22] @ d @ ''}''"

definition ex_cli :: "string cli" where
  "ex_cli =
     \<lparr>cl_read = \<lambda>w p. (if p = ''s'' then Some (ex_ack_text []) else if p = ''r'' then Some (ex_ack_text ('','' @ [CHR 0x22, CHR ''d'', CHR 0x22] @ '':null'')) else Some ''[]'', w),
      cl_is_file = \<lambda>w p. (True, w), cl_is_dir = \<lambda>w p. (False, w), cl_read_dir = \<lambda>w p. (None, w),
      cl_write_all = \<lambda>w s. (True, w @ s), cl_flush = \<lambda>w. (True, w),
      cl_to_string = \<lambda>v. Some (if j_get ''end_kind'' v = None then ''burst'' else ''end''),
      cl_message_string = \<lambda>m. Some ''{}'', cl_lossy = \<lambda>p. p, cl_events = \<lambda>v. Some [ex_event_b, ex_event_a], cl_script = \<lambda>v. None,
      cl_reader = \<lparr>jr_value = \<lambda>s. Some (JArray []), jr_manifest = \<lambda>s. None\<rparr>,
      cl_contract = [], cl_schema = [], cl_version = [], cl_pkg_version = [], cl_runtime = True,
      cl_admission = \<lparr>ad_calendar = gregorian, ad_fmt = \<lambda>f. [], ad_sha256 = \<lambda>s. s, ad_is_valid = Some (\<lambda>_. True),
        ad_first_error = \<lambda>_. None, ad_decode = \<lambda>v. Some (if j_get ''d'' v = None then RegistrationSet ex_set else LiveWaitRequest fixture_live_wait_request)\<rparr>,
      cl_fs = \<lparr>h_canonicalize = \<lambda>w p. (Some p, w), h_is_dir = \<lambda>w p. (True, w), h_exists = \<lambda>w p. (True, w),
        h_start = \<lambda>w ps. (True, w), h_materialize = \<lambda>w d. (Inl EMalformedJson, w), h_now = \<lambda>w. (ts_1601, w),
        h_to_vec = \<lambda>d. ''{}'', h_sha256 = \<lambda>s. s, h_lossy = \<lambda>s. s\<rparr>\<rparr>"

lemma ex_cli_admits:
  "validate_raw_documents (cl_admission ex_cli) (map (\<lambda>p. the (fst (cl_read ex_cli [] p))) [''s'', ''r'']) =
     ok [RegistrationSet ex_set, LiveWaitRequest fixture_live_wait_request]"
  by code_simp



end
