(* ===== verification/Cli_Replay.thy ===== *)
theory Cli_Replay
  imports Cli_Stream Poll_Cycle_Live Poll_Outcome_Contract
begin


lemma act_of_None [simp]: "fst (act_of r w) \<noteq> None"
  by (simp add: act_of_def)

lemma read_raw_None [simp]: "fst (read_raw c p w) \<noteq> None"
  by (simp add: read_raw_def split: prod.split)

lemma act_checked_fst [simp]: "fst (act_checked r w) = r"
  by (simp add: act_checked_def)







end
