(* ===== verification/Spec2Isabelle.thy ===== *)
theory Spec2Isabelle
  imports First_Match_Live First_Match_Outcome Poll_Cycle_Live Poll_Outcome_Contract Examples Admission_Properties Poll_Admission Fs_Properties
    Cli_Stream Cli_Replay
begin

text \<open>
  \<^bold>\<open>Verification library of waitprims.\<close> waitprims waits for events on behalf of an agent. A caller
  states in a registration set what it waits for; a runner binds each registration to an observer,
  races the observers against the deadlines of a request and a cancellation token, and reports one
  outcome, or a stream of bursts, in the vocabulary of the contract \<^verbatim>\<open>agent-wait/v0\<close>. Messages that
  enter or leave the program pass admission: a strict JSON parser, the schema, and the rules that no
  schema states. The library translates these parts of the Rust sources into executable definitions
  and proves what makes them correct.

  \<^bold>\<open>Parts and theories.\<close> Paths are below \<^verbatim>\<open>crates/\<close>.

  \<^item> \<^verbatim>\<open>waitprims-core/src/types.rs, error.rs, refs.rs, receipts.rs\<close>: the records, enumerations and
  errors in \<open>Wire_Types\<close>, the JSON that serde derives for them in \<open>Wire_Json\<close>. \<open>Prelude\<close> holds machine
  integers, ordered maps and strings as lists of bytes.
  \<^item> \<^verbatim>\<open>waitprims-core/src/rfc3339.rs\<close>: \<open>Timestamps\<close> (comparison, arithmetic), \<open>Rfc3339\<close> (the parser and
  the formatter), \<open>Gregorian\<close> (a calendar to compute with), \<open>Rfc3339_Format\<close> (their laws).
  \<^item> \<^verbatim>\<open>waitprims-core/src/jcs.rs\<close>: \<open>Json\<close> (values and numbers), \<open>Jcs\<close> (the strict parser and the
  canonical form of RFC 8785), \<open>Jcs_Roundtrip\<close>.
  \<^item> \<^verbatim>\<open>waitprims-core/src/contract.rs\<close>: \<open>Contract\<close>, \<open>Contract_Closure\<close>.
  \<^item> \<^verbatim>\<open>waitprims-core/src/digest.rs, validate.rs\<close>: \<open>Validate\<close> (rules on one message), \<open>Validate_Set\<close>
  (rules on a set of messages, and admission), \<open>Validate_Rules\<close> (each rule inverted).
  \<^item> \<^verbatim>\<open>waitprims-async/src/observer.rs, clock.rs, cancel.rs\<close>: \<open>Observer_Interface\<close>, the record \<open>env\<close> of
  the operations a runner calls, with the laws it relies on as the locales \<open>observer_custody\<close>,
  \<open>observer_restores\<close> and \<open>clock_laws\<close>.
  \<^item> \<^verbatim>\<open>waitprims-async/src/race.rs, outcome.rs\<close>: \<open>Race\<close>, \<open>Live_Outcome\<close>.
  \<^item> \<^verbatim>\<open>waitprims-async/src/first_match.rs\<close>: \<open>First_Match\<close>, with custody in \<open>First_Match_Run\<close>, termination
  in \<open>First_Match_Live\<close> and the contract of its outcomes in \<open>First_Match_Outcome\<close>.
  \<^item> \<^verbatim>\<open>waitprims-async/src/poll_cycle.rs\<close>: \<open>Poll_Budget\<close>, \<open>Poll_Outcome\<close>, \<open>Poll_Cycle\<close>, with
  \<open>Poll_Cycle_Run\<close>, \<open>Poll_Cycle_Live\<close>, \<open>Poll_Cycle_Contract\<close> and \<open>Poll_Outcome_Contract\<close>.
  \<^item> \<^verbatim>\<open>waitprims-async/src/follow.rs, coalesce.rs\<close>: the slots of a held session in \<open>Slot_Set\<close> and
  \<open>Slot_Custody\<close>, the runners in \<open>Follow\<close> and \<open>Coalesce\<close>, their custody in \<open>Follow_Run\<close> and
  \<open>Coalesce_Run\<close>, limits and spacing in \<open>Coalesce_Contract\<close>, the reasons a session ends for in
  \<open>Follow_End\<close> and \<open>Coalesce_End\<close>.
  \<^item> \<^verbatim>\<open>waitprims-testkit/src\<close>: the clock, the scripted, idle and endless observers and the fixtures in
  \<open>Testkit_Clock\<close>, \<open>Testkit_Observers\<close> and \<open>Testkit_Sessions\<close>, where the locales are interpreted on them;
  \<open>Examples\<close> holds the inputs of the examples.
  \<^item> \<^verbatim>\<open>waitprims-fs/src/lib.rs\<close>: \<open>Fs_Path\<close> (paths, watch targets, the paths of an event),
  \<open>Fs_Observer\<close> (registration checks, the bind and its operations), \<open>Fs_Custody\<close> and \<open>Fs_Run\<close> (what a bind
  keeps over any history of calls), \<open>Fs_Properties\<close>.
  \<^item> \<^verbatim>\<open>waitprims-cli/src/main.rs, diagnostic.rs\<close>: \<open>Cli_Input\<close> (local paths, documents, durations),
  \<open>Cli_Run\<close> (the replays and the records they print), \<open>Cli_Watch\<close> (the inputs and the sink of a native
  watch, the dispatch of \<open>main\<close>), \<open>Cli_Properties\<close>, \<open>Cli_Stream\<close> and \<open>Cli_Replay\<close>.

  \<open>Contract_Properties\<close> and \<open>Admission_Properties\<close> state what the core promises; \<open>Outcome_Admission\<close> and
  \<open>Poll_Admission\<close> join runner and validator: what the poll-cycle runner emits is what admission accepts.
  The properties of the runners are in this theory.

  \<^bold>\<open>How the code is modelled.\<close> An asynchronous function is a step function on a state with a program
  counter: one step runs from one suspension point to the next, in the order in which \<open>select!\<close> polls
  its branches, and \<open>env_park\<close> is the point at which the outside moves. Every call of an observer, a clock
  or a token takes the outside world as it finds it and may change it, so two successive questions may
  be answered differently. An error is the left side of a sum; a call of admission that panics is
  \<open>None\<close>. Integers keep their width, and saturating additions saturate. \<open>BTreeMap\<close> is a list of
  entries in key order. Strings are their UTF-8 bytes.

  \<^bold>\<open>What the lemmas show.\<close> Custody: whatever the interleaving, a finished run has taken from an observer
  exactly the events it reports, and everything else is back in its place and in order
  (\<open>conserved\<close>). Termination: a runner on a clock that moves while it is parked returns. Contracts of
  outcomes: kinds are backed by arms, deadlines, leases and receipts; limits and cursors are
  respected; a session ends for the reason it gives. Serialization: the canonical form is a normal
  form the parser reads back. Admission: it accepts exactly what the rules allow, and what it accepts
  has the stated consequences. The filesystem observer: events are numbered in one chain, name only
  places inside the root, and survive being given back. The command line: it prints what the runners
  hand on.

  \<^bold>\<open>Fuel and bounds.\<close> Runners are run for a number of steps, and their result is an option. The first match
  needs at most eight steps for each nanosecond left to its earlier deadline, and eight more; a poll
  cycle needs four for each arm, one for each nanosecond left, and two more: beyond that, more fuel
  changes nothing (\<open>first_match_returns\<close>, \<open>poll_cycle_returns\<close>). Held sessions may be woken without end
  by an outside that never stops; their theorems speak of the sessions that have ended. The parser
  descends along the length of its input, and the walk over a directory tree, which a cycle of
  links could keep from ending, is a partial function.

  \<^bold>\<open>Parameters.\<close> The calendar of the time crate, the digest SHA-256, the shortest decimal of a
  float (ryu), the JSON Schema validator, the decoders serde derives, the reader and writer of
  \<^verbatim>\<open>serde_json\<close>, and the filesystem, the sink and the watch backend behind the filesystem observer are
  arguments. Where a property needs a law of one of them, the law is a premise, and an example gives an
  instance at which it holds.

  \<^bold>\<open>Not modelled.\<close> The integration tests in \<^verbatim>\<open>waitprims-testkit/src/*_proofs.rs\<close> and the module roots hold no
  logic of the program. \<open>Observer::cancel\<close> and dropping a bind matter to no result of a runner, save that
  dropping a filesystem bind is releasing it. Starting a watch of the \<^verbatim>\<open>notify\<close> crate, the wall clock
  and the timers of tokio on which \<^verbatim>\<open>run_native_watch\<close> runs, argument parsing (clap) and logging
  (tracing) belong to other crates and to the machine. The limit of the machine stack, which a deeply
  nested document could reach in the recursive parser, is outside the model.
\<close>

lemma ex_distinct_arms: "distinct_arms ex_set"
  by code_simp

section \<open>The live first-match runner\<close>

lemma ex_first_match_run:
  "fst (run_first_match ex_env ex_set fixture_live_wait_request 12 ex_world) =
     Some (Inr (outcome_events fixture_live_wait_request ts_1602 ex_event_a))"
  by code_simp

text \<open>
  C1. A finished first-match run has taken from its observer exactly the event it reports, and
  nothing when it reports none or fails; everything else it dequeued is back in its place, in
  order. Only a run that demands reauthentication may have consumed one event it does not report.
  The observer keeps custody of its events and accepts what is restored.
\<close>

theorem first_match_custody:
  assumes "observer_restores env front" "distinct_arms rset"
    and "run_first_match env rset req fuel w = (Some r, w')"
  shows "fm_custody rset (front w) r (front w')"
  using assms by (rule observer_restores.run_first_match_custody)

lemma first_match_custody_witness:
  "\<exists>r w'. run_first_match ex_env ex_set fixture_live_wait_request 12 ex_world = (Some r, w') \<and>
     fm_custody ex_set (so_queue ex_world) r (so_queue w')"
proof -
  obtain w' where r: "run_first_match ex_env ex_set fixture_live_wait_request 12 ex_world =
      (Some (Inr (outcome_events fixture_live_wait_request ts_1602 ex_event_a)), w')"
    using ex_first_match_run by (cases "run_first_match ex_env ex_set fixture_live_wait_request 12 ex_world") auto
  from first_match_custody [OF scripted.observer_restores_axioms ex_distinct_arms r] r show ?thesis by blast
qed

text \<open>
  C2. The first-match loop returns. Under a clock that does not run backwards and that moves
  while the runner is parked, and whatever the observer does, \<open>run_first_match\<close> ends within
  eight steps for each nanosecond left until the earlier of its two deadlines.
\<close>

theorem first_match_returns:
  assumes "clock_laws env clk cxl later"
    and "cal_min (env_calendar env) \<le> clk w" "fm_cap req + nanos_per_sec \<le> cal_max (env_calendar env)"
    and "8 * nat (fm_cap req - clk w) + 8 \<le> fuel"
  shows "\<exists>r w'. run_first_match env rset req fuel w = (Some r, w')"
  using assms by (rule clock_laws.run_first_match_returns)

lemma first_match_returns_witness:
  "\<exists>r w'. run_first_match ex_env ex_set fixture_live_wait_request
     (8 * nat (fm_cap fixture_live_wait_request - tk_clk ex_world) + 8) ex_world = (Some r, w')"
proof (rule first_match_returns [OF scripted_clock.clock_laws_axioms])
  show "cal_min (env_calendar ex_env) \<le> tk_clk ex_world" by code_simp
  show "fm_cap fixture_live_wait_request + nanos_per_sec \<le> cal_max (env_calendar ex_env)" by code_simp
qed simp

text \<open>
  C3. Every outcome of \<open>run_first_match\<close> echoes its request and carries what its kind stands
  for: an event with its anchor, a deadline that has passed with clean coverage of every
  required registration, an expired lease, a missing receipt, or a reason.
\<close>

theorem first_match_outcome_contract:
  assumes "run_first_match env rset req fuel w = (Some (Inr out), w')"
  shows "live_outcome_ok rset req out"
  using assms by (rule run_first_match_ok)

lemma first_match_outcome_contract_witness:
  "live_outcome_ok ex_set fixture_live_wait_request
     (outcome_events fixture_live_wait_request ts_1602 ex_event_a)"
proof -
  obtain w' where "run_first_match ex_env ex_set fixture_live_wait_request 12 ex_world =
      (Some (Inr (outcome_events fixture_live_wait_request ts_1602 ex_event_a)), w')"
    using ex_first_match_run by (cases "run_first_match ex_env ex_set fixture_live_wait_request 12 ex_world") auto
  then show ?thesis by (rule first_match_outcome_contract)
qed

section \<open>The poll-cycle runner\<close>

lemma ex_poll_run:
  "case run_poll_cycle ex_env ex_set ex_poll_request 12 ex_world of
     (Some (Inr out), _) \<Rightarrow> po_outcome_kind out = Events \<and> po_events out = [ex_event_a, ex_event_b]
   | _ \<Rightarrow> False"
  by code_simp

lemma ex_poll_runE:
  obtains out w' where "run_poll_cycle ex_env ex_set ex_poll_request 12 ex_world = (Some (Inr out), w')"
    "po_outcome_kind out = Events" "po_events out = [ex_event_a, ex_event_b]"
  using ex_poll_run by (auto split: prod.splits option.splits sum.splits)

text \<open>
  C4. A finished poll cycle leaves every provider with exactly the events it held, in order, and
  those that arrived since: what the cycle reports is not taken until it is acknowledged, and
  what it deferred, failed over or read ahead is put back in its place.
\<close>

theorem poll_cycle_custody:
  assumes "observer_restores env front" "distinct_arms rset"
    and "run_poll_cycle env rset req fuel w = (Some r, w')"
  shows "\<exists>fresh. front w' reg = front w reg @ fresh"
proof -
  from assms have "conserved (front w) (\<lambda>_. []) (front w')" by (rule observer_restores.run_poll_cycle_custody)
  then show ?thesis by (rule conserved_done)
qed

lemma poll_cycle_custody_witness:
  "\<exists>out w' fresh. run_poll_cycle ex_env ex_set ex_poll_request 12 ex_world = (Some (Inr out), w') \<and>
     so_queue w' (IdToken ''reg:a'') = so_queue ex_world (IdToken ''reg:a'') @ fresh"
proof -
  obtain out w' where r: "run_poll_cycle ex_env ex_set ex_poll_request 12 ex_world = (Some (Inr out), w')"
    by (rule ex_poll_runE)
  from poll_cycle_custody [OF scripted.observer_restores_axioms ex_distinct_arms r] r show ?thesis by blast
qed

text \<open>
  C5. A poll cycle returns. Whatever the observer does, under a clock that moves while the runner
  is parked the loop ends within four steps for each registration and one for each nanosecond
  left until the earlier deadline: every turn binds or visits an arm, and every park brings the
  deadline closer.
\<close>

theorem poll_cycle_returns:
  assumes "clock_laws env clk cxl later"
    and "4 * arm_count rset + nat (ts_instant (pc_earliest_deadline req) - clk w) + 2 \<le> fuel"
  shows "\<exists>r w'. run_poll_cycle env rset req fuel w = (Some r, w')"
  using assms by (rule clock_laws.run_poll_cycle_returns)

lemma poll_cycle_returns_witness:
  "\<exists>r w'. run_poll_cycle ex_env ex_set ex_poll_request
     (4 * arm_count ex_set + nat (ts_instant (pc_earliest_deadline ex_poll_request) - tk_clk ex_world) + 2) ex_world
     = (Some r, w')"
  by (rule poll_cycle_returns [OF scripted_clock.clock_laws_axioms]) simp

text \<open>
  C6. The events of an outcome fit every limit in force: the aggregate limits of the set and the
  bound of the request on events, payload references and bytes, and the limits of each
  registration. Saturated counters never let an event past a finite limit.
\<close>

theorem poll_cycle_limits:
  assumes "run_poll_cycle env rset req fuel w = (Some (Inr out), w')" "distinct_arms rset"
  shows "within_limits rset req (po_events out)"
  using assms by (rule run_poll_cycle_limits)

lemma poll_cycle_limits_witness: "within_limits ex_set ex_poll_request [ex_event_a, ex_event_b]"
proof -
  obtain out w' where r: "run_poll_cycle ex_env ex_set ex_poll_request 12 ex_world = (Some (Inr out), w')"
    "po_events out = [ex_event_a, ex_event_b]" by (rule ex_poll_runE)
  from poll_cycle_limits [OF r(1) ex_distinct_arms] r(2) show ?thesis by simp
qed

text \<open>
  C7. Every outcome of a poll cycle echoes its request and is backed by its arms: \<open>Events\<close> only
  when every required arm was served and none failed, overflowed or lost its source, \<open>NoChange\<close>
  only when every required arm had nothing; \<open>LogicalDeadman\<close> only past the logical deadline and \<open>NoChange\<close> only before it; a
  rejection reports no event, no retained event and a reason, and the posture kinds only when
  the lease has expired or the required receipt is missing.
\<close>

theorem poll_cycle_outcome_contract:
  assumes "run_poll_cycle env rset req fuel w = (Some (Inr out), w')"
  shows "poll_outcome_ok rset req out"
  using assms by (rule run_poll_cycle_ok)

lemma poll_cycle_outcome_contract_witness:
  "\<exists>out w'. run_poll_cycle ex_env ex_set ex_poll_request 12 ex_world = (Some (Inr out), w') \<and>
     poll_outcome_ok ex_set ex_poll_request out"
proof -
  obtain out w' where r: "run_poll_cycle ex_env ex_set ex_poll_request 12 ex_world = (Some (Inr out), w')"
    by (rule ex_poll_runE)
  from r poll_cycle_outcome_contract [OF r] show ?thesis by blast
qed




text \<open>
  C10. Fairness: feeding each outcome's next cursor to the next request advances the start of the
  visiting order by one registration a cycle, modulo their number, so within as many cycles as
  there are registrations each of them is visited first once. The arm ids must be distinct and
  not clash with registration ids or cursor forms.
\<close>

theorem poll_fairness_serves_all:
  assumes "fair_ids rset req" "i < arm_count rset"
  shows "\<exists>k < arm_count rset. hd (fairness_order rset ((next_request rset ^^ k) req)) = i"
  using assms by (rule fairness_serves_all)

lemma poll_fairness_serves_all_witness:
  "\<exists>k < arm_count ex_set. hd (fairness_order ex_set ((next_request ex_set ^^ k) ex_poll_request)) = 1"
proof (rule poll_fairness_serves_all)
  show "fair_ids ex_set ex_poll_request" by code_simp
  show "1 < arm_count ex_set" by code_simp
qed

section \<open>Held sessions\<close>

lemma ex_follow_run:
  "case run_follow ex_env accept_sink ex_set fixture_live_wait_request 12 ex_world of
     (r, sent, _) \<Rightarrow> r = Some (Inr FE_Deadline) \<and> sent = [[ex_event_a, ex_event_b]]"
  by code_simp

lemma ex_follow_runE:
  obtains w' where "run_follow ex_env accept_sink ex_set fixture_live_wait_request 12 ex_world =
    (Some (Inr FE_Deadline), [[ex_event_a, ex_event_b]], w')"
  using ex_follow_run by (auto split: prod.splits)

lemma ex_world_tagged: "tagged (so_queue ex_world)"
  unfolding ex_world_def by (rule scripted_new_tagged)

text \<open>
  C11. A held-follow session that has ended has taken from its observer exactly the events it
  handed to the sink, registration by registration and in order: whatever else it had harvested
  when it was cancelled, timed out or failed is back in its place.
\<close>

theorem follow_custody:
  assumes "held_session env front snk" "distinct_arms rset" "tagged (front w)"
    and "run_follow env snk rset req fuel w = (Some r, sent, w')"
  shows "conserved (front w) (by_tag (concat sent)) (front w')"
  using assms by (rule held_session.run_follow_custody)

lemma follow_custody_witness:
  "\<exists>r sent w'. run_follow ex_env accept_sink ex_set fixture_live_wait_request 12 ex_world = (Some r, sent, w') \<and>
     sent \<noteq> [] \<and> conserved (so_queue ex_world) (by_tag (concat sent)) (so_queue w')"
proof -
  obtain w' where r: "run_follow ex_env accept_sink ex_set fixture_live_wait_request 12 ex_world =
      (Some (Inr FE_Deadline), [[ex_event_a, ex_event_b]], w')" by (rule ex_follow_runE)
  from follow_custody [OF scripted_session.held_session_axioms ex_distinct_arms ex_world_tagged r] r show ?thesis by blast
qed

text \<open>
  C12. A held-follow session ends for the reason it gives: it was cancelled; or a deadline has
  passed, every required registration is bound and no arm has failed; or an arm has failed
  closed, the first in the order of the set; or a deadline has passed with a required
  registration still unbound.
\<close>

theorem follow_end_contract:
  assumes "session_clock env clk cxl later snk"
    and "fw_run env snk rset req n (fw_init rset, w) = (st, w')" "fw_pc st = FW_Done (Inr fin)"
  shows "fw_end_ok clk cxl rset req (fw_slots st) fin w'"
proof -
  have "fw_ends clk cxl rset req (fw_init rset, w)" by (simp add: fw_ends_def fw_init_def)
  from session_clock.fw_run_ends [OF assms(1) this, of n] assms(2,3) show ?thesis by (simp add: fw_ends_def)
qed

lemma follow_end_contract_witness:
  "\<exists>st w'. fw_run ex_env accept_sink ex_set fixture_live_wait_request 12 (fw_init ex_set, ex_world) = (st, w') \<and>
     fw_pc st = FW_Done (Inr FE_Deadline) \<and>
     fw_end_ok tk_clk tk_cancel ex_set fixture_live_wait_request (fw_slots st) FE_Deadline w'"
proof -
  obtain st w' where r: "fw_run ex_env accept_sink ex_set fixture_live_wait_request 12 (fw_init ex_set, ex_world) = (st, w')"
    by fastforce
  have "fw_pc (fst (fw_run ex_env accept_sink ex_set fixture_live_wait_request 12 (fw_init ex_set, ex_world))) =
      FW_Done (Inr FE_Deadline)" by code_simp
  with r have "fw_pc st = FW_Done (Inr FE_Deadline)" by simp
  with follow_end_contract [OF scripted_timed.session_clock_axioms r] r show ?thesis by blast
qed

section \<open>Coalescing sessions\<close>

lemma ex_coalesce_run:
  "case run_coalesce ex_env accept_sink ex_urgent_set fixture_live_wait_request ex_policy 12 ex_world of
     (r, log, _) \<Rightarrow> r = Some (Inr FE_Deadline) \<and> map fst log = [[ex_event_a], [ex_event_b]] \<and>
       snd (log ! 0) = After_Urgent \<and> snd (log ! 1) \<noteq> After_Urgent"
  by code_simp

lemma ex_coalesce_runE:
  obtains log w' where "run_coalesce ex_env accept_sink ex_urgent_set fixture_live_wait_request ex_policy 12 ex_world =
    (Some (Inr FE_Deadline), log, w')" "map fst log = [[ex_event_a], [ex_event_b]]" "snd (log ! 1) \<noteq> After_Urgent"
  using ex_coalesce_run by (auto split: prod.splits)

lemma ex_distinct_urgent: "distinct_arms ex_urgent_set"
  by code_simp

text \<open>
  C13. A coalescing session that has ended has taken exactly the events it handed to the sink,
  though urgent events overtake buffered ones of other registrations; an overflow puts the
  buffer and the harvest back. Only a sink that fails on an urgent burst loses events: the
  buffered quiet ones.
\<close>

theorem coalesce_custody:
  assumes "held_session env front snk" "distinct_arms rset" "tagged (front w)"
    and "run_coalesce env snk rset req policy fuel w = (Some r, log, w')"
  shows "co_custody rset (cp_urgent_at policy) (front w) log r (front w')"
  using assms by (rule held_session.run_coalesce_custody)

lemma coalesce_custody_witness:
  "\<exists>r log w'. run_coalesce ex_env accept_sink ex_urgent_set fixture_live_wait_request ex_policy 12 ex_world =
       (Some r, log, w') \<and> length log = 2 \<and>
     co_custody ex_urgent_set (cp_urgent_at ex_policy) (so_queue ex_world) log r (so_queue w')"
proof -
  obtain log w' where r: "run_coalesce ex_env accept_sink ex_urgent_set fixture_live_wait_request ex_policy 12 ex_world =
      (Some (Inr FE_Deadline), log, w')" "map fst log = [[ex_event_a], [ex_event_b]]" by (rule ex_coalesce_runE)
  from arg_cong [OF r(2), of length] have "length log = 2" by simp
  with coalesce_custody [OF scripted_session.held_session_axioms ex_distinct_urgent ex_world_tagged r(1)] r(1)
  show ?thesis by blast
qed


text \<open>
  C15. A quiet or final burst fits the aggregate limits of the set and the bounds of each of its
  registrations, in events and in bytes.
\<close>

theorem coalesce_burst_limits:
  assumes "distinct_arms rset" "run_coalesce env snk rset req policy fuel w = (r, log, w')"
    and "(burst, after) \<in> set log" "after \<noteq> After_Urgent"
  shows "set_limits rset burst"
  using run_coalesce_fits [OF assms(1,2)] assms(3,4) by (auto simp: quiet_fits_def)

lemma coalesce_burst_limits_witness: "set_limits ex_urgent_set [ex_event_b]"
proof -
  obtain log w' where r: "run_coalesce ex_env accept_sink ex_urgent_set fixture_live_wait_request ex_policy 12 ex_world =
      (Some (Inr FE_Deadline), log, w')" "map fst log = [[ex_event_a], [ex_event_b]]" "snd (log ! 1) \<noteq> After_Urgent"
    by (rule ex_coalesce_runE)
  from arg_cong [OF r(2), of length] have "length log = 2" by simp
  then have m: "(fst (log ! 1), snd (log ! 1)) \<in> set log" by simp
  have "fst (log ! 1) = [ex_event_b]" using arg_cong [OF r(2), of "\<lambda>xs. xs ! 1"] \<open>length log = 2\<close> by simp
  with coalesce_burst_limits [OF ex_distinct_urgent r(1) m r(3)] show ?thesis by simp
qed

lemma ex_push: "\<exists>p'. try_push ex_set ex_event_a pd_new = Inr p'"
proof -
  have "case try_push ex_set ex_event_a pd_new of Inr _ \<Rightarrow> True | Inl _ \<Rightarrow> False" by code_simp
  then show ?thesis by (auto split: sum.splits)
qed

text \<open>
  C16. The buffer counts exactly: it takes an event if and only if the event's registration is in
  the set and the buffered events with it still fit every limit.
\<close>

theorem coalesce_buffer_exact:
  assumes "distinct_arms rset" "pd_ok rset p"
  shows "(\<exists>p'. try_push rset ev p = Inr p') \<longleftrightarrow>
     registration_of rset (ev_registration_id ev) \<noteq> None \<and> set_limits rset (pd_events p @ [ev])"
  using assms by (rule try_push_iff)

lemma coalesce_buffer_exact_witness:
  "registration_of ex_set (ev_registration_id ex_event_a) \<noteq> None \<and> set_limits ex_set (pd_events pd_new @ [ex_event_a])"
  using ex_push unfolding coalesce_buffer_exact [OF ex_distinct_arms pd_ok_new] .

text \<open>
  C17. An urgent event does not wait: the turn that takes it either hands it to the sink at once
  or ends the session with an overflow or an error, having put everything back.
\<close>

theorem coalesce_urgent_at_once:
  assumes "posture_err rset req now = None" "ss_fault (co_slots st) = None"
    and "e \<in> set (fst (take_events (co_slots st)))" "is_urgent rset e (cp_urgent_at policy)"
  shows "flushed e (fst (decide_coalesce env rset req policy now cancel_arm headed st w))"
  using assms by (rule decide_coalesce_flushes)

lemma coalesce_urgent_at_once_witness:
  "flushed ex_event_a (fst (decide_coalesce ex_env ex_urgent_set fixture_live_wait_request ex_policy ts_1602 False True ex_turn ex_world))"
proof (rule coalesce_urgent_at_once)
  show "posture_err ex_urgent_set fixture_live_wait_request ts_1602 = None" by code_simp
  show "ss_fault (co_slots ex_turn) = None" by code_simp
  show "is_urgent ex_urgent_set ex_event_a (cp_urgent_at ex_policy)" by code_simp
  have "hd (fst (take_events (co_slots ex_turn))) = ex_event_a \<and> fst (take_events (co_slots ex_turn)) \<noteq> []" by code_simp
  then show "ex_event_a \<in> set (fst (take_events (co_slots ex_turn)))" by (metis hd_in_set)
qed



end
